(* ===== verification/Prelude.thy ===== *)
theory Prelude
  imports Main "HOL-Library.Word" "HOL-Library.Monad_Syntax"
begin

text \<open>
  Shared vocabulary of the development: the byte and integer types of the C code, its result
  codes, bounded memory access, and the generic lemmas the component theories rest on.

  A C buffer is a \<open>byte list\<close>.  Every access whose position or size is computed at run time
  goes through \<open>mem_read\<close> and \<open>mem_write\<close>; an access outside the buffer is undefined
  behaviour in C and is the value \<open>None\<close> here, so that "this operation is memory safe" is the
  statement that its result is not \<open>None\<close>.
\<close>

unbundle bit_operations_syntax

section \<open>Types and constants of the C code\<close>

type_synonym byte = "8 word"
type_synonym u16 = "16 word"
type_synonym u32 = "32 word"
type_synonym u64 = "64 word"
type_synonym pgno = "32 word"

named_theorems mem_simps \<open>reading and writing bounded buffers\<close>
named_theorems wf_intros \<open>well-formedness invariants of the components\<close>

abbreviation (input) SQLITE_OK :: int where "SQLITE_OK \<equiv> 0"
abbreviation (input) SQLITE_ERROR :: int where "SQLITE_ERROR \<equiv> 1"
abbreviation (input) SQLITE_NOMEM :: int where "SQLITE_NOMEM \<equiv> 7"
abbreviation (input) SQLITE_READONLY :: int where "SQLITE_READONLY \<equiv> 8"
abbreviation (input) SQLITE_IOERR :: int where "SQLITE_IOERR \<equiv> 10"
abbreviation (input) SQLITE_MISUSE :: int where "SQLITE_MISUSE \<equiv> 21"

text \<open>The value of a C character literal in the unsigned 8-bit interpretation.\<close>

definition chr :: "char \<Rightarrow> byte" where
  "chr c = of_nat (of_char c)"

definition str :: "string \<Rightarrow> byte list" where
  "str s = map chr s"

lemma length_str [simp]: "length (str s) = length s"
  by (simp add: str_def)

section \<open>Bounded memory\<close>

definition mem_read :: "byte list \<Rightarrow> int \<Rightarrow> int \<Rightarrow> byte list option" where
  "mem_read b off n =
     (if 0 \<le> off \<and> 0 \<le> n \<and> off + n \<le> int (length b)
      then Some (take (nat n) (drop (nat off) b)) else None)"

definition mem_write :: "byte list \<Rightarrow> int \<Rightarrow> byte list \<Rightarrow> byte list option" where
  "mem_write b off xs =
     (if 0 \<le> off \<and> off + int (length xs) \<le> int (length b)
      then Some (take (nat off) b @ xs @ drop (nat off + length xs) b) else None)"

definition nth_opt :: "'a list \<Rightarrow> int \<Rightarrow> 'a option" where
  "nth_opt xs i = (if 0 \<le> i \<and> i < int (length xs) then Some (xs ! nat i) else None)"

lemma nth_opt_simps: "nth_opt [] i = None" "nth_opt (x # xs) 0 = Some x"
  "0 < i \<Longrightarrow> nth_opt (x # xs) i = nth_opt xs (i - 1)"
  by (auto simp: nth_opt_def nth_Cons' nat_diff_distrib)




lemma mem_read_length: "mem_read b off n = Some xs \<Longrightarrow> int (length xs) = n"
  by (auto simp: mem_read_def split: if_splits)

lemma mem_write_length: "mem_write b off xs = Some b' \<Longrightarrow> length b' = length b"
  by (auto simp: mem_write_def split: if_splits)

lemma mem_read_in_bounds [mem_simps]:
  "0 \<le> off \<Longrightarrow> 0 \<le> n \<Longrightarrow> off + n \<le> int (length b) \<Longrightarrow>
     mem_read b off n = Some (take (nat n) (drop (nat off) b))"
  by (simp add: mem_read_def)

lemma mem_write_in_bounds [mem_simps]:
  "0 \<le> off \<Longrightarrow> off + int (length xs) \<le> int (length b) \<Longrightarrow>
     mem_write b off xs = Some (take (nat off) b @ xs @ drop (nat off + length xs) b)"
  by (simp add: mem_write_def)

lemma mem_read_defined:
  "(\<exists>xs. mem_read b off n = Some xs) \<longleftrightarrow> 0 \<le> off \<and> 0 \<le> n \<and> off + n \<le> int (length b)"
  by (auto simp: mem_read_def)

lemma mem_write_defined:
  "(\<exists>b'. mem_write b off xs = Some b') \<longleftrightarrow> 0 \<le> off \<and> off + int (length xs) \<le> int (length b)"
  by (auto simp: mem_write_def)

lemma mem_read_write_same:
  "mem_write b off xs = Some b' \<Longrightarrow> mem_read b' off (int (length xs)) = Some xs"
  by (auto simp: mem_write_def mem_read_def split: if_splits)

lemma mem_read_write_before:
  assumes "mem_write b off xs = Some b'" and "p + n \<le> off"
  shows "mem_read b' p n = mem_read b p n"
  using assms by (auto simp: mem_write_def mem_read_def drop_take split: if_splits)

lemma mem_read_write_after:
  assumes "mem_write b off xs = Some b'" and "off + int (length xs) \<le> p"
  shows "mem_read b' p n = mem_read b p n"
proof -
  from assms have off: "0 \<le> off" "off + int (length xs) \<le> int (length b)"
    and b': "b' = take (nat off) b @ xs @ drop (nat off + length xs) b"
    by (auto simp: mem_write_def split: if_splits)
  have len: "length b' = length b" using off by (simp add: b')
  have "drop (nat p) b' = drop (nat p) b" if "nat off + length xs \<le> nat p"
  proof -
    have "drop (nat p) b' = drop (nat p - (nat off + length xs)) (drop (nat off + length xs) b')"
      using that by simp
    also have "drop (nat off + length xs) b' = drop (nat off + length xs) b"
    proof -
      have "length (take (nat off) b) = nat off" using off by simp
      then show ?thesis by (simp add: b')
    qed
    finally show ?thesis using that by simp
  qed
  then show ?thesis using assms(2) off len by (auto simp: mem_read_def)
qed

text \<open>A read that spans the end of a written block and what follows it splits in two.\<close>

lemma mem_read_split:
  assumes "mem_read b p n = Some xs" and "mem_read b (p + n) m = Some ys"
  shows "mem_read b p (n + m) = Some (xs @ ys)"
proof -
  from assms have pos: "0 \<le> p" "0 \<le> n" "0 \<le> m" "p + n + m \<le> int (length b)"
    and xs: "xs = take (nat n) (drop (nat p) b)"
    and ys: "ys = take (nat m) (drop (nat (p + n)) b)"
    by (auto simp: mem_read_def split: if_splits)
  have "take (nat (n + m)) (drop (nat p) b) = xs @ ys"
    using pos by (simp add: xs ys nat_add_distrib take_add add.commute [of "nat n" "nat p"])
  then show ?thesis using pos by (simp add: mem_read_def)
qed

lemma mem_read_sub:
  assumes "mem_read b p n = Some xs" and "0 \<le> q" "0 \<le> m" "q + m \<le> n"
  shows "mem_read b (p + q) m = Some (take (nat m) (drop (nat q) xs))"
proof -
  from assms have pos: "0 \<le> p" "0 \<le> n" "p + n \<le> int (length b)"
    and xs: "xs = take (nat n) (drop (nat p) b)"
    by (auto simp: mem_read_def split: if_splits)
  have "nat m \<le> nat n - nat q" using assms(2-4) by simp
  then have "take (nat m) (drop (nat q) xs) = take (nat m) (drop (nat (p + q)) b)"
    using pos assms(2-4) by (simp add: xs drop_take nat_add_distrib min_def add.commute)
  then show ?thesis using pos assms(2-4) by (simp add: mem_read_def)
qed

text \<open>Overwriting the tail of a block that was just written.\<close>

lemma mem_write_overwrite:
  assumes "length b \<le> length c"
  shows "do { out' \<leftarrow> mem_write out off (a @ b); mem_write out' (off + int (length a)) c }
         = mem_write out off (a @ c)"
proof (cases "0 \<le> off \<and> off + int (length (a @ c)) \<le> int (length out)")
  case True
  then have n: "0 \<le> off" "nat off + (length a + length c) \<le> length out"
    by auto
  let ?o = "take (nat off) out @ (a @ b) @ drop (nat off + length (a @ b)) out"
  have w: "mem_write out off (a @ b) = Some ?o"
    using True assms by (simp add: mem_write_def)
  have len: "length ?o = length out" using n assms by simp
  have t: "take (nat off + length a) ?o = take (nat off) out @ a" using n by simp
  have d: "drop (nat off + length a + length c) ?o = drop (nat off + length a + length c) out"
    using n assms by (simp add: algebra_simps)
  have "mem_write ?o (off + int (length a)) c
        = Some (take (nat off + length a) ?o @ c @ drop (nat off + length a + length c) ?o)"
    using True len by (simp add: mem_write_def nat_add_distrib)
  also have "\<dots> = mem_write out off (a @ c)"
    unfolding t d using True by (simp add: mem_write_def add.assoc)
  finally show ?thesis by (simp add: w)
next
  case False
  then have "mem_write out off (a @ c) = None" by (auto simp: mem_write_def)
  moreover have "mem_write out' (off + int (length a)) c = None"
    if "mem_write out off (a @ b) = Some out'" for out'
    using False mem_write_length [OF that] that by (auto simp: mem_write_def split: if_splits)
  ultimately show ?thesis by (cases "mem_write out off (a @ b)") simp_all
qed

text \<open>A write that covers an earlier one, one put in front of it, and one inside it.\<close>

lemma mem_write_cover:
  assumes "mem_write b p xs = Some b1" and "off \<le> p" and "p + int (length xs) \<le> off + int (length zs)"
  shows "mem_write b1 off zs = mem_write b off zs"
proof (cases "0 \<le> off \<and> off + int (length zs) \<le> int (length b)")
  case True
  have len: "length b1 = length b" using assms(1) by (rule mem_write_length)
  have p: "0 \<le> p" and b1: "b1 = take (nat p) b @ xs @ drop (nat p + length xs) b"
    and pl: "nat p + length xs \<le> length b"
    using assms(1) by (auto simp: mem_write_def split: if_splits)
  have t: "take (nat off) b1 = take (nat off) b"
    using assms(2) pl True unfolding b1 by (simp add: min_def)
  have d: "drop (nat off + length zs) b1 = drop (nat off + length zs) b"
  proof -
    obtain k where k: "nat off + length zs = k + (nat p + length xs)"
    proof
      have "nat p + length xs \<le> nat off + length zs" using assms(3) True p by linarith
      then show "nat off + length zs = (nat off + length zs - (nat p + length xs)) + (nat p + length xs)" by simp
    qed
    have "length (take (nat p) b) = nat p" using pl by simp
    then have "drop (nat p + length xs) b1 = drop (nat p + length xs) b"
      by (simp add: b1)
    then show ?thesis unfolding k by (metis drop_drop)
  qed
  show ?thesis using True len t d by (simp add: mem_write_def)
next
  case False
  then show ?thesis using mem_write_length [OF assms(1)] by (auto simp: mem_write_def)
qed

lemma mem_write_prepend:
  assumes "0 \<le> off"
  shows "do { b1 \<leftarrow> mem_write b (off + int (length xs)) ys; mem_write b1 off xs } = mem_write b off (xs @ ys)"
proof (cases "off + int (length (xs @ ys)) \<le> int (length b)")
  case True
  then have n: "nat off + length xs + length ys \<le> length b" using assms by auto
  have w: "mem_write b (off + int (length xs)) ys
     = Some (take (nat off + length xs) b @ ys @ drop (nat off + length xs + length ys) b)" (is "_ = Some ?b1")
    using True assms by (simp add: mem_write_def nat_add_distrib)
  have "take (nat off) ?b1 = take (nat off) b" using n by (simp add: min_def)
  moreover have "drop (nat off + length xs) ?b1 = ys @ drop (nat off + length xs + length ys) b"
    using n by simp
  ultimately show ?thesis using True assms n by (simp add: w mem_write_def add.assoc nat_add_distrib)
next
  case False
  then show ?thesis using assms by (auto simp: mem_write_def)
qed

lemma mem_write_inside:
  assumes "0 \<le> off" and "length c \<le> length d"
  shows "do { b1 \<leftarrow> mem_write b off (a @ d); mem_write b1 (off + int (length a)) c }
         = mem_write b off (a @ c @ drop (length c) d)"
proof -
  have d: "a @ d = (a @ take (length c) d) @ drop (length c) d" by simp
  have l: "length (take (length c) d) = length c" using assms by simp
  show ?thesis
  proof (cases "off + int (length (a @ d)) \<le> int (length b)")
    case True
    have w: "mem_write b off (a @ d) = Some (take (nat off) b @ a @ d @ drop (nat off + length a + length d) b)" (is "_ = Some ?b1")
      using True assms by (simp add: mem_write_def add.assoc)
    have n: "nat off + length a + length d \<le> length b" using True assms by auto
    have "take (nat off + length a) ?b1 = take (nat off) b @ a" using n by simp
    moreover have "drop (nat off + length a + length c) ?b1 = drop (length c) d @ drop (nat off + length a + length d) b"
      using n assms by simp
    ultimately show ?thesis using True assms n unfolding w 
      by (simp add: mem_write_def nat_add_distrib) (simp add: ac_simps)
  next
    case False
    then show ?thesis using assms by (auto simp: mem_write_def)
  qed
qed

lemma mem_read_all: "mem_read b 0 (int (length b)) = Some b"
  by (simp add: mem_read_def)

section \<open>Words\<close>

text \<open>A property of all 256 bytes can be checked one by one by evaluation in the kernel.\<close>

lemma unat_byte_less: "unat (b :: byte) < 256"
proof -
  have "unat b < 2 ^ LENGTH(8)" by (rule unsigned_less)
  then show ?thesis by simp
qed

lemma uint_byte_bounds: "0 \<le> uint (b :: byte)" "uint (b :: byte) < 256"
proof -
  have "uint b < 2 ^ LENGTH(8)" by (rule unsigned_less)
  then show "uint b < 256" by simp
qed simp

lemma byte_forall: "list_all (\<lambda>n. P (word_of_nat n :: byte)) [0..<256] \<Longrightarrow> P (b :: byte)"
proof -
  assume "list_all (\<lambda>n. P (word_of_nat n :: byte)) [0..<256]"
  then have "\<forall>n<256. P (word_of_nat n :: byte)" by (simp add: list_all_iff)
  moreover have "unat b < 256" by (rule unat_byte_less)
  ultimately have "P (word_of_nat (unat b))" by blast
  then show ?thesis by simp
qed

lemma nibble_forall:
  "list_all (\<lambda>n. P (word_of_nat n :: byte)) [0..<16] \<Longrightarrow> (d :: byte) < 16 \<Longrightarrow> P d"
proof -
  assume "list_all (\<lambda>n. P (word_of_nat n :: byte)) [0..<16]"
  then have "\<forall>n<16. P (word_of_nat n :: byte)" by (simp add: list_all_iff)
  moreover assume "d < 16"
  then have "unat d < 16" by (simp add: word_less_nat_alt)
  ultimately have "P (word_of_nat (unat d))" by blast
  then show ?thesis by simp
qed

lemma byte_15_mask: "(15 :: byte) = mask 4"
  by (simp add: mask_eq_exp_minus_1)

lemma nibbles_of_byte:
  "drop_bit 4 b < (16 :: byte)" "b AND 15 < (16 :: byte)"
  "push_bit 4 (drop_bit 4 b) OR (b AND 15) = b"
proof -
  show "drop_bit 4 b < (16 :: byte)"
    using unat_byte_less [of b] by (simp add: word_less_nat_alt drop_bit_eq_div unat_div)
  show "b AND 15 < (16 :: byte)"
    by (simp add: byte_15_mask take_bit_eq_mask [symmetric] word_less_nat_alt take_bit_eq_mod unat_mod)
  show "push_bit 4 (drop_bit 4 b) OR (b AND 15) = b"
    by (simp only: byte_15_mask take_bit_eq_mask [symmetric])
      (rule bit_word_eqI, auto simp: bit_simps)
qed

lemma unat_ucast_up:
  "LENGTH('a::len) \<le> LENGTH('b::len) \<Longrightarrow> unat (ucast (w :: 'a word) :: 'b word) = unat w"
  by (simp add: unsigned_ucast_eq take_bit_nat_eq_self_iff)
    (meson less_le_trans one_le_numeral power_increasing unsigned_less)

lemma ucast_byte_eq_0 [simp]:
  "(ucast (b :: byte) :: u32) = 0 \<longleftrightarrow> b = 0" "(ucast (b :: byte) :: u64) = 0 \<longleftrightarrow> b = 0"
  by (simp_all add: unat_eq_0 [symmetric] unat_ucast_up)

lemma xor_eq_0_iff [simp]: "(a :: 'a::len word) XOR b = 0 \<longleftrightarrow> a = b"
  by (metis xor.left_neutral xor.assoc xor_self_eq)

end
