(* ===== verification/Bitvec.thy ===== *)
theory Bitvec
  imports Prelude
begin

text \<open>
  \<open>bitvec.c\<close>: the set of page numbers the pager has journalled.  A \<open>Bitvec\<close> is a plain bitmap when it
  is small, a hash table with linear probing while few bits are set, and otherwise an array of smaller
  bitvecs; the three members of the union are the constructors of the datatype.

  \<open>u32\<close> values are natural numbers with the wrap-around written out.  The result \<open>None\<close> is undefined
  behaviour (an index outside an array) or a call that does not return.
\<close>

section \<open>Representation\<close>

definition BITVEC_NELEM :: nat where "BITVEC_NELEM = 496"
definition BITVEC_NBIT :: nat where "BITVEC_NBIT = 3968"
definition BITVEC_NINT :: nat where "BITVEC_NINT = 124"
definition BITVEC_MXHASH :: nat where "BITVEC_MXHASH = 62"
definition BITVEC_NPTR :: nat where "BITVEC_NPTR = 62"

lemmas bitvec_consts = BITVEC_NELEM_def BITVEC_NBIT_def BITVEC_NINT_def BITVEC_MXHASH_def BITVEC_NPTR_def

definition BITVEC_HASH :: "nat \<Rightarrow> nat" where
  "BITVEC_HASH x = x mod BITVEC_NINT"

datatype Bitvec =
    Bitmap (iSize: nat) (aBitmap: "byte list")
  | Hash (iSize: nat) (nSet: nat) (aHash: "nat list")
  | Sub (iSize: nat) (nSet: nat) (iDivisor: nat) (apSub: "Bitvec option list")

definition at :: "'a list \<Rightarrow> nat \<Rightarrow> 'a option" where
  "at xs k = (if k < length xs then Some (xs ! k) else None)"

lemma at_Some: "at xs k = Some x \<longleftrightarrow> k < length xs \<and> xs ! k = x"
  by (simp add: at_def)

text \<open>The outcome of the next allocation; an empty list means that allocations succeed.\<close>

definition next_alloc :: "bool list \<Rightarrow> bool \<times> bool list" where
  "next_alloc al = (case al of [] \<Rightarrow> (True, []) | b # bs \<Rightarrow> (b, bs))"

text \<open>A zeroed object of which the size is set: a bitmap or an empty hash table.\<close>

definition zero_bitvec :: "nat \<Rightarrow> Bitvec" where
  "zero_bitvec s = (if s \<le> BITVEC_NBIT then Bitmap s (replicate BITVEC_NELEM 0)
                    else Hash s 0 (replicate BITVEC_NINT 0))"

definition sqlite3BitvecCreate :: "nat \<Rightarrow> bool list \<Rightarrow> Bitvec option \<times> bool list" where
  "sqlite3BitvecCreate s al =
     (case next_alloc al of (ok, al') \<Rightarrow> (if ok then Some (zero_bitvec s) else None, al'))"

definition sqlite3BitvecSize :: "Bitvec \<Rightarrow> nat" where
  "sqlite3BitvecSize p = iSize p"

text \<open>\<open>i--\<close> on a \<open>u32\<close>.\<close>

definition dec32 :: "nat \<Rightarrow> nat" where
  "dec32 i = (i + (2 ^ 32 - 1)) mod 2 ^ 32"

section \<open>Probing\<close>

text \<open>
  From slot \<open>h\<close> on, the slot of \<open>i\<close> or the first empty one.  The loop visits each slot at most once before
  it repeats: \<open>None\<close> after \<open>BITVEC_NINT\<close> steps means it does not end.
\<close>

fun probe :: "nat \<Rightarrow> nat list \<Rightarrow> nat \<Rightarrow> nat \<Rightarrow> (bool \<times> nat) option" where
  "probe 0 H i h = None"
| "probe (Suc f) H i h =
     (case at H h of
        None \<Rightarrow> None
      | Some v \<Rightarrow> if v = 0 then Some (False, h) else if v = i then Some (True, h)
                  else probe f H i ((h + 1) mod BITVEC_NINT))"

text \<open>The loop of \<open>sqlite3BitvecClear\<close>, which only looks for an empty slot.\<close>

fun find_free :: "nat \<Rightarrow> nat list \<Rightarrow> nat \<Rightarrow> nat option" where
  "find_free 0 H h = None"
| "find_free (Suc f) H h =
     (case at H h of
        None \<Rightarrow> None
      | Some v \<Rightarrow> if v = 0 then Some h else find_free f H (if h + 1 \<ge> BITVEC_NINT then 0 else h + 1))"

section \<open>Testing a bit\<close>

lemma at_size [termination_simp]:
  "at subs k = Some (Some q) \<Longrightarrow> size q < Suc (size_list (size_option size) subs)"
proof -
  assume "at subs k = Some (Some q)"
  then have "Some q \<in> set subs" by (metis at_Some nth_mem)
  then have "size_option size (Some q) \<le> size_list (size_option size) subs"
    by (rule size_list_estimation') simp
  then show ?thesis by simp
qed

function test_at :: "Bitvec \<Rightarrow> nat \<Rightarrow> bool option" where
  "test_at (Sub s n d subs) i =
     (case at subs (i div d) of
        None \<Rightarrow> None
      | Some None \<Rightarrow> Some False
      | Some (Some q) \<Rightarrow> test_at q (i mod d))"
| "test_at (Bitmap s bm) i = map_option (\<lambda>b. b AND push_bit (i mod 8) 1 \<noteq> 0) (at bm (i div 8))"
| "test_at (Hash s n H) i = map_option fst (probe BITVEC_NINT H (i + 1) (BITVEC_HASH i))"
  by pat_completeness auto
termination by (relation "measure (size \<circ> fst)") (auto simp: at_size)

definition sqlite3BitvecTestNotNull :: "Bitvec \<Rightarrow> nat \<Rightarrow> bool option" where
  "sqlite3BitvecTestNotNull p i = (if dec32 i \<ge> iSize p then Some False else test_at p (dec32 i))"

definition sqlite3BitvecTest :: "Bitvec option \<Rightarrow> nat \<Rightarrow> bool option" where
  "sqlite3BitvecTest p i = (case p of None \<Rightarrow> Some False | Some q \<Rightarrow> sqlite3BitvecTestNotNull q i)"

section \<open>Setting a bit\<close>

type_synonym set_result = "(int \<times> Bitvec \<times> bool list) option"

text \<open>\<open>for(j=0; j<BITVEC_NINT; j++) if( aiValues[j] ) rc |= sqlite3BitvecSet(p, aiValues[j])\<close>.\<close>

fun insert_values ::
    "(Bitvec \<Rightarrow> nat \<Rightarrow> bool list \<Rightarrow> set_result) \<Rightarrow> nat list \<Rightarrow> int \<Rightarrow> Bitvec \<Rightarrow> bool list \<Rightarrow> set_result" where
  "insert_values g [] rc p al = Some (rc, p, al)"
| "insert_values g (v # vs) rc p al =
     (if v = 0 then insert_values g vs rc p al
      else do { (rc', p', al') \<leftarrow> g p (v - 1) al; insert_values g vs (rc OR rc') p' al' })"

text \<open>
  The hash table of \<open>p\<close> is turned into an array of bitvecs.  The divisor is computed in 32 bits; where it
  wraps to 0 the object stays a hash table, emptied but with its old count.
\<close>

definition divisor_of :: "nat \<Rightarrow> nat" where
  "divisor_of s = (s + BITVEC_NPTR - 1) mod 2 ^ 32 div BITVEC_NPTR"

definition subdivided :: "nat \<Rightarrow> nat \<Rightarrow> Bitvec" where
  "subdivided s n =
     (if divisor_of s = 0 then Hash s n (replicate BITVEC_NINT 0)
      else Sub s n (divisor_of s) (replicate BITVEC_NPTR None))"

text \<open>
  \<open>sqlite3BitvecSet\<close> after \<open>i--\<close>.  The first argument bounds the depth of sub-bitvecs and of the
  recursive calls of the rehashing.
\<close>

primrec set_at :: "nat \<Rightarrow> Bitvec \<Rightarrow> nat \<Rightarrow> bool list \<Rightarrow> set_result" where
  "set_at 0 p i al = None"
| "set_at (Suc f) p i al =
     (case p of
        Sub s n d subs \<Rightarrow>
          (case at subs (i div d) of
             None \<Rightarrow> None
           | Some sub \<Rightarrow>
               (case (case sub of None \<Rightarrow> sqlite3BitvecCreate d al | Some q \<Rightarrow> (Some q, al)) of
                  (None, al') \<Rightarrow> Some (SQLITE_NOMEM, p, al')
                | (Some q, al') \<Rightarrow> do {
                    (rc, q', al'') \<leftarrow> set_at f q (i mod d) al';
                    Some (rc, Sub s n d (subs[i div d := Some q']), al'')
                  }))
      | Bitmap s bm \<Rightarrow>
          (case at bm (i div 8) of
             None \<Rightarrow> None
           | Some b \<Rightarrow> Some (SQLITE_OK, Bitmap s (bm[i div 8 := b OR push_bit (i mod 8) 1]), al))
      | Hash s n H \<Rightarrow>
          (case probe BITVEC_NINT H (i + 1) (BITVEC_HASH i) of
             None \<Rightarrow> None
           | Some (True, h) \<Rightarrow> Some (SQLITE_OK, p, al)
           | Some (False, h) \<Rightarrow>
               if (h = BITVEC_HASH i \<and> n < BITVEC_NINT - 1) \<or> n < BITVEC_MXHASH
               then Some (SQLITE_OK, Hash s (n + 1) (H[h := i + 1]), al)
               else (case next_alloc al of (ok, al') \<Rightarrow>
                       if \<not> ok then Some (SQLITE_NOMEM, p, al')
                       else do {
                         (rc, p', al'') \<leftarrow> set_at f (subdivided s n) i al';
                         insert_values (set_at f) H rc p' al''
                       })))"

text \<open>Nine levels are enough for every size below \<open>2 ^ 32 - 61\<close> (\<open>bitvec_set_returns\<close>).\<close>

definition sqlite3BitvecSet :: "Bitvec option \<Rightarrow> nat \<Rightarrow> bool list \<Rightarrow> (int \<times> Bitvec option \<times> bool list) option" where
  "sqlite3BitvecSet p i al =
     (case p of
        None \<Rightarrow> Some (SQLITE_OK, None, al)
      | Some q \<Rightarrow> map_option (\<lambda>(rc, q', al'). (rc, Some q', al')) (set_at 9 q (dec32 i) al))"

section \<open>Clearing a bit\<close>

fun rebuild :: "nat \<Rightarrow> nat list \<Rightarrow> nat \<Rightarrow> nat list \<Rightarrow> (nat \<times> nat list) option" where
  "rebuild x [] n H = Some (n, H)"
| "rebuild x (v # vs) n H =
     (if v \<noteq> 0 \<and> v \<noteq> x
      then do { h \<leftarrow> find_free BITVEC_NINT H (BITVEC_HASH (v - 1)); rebuild x vs (n + 1) (H[h := v]) }
      else rebuild x vs n H)"

function clear_at :: "Bitvec \<Rightarrow> nat \<Rightarrow> Bitvec option" where
  "clear_at (Sub s n d subs) i =
     (case at subs (i div d) of
        None \<Rightarrow> None
      | Some None \<Rightarrow> Some (Sub s n d subs)
      | Some (Some q) \<Rightarrow> map_option (\<lambda>q'. Sub s n d (subs[i div d := Some q'])) (clear_at q (i mod d)))"
| "clear_at (Bitmap s bm) i =
     map_option (\<lambda>b. Bitmap s (bm[i div 8 := b AND NOT (push_bit (i mod 8) 1)])) (at bm (i div 8))"
| "clear_at (Hash s n H) i =
     map_option (\<lambda>(n', H'). Hash s n' H') (rebuild (i + 1) H 0 (replicate BITVEC_NINT 0))"
  by pat_completeness auto
termination by (relation "measure (size \<circ> fst)") (auto simp: at_size)

definition sqlite3BitvecClear :: "Bitvec option \<Rightarrow> nat \<Rightarrow> Bitvec option option" where
  "sqlite3BitvecClear p i =
     (case p of None \<Rightarrow> Some None | Some q \<Rightarrow> map_option Some (clear_at q (dec32 i)))"

end
