(* ===== verification/Bitvec_Props.thy ===== *)
theory Bitvec_Props
  imports Bitvec
begin

text \<open>
  A bitvec represents a set of page numbers.  The first part treats the hash tables, the second the tree
  of bitvecs and its invariant, the third the operations; the locale \<open>page_set\<close> states what the pager
  relies on and \<open>sqlite3BitvecSet\<close>, \<open>sqlite3BitvecClear\<close> and \<open>sqlite3BitvecTest\<close> are shown to provide it.
\<close>

section \<open>Hash tables with linear probing\<close>

definition slot :: "nat \<Rightarrow> nat \<Rightarrow> nat" where
  "slot h k = (h + k) mod 124"

lemma slot_simps [simp]: "slot h k < 124" "h < 124 \<Longrightarrow> slot h 0 = h" "slot ((h + 1) mod 124) k = slot h (Suc k)"
  "slot (Suc h mod 124) k = slot h (Suc k)"
  by (simp_all add: slot_def mod_simps)

lemma slot_onto:
  assumes "h < 124" "j < 124"
  shows "\<exists>k < 124. slot h k = j"
proof (cases "h \<le> j")
  case True
  then show ?thesis using assms by (intro exI [of _ "j - h"]) (simp add: slot_def)
next
  case False
  then show ?thesis using assms by (intro exI [of _ "j + 124 - h"]) (simp add: slot_def)
qed

text \<open>What a probe returns: the first slot on the way that is empty or holds the value.\<close>

lemma probe_Some:
  assumes "length H = 124" "h < 124" "i \<noteq> 0"
  shows "probe f H i h = Some (b, h') \<longleftrightarrow>
    (\<exists>k < f. h' = slot h k \<and> (\<forall>m < k. H ! slot h m \<noteq> 0 \<and> H ! slot h m \<noteq> i) \<and> H ! h' = (if b then i else 0))"
  using assms(2)
proof (induct f arbitrary: h)
  case (Suc f)
  have split: "(\<exists>k < Suc f. P k) \<longleftrightarrow> P 0 \<or> (\<exists>k < f. P (Suc k))" for P :: "nat \<Rightarrow> bool"
    by (metis less_Suc_eq_0_disj)
  have all: "(\<forall>m < Suc k. P m) \<longleftrightarrow> P 0 \<and> (\<forall>m < k. P (Suc m))" for P :: "nat \<Rightarrow> bool" and k
    by (metis less_Suc_eq_0_disj)
  show ?case
    using Suc assms by (auto simp: at_def split all BITVEC_NINT_def simp del: ex_simps)
qed simp

lemma probe_total:
  assumes "length H = 124" "h < 124" "\<exists>k < f. H ! slot h k = 0"
  shows "probe f H i h \<noteq> None"
  using assms(2,3)
proof (induct f arbitrary: h)
  case (Suc f)
  have "\<exists>k < f. H ! slot (Suc h mod 124) k = 0" if "H ! h \<noteq> 0"
    using Suc(3) that Suc(2) by (metis less_Suc_eq_0_disj slot_simps(2,4))
  then show ?case using Suc assms(1) by (auto simp: at_def BITVEC_NINT_def)
qed simp

text \<open>
  The table has room for an empty slot, no value twice, and every value is reached from its hash slot
  without passing an empty one.
\<close>

definition entries :: "nat list \<Rightarrow> nat set" where
  "entries H = set H - {0}"

definition home :: "nat \<Rightarrow> nat" where
  "home v = (v - 1) mod 124"

definition reached :: "nat list \<Rightarrow> nat \<Rightarrow> bool" where
  "reached H j \<longleftrightarrow> (\<exists>k. j = slot (home (H ! j)) k \<and> (\<forall>m < k. H ! slot (home (H ! j)) m \<noteq> 0))"

definition table_ok :: "nat list \<Rightarrow> bool" where
  "table_ok H \<longleftrightarrow> length H = 124 \<and> (\<forall>j < 124. H ! j \<noteq> 0 \<longrightarrow> reached H j) \<and>
     distinct (filter (\<lambda>v. v \<noteq> 0) H)"

definition used :: "nat list \<Rightarrow> nat" where
  "used H = length (filter (\<lambda>v. v \<noteq> 0) H)"

lemma home_less [simp]: "home v < 124"
  by (simp add: home_def)

lemma table_ok_empty: "table_ok (replicate 124 0)" "entries (replicate n 0) = {}" "used (replicate n 0) = 0"
  by (auto simp: table_ok_def entries_def used_def)

lemma empty_slot:
  assumes "length H = 124" "used H < 124" "h < 124"
  shows "\<exists>k < 124. H ! slot h k = 0"
proof -
  have "0 \<in> set H"
  proof (rule ccontr)
    assume "0 \<notin> set H"
    then have "filter (\<lambda>v. v \<noteq> 0) H = H" by (intro filter_True) (metis)
    then show False using assms by (simp add: used_def)
  qed
  then obtain j where "j < 124" "H ! j = 0" using assms(1) by (metis in_set_conv_nth)
  then show ?thesis using slot_onto [OF assms(3)] by metis
qed

lemma probe_finds:
  assumes H: "table_ok H" "used H < 124" and i: "i \<noteq> 0"
  shows "\<exists>h. probe 124 H i (home i) = Some (i \<in> entries H, h) \<and> h < 124"
proof -
  have len: "length H = 124" using H by (simp add: table_ok_def)
  obtain b h where p: "probe 124 H i (home i) = Some (b, h)"
    using probe_total [OF len _ empty_slot [OF len H(2)], of "home i" i] by (cases "probe 124 H i (home i)") auto
  then obtain k where k: "k < 124" "h = slot (home i) k" "\<forall>m < k. H ! slot (home i) m \<noteq> 0 \<and> H ! slot (home i) m \<noteq> i"
      "H ! h = (if b then i else 0)"
    using probe_Some [OF len _ i] by auto
  have "b = (i \<in> entries H)"
  proof (cases b)
    case True
    then have "H ! h = i" "h < length H" using k len by simp_all
    then show ?thesis using True i by (auto simp: entries_def)
  next
    case False
    have "i \<notin> set H"
    proof
      assume "i \<in> set H"
      then obtain j where j: "j < 124" "H ! j = i" using len by (metis in_set_conv_nth)
      then obtain n where n: "j = slot (home i) n" "\<forall>m < n. H ! slot (home i) m \<noteq> 0"
        using H i by (auto simp: table_ok_def reached_def)
      then show False using False k j i by (metis linorder_neqE_nat)
    qed
    then show ?thesis using False by (simp add: entries_def)
  qed
  then show ?thesis using p k(2) by auto
qed

lemma table_insert:
  assumes H: "table_ok H" and i: "i \<noteq> 0" "i \<notin> entries H"
    and h: "h = slot (home i) k" "H ! h = 0" "\<forall>m < k. H ! slot (home i) m \<noteq> 0"
  shows "table_ok (H[h := i])" "entries (H[h := i]) = insert i (entries H)" "used (H[h := i]) = Suc (used H)"
proof -
  have len: "length H = 124" "h < 124" using H h by (simp_all add: table_ok_def)
  have fill: "H[h := i] ! j \<noteq> 0" if "H ! j \<noteq> 0" for j using that i by (metis nth_list_update_eq nth_list_update_neq list_update_beyond not_le)
  have r: "reached (H[h := i]) j" if j: "j < 124" "H[h := i] ! j \<noteq> 0" for j
  proof (cases "j = h")
    case True
    then show ?thesis using len h fill by (auto simp: reached_def intro!: exI [of _ k])
  next
    case False
    then have "reached H j" using j H by (simp add: table_ok_def)
    then show ?thesis using False fill by (auto simp: reached_def)
  qed
  have u: "H[h := i] = take h H @ i # drop (Suc h) H" "H = take h H @ 0 # drop (Suc h) H"
    using len h(2) by (simp_all add: upd_conv_take_nth_drop id_take_nth_drop [symmetric]) (metis id_take_nth_drop len(1) len(2) h(2))
  have "i \<notin> set H" using i by (simp add: entries_def)
  moreover have "distinct (filter (\<lambda>v. v \<noteq> 0) H)" using H by (simp add: table_ok_def)
  ultimately have "distinct (filter (\<lambda>v. v \<noteq> 0) (H[h := i]))"
    by (subst u(1)) (subst (asm) (1 2) u(2), simp add: i)
  then show "table_ok (H[h := i])" using r len by (simp add: table_ok_def)
  show "used (H[h := i]) = Suc (used H)"
    unfolding used_def by (subst u(1), subst (3) u(2)) (simp add: i)
  show "entries (H[h := i]) = insert i (entries H)"
    unfolding entries_def by (subst u(1), subst (2) u(2)) (auto simp: i)
qed

lemma find_free_probe:
  assumes "length H = 124" "h < 124" "i \<notin> set H"
  shows "find_free f H h = map_option snd (probe f H i h)"
  using assms(2)
proof (induct f arbitrary: h)
  case (Suc f)
  have "(if h + 1 \<ge> 124 then 0 else h + 1) = (h + 1) mod 124"
    using Suc(2) by (cases "h = 123") auto
  moreover have "H ! h \<noteq> i" using assms Suc(2) by (metis nth_mem)
  ultimately show ?case using Suc assms(1) by (simp add: at_def BITVEC_NINT_def)
qed simp

lemma table_probe_insert:
  assumes H: "table_ok H" "used H < 124" and i: "i \<noteq> 0" "i \<notin> entries H"
  shows "\<exists>h. probe 124 H i (home i) = Some (False, h) \<and> h < 124 \<and> table_ok (H[h := i]) \<and>
     entries (H[h := i]) = insert i (entries H) \<and> used (H[h := i]) = Suc (used H)"
proof -
  have len: "length H = 124" using H by (simp add: table_ok_def)
  obtain h where p: "probe 124 H i (home i) = Some (False, h)" "h < 124" using probe_finds [OF H i(1)] i(2) by auto
  then obtain k where "h = slot (home i) k" "\<forall>m < k. H ! slot (home i) m \<noteq> 0" "H ! h = 0"
    using probe_Some [OF len _ i(1)] by auto
  then show ?thesis using p table_insert [OF H(1) i] by blast
qed

lemma rebuild_ok:
  assumes "table_ok H" "used H = n" "n + length (filter (\<lambda>v. v \<noteq> 0) vs) \<le> 123"
    "distinct (filter (\<lambda>v. v \<noteq> 0) vs)" "entries H \<inter> set vs = {}"
  shows "\<exists>n' H'. rebuild x vs n H = Some (n', H') \<and> table_ok H' \<and> used H' = n' \<and> n' \<le> 123 \<and>
           entries H' = entries H \<union> (set vs - {0, x})"
  using assms
proof (induct vs arbitrary: n H)
  case (Cons v vs)
  show ?case
  proof (cases "v \<noteq> 0 \<and> v \<noteq> x")
    case True
    then have v: "v \<noteq> 0" "v \<notin> entries H" using Cons by auto
    obtain h where h: "probe 124 H v (home v) = Some (False, h)" "table_ok (H[h := v])"
        "entries (H[h := v]) = insert v (entries H)" "used (H[h := v]) = Suc n"
      using table_probe_insert [OF Cons(2) _ v] Cons(3,4) v by auto
    have "find_free 124 H (home v) = Some h"
      using find_free_probe [of H "home v" v 124] v Cons(2) h(1) by (simp add: entries_def table_ok_def)
    then have "rebuild x (v # vs) n H = rebuild x vs (Suc n) (H[h := v])"
      using True by (simp add: BITVEC_HASH_def home_def BITVEC_NINT_def)
    moreover have "\<exists>n' H'. rebuild x vs (Suc n) (H[h := v]) = Some (n', H') \<and> table_ok H' \<and> used H' = n' \<and> n' \<le> 123 \<and>
           entries H' = entries (H[h := v]) \<union> (set vs - {0, x})"
      using h v Cons(4-6) by (intro Cons(1)) (auto simp: h)
    ultimately show ?thesis using h(3) True by auto
  next
    case False
    then show ?thesis using Cons by (auto split: if_splits)
  qed
qed simp

section \<open>The set a bitvec represents\<close>

definition map_bits :: "byte list \<Rightarrow> nat set" where
  "map_bits bm = {i + 1 | i. i < 8 * length bm \<and> bit (bm ! (i div 8)) (i mod 8)}"

definition sub_bits :: "nat \<Rightarrow> nat set option list \<Rightarrow> nat set" where
  "sub_bits d bs = {k * d + v | k v B. k < length bs \<and> bs ! k = Some B \<and> v \<in> B}"

primrec bits :: "Bitvec \<Rightarrow> nat set" where
  "bits (Bitmap s bm) = map_bits bm"
| "bits (Hash s n H) = entries H"
| "bits (Sub s n d subs) = sub_bits d (map (map_option bits) subs)"

primrec wf_bitvec :: "Bitvec \<Rightarrow> bool" where
  "wf_bitvec (Bitmap s bm) \<longleftrightarrow> s \<le> 3968 \<and> length bm = 496 \<and> map_bits bm \<subseteq> {1..s}"
| "wf_bitvec (Hash s n H) \<longleftrightarrow> 3968 < s \<and> table_ok H \<and> used H = n \<and> n \<le> 123 \<and> entries H \<subseteq> {1..s}"
| "wf_bitvec (Sub s n d subs) \<longleftrightarrow> 3968 < s \<and> d = (s + 61) div 62 \<and> length subs = 62 \<and>
     sub_bits d (map (map_option bits) subs) \<subseteq> {1..s} \<and>
     (\<forall>q. Some q \<in> set subs \<longrightarrow> iSize q = d) \<and> Some False \<notin> set (map (map_option wf_bitvec) subs)"

lemma wf_Sub [simp]: "Some False \<notin> map_option wf_bitvec ` set subs \<longleftrightarrow> (\<forall>q. Some q \<in> set subs \<longrightarrow> wf_bitvec q)"
proof
  assume *: "Some False \<notin> map_option wf_bitvec ` set subs"
  show "\<forall>q. Some q \<in> set subs \<longrightarrow> wf_bitvec q"
  proof (intro allI impI, rule ccontr)
    fix q assume "Some q \<in> set subs" "\<not> wf_bitvec q"
    then have "Some False \<in> map_option wf_bitvec ` set subs" by (intro image_eqI [of _ _ "Some q"]) simp_all
    then show False using * by simp
  qed
next
  assume "\<forall>q. Some q \<in> set subs \<longrightarrow> wf_bitvec q"
  then have "map_option wf_bitvec x \<noteq> Some False" if "x \<in> set subs" for x using that by (cases x) auto
  then show "Some False \<notin> map_option wf_bitvec ` set subs" by (metis imageE)
qed

lemma bits_range: "wf_bitvec p \<Longrightarrow> bits p \<subseteq> {1..iSize p}"
  by (cases p) simp_all

lemma zero_bitvec_ok:
  shows "wf_bitvec (zero_bitvec s)" "bits (zero_bitvec s) = {}" "iSize (zero_bitvec s) = s"
  by (auto simp: zero_bitvec_def bitvec_consts map_bits_def table_ok_empty nth_replicate)

subsection \<open>Bitmaps\<close>

lemma map_bits_iff: "i < 8 * length bm \<Longrightarrow> i + 1 \<in> map_bits bm \<longleftrightarrow> bit (bm ! (i div 8)) (i mod 8)"
  by (auto simp: map_bits_def)

lemma and_bit_test: "(b :: byte) AND 2 ^ k = 0 \<longleftrightarrow> \<not> (k < 8 \<and> bit b k)"
proof -
  have "bit (b AND push_bit k 1) n \<longleftrightarrow> n = k \<and> k < 8 \<and> bit b k" for n
    by (auto simp: bit_simps)
  then have "b AND push_bit k 1 = 0 \<longleftrightarrow> \<not> (k < 8 \<and> bit b k)" by (metis bit_0_eq bit_eq_iff bot_apply bot_bool_def)
  then show ?thesis by (simp add: push_bit_of_1)
qed

lemma byte_upd_iff:
  assumes "i < 8 * length bm" "j < 8 * length bm" "\<And>k. k < 8 \<Longrightarrow> bit b k = (if k = i mod 8 then x else bit (bm ! (i div 8)) k)"
  shows "bit (bm[i div 8 := b] ! (j div 8)) (j mod 8) = (if j = i then x else bit (bm ! (j div 8)) (j mod 8))"
proof (cases "j div 8 = i div 8")
  case True
  then have "j mod 8 = i mod 8 \<longleftrightarrow> j = i" by (metis div_mod_decomp)
  then show ?thesis using True assms by (simp add: less_mult_imp_div_less mult.commute)
qed (use assms in auto)

lemma map_bits_set:
  assumes "i < 8 * length bm"
  shows "map_bits (bm[i div 8 := bm ! (i div 8) OR push_bit (i mod 8) 1]) = insert (i + 1) (map_bits bm)"
proof -
  have "bit (bm[i div 8 := bm ! (i div 8) OR push_bit (i mod 8) 1] ! (j div 8)) (j mod 8) = (j = i \<or> bit (bm ! (j div 8)) (j mod 8))"
    if "j < 8 * length bm" for j
    using byte_upd_iff [OF assms that, of "bm ! (i div 8) OR push_bit (i mod 8) 1" True] by (auto simp: bit_simps)
  then show ?thesis using assms by (auto simp: map_bits_def)
qed

lemma map_bits_clear:
  assumes "i < 8 * length bm"
  shows "map_bits (bm[i div 8 := bm ! (i div 8) AND NOT (push_bit (i mod 8) 1)]) = map_bits bm - {i + 1}"
proof -
  have "bit (bm[i div 8 := bm ! (i div 8) AND NOT (push_bit (i mod 8) 1)] ! (j div 8)) (j mod 8) = (j \<noteq> i \<and> bit (bm ! (j div 8)) (j mod 8))"
    if "j < 8 * length bm" for j
    using byte_upd_iff [OF assms that, of "bm ! (i div 8) AND NOT (push_bit (i mod 8) 1)" False] by (auto simp: bit_simps)
  then show ?thesis by (auto simp: map_bits_def)
qed

subsection \<open>Arrays of bitvecs\<close>

lemma sub_bitsI: "k < length bs \<Longrightarrow> bs ! k = Some B \<Longrightarrow> v \<in> B \<Longrightarrow> k * d + v \<in> sub_bits d bs"
  unfolding sub_bits_def by blast

definition in_range :: "nat \<Rightarrow> nat set option list \<Rightarrow> bool" where
  "in_range d bs \<longleftrightarrow> (\<forall>k B. k < length bs \<longrightarrow> bs ! k = Some B \<longrightarrow> B \<subseteq> {1..d})"

lemma in_rangeD: "in_range d bs \<Longrightarrow> k < length bs \<Longrightarrow> bs ! k = Some B \<Longrightarrow> v \<in> B \<Longrightarrow> 1 \<le> v \<and> v \<le> d"
  unfolding in_range_def by fastforce

lemma in_range_update: "in_range d bs \<Longrightarrow> B \<subseteq> {1..d} \<Longrightarrow> in_range d (bs[k := Some B])"
  unfolding in_range_def
proof (intro allI impI)
  fix j B'
  assume *: "\<forall>k B. k < length bs \<longrightarrow> bs ! k = Some B \<longrightarrow> B \<subseteq> {1..d}" "B \<subseteq> {1..d}"
    "j < length (bs[k := Some B])" "bs[k := Some B] ! j = Some B'"
  then show "B' \<subseteq> {1..d}" by (cases "j = k") simp_all
qed

lemma sub_bits_iff:
  assumes d: "0 < d" and range: "in_range d bs" and i: "i div d < length bs"
  shows "i + 1 \<in> sub_bits d bs \<longleftrightarrow> (case bs ! (i div d) of None \<Rightarrow> False | Some B \<Rightarrow> i mod d + 1 \<in> B)"
proof
  assume "i + 1 \<in> sub_bits d bs"
  then obtain k v B where k: "i + 1 = k * d + v" "k < length bs" "bs ! k = Some B" "v \<in> B" by (auto simp: sub_bits_def)
  then have v: "1 \<le> v" "v \<le> d" using in_rangeD [OF range k(2-4)] by auto
  then have "i = k * d + (v - 1)" "v - 1 < d" using k(1) by auto
  then have "i div d = k" "i mod d = v - 1" by (simp_all add: d)
  then show "case bs ! (i div d) of None \<Rightarrow> False | Some B \<Rightarrow> i mod d + 1 \<in> B" using k v by simp
next
  assume *: "case bs ! (i div d) of None \<Rightarrow> False | Some B \<Rightarrow> i mod d + 1 \<in> B"
  then obtain B where "bs ! (i div d) = Some B" "i mod d + 1 \<in> B" by (auto split: option.splits)
  moreover have "i + 1 = i div d * d + (i mod d + 1)" by simp
  ultimately show "i + 1 \<in> sub_bits d bs" using i unfolding sub_bits_def by blast
qed

lemma sub_bits_form:
  assumes d: "0 < d" and range: "in_range d bs" and x: "x \<in> sub_bits d bs"
  shows "\<exists>i. x = i + 1 \<and> i div d < length bs"
proof -
  obtain k v B where k: "x = k * d + v" "k < length bs" "bs ! k = Some B" "v \<in> B" using x by (auto simp: sub_bits_def)
  then have v: "1 \<le> v" "v \<le> d" using in_rangeD [OF range k(2-4)] by auto
  then have "x = k * d + (v - 1) + 1" "v - 1 < d" using k(1) by auto
  moreover from this(2) have "(k * d + (v - 1)) div d = k" by simp
  ultimately have "x = (k * d + (v - 1)) + 1" "(k * d + (v - 1)) div d = k" by simp_all
  then show ?thesis using k(2) by metis
qed

lemma sub_bits_update:
  assumes d: "0 < d" and B: "B \<subseteq> {1..d}" and i: "i div d < length bs" and k: "k < length bs"
    and range: "in_range d bs"
  shows "i + 1 \<in> sub_bits d (bs[k := Some B]) \<longleftrightarrow> (if i div d = k then i mod d + 1 \<in> B else i + 1 \<in> sub_bits d bs)"
proof -
  show ?thesis
    using sub_bits_iff [OF d in_range_update [OF range B, of k], of i] sub_bits_iff [OF d range i] i by (cases "i div d = k") auto
qed

lemma Sub_facts:
  assumes "wf_bitvec (Sub s n d subs)"
  shows "0 < d" "length subs = 62" "i < s \<Longrightarrow> i div d < 62" "d = (s + 61) div 62" "d < s"
    "in_range d (map (map_option bits) subs)"
proof -
  have w: "3968 < s" "d = (s + 61) div 62" "length subs = 62" "\<And>q. Some q \<in> set subs \<Longrightarrow> iSize q = d \<and> wf_bitvec q"
    using assms by simp_all
  show d: "0 < d" "length subs = 62" "d = (s + 61) div 62" "d < s" using w by simp_all
  have "s \<le> 62 * d" unfolding w(2) by linarith
  then show "i div d < 62" if "i < s" using that d(1) by (simp add: div_less_iff_less_mult)
  show "in_range d (map (map_option bits) subs)"
    unfolding in_range_def
  proof (intro allI impI)
    fix k B assume "k < length (map (map_option bits) subs)" "map (map_option bits) subs ! k = Some B"
    then obtain q where "subs ! k = Some q" "B = bits q" "k < length subs" by auto
    moreover from this have "Some q \<in> set subs" by (metis nth_mem)
    ultimately show "B \<subseteq> {1..d}" using w(4) bits_range by metis
  qed
qed

lemma Sub_elem:
  assumes "wf_bitvec (Sub s n d subs)" "k < 62" "subs ! k = Some q"
  shows "wf_bitvec q" "iSize q = d"
proof -
  have "Some q \<in> set subs" using assms Sub_facts(2) [OF assms(1)] by (metis nth_mem)
  then show "wf_bitvec q" "iSize q = d" using assms(1) by simp_all
qed

lemma bits_Sub_iff:
  assumes "wf_bitvec (Sub s n d subs)" "i < s"
  shows "i + 1 \<in> bits (Sub s n d subs) \<longleftrightarrow> (case subs ! (i div d) of None \<Rightarrow> False | Some q \<Rightarrow> i mod d + 1 \<in> bits q)"
proof -
  note f = Sub_facts [OF assms(1)]
  show ?thesis
    using sub_bits_iff [OF f(1,6), of i] f(2) f(3) [OF assms(2)] by (simp split: option.split)
qed

text \<open>Replacing one bitvec of the array.\<close>

lemma Sub_update:
  assumes p: "wf_bitvec (Sub s n d subs)" and i: "i < s" and q: "wf_bitvec q" "iSize q = d"
    and range: "\<forall>v \<in> bits q. (i div d) * d + v \<le> s"
  shows "wf_bitvec (Sub s n d (subs[i div d := Some q]))"
    "\<And>j. j < s \<Longrightarrow> j + 1 \<in> bits (Sub s n d (subs[i div d := Some q])) \<longleftrightarrow>
       (if j div d = i div d then j mod d + 1 \<in> bits q else j + 1 \<in> bits (Sub s n d subs))"
proof -
  note f = Sub_facts [OF p]
  let ?bs = "map (map_option bits) subs" and ?k = "i div d"
  have k: "?k < length ?bs" using f(2,3) i by simp
  have B: "bits q \<subseteq> {1..d}" using bits_range [OF q(1)] q(2) by simp
  have m: "map (map_option bits) (subs[?k := Some q]) = ?bs[?k := Some (bits q)]" by (simp add: map_update)
  show "j + 1 \<in> bits (Sub s n d (subs[?k := Some q])) \<longleftrightarrow>
       (if j div d = ?k then j mod d + 1 \<in> bits q else j + 1 \<in> bits (Sub s n d subs))" if "j < s" for j
    using sub_bits_update [OF f(1) B _ k f(6), of j] f(2) f(3) [OF that] by (simp add: m)
  have "sub_bits d (?bs[?k := Some (bits q)]) \<subseteq> {1..s}"
  proof
    fix x assume x: "x \<in> sub_bits d (?bs[?k := Some (bits q)])"
    obtain j where j: "x = j + 1" "j div d < length ?bs" using sub_bits_form [OF f(1) in_range_update [OF f(6) B] x] by auto
    have "j + 1 \<le> s"
    proof (cases "j div d = ?k")
      case True
      then have "j mod d + 1 \<in> bits q" using x sub_bits_update [OF f(1) B j(2) k f(6)] j(1) by simp
      then have "j div d * d + j mod d + 1 \<le> s" using range True by force
      then show ?thesis by simp
    next
      case False
      then have "j + 1 \<in> sub_bits d ?bs" using x sub_bits_update [OF f(1) B j(2) k f(6)] j(1) by simp
      then show ?thesis using p by auto
    qed
    then show "x \<in> {1..s}" using j by simp
  qed
  then show "wf_bitvec (Sub s n d (subs[?k := Some q]))"
    using p q set_update_subset_insert [of subs ?k "Some q"] unfolding wf_bitvec.simps m by auto
qed

lemma subset_by_elem:
  assumes "A \<subseteq> {1..s}" "\<And>j. j < s \<Longrightarrow> j + 1 \<in> A \<Longrightarrow> j + 1 \<in> B"
  shows "A \<subseteq> (B :: nat set)"
proof
  fix x assume x: "x \<in> A"
  then have "x \<in> {1..s}" using assms(1) by blast
  then obtain j where "x = j + 1" "j < s" by (cases x) auto
  then show "x \<in> B" using assms(2) x by simp
qed

definition child_bits :: "Bitvec option list \<Rightarrow> nat \<Rightarrow> nat set" where
  "child_bits subs k = (case subs ! k of None \<Rightarrow> {} | Some q \<Rightarrow> bits q)"

text \<open>An operation on one bit reaches exactly one bitvec of the array.\<close>

lemma Sub_child:
  assumes p: "wf_bitvec (Sub s n d subs)" and i: "i < s" and q: "wf_bitvec q" "iSize q = d"
    and sub: "bits q \<subseteq> insert (i mod d + 1) (child_bits subs (i div d))"
  defines "p' \<equiv> Sub s n d (subs[i div d := Some q])"
  shows "wf_bitvec p'" "bits p' \<subseteq> insert (i + 1) (bits (Sub s n d subs))"
    "bits q = insert (i mod d + 1) (child_bits subs (i div d)) \<Longrightarrow> bits p' = insert (i + 1) (bits (Sub s n d subs))"
    "bits q = child_bits subs (i div d) - {i mod d + 1} \<Longrightarrow> bits p' = bits (Sub s n d subs) - {i + 1}"
proof -
  note f = Sub_facts [OF p]
  let ?B = "bits (Sub s n d subs)" and ?k = "i div d"
  have old: "j + 1 \<in> ?B \<longleftrightarrow> j mod d + 1 \<in> child_bits subs (j div d)" if "j < s" for j
    using bits_Sub_iff [OF p that] by (simp add: child_bits_def split: option.split)
  have range: "?k * d + v \<le> s" if "v \<in> bits q" for v
  proof (cases "v = i mod d + 1")
    case True
    then show ?thesis using i by simp
  next
    case False
    then have v: "v \<in> child_bits subs ?k" using that sub by auto
    then obtain c where "subs ! ?k = Some c" "v \<in> bits c" by (auto simp: child_bits_def split: option.splits)
    then have "map (map_option bits) subs ! ?k = Some (bits c)" "v \<in> bits c" using f(2) f(3) [OF i] by simp_all
    then have "?k * d + v \<in> ?B"
      using f(2) f(3) [OF i] by (simp add: sub_bitsI)
    then show ?thesis using bits_range [OF p] by auto
  qed
  have "\<forall>v \<in> bits q. ?k * d + v \<le> s" using range by blast
  note u = Sub_update [OF p i q this]
  show wf: "wf_bitvec p'" unfolding p'_def by (rule u(1))
  have same: "j = i" if "j div d = ?k" "j mod d = i mod d" for j using that by (metis div_mod_decomp)
  have new: "j + 1 \<in> bits p' \<longleftrightarrow> (if j div d = ?k then j mod d + 1 \<in> bits q else j + 1 \<in> ?B)" if "j < s" for j
    unfolding p'_def using u(2) [OF that] .
  have R: "bits p' \<subseteq> {1..s}" "?B \<subseteq> {1..s}" using bits_range [OF wf] bits_range [OF p] by (simp_all add: p'_def)
  show 1: "bits p' \<subseteq> insert (i + 1) ?B"
    by (rule subset_by_elem [OF R(1)]) (use new old sub same in \<open>auto split: if_splits\<close>)
  show "bits p' = insert (i + 1) ?B" if eq: "bits q = insert (i mod d + 1) (child_bits subs ?k)"
  proof (rule equalityI [OF 1])
    have "insert (i + 1) ?B \<subseteq> {1..s}" using R(2) i by auto
    then show "insert (i + 1) ?B \<subseteq> bits p'"
      by (rule subset_by_elem) (use new old eq in \<open>auto split: if_splits\<close>)
  qed
  show "bits p' = ?B - {i + 1}" if eq: "bits q = child_bits subs ?k - {i mod d + 1}"
  proof (rule equalityI)
    show "bits p' \<subseteq> ?B - {i + 1}"
      by (rule subset_by_elem [OF R(1)]) (use new old eq i in \<open>auto split: if_splits\<close>)
    have "?B - {i + 1} \<subseteq> {1..s}" using R(2) by auto
    then show "?B - {i + 1} \<subseteq> bits p'"
      by (rule subset_by_elem) (use new old eq same in \<open>auto split: if_splits\<close>)
  qed
qed

section \<open>Testing and clearing\<close>

lemma test_at_correct:
  "wf_bitvec p \<Longrightarrow> i < iSize p \<Longrightarrow> test_at p i = Some (i + 1 \<in> bits p)"
proof (induct p i rule: test_at.induct)
  case (1 s n d subs i)
  note f = Sub_facts [OF 1(2)]
  have k: "i div d < 62" using f(3) 1(3) by simp
  show ?case
  proof (cases "subs ! (i div d)")
    case None
    then show ?thesis using bits_Sub_iff [OF 1(2), of i] 1(3) k f(2) by (simp add: at_def)
  next
    case (Some q)
    have "test_at q (i mod d) = Some (i mod d + 1 \<in> bits q)"
      using 1(1) Sub_elem [OF 1(2) k Some] f k Some by (simp add: at_def)
    then show ?thesis using bits_Sub_iff [OF 1(2), of i] 1(3) k f(2) Some by (simp add: at_def)
  qed
next
  case (2 s bm i)
  then have "i < 8 * length bm" "i div 8 < length bm" by auto
  then show ?case using map_bits_iff [of i bm] by (simp add: at_def and_bit_test)
next
  case (3 s n H i)
  then show ?case using probe_finds [of H "i + 1"] by (auto simp: BITVEC_NINT_def BITVEC_HASH_def home_def)
qed

lemma clear_at_correct:
  "wf_bitvec p \<Longrightarrow> i < iSize p \<Longrightarrow>
   \<exists>p'. clear_at p i = Some p' \<and> wf_bitvec p' \<and> iSize p' = iSize p \<and> bits p' = bits p - {i + 1}"
proof (induct p i rule: clear_at.induct)
  case (1 s n d subs i)
  note f = Sub_facts [OF 1(2)]
  have i: "i < s" and k: "i div d < 62" using f(3) 1(3) by simp_all
  show ?case
  proof (cases "subs ! (i div d)")
    case None
    then show ?thesis using bits_Sub_iff [OF 1(2) i] 1(2) k f(2) by (auto simp: at_def)
  next
    case (Some q)
    note q = Sub_elem [OF 1(2) k Some]
    obtain q' where q': "clear_at q (i mod d) = Some q'" "wf_bitvec q'" "iSize q' = d" "bits q' = bits q - {i mod d + 1}"
      using 1(1) q f k Some by (auto simp: at_def)
    then have c: "bits q' = child_bits subs (i div d) - {i mod d + 1}" using Some by (simp add: child_bits_def)
    then show ?thesis
      using q' Some k f(2) Sub_child(1,4) [OF 1(2) i q'(2,3)] by (auto simp: at_def)
  qed
next
  case (2 s bm i)
  then have "i < 8 * length bm" "i div 8 < length bm" by auto
  then show ?case using 2 map_bits_clear [of i bm] by (auto simp: at_def)
next
  case (3 s n H i)
  then have "\<exists>n' H'. rebuild (i + 1) H 0 (replicate 124 0) = Some (n', H') \<and> table_ok H' \<and> used H' = n' \<and> n' \<le> 123 \<and>
           entries H' = entries (replicate 124 0) \<union> (set H - {0, i + 1})"
    by (intro rebuild_ok) (auto simp: table_ok_empty table_ok_def used_def)
  then show ?case using 3 by (auto simp: BITVEC_NINT_def table_ok_empty entries_def)
qed

section \<open>Setting\<close>

text \<open>Fuel: a level of the tree takes one step to descend and one to subdivide.\<close>

function depth :: "nat \<Rightarrow> nat" where
  "depth s = (if s \<le> 3968 then 1 else depth ((s + 61) div 62) + 2)"
  by pat_completeness auto
termination by (relation "measure id") auto

declare depth.simps [simp del]

definition need :: "Bitvec \<Rightarrow> nat" where
  "need p = (case p of Sub s n d subs \<Rightarrow> depth d + 1 | _ \<Rightarrow> depth (iSize p))"

definition set_spec :: "Bitvec \<Rightarrow> nat \<Rightarrow> bool list \<Rightarrow> set_result \<Rightarrow> bool" where
  "set_spec p i al r \<longleftrightarrow> (\<exists>rc p' al'. r = Some (rc, p', al') \<and> wf_bitvec p' \<and> iSize p' = iSize p \<and> need p' \<le> need p \<and>
     rc \<in> {SQLITE_OK, SQLITE_NOMEM} \<and> bits p' \<subseteq> insert (i + 1) (bits p) \<and>
     (rc = SQLITE_OK \<longrightarrow> bits p' = insert (i + 1) (bits p)) \<and> (al = [] \<longrightarrow> rc = SQLITE_OK \<and> al' = []))"

lemma depth_pos: "0 < depth s" by (subst depth.simps) simp

lemma depth_mono: "s \<le> t \<Longrightarrow> depth s \<le> depth t"
proof (induct t arbitrary: s rule: depth.induct)
  case (1 t)
  show ?case
  proof (cases "t \<le> 3968")
    case True
    then show ?thesis using 1(2) by (subst (1 2) depth.simps) simp
  next
    case False
    then show ?thesis
      using 1(1) [OF False, of "(s + 61) div 62"] 1(2) depth_pos [of "(t + 61) div 62"]
      by (subst (1 2) depth.simps) (simp add: div_le_mono)
  qed
qed

lemma depth_u32: "s < 2 ^ 32 \<Longrightarrow> depth s \<le> 9"
proof -
  assume "s < 2 ^ 32"
  then have "depth s \<le> depth 4294967296" by (intro depth_mono) simp
  also have "depth 4294967296 = 9" by (simp add: depth.simps)
  finally show ?thesis .
qed

lemma insert_values_spec:
  assumes g: "\<And>q i al. wf_bitvec q \<Longrightarrow> need q \<le> f \<Longrightarrow> iSize q = s \<Longrightarrow> i < s \<Longrightarrow> set_spec q i al (g q i al)"
  shows "wf_bitvec p \<Longrightarrow> need p \<le> f \<Longrightarrow> iSize p = s \<Longrightarrow> set vs \<subseteq> {0..s} \<Longrightarrow> rc \<in> {SQLITE_OK, SQLITE_NOMEM} \<Longrightarrow>
    \<exists>rc' p' al'. insert_values g vs rc p al = Some (rc', p', al') \<and> wf_bitvec p' \<and> iSize p' = s \<and> need p' \<le> need p \<and>
      rc' \<in> {SQLITE_OK, SQLITE_NOMEM} \<and> bits p' \<subseteq> bits p \<union> entries vs \<and>
      (rc' = SQLITE_OK \<longrightarrow> rc = SQLITE_OK \<and> bits p' = bits p \<union> entries vs) \<and> (al = [] \<and> rc = SQLITE_OK \<longrightarrow> rc' = SQLITE_OK \<and> al' = [])"
proof (induct vs arbitrary: rc p al)
  case Nil
  then show ?case by (simp add: entries_def)
next
  case (Cons v vs)
  show ?case
  proof (cases "v = 0")
    case True
    then have "entries (v # vs) = entries vs" by (auto simp: entries_def)
    then show ?thesis using Cons True by simp
  next
    case False
    then have v: "v - 1 < s" "v - 1 + 1 = v" "entries (v # vs) = insert v (entries vs)" using Cons(5) by (auto simp: entries_def)
    obtain rc1 p1 al1 where 1: "g p (v - 1) al = Some (rc1, p1, al1)" "wf_bitvec p1" "iSize p1 = s" "need p1 \<le> need p"
        "rc1 \<in> {SQLITE_OK, SQLITE_NOMEM}" "bits p1 \<subseteq> insert v (bits p)" "rc1 = SQLITE_OK \<longrightarrow> bits p1 = insert v (bits p)"
        "al = [] \<longrightarrow> rc1 = SQLITE_OK \<and> al1 = []"
      using g [OF Cons(2-4) v(1), of al] v(2) Cons(4) by (auto simp: set_spec_def)
    have or: "rc OR rc1 \<in> {SQLITE_OK, SQLITE_NOMEM}" "rc OR rc1 = SQLITE_OK \<longleftrightarrow> rc = SQLITE_OK \<and> rc1 = SQLITE_OK"
      using 1(5) Cons(6) by auto
    have "set vs \<subseteq> {0..s}" "need p1 \<le> f" using Cons(3,5) 1(4) by auto
    from Cons(1) [OF 1(2) this(2) 1(3) this(1) or(1), of al1]
    obtain rc2 p2 al2 where 2: "insert_values g vs (rc OR rc1) p1 al1 = Some (rc2, p2, al2)" "wf_bitvec p2" "iSize p2 = s"
        "need p2 \<le> need p1" "rc2 \<in> {SQLITE_OK, SQLITE_NOMEM}" "bits p2 \<subseteq> bits p1 \<union> entries vs"
        "rc2 = SQLITE_OK \<longrightarrow> rc OR rc1 = SQLITE_OK \<and> bits p2 = bits p1 \<union> entries vs"
        "al1 = [] \<and> rc OR rc1 = SQLITE_OK \<longrightarrow> rc2 = SQLITE_OK \<and> al2 = []" by blast
    have "insert_values g (v # vs) rc p al = Some (rc2, p2, al2)" using False 1(1) 2(1) by simp
    moreover have "need p2 \<le> need p" "bits p2 \<subseteq> bits p \<union> entries (v # vs)" using 1 2 v(3) by auto
    moreover have "rc2 = SQLITE_OK \<longrightarrow> rc = SQLITE_OK \<and> bits p2 = bits p \<union> entries (v # vs)" using 1(7) 2(7) or(2) v(3) by auto
    moreover have "al = [] \<and> rc = SQLITE_OK \<longrightarrow> rc2 = SQLITE_OK \<and> al2 = []" using 1(8) 2(8) or(2) by auto
    ultimately show ?thesis using 2(2,3,5) by blast
  qed
qed

lemma next_alloc_simps [simp]: "next_alloc [] = (True, [])" "next_alloc (b # bs) = (b, bs)"
  by (simp_all add: next_alloc_def)

lemma create_spec:
  "sqlite3BitvecCreate d al = (r, al') \<Longrightarrow> (r = None \<or> r = Some (zero_bitvec d)) \<and> (al = [] \<longrightarrow> r = Some (zero_bitvec d) \<and> al' = [])"
  by (auto simp: sqlite3BitvecCreate_def split: prod.splits if_splits)

lemma need_zero: "need (zero_bitvec d) = depth d"
  by (simp add: need_def zero_bitvec_def)

lemma need_le_depth:
  assumes "wf_bitvec q"
  shows "need q \<le> depth (iSize q)"
proof (cases q)
  case (Sub s n d subs)
  then have "\<not> s \<le> 3968" "d = (s + 61) div 62" using assms by simp_all
  then show ?thesis using Sub by (subst depth.simps) (simp add: need_def)
qed (simp_all add: need_def)

text \<open>Setting in an array of bitvecs, given what the recursive call does.\<close>

lemma set_Sub_spec:
  assumes p: "wf_bitvec (Sub s n d subs)" "i < s"
    and g: "\<And>q j al. wf_bitvec q \<Longrightarrow> need q \<le> f \<Longrightarrow> iSize q = d \<Longrightarrow> j < d \<Longrightarrow> set_spec q j al (set_at f q j al)"
    and need: "need (Sub s n d subs) \<le> Suc f"
  shows "set_spec (Sub s n d subs) i al (set_at (Suc f) (Sub s n d subs) i al)"
proof -
  note ff = Sub_facts [OF p(1)]
  have k: "i div d < 62" using ff(3) p(2) by simp
  have at: "at subs (i div d) = Some (subs ! (i div d))" using k ff(2) by (simp add: at_def)
  obtain r al1 where r: "(case subs ! (i div d) of None \<Rightarrow> sqlite3BitvecCreate d al | Some q \<Rightarrow> (Some q, al)) = (r, al1)"
    by (cases "case subs ! (i div d) of None \<Rightarrow> sqlite3BitvecCreate d al | Some q \<Rightarrow> (Some q, al)")
  show ?thesis
  proof (cases r)
    case None
    then have "al \<noteq> []" using r create_spec [of d al r al1] by (auto split: option.splits)
    then show ?thesis using p(1) at r None by (auto simp: set_spec_def)
  next
    case (Some q)
    have q: "wf_bitvec q" "iSize q = d" "bits q = child_bits subs (i div d)" "al = [] \<longrightarrow> al1 = []"
      using r Some create_spec [of d al r al1] Sub_elem [OF p(1) k] zero_bitvec_ok [of d]
      by (auto simp: child_bits_def split: option.splits)
    have "need q \<le> f" using need need_le_depth [OF q(1)] q(2) by (simp add: need_def)
    then obtain rc q' al' where q': "set_at f q (i mod d) al1 = Some (rc, q', al')" "wf_bitvec q'" "iSize q' = d"
        "rc \<in> {SQLITE_OK, SQLITE_NOMEM}" "bits q' \<subseteq> insert (i mod d + 1) (bits q)"
        "rc = SQLITE_OK \<longrightarrow> bits q' = insert (i mod d + 1) (bits q)" "al1 = [] \<longrightarrow> rc = SQLITE_OK \<and> al' = []"
      using g [OF q(1) _ q(2), of "i mod d" al1] q(2) ff(1) unfolding set_spec_def by auto
    note c = Sub_child [OF p q'(2,3) q'(5) [unfolded q(3)]]
    have "set_at (Suc f) (Sub s n d subs) i al = Some (rc, Sub s n d (subs[i div d := Some q']), al')"
      using at r Some q'(1) by simp
    moreover have "need (Sub s n d (subs[i div d := Some q'])) = need (Sub s n d subs)" by (simp add: need_def)
    ultimately show ?thesis using c(1-3) q' q(3,4) unfolding set_spec_def by auto
  qed
qed

lemma subdivided_ok:
  assumes "3968 < s" "s + 61 < 2 ^ 32"
  shows "wf_bitvec (subdivided s n)" "bits (subdivided s n) = {}" "iSize (subdivided s n) = s"
    "need (subdivided s n) + 1 = depth s"
proof -
  have d: "divisor_of s = (s + 61) div 62" "0 < divisor_of s"
    using assms by (simp_all add: divisor_of_def BITVEC_NPTR_def)
  have e: "subdivided s n = Sub s n ((s + 61) div 62) (replicate 62 None)"
    using d by (simp add: subdivided_def BITVEC_NPTR_def)
  have "sub_bits ((s + 61) div 62) (replicate 62 None) = {}" by (auto simp: sub_bits_def)
  then show "wf_bitvec (subdivided s n)" "bits (subdivided s n) = {}" "iSize (subdivided s n) = s"
    using assms(1) by (auto simp: e)
  show "need (subdivided s n) + 1 = depth s"
    using assms(1) by (subst depth.simps) (simp add: e need_def)
qed

lemma set_Hash_spec:
  assumes p: "wf_bitvec (Hash s n H)" "i < s" "s + 61 < 2 ^ 32"
    and g: "\<And>q j al. wf_bitvec q \<Longrightarrow> need q \<le> f \<Longrightarrow> iSize q = s \<Longrightarrow> j < s \<Longrightarrow> set_spec q j al (set_at f q j al)"
    and need: "need (Hash s n H) \<le> Suc f"
  shows "set_spec (Hash s n H) i al (set_at (Suc f) (Hash s n H) i al)"
proof -
  have w: "3968 < s" "table_ok H" "used H < 124" "used H = n" "entries H \<subseteq> {1..s}" using p(1) by simp_all
  have home: "BITVEC_HASH i = home (i + 1)" by (simp add: BITVEC_HASH_def home_def BITVEC_NINT_def)
  obtain h where h: "probe 124 H (i + 1) (home (i + 1)) = Some (i + 1 \<in> entries H, h)"
    using probe_finds [OF w(2,3)] by fastforce
  consider "i + 1 \<in> entries H"
    | "i + 1 \<notin> entries H" "h = home (i + 1) \<and> n < 123 \<or> n < 62"
    | "i + 1 \<notin> entries H" "\<not> (h = home (i + 1) \<and> n < 123 \<or> n < 62)" by blast
  then show ?thesis
  proof cases
    case 1
    then have "set_at (Suc f) (Hash s n H) i al = Some (SQLITE_OK, Hash s n H, al)"
      using h by (simp add: home BITVEC_NINT_def)
    then show ?thesis using 1 p(1) by (auto simp: set_spec_def)
  next
    case 2
    then have "set_at (Suc f) (Hash s n H) i al = Some (SQLITE_OK, Hash s (n + 1) (H[h := i + 1]), al)"
      using h by (auto simp: home BITVEC_NINT_def BITVEC_MXHASH_def)
    moreover have "table_ok (H[h := i + 1])" "entries (H[h := i + 1]) = insert (i + 1) (entries H)" "used (H[h := i + 1]) = Suc n"
      using table_probe_insert [OF w(2,3) _ 2(1)] h w(4) by auto
    ultimately show ?thesis using 2(2) p(2) w by (auto simp: set_spec_def need_def)
  next
    case 3
    have e: "set_at (Suc f) (Hash s n H) i al =
      (case next_alloc al of (ok, al') \<Rightarrow>
         if \<not> ok then Some (SQLITE_NOMEM, Hash s n H, al')
         else do { (rc, p', al'') \<leftarrow> set_at f (subdivided s n) i al'; insert_values (set_at f) H rc p' al'' })"
      using h 3 by (auto simp: home BITVEC_NINT_def BITVEC_MXHASH_def)
    obtain ok al1 where al1: "next_alloc al = (ok, al1)" by (cases "next_alloc al")
    show ?thesis
    proof (cases ok)
      case False
      then have "al \<noteq> []" using al1 by auto
      then show ?thesis using e al1 False p(1) by (auto simp: set_spec_def)
    next
      case True
      note d = subdivided_ok [OF w(1) p(3), of n]
      have "need (subdivided s n) \<le> f" using need d(4) by (simp add: need_def)
      then obtain rc2 p2 al2 where 2: "set_at f (subdivided s n) i al1 = Some (rc2, p2, al2)" "wf_bitvec p2" "iSize p2 = s"
          "need p2 \<le> need (subdivided s n)" "rc2 \<in> {SQLITE_OK, SQLITE_NOMEM}" "bits p2 \<subseteq> {i + 1}"
          "rc2 = SQLITE_OK \<longrightarrow> bits p2 = {i + 1}" "al1 = [] \<longrightarrow> rc2 = SQLITE_OK \<and> al2 = []"
        using g [OF d(1) _ d(3) p(2), of al1] d(2,3) by (auto simp: set_spec_def)
      have vs: "set H \<subseteq> {0..s}" using w(5) by (auto simp: entries_def)
      have "need p2 \<le> f" using 2(4) \<open>need (subdivided s n) \<le> f\<close> by simp
      from insert_values_spec [where g = "set_at f" and f = f, OF g 2(2) this 2(3) vs 2(5), of al2]
      obtain rc3 p3 al3 where 3: "insert_values (set_at f) H rc2 p2 al2 = Some (rc3, p3, al3)" "wf_bitvec p3" "iSize p3 = s"
          "need p3 \<le> need p2" "rc3 \<in> {SQLITE_OK, SQLITE_NOMEM}" "bits p3 \<subseteq> bits p2 \<union> entries H"
          "rc3 = SQLITE_OK \<longrightarrow> rc2 = SQLITE_OK \<and> bits p3 = bits p2 \<union> entries H"
          "al2 = [] \<and> rc2 = SQLITE_OK \<longrightarrow> rc3 = SQLITE_OK \<and> al3 = []" by blast
      have "set_at (Suc f) (Hash s n H) i al = Some (rc3, p3, al3)" using e al1 True 2(1) 3(1) by simp
      moreover have "need p3 \<le> need (Hash s n H)" using 3(4) 2(4) d(4) by (simp add: need_def)
      moreover have "bits p3 \<subseteq> insert (i + 1) (entries H)" using 2(6) 3(6) by auto
      moreover have "rc3 = SQLITE_OK \<longrightarrow> bits p3 = insert (i + 1) (entries H)" using 2(7) 3(7) by auto
      moreover have "al = [] \<longrightarrow> rc3 = SQLITE_OK \<and> al3 = []" using 2(8) 3(8) al1 by auto
      ultimately show ?thesis using 3(2,3,5) by (auto simp: set_spec_def)
    qed
  qed
qed

lemma set_at_spec:
  "wf_bitvec p \<Longrightarrow> need p \<le> f \<Longrightarrow> i < iSize p \<Longrightarrow> iSize p + 61 < 2 ^ 32 \<Longrightarrow> set_spec p i al (set_at f p i al)"
proof (induct f arbitrary: p i al)
  case 0
  have "0 < need p" using depth_pos by (cases p) (simp_all add: need_def)
  then show ?case using 0 by simp
next
  case (Suc f)
  show ?case
  proof (cases p)
    case (Bitmap s bm)
    then have i: "i < s" "s \<le> 3968" "length bm = 496" "map_bits bm \<subseteq> {1..s}" using Suc by simp_all
    then have "at bm (i div 8) = Some (bm ! (i div 8))" by (simp add: at_def)
    moreover have "map_bits (bm[i div 8 := bm ! (i div 8) OR push_bit (i mod 8) 1]) = insert (i + 1) (map_bits bm)"
      using i by (intro map_bits_set) simp
    ultimately show ?thesis using i Bitmap by (auto simp: set_spec_def need_def)
  next
    case (Hash s n H)
    have "set_spec q j al (set_at f q j al)" if "wf_bitvec q" "need q \<le> f" "iSize q = s" "j < s" for q j al
      using that Suc(1) [of q j al] Suc(5) Hash by simp
    then show ?thesis unfolding Hash using Suc(2-5) Hash by (intro set_Hash_spec) simp_all
  next
    case (Sub s n d subs)
    have w: "wf_bitvec (Sub s n d subs)" using Suc(2) unfolding Sub .
    have n: "i < s" "need (Sub s n d subs) \<le> Suc f" "s + 61 < 2 ^ 32" using Suc(3-5) Sub by simp_all
    show ?thesis unfolding Sub
      by (rule set_Sub_spec [OF w n(1) _ n(2)]) (use Suc(1) n(3) Sub_facts(5) [OF w] in simp)
  qed
qed

section \<open>Sizes for which subdividing fails\<close>

lemma divisor_wraps: "s < 2 ^ 32 \<Longrightarrow> 2 ^ 32 \<le> s + 61 \<Longrightarrow> subdivided s n = Hash s n (replicate 124 0)"
  by (auto simp: subdivided_def divisor_of_def bitvec_consts mod_if)

lemma set_full_diverges:
  assumes "s < 2 ^ 32" "2 ^ 32 \<le> s + 61"
  shows "set_at f (Hash s 123 (replicate 124 0)) i [] = None"
proof (induct f)
  case (Suc f)
  have "i mod 124 < 124" by simp
  then have "probe 124 (replicate 124 0) (i + 1) (i mod 124) = Some (False, i mod 124)"
    by (subst probe_Some) (auto intro!: exI [of _ 0])
  then show ?case using Suc
    by (simp add: BITVEC_NINT_def BITVEC_MXHASH_def BITVEC_HASH_def divisor_wraps [OF assms] split: prod.split)
qed simp

definition filled :: "nat \<Rightarrow> nat \<Rightarrow> Bitvec" where
  "filled s k = Hash s k (map Suc [0..<k] @ replicate (124 - k) 0)"

lemma filled_step:
  assumes "k < 123"
  shows "set_at (Suc f) (filled s k) k al = Some (SQLITE_OK, filled s (Suc k), al)"
proof -
  let ?H = "map Suc [0..<k] @ replicate (124 - k) 0"
  have "probe 124 ?H (k + 1) k = Some (False, k)"
    using assms by (subst probe_Some) (auto simp: nth_append intro!: exI [of _ 0])
  moreover have "replicate (124 - k) (0 :: nat) = 0 # replicate (124 - Suc k) 0"
    using assms by (simp flip: replicate_Suc add: Suc_diff_Suc)
  then have "?H[k := Suc k] = map Suc [0..<Suc k] @ replicate (124 - Suc k) 0"
    by (simp add: list_update_append)
  ultimately show ?thesis
    using assms by (simp add: filled_def BITVEC_NINT_def BITVEC_HASH_def)
qed

lemma filled_diverges:
  assumes "s < 2 ^ 32" "2 ^ 32 \<le> s + 61"
  shows "set_at f (filled s 123) 123 [] = None"
proof (cases f)
  case (Suc f)
  let ?H = "map Suc [0..<123] @ [0]"
  have "probe 124 ?H 124 123 = Some (False, 123)"
    by (subst probe_Some) (auto simp: nth_append intro!: exI [of _ 0])
  then show ?thesis
    by (simp add: Suc filled_def BITVEC_NINT_def BITVEC_HASH_def BITVEC_MXHASH_def divisor_wraps [OF assms] set_full_diverges [OF assms])
qed simp

section \<open>The interface the pager uses\<close>

lemma dec32_pred: "1 \<le> i \<Longrightarrow> i < 2 ^ 32 \<Longrightarrow> dec32 i = i - 1"
  unfolding dec32_def by (subst le_mod_geq) auto

lemma dec32_0: "dec32 0 = 2 ^ 32 - 1"
  by (simp add: dec32_def)

definition bitvec_ok :: "Bitvec \<Rightarrow> bool" where
  "bitvec_ok p \<longleftrightarrow> wf_bitvec p \<and> iSize p + 61 < 2 ^ 32"

lemma bitvec_test:
  assumes "bitvec_ok p" "i < 2 ^ 32"
  shows "sqlite3BitvecTest (Some p) i = Some (i \<in> bits p)"
proof -
  have w: "wf_bitvec p" "iSize p + 61 < 2 ^ 32" using assms by (simp_all add: bitvec_ok_def)
  note r = bits_range [OF w(1)]
  show ?thesis
  proof (cases "1 \<le> i \<and> i \<le> iSize p")
    case True
    then have "i - 1 < iSize p" "i - 1 + 1 = i" by auto
    then show ?thesis
      using test_at_correct [OF w(1), of "i - 1"] True assms by (simp add: sqlite3BitvecTest_def sqlite3BitvecTestNotNull_def dec32_pred)
  next
    case False
    then have "i \<notin> bits p" using r by auto
    moreover have "dec32 i \<ge> iSize p" using False assms(2) w(2) dec32_0 dec32_pred [of i] by (cases "i = 0") auto
    ultimately show ?thesis by (simp add: sqlite3BitvecTest_def sqlite3BitvecTestNotNull_def)
  qed
qed

lemma bitvec_set:
  assumes "bitvec_ok p" "1 \<le> i" "i \<le> iSize p"
  shows "\<exists>rc p' al'. sqlite3BitvecSet (Some p) i al = Some (rc, Some p', al') \<and> bitvec_ok p' \<and> iSize p' = iSize p \<and>
     rc \<in> {SQLITE_OK, SQLITE_NOMEM} \<and> bits p' \<subseteq> insert i (bits p) \<and>
     (rc = SQLITE_OK \<longrightarrow> bits p' = insert i (bits p)) \<and> (al = [] \<longrightarrow> rc = SQLITE_OK \<and> al' = [])"
proof -
  have w: "wf_bitvec p" "iSize p + 61 < 2 ^ 32" using assms by (simp_all add: bitvec_ok_def)
  have "need p \<le> 9" using need_le_depth [OF w(1)] depth_u32 [of "iSize p"] w(2) by simp
  moreover have "dec32 i = i - 1" using assms w by (intro dec32_pred) simp_all
  ultimately have "set_spec p (i - 1) al (set_at 9 p (dec32 i) al)"
    using set_at_spec [OF w(1), of 9 "i - 1" al] assms w(2) by simp
  then obtain rc p' al' where "set_at 9 p (dec32 i) al = Some (rc, p', al')" "wf_bitvec p'" "iSize p' = iSize p"
      "rc \<in> {SQLITE_OK, SQLITE_NOMEM}" "bits p' \<subseteq> insert i (bits p)" "rc = SQLITE_OK \<longrightarrow> bits p' = insert i (bits p)"
      "al = [] \<longrightarrow> rc = SQLITE_OK \<and> al' = []"
    using assms(2) by (auto simp: set_spec_def)
  then show ?thesis using w(2) by (auto simp: sqlite3BitvecSet_def bitvec_ok_def)
qed

lemma bitvec_clear:
  assumes "bitvec_ok p" "1 \<le> i" "i \<le> iSize p"
  shows "\<exists>p'. sqlite3BitvecClear (Some p) i = Some (Some p') \<and> bitvec_ok p' \<and> iSize p' = iSize p \<and> bits p' = bits p - {i}"
proof -
  have w: "wf_bitvec p" "iSize p + 61 < 2 ^ 32" using assms by (simp_all add: bitvec_ok_def)
  have "dec32 i = i - 1" "i - 1 < iSize p" "i - 1 + 1 = i" using assms w dec32_pred [of i] by auto
  then show ?thesis using clear_at_correct [OF w(1), of "i - 1"] w by (auto simp: sqlite3BitvecClear_def bitvec_ok_def)
qed

text \<open>A set of page numbers of bounded size, and the replay of a list of operations on it.\<close>

datatype bit_op = SetBit nat | ClearBit nat

fun op_bit :: "bit_op \<Rightarrow> nat" where
  "op_bit (SetBit i) = i"
| "op_bit (ClearBit i) = i"

fun op_effect :: "bit_op \<Rightarrow> nat set \<Rightarrow> nat set" where
  "op_effect (SetBit i) S = insert i S"
| "op_effect (ClearBit i) S = S - {i}"

locale page_set =
  fixes ok :: "'s \<Rightarrow> bool" and size_of :: "'s \<Rightarrow> nat" and elems :: "'s \<Rightarrow> nat set"
    and apply_op :: "bit_op \<Rightarrow> 's \<Rightarrow> 's option" and test :: "'s \<Rightarrow> nat \<Rightarrow> bool option"
  assumes apply_ok: "ok s \<Longrightarrow> 1 \<le> op_bit x \<Longrightarrow> op_bit x \<le> size_of s \<Longrightarrow>
      \<exists>s'. apply_op x s = Some s' \<and> ok s' \<and> size_of s' = size_of s \<and> elems s' = op_effect x (elems s)"
    and test_ok: "ok s \<Longrightarrow> i < 2 ^ 32 \<Longrightarrow> test s i = Some (i \<in> elems s)"
begin

lemma replay_ok:
  "ok s \<Longrightarrow> \<forall>x \<in> set ops. 1 \<le> op_bit x \<and> op_bit x \<le> size_of s \<Longrightarrow>
   \<exists>s'. fold (\<lambda>x r. r \<bind> apply_op x) ops (Some s) = Some s' \<and> ok s' \<and> size_of s' = size_of s \<and> elems s' = fold op_effect ops (elems s)"
proof (induct ops arbitrary: s)
  case (Cons x ops)
  obtain s1 where 1: "apply_op x s = Some s1" "ok s1" "size_of s1 = size_of s" "elems s1 = op_effect x (elems s)"
    using apply_ok [OF Cons(2), of x] Cons(3) by auto
  show ?case using Cons(1) [OF 1(2)] Cons(3) 1 by simp
qed simp

lemma replay_test:
  assumes "ok s" "\<forall>x \<in> set ops. 1 \<le> op_bit x \<and> op_bit x \<le> size_of s" "i < 2 ^ 32"
  shows "fold (\<lambda>x r. r \<bind> apply_op x) ops (Some s) \<bind> (\<lambda>s'. test s' i) = Some (i \<in> fold op_effect ops (elems s))"
  using replay_ok [OF assms(1,2)] test_ok assms(3) by auto

end

definition bitvec_apply :: "bit_op \<Rightarrow> Bitvec \<Rightarrow> Bitvec option" where
  "bitvec_apply x p =
     (case x of
        SetBit i \<Rightarrow> (case sqlite3BitvecSet (Some p) i [] of Some (rc, p', al) \<Rightarrow> if rc = SQLITE_OK then p' else None | None \<Rightarrow> None)
      | ClearBit i \<Rightarrow> (case sqlite3BitvecClear (Some p) i of Some p' \<Rightarrow> p' | None \<Rightarrow> None))"

lemma bitvec_apply_ok:
  assumes "bitvec_ok p" "1 \<le> op_bit x" "op_bit x \<le> iSize p"
  shows "\<exists>p'. bitvec_apply x p = Some p' \<and> bitvec_ok p' \<and> iSize p' = iSize p \<and> bits p' = op_effect x (bits p)"
  using assms bitvec_set [of p "op_bit x" "[]"] bitvec_clear [of p "op_bit x"]
  by (cases x) (auto simp: bitvec_apply_def)

interpretation bitvec: page_set bitvec_ok iSize bits bitvec_apply "\<lambda>p. sqlite3BitvecTest (Some p)"
  by unfold_locales (use bitvec_apply_ok bitvec_test in auto)

section \<open>Properties\<close>

text \<open>C24. Refinement.  A new bitvec of a size below \<open>2 ^ 32 - 61\<close>, after any sequence of sets and clears of
  numbers in its range, tests exactly as the abstract set the same operations build, for every 32-bit
  argument, whether the bitvec is a bitmap, a hash table or a tree by then.\<close>

theorem bitvec_refines_set:
  assumes "s + 61 < 2 ^ 32" "\<forall>x \<in> set ops. 1 \<le> op_bit x \<and> op_bit x \<le> s" "i < 2 ^ 32"
  shows "\<exists>p. sqlite3BitvecCreate s [] = (Some p, []) \<and>
    fold (\<lambda>x r. r \<bind> bitvec_apply x) ops (Some p) \<bind> (\<lambda>p'. sqlite3BitvecTest (Some p') i)
      = Some (i \<in> fold op_effect ops {})"
proof -
  have "bitvec_ok (zero_bitvec s)" using assms(1) zero_bitvec_ok by (simp add: bitvec_ok_def)
  then show ?thesis
    using bitvec.replay_test [of "zero_bitvec s" ops i] assms zero_bitvec_ok [of s] by (simp add: sqlite3BitvecCreate_def)
qed

theorem bitvec_refines_set_witness:
  "\<exists>p. fold (\<lambda>x r. r \<bind> bitvec_apply x) [SetBit 7, SetBit 4000, ClearBit 7] (Some p) \<bind> (\<lambda>p'. sqlite3BitvecTest (Some p') 4000) = Some True
     \<and> fst (sqlite3BitvecCreate 5000 []) = Some p"
  using bitvec_refines_set [of 5000 "[SetBit 7, SetBit 4000, ClearBit 7]" 4000] by auto

text \<open>C25. \<open>sqlite3BitvecSet\<close> returns for every bitvec of a size below \<open>2 ^ 32 - 61\<close> and every outcome of its
  allocations: nine levels of sub-bitvecs and rehashing are never exceeded and no index leaves its array.
  It returns \<open>SQLITE_OK\<close> with exactly the bit added, or \<open>SQLITE_NOMEM\<close>, and then the bitvec is well formed and
  no bit but \<open>i\<close> can have been added.\<close>

theorem bitvec_set_returns:
  assumes "bitvec_ok p" "1 \<le> i" "i \<le> iSize p"
  shows "\<exists>rc p' al'. sqlite3BitvecSet (Some p) i al = Some (rc, Some p', al') \<and> bitvec_ok p' \<and> iSize p' = iSize p \<and>
     rc \<in> {SQLITE_OK, SQLITE_NOMEM} \<and> bits p' \<subseteq> insert i (bits p) \<and>
     (rc = SQLITE_OK \<longrightarrow> bits p' = insert i (bits p)) \<and> (al = [] \<longrightarrow> rc = SQLITE_OK \<and> al' = [])"
  by (rule bitvec_set [OF assms])

theorem bitvec_set_returns_witness:
  "\<exists>p' al'. sqlite3BitvecSet (Some (zero_bitvec 5000)) 4321 [] = Some (SQLITE_OK, Some p', al') \<and> bits p' = {4321}"
  using bitvec_set_returns [of "zero_bitvec 5000" 4321 "[]"] zero_bitvec_ok [of 5000] by (auto simp: bitvec_ok_def)

text \<open>C26. For the largest 61 sizes the divisor wraps to 0.  Then setting the pages 1 to 123 in order succeeds,
  and setting page 124 never returns: the hash table is full, is emptied without being subdivided, and the
  call for the same page on it does the same again, whatever the depth of recursion.\<close>

theorem bitvec_set_diverges:
  assumes "s < 2 ^ 32" "2 ^ 32 \<le> s + 61"
  shows "filled s 0 = zero_bitvec s \<and> (\<forall>k < 123. sqlite3BitvecSet (Some (filled s k)) (k + 1) [] = Some (SQLITE_OK, Some (filled s (k + 1)), [])) \<and>
    (\<forall>f. set_at f (filled s 123) (dec32 124) [] = None)"
proof (intro conjI allI impI)
  show "filled s 0 = zero_bitvec s" using assms by (simp add: filled_def zero_bitvec_def bitvec_consts)
  show "sqlite3BitvecSet (Some (filled s k)) (k + 1) [] = Some (SQLITE_OK, Some (filled s (k + 1)), [])" if "k < 123" for k
  proof -
    have "dec32 (k + 1) = k" using that by (simp add: dec32_pred)
    then show ?thesis using filled_step [OF that, of 8 s "[]"] by (simp add: sqlite3BitvecSet_def eval_nat_numeral del: set_at.simps)
  qed
  show "set_at f (filled s 123) (dec32 124) [] = None" for f
    using filled_diverges [OF assms, of f] by (simp add: dec32_pred)
qed

theorem bitvec_set_diverges_witness:
  "sqlite3BitvecSet (Some (filled 4294967295 123)) 124 [] = None \<and> filled 4294967295 0 = zero_bitvec 4294967295"
proof -
  have "\<forall>f. set_at f (filled 4294967295 123) (dec32 124) [] = None" "filled 4294967295 0 = zero_bitvec 4294967295"
    using bitvec_set_diverges [of 4294967295] by simp_all
  then show ?thesis by (simp add: sqlite3BitvecSet_def del: set_at.simps)
qed

end
