(* ===== verification/Bitvec_Test.thy ===== *)
theory Bitvec_Test
  imports Bitvec_Props
begin

text \<open>
  \<open>sqlite3BitvecBuiltinTest\<close>: the interpreter of test programs that \<open>bitvec.c\<close> carries along.  It applies
  the same operations to a bitvec and to a linear array of bits and compares the two.  The random number
  source is a parameter, the arithmetic of \<open>int\<close> is checked, and the first argument bounds the number of
  operations; \<open>None\<close> is undefined behaviour of the program being interpreted.
\<close>

section \<open>The interpreter\<close>

definition int32 :: "int \<Rightarrow> int option" where
  "int32 x = (if - (2 ^ 31) \<le> x \<and> x < 2 ^ 31 then Some x else None)"

definition SETBIT :: "byte list \<Rightarrow> nat \<Rightarrow> byte list option" where
  "SETBIT V i = map_option (\<lambda>b. V[i div 8 := b OR push_bit (i mod 8) 1]) (at V (i div 8))"

definition CLEARBIT :: "byte list \<Rightarrow> nat \<Rightarrow> byte list option" where
  "CLEARBIT V i = map_option (\<lambda>b. V[i div 8 := b AND NOT (push_bit (i mod 8) 1)]) (at V (i div 8))"

definition TESTBIT :: "byte list \<Rightarrow> nat \<Rightarrow> bool option" where
  "TESTBIT V i = map_option (\<lambda>b. b AND push_bit (i mod 8) 1 \<noteq> 0) (at V (i div 8))"

text \<open>The operands of one step: the advance, the number and the program with the operand updated.\<close>

definition fetch :: "(nat \<Rightarrow> int) \<Rightarrow> int list \<Rightarrow> nat \<Rightarrow> nat \<Rightarrow> int \<Rightarrow> (nat \<times> int \<times> int list \<times> nat) option" where
  "fetch rnd aOp pc k op =
     (if op = 1 \<or> op = 2 \<or> op = 5
      then do {
        a \<leftarrow> at aOp (pc + 2);
        x \<leftarrow> at aOp (pc + 3);
        i \<leftarrow> int32 (a - 1);
        a' \<leftarrow> int32 (a + x);
        Some (4, i, aOp[pc + 2 := a'], k)
      }
      else Some (2, rnd k, aOp, k + 1))"

text \<open>The effect of one step on the array and the bitvec; the flag is the failure of an allocation.\<close>

definition exec :: "int \<Rightarrow> nat \<Rightarrow> byte list \<Rightarrow> Bitvec \<Rightarrow> bool list \<Rightarrow> (bool \<times> byte list \<times> Bitvec \<times> bool list) option" where
  "exec op i V p al =
     (if odd op then do {
        V' \<leftarrow> SETBIT V (i + 1);
        if op \<noteq> 5 then do {
          (rc, p', al') \<leftarrow> sqlite3BitvecSet (Some p) (i + 1) al;
          q \<leftarrow> p';
          Some (rc \<noteq> SQLITE_OK, V', q, al')
        } else Some (False, V', p, al)
      } else do {
        V' \<leftarrow> CLEARBIT V (i + 1);
        p' \<leftarrow> sqlite3BitvecClear (Some p) (i + 1);
        q \<leftarrow> p';
        Some (False, V', q, al)
      })"

fun test_loop ::
    "nat \<Rightarrow> nat \<Rightarrow> (nat \<Rightarrow> int) \<Rightarrow> int list \<Rightarrow> nat \<Rightarrow> nat \<Rightarrow> byte list \<Rightarrow> Bitvec \<Rightarrow> bool list
       \<Rightarrow> (bool \<times> byte list \<times> Bitvec) option" where
  "test_loop 0 sz rnd aOp pc k V p al = None"
| "test_loop (Suc f) sz rnd aOp pc k V p al = do {
     op \<leftarrow> at aOp pc;
     if op = 0 then Some (False, V, p)
     else do {
       (nx, i, aOp1, k1) \<leftarrow> fetch rnd aOp pc k op;
       n \<leftarrow> at aOp1 (pc + 1);
       n' \<leftarrow> int32 (n - 1);
       let pc' = pc + (if n' > 0 then 0 else nx);
       (failed, V', p', al') \<leftarrow> (if sz = 0 then None else exec op (nat (i mod 2 ^ 31 mod int sz)) V p al);
       if failed then Some (True, V', p')
       else test_loop f sz rnd (aOp1[pc + 1 := n']) pc' k1 V' p' al'
     }
   }"

fun compare_loop :: "nat \<Rightarrow> nat \<Rightarrow> byte list \<Rightarrow> Bitvec \<Rightarrow> int \<Rightarrow> int option" where
  "compare_loop 0 i V p rc = Some rc"
| "compare_loop (Suc n) i V p rc = do {
     a \<leftarrow> TESTBIT V i;
     b \<leftarrow> sqlite3BitvecTest (Some p) i;
     if a \<noteq> b then Some (int i) else compare_loop n (i + 1) V p rc
   }"

definition sqlite3BitvecBuiltinTest :: "nat \<Rightarrow> nat \<Rightarrow> (nat \<Rightarrow> int) \<Rightarrow> int list \<Rightarrow> bool list \<Rightarrow> int option" where
  "sqlite3BitvecBuiltinTest fuel sz rnd aOp al =
     (case sqlite3BitvecCreate sz al of
        (pBitvec, al1) \<Rightarrow> (case next_alloc al1 of (pV, al2) \<Rightarrow> (case next_alloc al2 of (pTmpSpace, al3) \<Rightarrow>
          (case pBitvec of
             None \<Rightarrow> Some (-1)
           | Some p \<Rightarrow>
               if \<not> pV \<or> \<not> pTmpSpace then Some (-1)
               else do {
                 (failed, V, p') \<leftarrow> test_loop fuel sz rnd aOp 0 0 (replicate ((sz + 7) div 8 + 1) 0) p al3;
                 if failed then Some (-1)
                 else do {
                   t1 \<leftarrow> sqlite3BitvecTest None 0;
                   t2 \<leftarrow> sqlite3BitvecTest (Some p') (sz + 1);
                   t3 \<leftarrow> sqlite3BitvecTest (Some p') 0;
                   compare_loop sz 1 V p'
                     (of_bool t1 + of_bool t2 + of_bool t3 + (int (sqlite3BitvecSize p') - int sz))
                 }
               }))))"

section \<open>The array and the bitvec stay equal\<close>

text \<open>Bit \<open>i\<close> of the array is element \<open>i + 1\<close> of \<open>map_bits\<close>.\<close>

definition agree :: "nat \<Rightarrow> byte list \<Rightarrow> Bitvec \<Rightarrow> bool" where
  "agree sz V p \<longleftrightarrow> bitvec_ok p \<and> iSize p = sz \<and> length V = (sz + 7) div 8 + 1 \<and> map_bits V = Suc ` bits p"

lemma agree_index: "agree sz V p \<Longrightarrow> i \<le> sz \<Longrightarrow> i < 8 * length V \<and> i div 8 < length V"
  by (auto simp: agree_def)

lemma TESTBIT_agree:
  assumes "agree sz V p" "i \<le> sz"
  shows "TESTBIT V i = Some (i \<in> bits p)"
proof -
  have i: "i < 8 * length V" "i div 8 < length V" using agree_index [OF assms] by simp_all
  have "i + 1 \<in> map_bits V \<longleftrightarrow> i \<in> bits p" using assms(1) by (auto simp: agree_def)
  then show ?thesis using i map_bits_iff [OF i(1)] by (simp add: TESTBIT_def at_def and_bit_test)
qed

lemma exec_agree:
  assumes "agree sz V p" "i < sz" "op \<noteq> 5"
  shows "\<exists>V' p'. exec op i V p [] = Some (False, V', p', []) \<and> agree sz V' p'"
proof -
  have p: "bitvec_ok p" "iSize p = sz" using assms(1) by (simp_all add: agree_def)
  have i: "i + 1 < 8 * length V" "(i + 1) div 8 < length V" using agree_index [OF assms(1), of "i + 1"] assms(2) by simp_all
  show ?thesis
  proof (cases "odd op")
    case True
    obtain p' where p': "sqlite3BitvecSet (Some p) (i + 1) [] = Some (SQLITE_OK, Some p', [])" "bitvec_ok p'" "iSize p' = sz"
        "bits p' = insert (i + 1) (bits p)"
      using bitvec_set [OF p(1), of "i + 1" "[]"] p(2) assms(2) by auto
    let ?V = "V[(i + 1) div 8 := V ! ((i + 1) div 8) OR push_bit ((i + 1) mod 8) 1]"
    have "exec op i V p [] = Some (False, ?V, p', [])" using True i assms(3) p'(1) by (simp add: exec_def SETBIT_def at_def)
    moreover have "agree sz ?V p'" using assms(1) p' map_bits_set [OF i(1)] by (simp add: agree_def)
    ultimately show ?thesis by blast
  next
    case False
    obtain p' where p': "sqlite3BitvecClear (Some p) (i + 1) = Some (Some p')" "bitvec_ok p'" "iSize p' = sz"
        "bits p' = bits p - {i + 1}"
      using bitvec_clear [OF p(1), of "i + 1"] p(2) assms(2) by auto
    let ?V = "V[(i + 1) div 8 := V ! ((i + 1) div 8) AND NOT (push_bit ((i + 1) mod 8) 1)]"
    have "exec op i V p [] = Some (False, ?V, p', [])" using False i p'(1) by (simp add: exec_def CLEARBIT_def at_def)
    moreover have "agree sz ?V p'" using assms(1) p' map_bits_clear [OF i(1)] by (auto simp: agree_def)
    ultimately show ?thesis by blast
  qed
qed

section \<open>Test programs\<close>

text \<open>The instructions that act on both: set or clear a range, set or clear random bits.\<close>

datatype instr = Range bool int int int | Random bool int

fun instr_count :: "instr \<Rightarrow> int" where
  "instr_count (Range b n s x) = n"
| "instr_count (Random b n) = n"

fun encode :: "instr \<Rightarrow> int list" where
  "encode (Range b n s x) = [if b then 1 else 2, n, s, x]"
| "encode (Random b n) = [if b then 3 else 4, n]"

text \<open>A positive count, and operands that stay in the range of \<open>int\<close> while they are incremented.\<close>

fun instr_ok :: "instr \<Rightarrow> bool" where
  "instr_ok (Range b n s x) \<longleftrightarrow> 0 < n \<and> n < 2 ^ 31 \<and> (\<forall>j \<in> {0..n}. - (2 ^ 31) < s + j * x \<and> s + j * x < 2 ^ 31)"
| "instr_ok (Random b n) \<longleftrightarrow> 0 < n \<and> n < 2 ^ 31"

definition program :: "instr list \<Rightarrow> int list" where
  "program is = concat (map encode is) @ [0]"

definition steps :: "instr list \<Rightarrow> nat" where
  "steps is = sum_list (map (\<lambda>i. nat (instr_count i)) is)"

lemma at_append [simp]:
  "at (xs @ y # ys) (length xs) = Some y" "at (xs @ y0 # y # ys) (Suc (length xs)) = Some y"
  "at (xs @ y0 # y1 # y # ys) (Suc (Suc (length xs))) = Some y" "at (xs @ y0 # y1 # y2 # y # ys) (Suc (Suc (Suc (length xs)))) = Some y"
  by (simp_all add: at_def nth_append)

lemma random_run:
  assumes "0 < sz" "0 < n" "n < 2 ^ 31" "agree sz V p"
  shows "\<exists>pre' k' V' p'. length pre' = length pre + 2 \<and> agree sz V' p' \<and>
    test_loop (f + nat n) sz rnd (pre @ encode (Random b n) @ rest) (length pre) k V p [] =
    test_loop f sz rnd (pre' @ rest) (length pre') k' V' p' []"
  using assms(2-4)
proof (induct "nat n" arbitrary: n k V p)
  case (Suc m)
  let ?op = "if b then 3 else 4 :: int"
  let ?i = "nat (rnd k mod 2 ^ 31 mod int sz)"
  have i: "?i < sz" using assms(1) by (simp add: nat_less_iff)
  obtain V1 p1 where e: "exec ?op ?i V p [] = Some (False, V1, p1, [])" "agree sz V1 p1"
    using exec_agree [OF Suc(5) i, of ?op] by (cases b) auto
  have f: "f + nat n = Suc (f + m)" using Suc(2) by simp
  have n': "int32 (n - 1) = Some (n - 1)" using Suc(3,4) by (simp add: int32_def)
  have 1: "test_loop (f + nat n) sz rnd (pre @ encode (Random b n) @ rest) (length pre) k V p [] =
      test_loop (f + m) sz rnd (pre @ encode (Random b (n - 1)) @ rest) (length pre + (if n - 1 > 0 then 0 else 2)) (k + 1) V1 p1 []"
    using e(1) assms(1) by (cases b) (simp_all add: f fetch_def n' list_update_append Let_def numeral_2_eq_2 numeral_3_eq_3)
  show ?case
  proof (cases "n = 1")
    case True
    then show ?thesis using 1 e(2) Suc(2)
      by (intro exI [of _ "pre @ encode (Random b 0)"] exI [of _ "k + 1"] exI [of _ V1] exI [of _ p1]) simp
  next
    case False
    then have "0 < n - 1" "n - 1 < 2 ^ 31" "m = nat (n - 1)" using Suc(2-4) by auto
    with Suc(1) [OF this(3,1,2) e(2), of "k + 1"] 1 show ?thesis by simp
  qed
qed simp

lemma plus_4: "n + 4 = Suc (Suc (Suc (Suc n)))"
  by simp

lemma range_run:
  assumes "0 < sz" "instr_ok (Range b n s x)" "agree sz V p"
  shows "\<exists>pre' V' p'. length pre' = length pre + 4 \<and> agree sz V' p' \<and>
    test_loop (f + nat n) sz rnd (pre @ encode (Range b n s x) @ rest) (length pre) k V p [] =
    test_loop f sz rnd (pre' @ rest) (length pre') k V' p' []"
  using assms(2,3)
proof (induct "nat n" arbitrary: n s V p)
  case (Suc m)
  let ?op = "if b then 1 else 2 :: int"
  let ?i = "nat ((s - 1) mod 2 ^ 31 mod int sz)"
  have i: "?i < sz" using assms(1) by (simp add: nat_less_iff)
  obtain V1 p1 where e: "exec ?op ?i V p [] = Some (False, V1, p1, [])" "agree sz V1 p1"
    using exec_agree [OF Suc(4) i, of ?op] by (cases b) auto
  have f: "f + nat n = Suc (f + m)" using Suc(2) by simp
  have n: "0 < n" "n < 2 ^ 31" and ops: "\<And>j. j \<in> {0..n} \<Longrightarrow> - (2 ^ 31) < s + j * x \<and> s + j * x < 2 ^ 31" using Suc(3) by auto
  have n': "int32 (n - 1) = Some (n - 1)" "int32 (s - 1) = Some (s - 1)" "int32 (s + x) = Some (s + x)"
    using n ops [of 0] ops [of 1] by (simp_all add: int32_def)
  have 1: "test_loop (f + nat n) sz rnd (pre @ encode (Range b n s x) @ rest) (length pre) k V p [] =
      test_loop (f + m) sz rnd (pre @ encode (Range b (n - 1) (s + x) x) @ rest) (length pre + (if n - 1 > 0 then 0 else 4)) k V1 p1 []"
    using e(1) assms(1) by (cases b) (simp_all add: f fetch_def n' list_update_append Let_def numeral_2_eq_2 numeral_3_eq_3)
  show ?case
  proof (cases "n = 1")
    case True
    then show ?thesis using 1 e(2) Suc(2)
      by (intro exI [of _ "pre @ encode (Range b 0 (s + x) x)"] exI [of _ V1] exI [of _ p1]) (simp add: plus_4)
  next
    case False
    have "instr_ok (Range b (n - 1) (s + x) x)"
      using False n ops [of "j + 1" for j] by (auto simp: algebra_simps)
    moreover have "m = nat (n - 1)" using Suc(2) by simp
    ultimately show ?thesis using Suc(1) [of "n - 1" "s + x" V1 p1] e(2) 1 False n by simp
  qed
qed simp

lemma program_run:
  assumes "0 < sz"
  shows "\<forall>i \<in> set is. instr_ok i \<Longrightarrow> agree sz V p \<Longrightarrow>
    \<exists>V' p'. agree sz V' p' \<and> test_loop (Suc f + steps is) sz rnd (pre @ program is) (length pre) k V p [] = Some (False, V', p')"
proof (induct "is" arbitrary: pre k V p)
  case Nil
  then show ?case by (auto simp: program_def steps_def)
next
  case (Cons i "is")
  have s: "Suc f + steps (i # is) = (Suc f + steps is) + nat (instr_count i)" "program (i # is) = encode i @ program is"
    by (simp_all add: steps_def program_def)
  have "\<exists>pre' k' V' p'. agree sz V' p' \<and>
    test_loop ((Suc f + steps is) + nat (instr_count i)) sz rnd (pre @ encode i @ program is) (length pre) k V p [] =
    test_loop (Suc f + steps is) sz rnd (pre' @ program is) (length pre') k' V' p' []"
  proof (cases i)
    case (Range b n t x)
    then have "instr_ok (Range b n t x)" using Cons(2) by simp
    from range_run [OF assms this Cons(3), of pre "Suc f + steps is" rnd "program is" k] show ?thesis unfolding Range instr_count.simps by blast
  next
    case (Random b n)
    then have "0 < n" "n < 2 ^ 31" using Cons(2) by simp_all
    from random_run [OF assms this Cons(3), of pre "Suc f + steps is" rnd b "program is" k] show ?thesis unfolding Random instr_count.simps by blast
  qed
  then obtain pre' k' V' p' where "agree sz V' p'"
    "test_loop (Suc f + steps (i # is)) sz rnd (pre @ program (i # is)) (length pre) k V p [] =
     test_loop (Suc f + steps is) sz rnd (pre' @ program is) (length pre') k' V' p' []"
    unfolding s by blast
  then show ?case using Cons(1) [of V' p' pre' k'] Cons(2) by auto
qed

lemma compare_agree:
  "agree sz V p \<Longrightarrow> sz < 2 ^ 31 \<Longrightarrow> i + n \<le> sz + 1 \<Longrightarrow> compare_loop n i V p rc = Some rc"
proof (induct n arbitrary: i)
  case (Suc n)
  have i: "i \<le> sz" using Suc(4) by linarith
  have "TESTBIT V i = Some (i \<in> bits p)" by (rule TESTBIT_agree [OF Suc(2) i])
  moreover have "sqlite3BitvecTest (Some p) i = Some (i \<in> bits p)" using Suc(2,3) i by (intro bitvec_test) (simp_all add: agree_def)
  ultimately show ?case using Suc by simp
qed simp

lemma agree_zero:
  assumes "sz < 2 ^ 31"
  shows "agree sz (replicate ((sz + 7) div 8 + 1) 0) (zero_bitvec sz)"
  using assms zero_bitvec_ok [of sz] by (auto simp: agree_def bitvec_ok_def map_bits_def nth_replicate simp del: replicate_Suc)

section \<open>Properties\<close>

text \<open>The built-in test passes.  For every size below \<open>2 ^ 31\<close>, every random source and every test program
  of set and clear instructions, with allocations that succeed, the interpreter halts after as many steps as
  the counts add up to, within all bounds, and \<open>sqlite3BitvecBuiltinTest\<close> returns 0: bitvec and linear array
  agree on every bit.\<close>

theorem bitvec_builtin_test_passes:
  assumes "0 < sz" "sz < 2 ^ 31" "\<forall>i \<in> set is. instr_ok i" "steps is < fuel"
  shows "sqlite3BitvecBuiltinTest fuel sz rnd (program is) [] = Some 0"
proof -
  define f where "f = fuel - Suc (steps is)"
  have f: "fuel = Suc f + steps is" using assms(4) by (simp add: f_def)
  obtain V p where r: "agree sz V p"
      "test_loop (Suc f + steps is) sz rnd ([] @ program is) (length ([] :: int list)) 0 (replicate ((sz + 7) div 8 + 1) 0) (zero_bitvec sz) [] = Some (False, V, p)"
    using program_run [OF assms(1,3) agree_zero [OF assms(2)]] by blast
  have p: "bitvec_ok p" "iSize p = sz" "bits p \<subseteq> {1..sz}" using r(1) bits_range [of p] by (auto simp: agree_def bitvec_ok_def)
  have "sqlite3BitvecTest (Some p) (sz + 1) = Some False" "sqlite3BitvecTest (Some p) 0 = Some False"
    using bitvec_test [OF p(1), of "sz + 1"] bitvec_test [OF p(1), of 0] p(3) assms(2) by auto
  moreover have "test_loop fuel sz rnd (program is) 0 0 (replicate ((sz + 7) div 8 + 1) 0) (zero_bitvec sz) [] = Some (False, V, p)"
    using r(2) unfolding f append_Nil list.size(3) .
  moreover have "compare_loop sz 1 V p 0 = Some 0" using compare_agree [OF r(1) assms(2), of 1 sz 0] by simp
  ultimately show ?thesis
    using p(2) unfolding sqlite3BitvecBuiltinTest_def
    by (simp add: sqlite3BitvecCreate_def sqlite3BitvecSize_def sqlite3BitvecTest_def del: replicate_Suc test_loop.simps compare_loop.simps)
qed

theorem bitvec_builtin_test_passes_witness:
  "sqlite3BitvecBuiltinTest 1000 5000 (\<lambda>k. int k * 7919) (program [Range True 400 1 1, Random False 20, Range False 7 4 2]) [] = Some 0"
  using bitvec_builtin_test_passes [of 5000 "[Range True 400 1 1, Random False 20, Range False 7 4 2]" 1000]
  by (simp add: steps_def)

end
