(* ===== verification/Rowset.thy ===== *)
theory Rowset
  imports Prelude "HOL-Library.Tree"
begin

text \<open>
  \<open>rowset.c\<close>: the set of rowids a statement collects.  It is filled in batches; either the batches are
  tested for membership, which moves the entries of earlier batches into a forest of search trees, or the
  entries are extracted in ascending order.

  The entries of a \<open>RowSetEntry\<close> list that \<open>pRight\<close> links are an \<open>int list\<close>, the entries that \<open>pLeft\<close> and
  \<open>pRight\<close> link to a tree are a \<open>tree\<close>; the forest is the list of the trees below its header entries.  A NULL
  list is \<open>[]\<close>, a NULL tree is \<open>Leaf\<close>.
\<close>

section \<open>The object\<close>

definition ROWSET_ENTRY_PER_CHUNK :: nat where "ROWSET_ENTRY_PER_CHUNK = 42"

record rowset =
  pChunk :: nat
  nFresh :: nat
  pEntry :: "int list"
  pLast :: "int option"
  pForest :: "int tree list"
  rs_sorted :: bool
  rs_next :: bool
  iBatch :: int

text \<open>\<open>n\<close> is the number of entries that fit behind the object in its allocation.\<close>

definition sqlite3RowSetInit :: "nat \<Rightarrow> rowset" where
  "sqlite3RowSetInit n =
     \<lparr>pChunk = 0, nFresh = n mod 2 ^ 16, pEntry = [], pLast = None, pForest = [], rs_sorted = True, rs_next = False, iBatch = 0\<rparr>"

definition sqlite3RowSetClear :: "rowset \<Rightarrow> rowset" where
  "sqlite3RowSetClear p =
     p\<lparr>pChunk := 0, nFresh := 0, pEntry := [], pLast := None, pForest := [], rs_sorted := True, rs_next := False\<rparr>"

text \<open>An entry from the pool, refilled by a chunk; \<open>al\<close> is the outcome of the allocations to come.\<close>

definition rowSetEntryAlloc :: "rowset \<Rightarrow> bool list \<Rightarrow> bool \<times> rowset \<times> bool list" where
  "rowSetEntryAlloc p al =
     (if nFresh p = 0
      then (case al of
              False # al' \<Rightarrow> (False, p, al')
            | _ \<Rightarrow> (True, p\<lparr>pChunk := pChunk p + 1, nFresh := ROWSET_ENTRY_PER_CHUNK - 1\<rparr>, tl al))
      else (True, p\<lparr>nFresh := nFresh p - 1\<rparr>, al))"

definition sqlite3RowSetInsert :: "rowset \<Rightarrow> int \<Rightarrow> bool list \<Rightarrow> rowset \<times> bool list" where
  "sqlite3RowSetInsert p rowid al =
     (case rowSetEntryAlloc p al of
        (False, p1, al1) \<Rightarrow> (p1, al1)
      | (True, p1, al1) \<Rightarrow>
          (case pLast p1 of
             Some v \<Rightarrow>
               (p1\<lparr>rs_sorted := (if rowid \<le> v then False else rs_sorted p1), pEntry := pEntry p1 @ [rowid], pLast := Some rowid\<rparr>, al1)
           | None \<Rightarrow> (p1\<lparr>pEntry := [rowid], pLast := Some rowid\<rparr>, al1)))"

section \<open>Sorting\<close>

fun rowSetEntryMerge :: "int list \<Rightarrow> int list \<Rightarrow> int list" where
  "rowSetEntryMerge [] pB = pB"
| "rowSetEntryMerge pA [] = pA"
| "rowSetEntryMerge (a # pA) (b # pB) =
     (if a \<le> b
      then (if a < b then a # rowSetEntryMerge pA (b # pB) else rowSetEntryMerge pA (b # pB))
      else b # rowSetEntryMerge (a # pA) pB)"

text \<open>\<open>for(i=0; aBucket[i]; i++)\<close>: past the last bucket the array is overrun, which is \<open>None\<close>.\<close>

fun bucket_insert :: "int list \<Rightarrow> int list option list \<Rightarrow> int list option list option" where
  "bucket_insert pIn [] = None"
| "bucket_insert pIn (None # aBucket) = Some (Some pIn # aBucket)"
| "bucket_insert pIn (Some b # aBucket) = map_option ((#) None) (bucket_insert (rowSetEntryMerge b pIn) aBucket)"

fun bucket_fill :: "int list \<Rightarrow> int list option list \<Rightarrow> int list option list option" where
  "bucket_fill [] aBucket = Some aBucket"
| "bucket_fill (v # pIn) aBucket = bucket_insert [v] aBucket \<bind> bucket_fill pIn"

fun bucket_merge :: "int list \<Rightarrow> int list option list \<Rightarrow> int list" where
  "bucket_merge pIn [] = pIn"
| "bucket_merge pIn (None # aBucket) = bucket_merge pIn aBucket"
| "bucket_merge pIn (Some b # aBucket) = bucket_merge (if pIn = [] then b else rowSetEntryMerge pIn b) aBucket"

definition rowSetEntrySort :: "int list \<Rightarrow> int list option" where
  "rowSetEntrySort pIn =
     map_option (bucket_merge []) (bucket_fill pIn (replicate 40 None))"

section \<open>Trees\<close>

fun rowSetTreeToList :: "int tree \<Rightarrow> int list" where
  "rowSetTreeToList Leaf = []"
| "rowSetTreeToList (Node l v r) = rowSetTreeToList l @ v # rowSetTreeToList r"

text \<open>A tree of the given depth from the head of the list, with the rest of the list.\<close>

fun rowSetNDeepTree :: "int list \<Rightarrow> nat \<Rightarrow> int tree \<times> int list" where
  "rowSetNDeepTree [] iDepth = (Leaf, [])"
| "rowSetNDeepTree (v # pList) (Suc (Suc d)) =
     (case rowSetNDeepTree (v # pList) (Suc d) of
        (pLeft, []) \<Rightarrow> (pLeft, [])
      | (pLeft, x # rest) \<Rightarrow> (case rowSetNDeepTree rest (Suc d) of (pRight, rest') \<Rightarrow> (Node pLeft x pRight, rest')))"
| "rowSetNDeepTree (v # pList) _ = (Node Leaf v Leaf, pList)"

lemma NDeepTree_length: "rowSetNDeepTree xs d = (t, rest) \<Longrightarrow> length rest \<le> length xs"
  by (induct xs d arbitrary: t rest rule: rowSetNDeepTree.induct) (fastforce split: prod.splits list.splits)+

function list_to_tree :: "nat \<Rightarrow> int tree \<Rightarrow> int list \<Rightarrow> int tree" where
  "list_to_tree iDepth p [] = p"
| "list_to_tree iDepth p (v # pList) =
     (case rowSetNDeepTree pList iDepth of (r, rest) \<Rightarrow> list_to_tree (iDepth + 1) (Node p v r) rest)"
  by pat_completeness auto
termination
  by (relation "measure (\<lambda>(d, p, xs). length xs)") (auto simp: less_Suc_eq_le NDeepTree_length [OF sym])

definition rowSetListToTree :: "int list \<Rightarrow> int tree" where
  "rowSetListToTree pList = (case pList of [] \<Rightarrow> Leaf | v # rest \<Rightarrow> list_to_tree 1 (Node Leaf v Leaf) rest)"

section \<open>Extraction\<close>

definition sqlite3RowSetNext :: "rowset \<Rightarrow> (int option \<times> rowset) option" where
  "sqlite3RowSetNext p =
     (case (if rs_next p then Some p
            else do {
              e \<leftarrow> (if rs_sorted p then Some (pEntry p) else rowSetEntrySort (pEntry p));
              Some (p\<lparr>pEntry := e, rs_sorted := True, rs_next := True\<rparr>)
            }) of
        None \<Rightarrow> None
      | Some q \<Rightarrow>
          (case pEntry q of
             [] \<Rightarrow> Some (None, q)
           | v # rest \<Rightarrow>
               (let q' = q\<lparr>pEntry := rest\<rparr> in Some (Some v, if rest = [] then sqlite3RowSetClear q' else q'))))"

section \<open>Membership\<close>

text \<open>
  The loop over the forest: the first empty tree takes the entries; a full one is emptied and merged
  into them.  The second component are the entries left over, when there was no empty tree.
\<close>

fun forest_add :: "int list \<Rightarrow> int tree list \<Rightarrow> int tree list \<times> int list option" where
  "forest_add p [] = ([], Some p)"
| "forest_add p (pTree # rest) =
     (if pTree = Leaf then (rowSetListToTree p # rest, None)
      else (case forest_add (rowSetEntryMerge (rowSetTreeToList pTree) p) rest of (rest', q) \<Rightarrow> (Leaf # rest', q)))"

fun tree_search :: "int \<Rightarrow> int tree \<Rightarrow> bool" where
  "tree_search iRowid Leaf = False"
| "tree_search iRowid (Node l v r) =
     (if v < iRowid then tree_search iRowid r else if v > iRowid then tree_search iRowid l else True)"

definition new_batch :: "rowset \<Rightarrow> bool list \<Rightarrow> (rowset \<times> bool list) option" where
  "new_batch p al =
     (if pEntry p = [] then Some (p, al)
      else do {
        e \<leftarrow> (if rs_sorted p then Some (pEntry p) else rowSetEntrySort (pEntry p));
        (case forest_add e (pForest p) of
           (forest, over) \<Rightarrow>
             (case (case over of
                      None \<Rightarrow> (p\<lparr>pForest := forest\<rparr>, al)
                    | Some q \<Rightarrow>
                        (case rowSetEntryAlloc (p\<lparr>pForest := forest\<rparr>) al of
                           (ok, p1, al1) \<Rightarrow> (if ok then p1\<lparr>pForest := forest @ [rowSetListToTree q]\<rparr> else p1, al1))) of
                (p2, al2) \<Rightarrow> Some (p2\<lparr>pEntry := [], pLast := None, rs_sorted := True\<rparr>, al2)))
      })"

definition sqlite3RowSetTest :: "rowset \<Rightarrow> int \<Rightarrow> int \<Rightarrow> bool list \<Rightarrow> (bool \<times> rowset \<times> bool list) option" where
  "sqlite3RowSetTest p batch iRowid al = do {
     (p1, al1) \<leftarrow> (if batch \<noteq> iBatch p
                   then map_option (\<lambda>(q, al'). (q\<lparr>iBatch := batch\<rparr>, al')) (new_batch p al)
                   else Some (p, al));
     Some (\<exists>t \<in> set (pForest p1). tree_search iRowid t, p1, al1)
   }"

end
