(* ===== verification/Rowset_Props.thy ===== *)
theory Rowset_Props
  imports Rowset
begin

text \<open>
  Sorting a row set, building and flattening its trees, and the two ways to use it: tests in batches
  refine an abstract machine of two sets, extraction yields the ascending list of what was inserted.
\<close>

section \<open>Sorting\<close>

lemma merge_Nil [simp]: "rowSetEntryMerge pA [] = pA"
  by (cases pA) simp_all

lemma set_merge [simp]: "set (rowSetEntryMerge pA pB) = set pA \<union> set pB"
  by (induct pA pB rule: rowSetEntryMerge.induct) auto

lemma merge_ascending:
  "sorted_wrt (<) pA \<Longrightarrow> sorted_wrt (<) pB \<Longrightarrow> sorted_wrt (<) (rowSetEntryMerge pA pB)"
proof (induct pA pB rule: rowSetEntryMerge.induct)
  case (3 a pA b pB)
  then have "\<forall>x \<in> set pA. a < x" "\<forall>x \<in> set pB. b < x" by simp_all
  then show ?case using 3 by (cases "a < b"; cases "a = b") auto
qed simp_all

text \<open>The buckets as a binary counter: bucket \<open>i\<close> is filled when bit \<open>i\<close> of the number of entries is set.\<close>

fun bucket_value :: "int list option list \<Rightarrow> nat" where
  "bucket_value [] = 0"
| "bucket_value (None # bs) = 2 * bucket_value bs"
| "bucket_value (Some b # bs) = 2 * bucket_value bs + 1"

definition bucket_set :: "int list option list \<Rightarrow> int set" where
  "bucket_set bs = \<Union> (set ` (\<Union> (set_option ` set bs)))"

definition buckets_ok :: "int list option list \<Rightarrow> bool" where
  "buckets_ok bs \<longleftrightarrow> (\<forall>b. Some b \<in> set bs \<longrightarrow> b \<noteq> [] \<and> sorted_wrt (<) b)"

lemma bucket_simps [simp]:
  "bucket_set [] = {}" "bucket_set (None # bs) = bucket_set bs" "bucket_set (Some b # bs) = set b \<union> bucket_set bs"
  "buckets_ok []" "buckets_ok (None # bs) = buckets_ok bs" "buckets_ok (Some b # bs) = (b \<noteq> [] \<and> sorted_wrt (<) b \<and> buckets_ok bs)"
  by (auto simp: bucket_set_def buckets_ok_def)

lemma bucket_insert_ok:
  assumes "buckets_ok bs" "bucket_value bs + 1 < 2 ^ length bs" "x \<noteq> []" "sorted_wrt (<) x"
  shows "\<exists>bs'. bucket_insert x bs = Some bs' \<and> buckets_ok bs' \<and> bucket_value bs' = bucket_value bs + 1 \<and>
    length bs' = length bs \<and> bucket_set bs' = set x \<union> bucket_set bs"
  using assms
proof (induct x bs rule: bucket_insert.induct)
  case (3 x b bs)
  have "rowSetEntryMerge b x \<noteq> []" using 3(4) by (metis set_merge set_empty Un_empty)
  then obtain bs' where "bucket_insert (rowSetEntryMerge b x) bs = Some bs'" "buckets_ok bs'" "bucket_value bs' = bucket_value bs + 1"
     "length bs' = length bs" "bucket_set bs' = set (rowSetEntryMerge b x) \<union> bucket_set bs"
    using 3(1) 3(2-) merge_ascending by auto
  then show ?case by auto
qed auto

lemma bucket_fill_ok:
  assumes "buckets_ok bs" "bucket_value bs + length xs < 2 ^ length bs"
  shows "\<exists>bs'. bucket_fill xs bs = Some bs' \<and> buckets_ok bs' \<and> bucket_set bs' = set xs \<union> bucket_set bs"
  using assms
proof (induct xs arbitrary: bs)
  case (Cons v xs)
  then obtain b1 where b: "bucket_insert [v] bs = Some b1" "buckets_ok b1" "bucket_value b1 = bucket_value bs + 1"
      "length b1 = length bs" "bucket_set b1 = {v} \<union> bucket_set bs"
    using bucket_insert_ok [of bs "[v]"] by auto
  then obtain bs' where "bucket_fill xs b1 = Some bs'" "buckets_ok bs'" "bucket_set bs' = set xs \<union> bucket_set b1"
    using Cons(1) [of b1] Cons(3) by auto
  then show ?case using b by auto
qed simp

lemma bucket_merge_ok:
  assumes "buckets_ok bs" "sorted_wrt (<) p"
  shows "sorted_wrt (<) (bucket_merge p bs) \<and> set (bucket_merge p bs) = set p \<union> bucket_set bs"
  using assms
  by (induct p bs rule: bucket_merge.induct) (auto simp: merge_ascending)

lemma sort_ok:
  assumes "length xs < 2 ^ 40"
  shows "\<exists>ys. rowSetEntrySort xs = Some ys \<and> sorted_wrt (<) ys \<and> set ys = set xs"
proof -
  have z: "buckets_ok (replicate n None)" "bucket_value (replicate n None) = 0" "bucket_set (replicate n None) = {}" for n
    by (induct n) simp_all
  obtain bs where "bucket_fill xs (replicate 40 None) = Some bs" "buckets_ok bs" "bucket_set bs = set xs"
    using bucket_fill_ok [of "replicate 40 None" xs] z [of 40] assms by auto
  then show ?thesis using bucket_merge_ok [of bs "[]"] by (auto simp: rowSetEntrySort_def)
qed

section \<open>Trees\<close>

lemma TreeToList_inorder: "rowSetTreeToList t = inorder t"
  by (induct t) simp_all

text \<open>A tree of depth \<open>d\<close> takes as many entries as fit, and is full when entries are left.\<close>


lemma NDeepTree_ok:
  assumes "rowSetNDeepTree xs d = (t, rest)" "1 \<le> d"
  shows "inorder t @ rest = xs \<and> height t \<le> d \<and> (rest \<noteq> [] \<longrightarrow> complete t \<and> height t = d)"
  using assms
proof (induct xs d arbitrary: t rest rule: rowSetNDeepTree.induct)
  case (2 v xs d)
  obtain l r1 where 1: "rowSetNDeepTree (v # xs) (Suc d) = (l, r1)" by (cases "rowSetNDeepTree (v # xs) (Suc d)")
  note i1 = 2(1) [OF 1]
  show ?case
  proof (cases r1)
    case Nil
    then show ?thesis using 2(3) 1 i1 by auto
  next
    case (Cons x r2)
    obtain r rest' where 3: "rowSetNDeepTree r2 (Suc d) = (r, rest')" by (cases "rowSetNDeepTree r2 (Suc d)")
    note i2 = 2(2) [OF 1 [symmetric] Cons 3]
    show ?thesis using 2(3) 1 Cons 3 i1 i2 by auto
  qed
qed auto

lemma list_to_tree_ok:
  assumes "1 \<le> d" "complete p" "height p = d"
  shows "inorder (list_to_tree d p xs) = inorder p @ xs \<and>
    2 ^ (height (list_to_tree d p xs) - 1) \<le> size (list_to_tree d p xs)"
  using assms
proof (induct d p xs rule: list_to_tree.induct)
  case (1 d p)
  have "size p = 2 ^ d - 1" using 1 size_if_complete by auto
  moreover have "(2 :: nat) ^ d = 2 * 2 ^ (d - 1)" using 1(1) by (cases d) simp_all
  ultimately show ?case using 1 by (simp add: Suc_le_eq)
next
  case (2 d p v xs)
  obtain r rest where r: "rowSetNDeepTree xs d = (r, rest)" by (cases "rowSetNDeepTree xs d")
  note n = NDeepTree_ok [OF r 2(2)]
  show ?case
  proof (cases rest)
    case Nil
    have "size p = 2 ^ d - 1" using 2(3,4) size_if_complete by auto
    moreover have "height (Node p v r) = d + 1" using n 2(4) by simp
    ultimately show ?thesis using r Nil n by simp
  next
    case (Cons x ys)
    then have "complete (Node p v r)" "height (Node p v r) = d + 1" using n 2(3,4) by simp_all
    then show ?thesis using 2(1) [OF r [symmetric]] r n by simp
  qed
qed

lemma ListToTree_ok:
  "inorder (rowSetListToTree xs) = xs" "xs \<noteq> [] \<Longrightarrow> 2 ^ (height (rowSetListToTree xs) - 1) \<le> length xs"
  "rowSetListToTree xs = Leaf \<longleftrightarrow> xs = []"
proof -
  have *: "inorder (rowSetListToTree xs) = xs \<and> (xs \<noteq> [] \<longrightarrow> 2 ^ (height (rowSetListToTree xs) - 1) \<le> size (rowSetListToTree xs))" for xs
    using list_to_tree_ok [of 1 "Node Leaf v Leaf" for v] by (auto simp: rowSetListToTree_def split: list.split)
  then show "inorder (rowSetListToTree xs) = xs" by blast
  show "rowSetListToTree xs = Leaf \<longleftrightarrow> xs = []" using * [of xs] by (metis inorder.simps(1) rowSetListToTree_def list.simps(4))
  show "xs \<noteq> [] \<Longrightarrow> 2 ^ (height (rowSetListToTree xs) - 1) \<le> length xs"
    using * [of xs] by (metis length_inorder)
qed

lemma tree_search_ok: "sorted_wrt (<) (inorder t) \<Longrightarrow> tree_search x t \<longleftrightarrow> x \<in> set (inorder t)"
  by (induct t) (auto simp: sorted_wrt_append)

lemma set_ListToTree [simp]: "set_tree (rowSetListToTree xs) = set xs"
  using ListToTree_ok(1) [of xs] by (metis set_inorder)

section \<open>The invariant\<close>

definition visible :: "rowset \<Rightarrow> int set" where
  "visible p = (\<Union>t \<in> set (pForest p). set (inorder t))"

definition pending :: "rowset \<Rightarrow> int set" where
  "pending p = set (pEntry p)"

definition ascending_trees :: "int tree list \<Rightarrow> bool" where
  "ascending_trees ts \<longleftrightarrow> (\<forall>t \<in> set ts. sorted_wrt (<) (inorder t))"

definition rowset_ok :: "rowset \<Rightarrow> bool" where
  "rowset_ok p \<longleftrightarrow> (rs_sorted p \<longrightarrow> sorted_wrt (<) (pEntry p)) \<and>
     pLast p = (if pEntry p = [] then None else Some (last (pEntry p))) \<and>
     ascending_trees (pForest p) \<and> \<not> rs_next p"

lemma init_ok: "rowset_ok (sqlite3RowSetInit n)" "visible (sqlite3RowSetInit n) = {}" "pEntry (sqlite3RowSetInit n) = []"
  "iBatch (sqlite3RowSetInit n) = 0"
  by (simp_all add: sqlite3RowSetInit_def rowset_ok_def visible_def ascending_trees_def)

lemma alloc_fields:
  assumes "rowSetEntryAlloc p al = (ok, p1, al1)"
  shows "pEntry p1 = pEntry p \<and> pLast p1 = pLast p \<and> pForest p1 = pForest p \<and> rs_sorted p1 = rs_sorted p \<and>
    rs_next p1 = rs_next p \<and> iBatch p1 = iBatch p \<and> (al = [] \<longrightarrow> ok \<and> al1 = [])"
  using assms by (auto simp: rowSetEntryAlloc_def split: if_splits list.splits bool.splits)

lemma ascending_snoc: "sorted_wrt (<) (xs @ [x]) \<longleftrightarrow> sorted_wrt (<) xs \<and> (xs \<noteq> [] \<longrightarrow> last xs < (x :: int))"
proof (cases xs rule: rev_cases)
  case (snoc ys y)
  then show ?thesis by (fastforce simp: sorted_wrt_append)
qed simp

lemma insert_ok:
  assumes "rowset_ok p" "sqlite3RowSetInsert p r al = (p', al')"
  shows "rowset_ok p' \<and> visible p' = visible p \<and> iBatch p' = iBatch p \<and>
    pEntry p' \<in> {pEntry p, pEntry p @ [r]} \<and> (al = [] \<longrightarrow> pEntry p' = pEntry p @ [r] \<and> al' = [])"
proof -
  obtain ok p1 al1 where a: "rowSetEntryAlloc p al = (ok, p1, al1)" by (cases "rowSetEntryAlloc p al")
  note f = alloc_fields [OF a]
  show ?thesis
  proof (cases "ok \<and> pEntry p \<noteq> []")
    case True
    then have "pLast p1 = Some (last (pEntry p))" using f assms(1) by (simp add: rowset_ok_def)
    then show ?thesis using assms a True f
      by (cases "r \<le> last (pEntry p)"; cases "rs_sorted p") (auto simp: sqlite3RowSetInsert_def rowset_ok_def visible_def ascending_snoc)
  next
    case False
    then show ?thesis using assms a f by (cases ok) (auto simp: sqlite3RowSetInsert_def rowset_ok_def visible_def)
  qed
qed

section \<open>Batches\<close>

definition over_set :: "int list option \<Rightarrow> int set" where
  "over_set q = (case q of None \<Rightarrow> {} | Some xs \<Rightarrow> set xs)"

lemma forest_add_ok:
  assumes "forest_add p ts = (ts', q)" "sorted_wrt (<) p" "ascending_trees ts"
  shows "ascending_trees ts' \<and> (\<Union>t \<in> set ts'. set (inorder t)) \<union> over_set q = (\<Union>t \<in> set ts. set (inorder t)) \<union> set p \<and>
    (\<forall>xs. q = Some xs \<longrightarrow> sorted_wrt (<) xs)"
  using assms
proof (induct p ts arbitrary: ts' q rule: forest_add.induct)
  case (2 p t ts)
  show ?case
  proof (cases "t = Leaf")
    case True
    then show ?thesis using 2(2-4) by (auto simp: ascending_trees_def ListToTree_ok(1) over_set_def)
  next
    case False
    obtain ts1 q1 where 1: "forest_add (rowSetEntryMerge (rowSetTreeToList t) p) ts = (ts1, q1)"
      by (cases "forest_add (rowSetEntryMerge (rowSetTreeToList t) p) ts")
    have "sorted_wrt (<) (rowSetEntryMerge (rowSetTreeToList t) p)" "ascending_trees ts"
      using 2(3,4) by (auto simp: TreeToList_inorder ascending_trees_def intro!: merge_ascending)
    note i = 2(1) [OF False 1 this]
    have e: "ts' = Leaf # ts1" "q = q1" using 2(2) False 1 by simp_all
    show ?thesis unfolding e using i by (simp add: ascending_trees_def TreeToList_inorder Un_ac)
  qed
qed (simp_all add: over_set_def)

lemma new_batch_ok:
  assumes p: "rowset_ok p" and len: "length (pEntry p) < 2 ^ 40"
  shows "\<exists>p'. new_batch p [] = Some (p', []) \<and> rowset_ok p' \<and> visible p' = visible p \<union> pending p \<and> pEntry p' = []"
proof (cases "pEntry p = []")
  case True
  then show ?thesis using p by (simp add: new_batch_def pending_def)
next
  case False
  obtain e where e: "(if rs_sorted p then Some (pEntry p) else rowSetEntrySort (pEntry p)) = Some e" "sorted_wrt (<) e" "set e = pending p"
    using sort_ok [OF len] p by (cases "rs_sorted p") (auto simp: rowset_ok_def pending_def)
  obtain ts q where t: "forest_add e (pForest p) = (ts, q)" by (cases "forest_add e (pForest p)")
  have f: "ascending_trees ts" "(\<Union>t \<in> set ts. set (inorder t)) \<union> over_set q = visible p \<union> pending p"
      "\<And>xs. q = Some xs \<Longrightarrow> sorted_wrt (<) xs"
    using forest_add_ok [OF t e(2)] p by (auto simp: rowset_ok_def visible_def e(3))
  show ?thesis
  proof (cases q)
    case None
    then show ?thesis using False e(1) t f p by (auto simp: new_batch_def rowset_ok_def visible_def over_set_def)
  next
    case (Some xs)
    obtain ok p1 al1 where a: "rowSetEntryAlloc (p\<lparr>pForest := ts\<rparr>) [] = (ok, p1, al1)" by (cases "rowSetEntryAlloc (p\<lparr>pForest := ts\<rparr>) []")
    let ?p = "p1\<lparr>pForest := ts @ [rowSetListToTree xs], pEntry := [], pLast := None, rs_sorted := True\<rparr>"
    have "new_batch p [] = Some (?p, [])"
      using False e(1) t Some a alloc_fields [OF a] by (simp add: new_batch_def)
    moreover have "ascending_trees (ts @ [rowSetListToTree xs])" using f(1,3) Some by (auto simp: ascending_trees_def ListToTree_ok(1))
    moreover have "visible ?p = visible p \<union> pending p" using f(2) Some by (auto simp: visible_def ListToTree_ok(1) over_set_def)
    ultimately show ?thesis using alloc_fields [OF a] p by (auto simp: rowset_ok_def)
  qed
qed

lemma test_ok:
  assumes p: "rowset_ok p" and len: "length (pEntry p) < 2 ^ 40"
  shows "\<exists>p'. sqlite3RowSetTest p b r [] = Some (r \<in> visible p', p', []) \<and> rowset_ok p' \<and> iBatch p' = b \<and>
    visible p' = (if b \<noteq> iBatch p then visible p \<union> pending p else visible p) \<and> pEntry p' = (if b \<noteq> iBatch p then [] else pEntry p)"
proof -
  have s: "(\<exists>t \<in> set (pForest q). tree_search r t) \<longleftrightarrow> r \<in> visible q" if "rowset_ok q" for q
    using that tree_search_ok by (auto simp: rowset_ok_def ascending_trees_def visible_def)
  show ?thesis
  proof (cases "b = iBatch p")
    case True
    then show ?thesis using p s [OF p] by (simp add: sqlite3RowSetTest_def)
  next
    case False
    obtain p' where n: "new_batch p [] = Some (p', [])" "rowset_ok p'" "visible p' = visible p \<union> pending p" "pEntry p' = []"
      using new_batch_ok [OF p len] by blast
    have "rowset_ok (p'\<lparr>iBatch := b\<rparr>)" "visible (p'\<lparr>iBatch := b\<rparr>) = visible p'" using n(2) by (simp_all add: rowset_ok_def visible_def)
    then show ?thesis using False n s [of "p'\<lparr>iBatch := b\<rparr>"] by (auto simp: sqlite3RowSetTest_def)
  qed
qed

section \<open>The interface\<close>

datatype rs_op = RsInsert int | RsTest int int

text \<open>What a statement observes of a row set: the results of its tests.\<close>

fun rowset_run :: "rowset \<Rightarrow> rs_op list \<Rightarrow> bool list option" where
  "rowset_run p [] = Some []"
| "rowset_run p (RsInsert r # ops) = rowset_run (fst (sqlite3RowSetInsert p r [])) ops"
| "rowset_run p (RsTest b r # ops) = do {
     (x, p', _) \<leftarrow> sqlite3RowSetTest p b r [];
     xs \<leftarrow> rowset_run p' ops;
     Some (x # xs)
   }"

text \<open>The specification: insertions are pending until a test names a new batch.\<close>

fun batch_run :: "int set \<Rightarrow> int set \<Rightarrow> int \<Rightarrow> rs_op list \<Rightarrow> bool list" where
  "batch_run V P b [] = []"
| "batch_run V P b (RsInsert r # ops) = batch_run V (insert r P) b ops"
| "batch_run V P b (RsTest b' r # ops) =
     (if b' \<noteq> b then (r \<in> V \<union> P) # batch_run (V \<union> P) {} b' ops else (r \<in> V) # batch_run V P b ops)"

lemma rowset_run_ok:
  "rowset_ok p \<Longrightarrow> length (pEntry p) + length ops < 2 ^ 40 \<Longrightarrow>
   rowset_run p ops = Some (batch_run (visible p) (pending p) (iBatch p) ops)"
proof (induct ops arbitrary: p)
  case (Cons x ops)
  show ?case
  proof (cases x)
    case (RsInsert r)
    obtain p' al' where i: "sqlite3RowSetInsert p r [] = (p', al')" by (cases "sqlite3RowSetInsert p r []")
    note k = insert_ok [OF Cons(2) i]
    then have "pending p' = insert r (pending p)" by (auto simp: pending_def)
    then show ?thesis using Cons(1) [of p'] Cons(3) k i RsInsert by auto
  next
    case (RsTest b r)
    have "length (pEntry p) < 2 ^ 40" using Cons(3) by simp
    from test_ok [OF Cons(2) this, of b r] obtain p' where t: "sqlite3RowSetTest p b r [] = Some (r \<in> visible p', p', [])"
        "rowset_ok p'" "iBatch p' = b" "visible p' = (if b \<noteq> iBatch p then visible p \<union> pending p else visible p)"
        "pEntry p' = (if b \<noteq> iBatch p then [] else pEntry p)" by blast
    have "rowset_run p' ops = Some (batch_run (visible p') (pending p') b ops)" using Cons(1) [OF t(2)] Cons(3) t(3,5) by auto
    then show ?thesis using t RsTest by (auto simp: pending_def)
  qed
qed simp

text \<open>Repeated extraction until the set is empty.\<close>

fun rowset_drain :: "nat \<Rightarrow> rowset \<Rightarrow> int list option" where
  "rowset_drain 0 p = None"
| "rowset_drain (Suc f) p =
     (case sqlite3RowSetNext p of
        None \<Rightarrow> None
      | Some (None, _) \<Rightarrow> Some []
      | Some (Some v, p') \<Rightarrow> map_option ((#) v) (rowset_drain f p'))"

lemma drain_next:
  "rs_next p \<Longrightarrow> length (pEntry p) < f \<Longrightarrow> rowset_drain f p = Some (pEntry p)"
proof (induct f arbitrary: p)
  case (Suc f)
  show ?case
  proof (cases "pEntry p")
    case (Cons v rest)
    show ?thesis
    proof (cases rest)
      case Nil
      have "rowset_drain f (sqlite3RowSetClear q) = Some []" for q
        using Suc(3) Cons by (cases f) (simp_all add: sqlite3RowSetNext_def sqlite3RowSetClear_def)
      then show ?thesis using Suc(2) Cons Nil by (simp add: sqlite3RowSetNext_def Let_def)
    next
      case (Cons w rest')
      then show ?thesis using Suc \<open>pEntry p = v # rest\<close> by (simp add: sqlite3RowSetNext_def Let_def)
    qed
  qed (use Suc in \<open>simp add: sqlite3RowSetNext_def\<close>)
qed simp

lemma drain_ok:
  assumes "rowset_ok p" "length (pEntry p) < 2 ^ 40" "length (pEntry p) + 1 < f"
  shows "rowset_drain f p = Some (sorted_list_of_set (pending p))"
proof -
  obtain e where e: "(if rs_sorted p then Some (pEntry p) else rowSetEntrySort (pEntry p)) = Some e" "sorted_wrt (<) e" "set e = pending p"
    using sort_ok [OF assms(2)] assms(1) by (cases "rs_sorted p") (auto simp: rowset_ok_def pending_def)
  define q where "q = p\<lparr>pEntry := e, rs_sorted := True, rs_next := True\<rparr>"
  have "sqlite3RowSetNext p = sqlite3RowSetNext q"
    using e(1) assms(1) by (simp add: sqlite3RowSetNext_def q_def rowset_ok_def)
  then have "rowset_drain f p = rowset_drain f q" using assms(3) by (cases f) simp_all
  moreover have eq: "e = sorted_list_of_set (pending p)"
    using e(2,3) by (intro strict_sorted_equal) (simp_all add: pending_def)
  moreover have "length e \<le> length (pEntry p)"
    using e(2,3) by (metis List.card_set card_length pending_def eq length_sorted_list_of_set)
  ultimately show ?thesis using drain_next [of q f] assms(3) by (simp add: q_def)
qed

section \<open>Properties\<close>

text \<open>C27. Refinement.  For every sequence of fewer than \<open>2 ^ 40\<close> insertions and tests on a new row set, with
  allocations that succeed, the tests answer as the specification with two sets does: a value is found
  exactly when it was inserted before the last change of the batch number, whatever the order of the
  insertions and however the forest of trees has been merged; the sorting never overruns its 40 buckets.\<close>

theorem rowset_test_refines:
  assumes "length ops < 2 ^ 40"
  shows "rowset_run (sqlite3RowSetInit n) ops = Some (batch_run {} {} 0 ops)"
  using rowset_run_ok [OF init_ok(1) [of n], of ops] assms by (simp add: init_ok pending_def)

theorem rowset_test_refines_witness:
  "rowset_run (sqlite3RowSetInit 3) [RsInsert 5, RsInsert 2, RsTest 0 5, RsTest 1 5, RsInsert 9, RsTest 1 9, RsTest 2 9, RsTest 2 2]
     = Some [False, True, False, True, True]"
  using rowset_test_refines [of "[RsInsert 5, RsInsert 2, RsTest 0 5, RsTest 1 5, RsInsert 9, RsTest 1 9, RsTest 2 9, RsTest 2 2]" 3]
  by simp

text \<open>C28. Extraction.  From a row set with entries inserted in any order, repeated calls of
  \<open>sqlite3RowSetNext\<close> return every value once, in ascending order, then 0: at most one call more than there
  were insertions.\<close>

theorem rowset_next_sorted:
  assumes "rowset_ok p" "length (pEntry p) < 2 ^ 40"
  shows "rowset_drain (length (pEntry p) + 2) p = Some (sorted_list_of_set (pending p))"
  by (rule drain_ok [OF assms]) simp

theorem rowset_next_sorted_witness:
  "\<exists>p. pEntry p = [7, 3, 7] \<and> rowset_drain 5 p = Some [3, 7]"
proof -
  define p where "p = fst (sqlite3RowSetInsert (fst (sqlite3RowSetInsert (fst (sqlite3RowSetInsert (sqlite3RowSetInit 3) 7 [])) 3 [])) 7 [])"
  have p: "rowset_ok p" "pEntry p = [7, 3, 7]"
    by (simp_all add: p_def sqlite3RowSetInit_def sqlite3RowSetInsert_def rowSetEntryAlloc_def rowset_ok_def ascending_trees_def)
  have "length (pEntry p) + 2 = 5" by (simp add: p)
  moreover have "pending p = set [3, 7]" by (auto simp: pending_def p)
  then have "sorted_list_of_set (pending p) = [3, 7]" by (simp only: sorted_list_of_set_sort_remdups) simp
  moreover have "length (pEntry p) < 2 ^ 40" by (simp add: p)
  ultimately show ?thesis using rowset_next_sorted [OF p(1)] p(2) by metis
qed

text \<open>\<open>rowSetListToTree\<close> builds a search tree of least height: an ascending list becomes a tree with the
  same elements in order, found by the search loop and listed again by \<open>rowSetTreeToList\<close>, and a tree of height
  \<open>h\<close> has at least \<open>2 ^ (h - 1)\<close> entries, so no search takes more than \<open>1 + log2 n\<close> steps.\<close>

theorem rowset_tree_balanced:
  assumes "sorted_wrt (<) xs" "xs \<noteq> []"
  shows "rowSetTreeToList (rowSetListToTree xs) = xs \<and> (tree_search x (rowSetListToTree xs) \<longleftrightarrow> x \<in> set xs) \<and>
    2 ^ (height (rowSetListToTree xs) - 1) \<le> length xs"
  using assms ListToTree_ok(1) [of xs] ListToTree_ok(2) [of xs] tree_search_ok [of "rowSetListToTree xs" x]
  by (simp add: TreeToList_inorder)

theorem rowset_tree_balanced_witness:
  "tree_search 4 (rowSetListToTree [1, 4, 6, 9]) \<and> 2 ^ (height (rowSetListToTree [1, 4, 6, 9]) - 1) \<le> (4 :: nat)"
  using rowset_tree_balanced [of "[1, 4, 6, 9]" 4] by simp

end
