(* ===== verification/Util_Text.thy ===== *)
theory Util_Text
  imports Prelude
begin

text \<open>
  The text helpers of \<open>util.c\<close>, \<open>global.c\<close> and \<open>pragma.c\<close>: character classes,
  case-insensitive comparison and hashing, SQL dequoting, hexadecimal digits, 32-bit integer parsing
  and the boolean reading of a pragma argument.

  A NUL-terminated C string is the \<open>byte list\<close> of the bytes before the terminator; reading
  \<open>*z\<close> at the end of the list yields the terminator 0 (\<open>hd0\<close>).  A pointer that may be NULL is
  an \<open>option\<close>.
\<close>

section \<open>Character classes\<close>

definition hd0 :: "byte list \<Rightarrow> byte" where
  "hd0 z = (case z of [] \<Rightarrow> 0 | c # _ \<Rightarrow> c)"

lemma hd0_simps [simp]: "hd0 [] = 0" "hd0 (c # z) = c"
  by (simp_all add: hd0_def)

definition UpperToLower :: "byte \<Rightarrow> byte" where
  "UpperToLower c = (if 65 \<le> c \<and> c \<le> 90 then c + 32 else c)"

definition sqlite3Isspace :: "byte \<Rightarrow> bool" where
  "sqlite3Isspace c \<longleftrightarrow> c = 32 \<or> 9 \<le> c \<and> c \<le> 13"

definition sqlite3Isdigit :: "byte \<Rightarrow> bool" where
  "sqlite3Isdigit c \<longleftrightarrow> 48 \<le> c \<and> c \<le> 57"

definition sqlite3Isxdigit :: "byte \<Rightarrow> bool" where
  "sqlite3Isxdigit c \<longleftrightarrow> 48 \<le> c \<and> c \<le> 57 \<or> 65 \<le> c \<and> c \<le> 70 \<or> 97 \<le> c \<and> c \<le> 102"

definition sqlite3Isquote :: "byte \<Rightarrow> bool" where
  "sqlite3Isquote c \<longleftrightarrow> c = 34 \<or> c = 39 \<or> c = 91 \<or> c = 96"

section \<open>Case-insensitive comparison\<close>

fun sqlite3StrICmp :: "byte list \<Rightarrow> byte list \<Rightarrow> int" where
  "sqlite3StrICmp (c # a) (x # b) =
     (if c = x then (if c = 0 then 0 else sqlite3StrICmp a b)
      else let d = uint (UpperToLower c) - uint (UpperToLower x)
           in if d \<noteq> 0 then d else sqlite3StrICmp a b)"
| "sqlite3StrICmp [] (x # b) = (if x = 0 then 0 else - uint (UpperToLower x))"
| "sqlite3StrICmp (c # a) [] = (if c = 0 then 0 else uint (UpperToLower c))"
| "sqlite3StrICmp [] [] = 0"

definition sqlite3_stricmp :: "byte list option \<Rightarrow> byte list option \<Rightarrow> int" where
  "sqlite3_stricmp zLeft zRight =
     (case zLeft of
        None \<Rightarrow> (case zRight of None \<Rightarrow> 0 | Some _ \<Rightarrow> -1)
      | Some a \<Rightarrow> (case zRight of None \<Rightarrow> 1 | Some b \<Rightarrow> sqlite3StrICmp a b))"

text \<open>The loop of \<open>sqlite3_strnicmp\<close>: the counter is decremented before each test.\<close>

fun strnicmp_loop :: "byte list \<Rightarrow> byte list \<Rightarrow> int \<Rightarrow> int \<times> byte list \<times> byte list" where
  "strnicmp_loop [] b N = (N - 1, [], b)"
| "strnicmp_loop (c # a) b N =
     (if N > 0 \<and> c \<noteq> 0 \<and> UpperToLower c = UpperToLower (hd0 b)
      then strnicmp_loop a (tl b) (N - 1) else (N - 1, c # a, b))"

definition sqlite3_strnicmp :: "byte list option \<Rightarrow> byte list option \<Rightarrow> int \<Rightarrow> int" where
  "sqlite3_strnicmp zLeft zRight N =
     (case zLeft of
        None \<Rightarrow> (case zRight of None \<Rightarrow> 0 | Some _ \<Rightarrow> -1)
      | Some za \<Rightarrow> (case zRight of None \<Rightarrow> 1
         | Some zb \<Rightarrow>
            (case strnicmp_loop za zb N of (n, a, b) \<Rightarrow>
               if n < 0 then 0 else uint (UpperToLower (hd0 a)) - uint (UpperToLower (hd0 b)))))"

abbreviation sqlite3StrNICmp :: "byte list \<Rightarrow> byte list \<Rightarrow> int \<Rightarrow> int" where
  "sqlite3StrNICmp a b N \<equiv> sqlite3_strnicmp (Some a) (Some b) N"

fun StrIHash_loop :: "byte \<Rightarrow> byte list \<Rightarrow> byte" where
  "StrIHash_loop h [] = h"
| "StrIHash_loop h (c # z) = (if c = 0 then h else StrIHash_loop (h + UpperToLower c) z)"

definition sqlite3StrIHash :: "byte list option \<Rightarrow> byte" where
  "sqlite3StrIHash z = (case z of None \<Rightarrow> 0 | Some s \<Rightarrow> StrIHash_loop 0 s)"

section \<open>Dequoting\<close>

text \<open>
  The loop of \<open>sqlite3Dequote\<close> over \<open>z[i..]\<close> with the bytes already moved to \<open>z[0..j)\<close>.
  The assertion \<open>z[i]\<close> is false when the closing quote is missing: the string is then read past
  its terminator, which is \<open>None\<close>.
\<close>

fun Dequote_loop :: "byte \<Rightarrow> byte list \<Rightarrow> byte list \<Rightarrow> byte list option" where
  "Dequote_loop quote [] out = None"
| "Dequote_loop quote (c # z) out =
     (if c = quote then
        (case z of d # z' \<Rightarrow> if d = quote then Dequote_loop quote z' (out @ [quote]) else Some out
         | [] \<Rightarrow> Some out)
      else Dequote_loop quote z (out @ [c]))"

definition sqlite3Dequote :: "byte list option \<Rightarrow> byte list option option" where
  "sqlite3Dequote z =
     (case z of None \<Rightarrow> Some None
      | Some s \<Rightarrow>
         (let quote = hd0 s in
          if \<not> sqlite3Isquote quote then Some (Some s)
          else let q = (if quote = 91 then 93 else quote)
               in map_option Some (Dequote_loop q (tl s) [])))"

section \<open>Hexadecimal\<close>

definition sqlite3HexToInt :: "byte \<Rightarrow> byte" where
  "sqlite3HexToInt h = (h + 9 * (1 AND drop_bit 6 h)) AND 0xf"

fun HexToBlob_loop :: "byte list \<Rightarrow> byte list" where
  "HexToBlob_loop (a # b # z) =
     (push_bit 4 (sqlite3HexToInt a) OR sqlite3HexToInt b) # HexToBlob_loop z"
| "HexToBlob_loop _ = []"

section \<open>32-bit integers from text\<close>

fun skip_zeros :: "byte list \<Rightarrow> byte list" where
  "skip_zeros [] = []"
| "skip_zeros (c # z) = (if c = 48 then skip_zeros z else c # z)"

text \<open>\<open>for(i=0; i<k && isxdigit(z[i]); i++) u = u*16 + hex(z[i])\<close>: the value and \<open>&z[i]\<close>.\<close>

fun hex_run :: "nat \<Rightarrow> u32 \<Rightarrow> byte list \<Rightarrow> u32 \<times> byte list" where
  "hex_run 0 u z = (u, z)"
| "hex_run (Suc k) u [] = (u, [])"
| "hex_run (Suc k) u (c # z) =
     (if sqlite3Isxdigit c then hex_run k (u * 16 + ucast (sqlite3HexToInt c)) z else (u, c # z))"

text \<open>\<open>for(i=0; i<k && isdigit(z[i]); i++) v = v*10 + c\<close>: the number of digits and the value.\<close>

fun dec_run :: "nat \<Rightarrow> nat \<Rightarrow> int \<Rightarrow> byte list \<Rightarrow> nat \<times> int" where
  "dec_run 0 i v z = (i, v)"
| "dec_run (Suc k) i v [] = (i, v)"
| "dec_run (Suc k) i v (c # z) =
     (if sqlite3Isdigit c then dec_run k (Suc i) (v * 10 + (uint c - 48)) z else (i, v))"

definition GetInt32_dec :: "bool \<Rightarrow> byte list \<Rightarrow> int option" where
  "GetInt32_dec neg zNum =
     (if \<not> sqlite3Isdigit (hd0 zNum) then None
      else case dec_run 11 0 0 (skip_zeros zNum) of (i, v) \<Rightarrow>
        if i > 10 then None
        else if v - (if neg then 1 else 0) > 2147483647 then None
        else Some (if neg then - v else v))"

definition GetInt32_hex :: "byte list \<Rightarrow> int option" where
  "GetInt32_hex zNum =
     (case hex_run 8 0 (skip_zeros zNum) of (u, rest) \<Rightarrow>
        if u AND 0x80000000 = 0 \<and> \<not> sqlite3Isxdigit (hd0 rest) then Some (uint u) else None)"

definition sqlite3GetInt32 :: "byte list \<Rightarrow> int option" where
  "sqlite3GetInt32 zNum =
     (if hd0 zNum = 45 then GetInt32_dec True (tl zNum)
      else if hd0 zNum = 43 then GetInt32_dec False (tl zNum)
      else if hd0 zNum = 48 \<and> (hd0 (tl zNum) = 120 \<or> hd0 (tl zNum) = 88)
              \<and> sqlite3Isxdigit (hd0 (tl (tl zNum)))
      then GetInt32_hex (tl (tl zNum))
      else GetInt32_dec False zNum)"

definition sqlite3Atoi :: "byte list \<Rightarrow> int" where
  "sqlite3Atoi z = (case sqlite3GetInt32 z of Some x \<Rightarrow> x | None \<Rightarrow> 0)"

fun GetUInt32_loop :: "u64 \<Rightarrow> nat \<Rightarrow> byte list \<Rightarrow> (int \<times> u32)" where
  "GetUInt32_loop v i [] = (if i = 0 then (0, 0) else (1, ucast v))"
| "GetUInt32_loop v i (c # z) =
     (if sqlite3Isdigit c then
        let v' = v * 10 + ucast c - 48
        in if v' > 4294967296 then (0, 0) else GetUInt32_loop v' (Suc i) z
      else if i = 0 \<or> c \<noteq> 0 then (0, 0) else (1, ucast v))"

definition sqlite3GetUInt32 :: "byte list \<Rightarrow> int \<times> u32" where
  "sqlite3GetUInt32 z = GetUInt32_loop 0 0 z"

section \<open>Booleans of pragma arguments\<close>

definition safety_words :: "(byte list \<times> int) list" where
  "safety_words =
     [(str ''on'', 1), (str ''no'', 0), (str ''off'', 0), (str ''false'', 0),
      (str ''yes'', 1), (str ''true'', 1), (str ''extra'', 3), (str ''full'', 2)]"

fun safety_lookup :: "byte list \<Rightarrow> bool \<Rightarrow> (byte list \<times> int) list \<Rightarrow> int option" where
  "safety_lookup z omitFull [] = None"
| "safety_lookup z omitFull ((w, v) # ws) =
     (if length w = length z \<and> sqlite3StrNICmp w z (int (length z)) = 0 \<and> (\<not> omitFull \<or> v \<le> 1)
      then Some v else safety_lookup z omitFull ws)"

definition getSafetyLevel :: "byte list \<Rightarrow> bool \<Rightarrow> int \<Rightarrow> int" where
  "getSafetyLevel z omitFull dflt =
     (if sqlite3Isdigit (hd0 z) then sqlite3Atoi z mod 256
      else case safety_lookup z omitFull safety_words of Some v \<Rightarrow> v | None \<Rightarrow> dflt)"

definition sqlite3GetBoolean :: "byte list \<Rightarrow> int \<Rightarrow> bool" where
  "sqlite3GetBoolean z dflt \<longleftrightarrow> getSafetyLevel z True dflt \<noteq> 0"

text \<open>
  \<open>atoi\<close> of the C library, which \<open>crypto.c\<close> uses: white space, a sign, digits.  A value outside
  \<open>int\<close> is undefined behaviour in C and is the value \<open>None\<close>.
\<close>

fun dec_value :: "int \<Rightarrow> byte list \<Rightarrow> int" where
  "dec_value v [] = v"
| "dec_value v (c # z) = (if sqlite3Isdigit c then dec_value (v * 10 + (uint c - 48)) z else v)"

definition c_atoi :: "byte list \<Rightarrow> int option" where
  "c_atoi z =
     (let s = dropWhile sqlite3Isspace z;
          v = (if hd0 s = 45 then - dec_value 0 (tl s)
               else if hd0 s = 43 then dec_value 0 (tl s) else dec_value 0 s)
      in if - (2 ^ 31) \<le> v \<and> v < 2 ^ 31 then Some v else None)"

end
