(* ===== verification/Text_Props.thy ===== *)
theory Text_Props
  imports Util_Text
begin

text \<open>
  What the text helpers of \<open>Util_Text\<close> compute: case-insensitive comparison decides equality up to
  ASCII case and agrees with the hash, SQL dequoting undoes quoting, \<open>sqlite3GetInt32\<close> is
  \<open>atoi\<close> with a range check, and the exact range that \<open>sqlite3GetUInt32\<close> accepts.
\<close>

section \<open>Comparison and hashing\<close>

lemma chr_inject [simp]: "chr a = chr b \<longleftrightarrow> a = b"
proof
  assume "chr a = chr b"
  then have "unat (of_nat (of_char a) :: byte) = unat (of_nat (of_char b) :: byte)" by (simp add: chr_def)
  then have "of_char a = (of_char b :: nat)" by (simp add: unat_of_nat)
  then show "a = b" by simp
qed simp

lemma str_inject [simp]: "str a = str b \<longleftrightarrow> a = b"
  by (simp add: str_def inj_map_eq_map inj_def)

lemma UpperToLower_eq_0 [simp]: "UpperToLower c = 0 \<longleftrightarrow> c = 0"
  unfolding UpperToLower_def
  by (auto simp: word_le_nat_alt unat_plus_if' word_unat_eq_iff split: if_splits)

lemma StrICmp_Cons [simp]:
  "c \<noteq> 0 \<Longrightarrow> sqlite3StrICmp (c # a) (x # b) =
     (if UpperToLower c = UpperToLower x then sqlite3StrICmp a b
      else uint (UpperToLower c) - uint (UpperToLower x))"
  by (simp add: Let_def word_uint_eq_iff [symmetric])

declare sqlite3StrICmp.simps(1) [simp del]

lemma StrICmp_zero_iff:
  "0 \<notin> set a \<Longrightarrow> 0 \<notin> set b \<Longrightarrow>
   sqlite3StrICmp a b = 0 \<longleftrightarrow> map UpperToLower a = map UpperToLower b"
proof (induct a arbitrary: b)
  case Nil
  then show ?case by (cases b) (simp_all add: uint_0_iff)
next
  case (Cons c a)
  then show ?case
    by (cases b) (simp_all add: uint_0_iff word_uint_eq_iff [symmetric])
qed

lemma StrICmp_antisym: "0 \<notin> set a \<Longrightarrow> 0 \<notin> set b \<Longrightarrow> sqlite3StrICmp b a = - sqlite3StrICmp a b"
proof (induct a arbitrary: b)
  case Nil
  then show ?case by (cases b) simp_all
next
  case (Cons c a)
  then show ?case by (cases b) simp_all
qed

lemma StrIHash_loop_sum: "0 \<notin> set z \<Longrightarrow> StrIHash_loop h z = h + sum_list (map UpperToLower z)"
  by (induct h z rule: StrIHash_loop.induct) (simp_all add: add.assoc)

section \<open>Decimal text\<close>

lemma digit_range: "sqlite3Isdigit c \<Longrightarrow> 48 \<le> uint c \<and> uint c \<le> 57"
  by (simp add: sqlite3Isdigit_def word_le_def)

definition ndigits :: "byte list \<Rightarrow> nat" where
  "ndigits z = length (takeWhile sqlite3Isdigit z)"

lemma ndigits_simps [simp]:
  "ndigits [] = 0" "ndigits (c # z) = (if sqlite3Isdigit c then Suc (ndigits z) else 0)"
  by (simp_all add: ndigits_def)

lemma dec_run_eq: "dec_run k i v z = (i + min k (ndigits z), dec_value v (take k z))"
  by (induct k i v z rule: dec_run.induct) simp_all

lemma dec_value_take: "ndigits z \<le> k \<Longrightarrow> dec_value v (take k z) = dec_value v z"
proof (induct z arbitrary: v k)
  case (Cons c z)
  then show ?case by (cases k) (simp_all split: if_splits)
qed simp

lemma dec_value_ge: "0 \<le> v \<Longrightarrow> v * 10 ^ ndigits z \<le> dec_value v z"
proof (induct z arbitrary: v)
  case (Cons c z)
  show ?case
  proof (cases "sqlite3Isdigit c")
    case True
    then have d: "0 \<le> uint c - 48" using digit_range by simp
    have "v * 10 * 10 ^ ndigits z \<le> (v * 10 + (uint c - 48)) * 10 ^ ndigits z"
      using d by (simp add: distrib_right)
    also have "\<dots> \<le> dec_value (v * 10 + (uint c - 48)) z" using Cons d by simp
    finally show ?thesis using True by (simp add: mult.assoc)
  qed simp
qed simp

lemma dec_value_skip_zeros: "dec_value 0 (skip_zeros z) = dec_value 0 z"
  by (induct z) (auto simp: sqlite3Isdigit_def word_le_def)

lemma skip_zeros_hd: "skip_zeros z \<noteq> [] \<Longrightarrow> hd (skip_zeros z) \<noteq> 48"
  by (induct z) auto

lemma dec_value_big:
  assumes "ndigits (skip_zeros z) > 10"
  shows "dec_value 0 z > 2 ^ 31"
proof -
  obtain c y where z: "skip_zeros z = c # y" and c: "sqlite3Isdigit c" and n: "ndigits y \<ge> 10"
    using assms by (cases "skip_zeros z") (auto split: if_splits)
  have "c \<noteq> 48" using skip_zeros_hd [of z] z by simp
  then have d: "1 \<le> uint c - 48" using digit_range [OF c] by (simp add: word_uint_eq_iff)
  have "(10::int) ^ 10 \<le> 10 ^ ndigits y" using n by (rule power_increasing) simp
  also have "\<dots> \<le> (uint c - 48) * 10 ^ ndigits y" using d by simp
  also have "\<dots> \<le> dec_value (uint c - 48) y" using d by (intro dec_value_ge) simp
  also have "\<dots> = dec_value 0 z" using dec_value_skip_zeros [of z] z c by simp
  finally show ?thesis by simp
qed

lemma GetInt32_dec_eq:
  assumes "sqlite3Isdigit (hd0 z)"
  shows "GetInt32_dec neg z =
    (let v = (if neg then - dec_value 0 z else dec_value 0 z)
     in if - (2 ^ 31) \<le> v \<and> v < 2 ^ 31 then Some v else None)"
proof (cases "ndigits (skip_zeros z) > 10")
  case True
  then show ?thesis
    using assms dec_value_big [OF True] by (simp add: GetInt32_dec_def dec_run_eq Let_def)
next
  case False
  then have "dec_value 0 (take 11 (skip_zeros z)) = dec_value 0 z"
    by (simp add: dec_value_take dec_value_skip_zeros)
  moreover have "0 \<le> dec_value 0 z" using dec_value_ge [of 0 z] by simp
  ultimately show ?thesis
    using assms False by (simp add: GetInt32_dec_def dec_run_eq Let_def)
qed

definition decimal_text :: "byte list \<Rightarrow> bool" where
  "decimal_text z \<longleftrightarrow>
     sqlite3Isdigit (hd0 (if hd0 z = 45 \<or> hd0 z = 43 then tl z else z))
     \<and> \<not> (hd0 z = 48 \<and> (hd0 (tl z) = 120 \<or> hd0 (tl z) = 88) \<and> sqlite3Isxdigit (hd0 (tl (tl z))))"

lemma digit_not_space: "sqlite3Isdigit c \<Longrightarrow> \<not> sqlite3Isspace c"
  by (auto simp: sqlite3Isdigit_def sqlite3Isspace_def word_le_def)

lemma decimal_text_no_space: "decimal_text z \<Longrightarrow> dropWhile sqlite3Isspace z = z"
proof (cases z)
  case (Cons c y)
  moreover assume "decimal_text z"
  ultimately have "sqlite3Isdigit c \<or> c = 45 \<or> c = 43" by (auto simp: decimal_text_def split: if_splits)
  then have "\<not> sqlite3Isspace c" using digit_not_space by (auto simp: sqlite3Isspace_def)
  then show ?thesis by (simp add: Cons)
qed simp

lemma GetInt32_is_atoi: "decimal_text z \<Longrightarrow> sqlite3GetInt32 z = c_atoi z"
  using decimal_text_no_space [of z]
  by (auto simp: decimal_text_def sqlite3GetInt32_def c_atoi_def GetInt32_dec_eq Let_def
           simp del: One_nat_def split: if_splits)


lemma dec_value_mono: "0 \<le> v \<Longrightarrow> v \<le> dec_value v z"
  using dec_value_ge [of v z] mult_left_mono [of 1 "10 ^ ndigits z" v] by simp

lemma ucast_of_int_32: "0 \<le> v \<Longrightarrow> v < 2 ^ 64 \<Longrightarrow> ucast (of_int v :: u64) = (of_int v :: u32)"
  by (simp add: ucast_eq uint_word_of_int_eq take_bit_int_eq_self)

lemma GetUInt32_loop_digits:
  assumes "\<forall>c \<in> set z. sqlite3Isdigit c" "0 \<le> v" "v \<le> 4294967296" "i > 0 \<or> z \<noteq> []"
  shows "GetUInt32_loop (of_int v) i z =
     (if dec_value v z \<le> 4294967296 then (1, of_int (dec_value v z)) else (0, 0))"
  using assms
proof (induct z arbitrary: v i)
  case Nil
  then show ?case by (simp add: ucast_of_int_32)
next
  case (Cons c z)
  define w where "w = v * 10 + (uint c - 48)"
  have c: "sqlite3Isdigit c" using Cons by simp
  have w: "0 \<le> w" "w < 2 ^ 64" using digit_range [OF c] Cons by (simp_all add: w_def)
  have e: "of_int v * 10 + ucast c - 48 = (of_int w :: u64)"
    unfolding w_def ucast_eq by simp
  have g: "(of_int w :: u64) > 4294967296 \<longleftrightarrow> w > 4294967296"
    using w by (simp add: word_less_def uint_word_of_int_eq take_bit_int_eq_self)
  have d: "dec_value v (c # z) = dec_value w z" using c by (simp add: w_def)
  show ?case
  proof (cases "w > 4294967296")
    case True
    then have "dec_value w z > 4294967296" using dec_value_mono [of w z] w by simp
    then show ?thesis
      using True c by (simp add: e g d del: dec_value.simps)
  next
    case False
    then show ?thesis
      using c w Cons by (simp add: e g d Let_def del: dec_value.simps)
  qed
qed

section \<open>Dequoting\<close>

text \<open>Quoting as SQL has it: the closing quote doubled inside the text.\<close>

definition double_quotes :: "byte \<Rightarrow> byte list \<Rightarrow> byte list" where
  "double_quotes q z = concat (map (\<lambda>c. if c = q then [q, q] else [c]) z)"

lemma Dequote_loop_double: "Dequote_loop q (double_quotes q z @ [q]) out = Some (out @ z)"
  by (induct z arbitrary: out) (simp_all add: double_quotes_def)

section \<open>Properties\<close>

text \<open>Two strings compare equal under \<open>sqlite3_stricmp\<close> exactly when they agree after folding
  ASCII upper case to lower case; equal strings have the same \<open>sqlite3StrIHash\<close>, so a hash table
  keyed by that hash finds them; and exchanging the arguments negates the result.\<close>

theorem stricmp_decides_equality:
  assumes "0 \<notin> set a" "0 \<notin> set b"
  shows "(sqlite3_stricmp (Some a) (Some b) = 0 \<longleftrightarrow> map UpperToLower a = map UpperToLower b)
    \<and> (sqlite3_stricmp (Some a) (Some b) = 0 \<longrightarrow> sqlite3StrIHash (Some a) = sqlite3StrIHash (Some b))
    \<and> sqlite3_stricmp (Some b) (Some a) = - sqlite3_stricmp (Some a) (Some b)"
  using assms StrICmp_zero_iff [OF assms] StrICmp_antisym [OF assms]
  by (auto simp: sqlite3_stricmp_def sqlite3StrIHash_def StrIHash_loop_sum)

theorem stricmp_decides_equality_witness:
  "sqlite3_stricmp (Some (str ''KEY'')) (Some (str ''key'')) = 0
   \<and> sqlite3StrIHash (Some (str ''KEY'')) = sqlite3StrIHash (Some (str ''key''))"
proof -
  have s: "str ''KEY'' = [75, 69, 89]" "str ''key'' = [107, 101, 121]" by code_simp+
  show ?thesis
    unfolding s using stricmp_decides_equality [of "[75, 69, 89]" "[107, 101, 121]"]
    by (simp add: UpperToLower_def)
qed

text \<open>Dequoting undoes quoting: a text enclosed in a quote character, with every occurrence of
  that character doubled, is turned back into the text by \<open>sqlite3Dequote\<close>, for each of the three
  symmetric quotes and for the bracket pair.\<close>

theorem dequote_undoes_quoting:
  assumes "q \<in> {34, 39, 96}"
  shows "sqlite3Dequote (Some (q # double_quotes q z @ [q])) = Some (Some z)
    \<and> sqlite3Dequote (Some (91 # double_quotes 93 z @ [93])) = Some (Some z)"
  using assms by (auto simp: sqlite3Dequote_def sqlite3Isquote_def Dequote_loop_double)

theorem dequote_undoes_quoting_witness:
  "sqlite3Dequote (Some (39 # double_quotes 39 [105, 39, 115] @ [39])) = Some (Some [105, 39, 115])
   \<and> double_quotes 39 [105, 39, 115] = [105, 39, 39, 115]"
  using dequote_undoes_quoting [of 39 "[105, 39, 115]"] by (simp add: double_quotes_def)

text \<open>On decimal text (an optional sign, then a digit, and not the hexadecimal form)
  \<open>sqlite3GetInt32\<close>, which looks at no more than eleven digits after the leading zeros, returns what
  an unbounded \<open>atoi\<close> would and fails exactly when that value is outside a 32-bit \<open>int\<close>; so
  \<open>sqlite3Atoi\<close> yields the value or 0.\<close>

theorem GetInt32_agrees_with_atoi:
  assumes "decimal_text z"
  shows "sqlite3GetInt32 z = c_atoi z
    \<and> sqlite3Atoi z = (case c_atoi z of Some v \<Rightarrow> v | None \<Rightarrow> 0)"
  using GetInt32_is_atoi [OF assms] by (simp add: sqlite3Atoi_def)

theorem GetInt32_agrees_with_atoi_witness:
  "sqlite3GetInt32 (45 # replicate 20 48 @ [50, 49, 52, 55, 52, 56, 51, 54, 52, 56]) = Some (- 2147483648)
   \<and> sqlite3GetInt32 [50, 49, 52, 55, 52, 56, 51, 54, 52, 56] = None"
proof -
  have "decimal_text (45 # replicate 20 48 @ [50, 49, 52, 55, 52, 56, 51, 54, 52, 56])"
       "decimal_text [50, 49, 52, 55, 52, 56, 51, 54, 52, 56]"
    by code_simp+
  moreover have "c_atoi (45 # replicate 20 48 @ [50, 49, 52, 55, 52, 56, 51, 54, 52, 56]) = Some (- 2147483648)"
      "c_atoi [50, 49, 52, 55, 52, 56, 51, 54, 52, 56] = None"
    by code_simp+
  ultimately show ?thesis using GetInt32_agrees_with_atoi by simp
qed

text \<open>\<open>sqlite3GetUInt32\<close> on a string of decimal digits succeeds exactly when the value is at
  most 4294967296, and stores the value modulo \<open>2 ^ 32\<close>: the bound of the source is one too large,
  so the text of \<open>2 ^ 32\<close> is accepted and read as 0.\<close>

theorem GetUInt32_range:
  assumes "\<forall>c \<in> set z. sqlite3Isdigit c" "z \<noteq> []"
  shows "sqlite3GetUInt32 z =
      (if dec_value 0 z \<le> 2 ^ 32 then (1, of_int (dec_value 0 z)) else (0, 0))
    \<and> (dec_value 0 z < 2 ^ 32 \<longrightarrow> uint (snd (sqlite3GetUInt32 z)) = dec_value 0 z)
    \<and> (dec_value 0 z = 2 ^ 32 \<longrightarrow> sqlite3GetUInt32 z = (1, 0))"
proof -
  have e: "sqlite3GetUInt32 z =
      (if dec_value 0 z \<le> 2 ^ 32 then (1, of_int (dec_value 0 z)) else (0, 0))"
    using GetUInt32_loop_digits [of z 0 0] assms by (simp add: sqlite3GetUInt32_def)
  have "0 \<le> dec_value 0 z" using dec_value_mono [of 0 z] by simp
  then show ?thesis
    unfolding e by (auto simp: uint_word_of_int_eq take_bit_int_eq_self word_of_int_eq_0_iff)
qed

theorem GetUInt32_range_witness:
  "sqlite3GetUInt32 [52, 50, 57, 52, 57, 54, 55, 50, 57, 53] = (1, 4294967295)
   \<and> sqlite3GetUInt32 [52, 50, 57, 52, 57, 54, 55, 50, 57, 54] = (1, 0)
   \<and> sqlite3GetUInt32 [52, 50, 57, 52, 57, 54, 55, 50, 57, 55] = (0, 0)"
proof -
  have d: "\<forall>c \<in> set z. sqlite3Isdigit c" if "set z \<subseteq> {48, 50, 52, 53, 54, 55, 57}" for z
    using that by (auto simp: sqlite3Isdigit_def)
  show ?thesis
    using GetUInt32_range [of "[52, 50, 57, 52, 57, 54, 55, 50, 57, 53]", OF d]
      GetUInt32_range [of "[52, 50, 57, 52, 57, 54, 55, 50, 57, 54]", OF d]
      GetUInt32_range [of "[52, 50, 57, 52, 57, 54, 55, 50, 57, 55]", OF d]
    by (simp add: sqlite3Isdigit_def)
qed

end
