(* ===== verification/Hash_Table.thy ===== *)
theory Hash_Table
  imports Text_Props "HOL-Library.Multiset"
begin

text \<open>
  \<open>hash.c\<close>: the hash tables of SQLite's schema, keyed by names without regard to case.  All elements are on
  one doubly linked list; a bucket holds the number of its elements and a pointer to the first of them, and
  they follow each other on that list.

  The linked list is a list of elements in its order; an element is identified by a number that stands for
  its address, which is what a bucket points to.  Data pointers are values of any type and NULL is \<open>None\<close>.
  The result \<open>None\<close> of an operation is a NULL dereference.
\<close>

section \<open>Tables\<close>

record 'd helem =
  eid :: nat
  epKey :: "byte list"
  edata :: 'd

record ht_bucket =
  b_count :: nat
  b_chain :: "nat option"

record 'd htable =
  htsize :: nat
  hcount :: nat
  hfirst :: "'d helem list"
  ht :: "ht_bucket list option"
  hfresh :: nat

definition sqlite3HashInit :: "'d htable" where
  "sqlite3HashInit = \<lparr>htsize = 0, hcount = 0, hfirst = [], ht = None, hfresh = 0\<rparr>"

definition sqlite3HashClear :: "'d htable \<Rightarrow> 'd htable" where
  "sqlite3HashClear pH = pH\<lparr>hfirst := [], ht := None, htsize := 0, hcount := 0\<rparr>"

fun strHash_loop :: "u32 \<Rightarrow> byte list \<Rightarrow> u32" where
  "strHash_loop h [] = h"
| "strHash_loop h (c # z) = (if c = 0 then h else strHash_loop ((h + ucast (UpperToLower c)) * 0x9e3779b1) z)"

definition strHash :: "byte list \<Rightarrow> nat" where
  "strHash z = unat (strHash_loop 0 z)"

section \<open>Linking elements\<close>

text \<open>Insert \<open>x\<close> before the element a bucket points to, or at the front of the list.\<close>

fun link_before :: "nat option \<Rightarrow> 'd helem \<Rightarrow> 'd helem list \<Rightarrow> 'd helem list option" where
  "link_before None x es = Some (x # es)"
| "link_before (Some a) x [] = None"
| "link_before (Some a) x (e # es) =
     (if eid e = a then Some (x # e # es) else map_option ((#) e) (link_before (Some a) x es))"

text \<open>\<open>insertElement\<close> on the list and the bucket, if there is one.\<close>

definition insertElement ::
    "'d helem list \<Rightarrow> ht_bucket option \<Rightarrow> 'd helem \<Rightarrow> ('d helem list \<times> ht_bucket option) option" where
  "insertElement es pEntry pNew =
     (case pEntry of
        None \<Rightarrow> Some (pNew # es, None)
      | Some b \<Rightarrow> do {
          es' \<leftarrow> link_before (if b_count b \<noteq> 0 then b_chain b else None) pNew es;
          Some (es', Some (b\<lparr>b_count := b_count b + 1, b_chain := Some (eid pNew)\<rparr>))
        })"

text \<open>The loop of \<open>rehash\<close>: the elements in list order into a zeroed table.\<close>

fun rehash_loop :: "'d helem list \<Rightarrow> 'd helem list \<Rightarrow> ht_bucket list \<Rightarrow> ('d helem list \<times> ht_bucket list) option" where
  "rehash_loop [] es bs = Some (es, bs)"
| "rehash_loop (e # rest) es bs =
     (let h = strHash (epKey e) mod length bs in
      if h \<ge> length bs then None
      else do {
        (es', b) \<leftarrow> insertElement es (Some (bs ! h)) e;
        b' \<leftarrow> b;
        rehash_loop rest es' (bs[h := b'])
      })"

definition SQLITE_MALLOC_SOFT_LIMIT :: nat where "SQLITE_MALLOC_SOFT_LIMIT = 1024"

definition sizeof_ht :: nat where "sizeof_ht = 16"

text \<open>
  \<open>usable n\<close> is the number of entries that fit the block the allocator returns for \<open>n\<close> of them; it is at least
  \<open>n\<close>.  \<open>al\<close> is the outcome of the allocations to come.
\<close>

definition rehash :: "(nat \<Rightarrow> nat) \<Rightarrow> 'd htable \<Rightarrow> nat \<Rightarrow> bool list \<Rightarrow> (bool \<times> 'd htable \<times> bool list) option" where
  "rehash usable pH new_size al =
     (let n = (if new_size * sizeof_ht > SQLITE_MALLOC_SOFT_LIMIT then SQLITE_MALLOC_SOFT_LIMIT div sizeof_ht else new_size) in
      if n = htsize pH then Some (False, pH, al)
      else (case al of
              False # al' \<Rightarrow> Some (False, pH, al')
            | _ \<Rightarrow>
                if n = 0 then Some (False, pH, tl al)
                else do {
                  (es, bs) \<leftarrow> rehash_loop (hfirst pH) [] (replicate (usable n) \<lparr>b_count = 0, b_chain = None\<rparr>);
                  Some (True, pH\<lparr>ht := Some bs, htsize := usable n, hfirst := es\<rparr>, tl al)
                }))"

section \<open>Search and removal\<close>

fun find_loop :: "nat \<Rightarrow> byte list \<Rightarrow> 'd helem list \<Rightarrow> 'd helem option option" where
  "find_loop 0 k es = Some None"
| "find_loop (Suc n) k [] = None"
| "find_loop (Suc n) k (e # es) = (if sqlite3StrICmp (epKey e) k = 0 then Some (Some e) else find_loop n k es)"

text \<open>The element, if there is one, and the hash.\<close>

definition findElementWithHash :: "'d htable \<Rightarrow> byte list \<Rightarrow> ('d helem option \<times> nat) option" where
  "findElementWithHash pH k =
     (case ht pH of
        Some bs \<Rightarrow>
          (let h = strHash k mod htsize pH in
           if h \<ge> length bs then None
           else map_option (\<lambda>e. (e, h))
             (find_loop (b_count (bs ! h)) k (dropWhile (\<lambda>e. Some (eid e) \<noteq> b_chain (bs ! h)) (hfirst pH))))
      | None \<Rightarrow> map_option (\<lambda>e. (e, 0)) (find_loop (hcount pH) k (hfirst pH)))"

text \<open>The successor of an element on the list.\<close>

fun next_of :: "nat \<Rightarrow> 'd helem list \<Rightarrow> nat option" where
  "next_of a [] = None"
| "next_of a (e # es) = (if eid e = a then (case es of [] \<Rightarrow> None | x # _ \<Rightarrow> Some (eid x)) else next_of a es)"

definition removeElementGivenHash :: "'d htable \<Rightarrow> 'd helem \<Rightarrow> nat \<Rightarrow> 'd htable" where
  "removeElementGivenHash pH elem h =
     (let next = next_of (eid elem) (hfirst pH);
          pH1 = pH\<lparr>hfirst := filter (\<lambda>e. eid e \<noteq> eid elem) (hfirst pH),
                   ht := map_option (\<lambda>bs. bs[h := (bs ! h)\<lparr>b_chain := (if b_chain (bs ! h) = Some (eid elem) then next else b_chain (bs ! h)),
                                                    b_count := b_count (bs ! h) - 1\<rparr>]) (ht pH),
                   hcount := hcount pH - 1\<rparr>
      in if hcount pH1 = 0 then sqlite3HashClear pH1 else pH1)"

section \<open>The interface\<close>

definition sqlite3HashFind :: "'d htable \<Rightarrow> byte list \<Rightarrow> 'd option option" where
  "sqlite3HashFind pH pKey = map_option (\<lambda>(e, h). map_option edata e) (findElementWithHash pH pKey)"

definition replace_elem :: "nat \<Rightarrow> byte list \<Rightarrow> 'd \<Rightarrow> 'd helem list \<Rightarrow> 'd helem list" where
  "replace_elem a k d es = map (\<lambda>e. if eid e = a then e\<lparr>epKey := k, edata := d\<rparr> else e) es"

definition sqlite3HashInsert ::
    "(nat \<Rightarrow> nat) \<Rightarrow> 'd htable \<Rightarrow> byte list \<Rightarrow> 'd option \<Rightarrow> bool list \<Rightarrow> ('d option \<times> 'd htable \<times> bool list) option" where
  "sqlite3HashInsert usable pH pKey data al =
     (case findElementWithHash pH pKey of
        None \<Rightarrow> None
      | Some (Some elem, h) \<Rightarrow>
          Some (Some (edata elem),
                (case data of
                   None \<Rightarrow> removeElementGivenHash pH elem h
                 | Some d \<Rightarrow> pH\<lparr>hfirst := replace_elem (eid elem) pKey d (hfirst pH)\<rparr>), al)
      | Some (None, h) \<Rightarrow>
          (case data of
             None \<Rightarrow> Some (None, pH, al)
           | Some d \<Rightarrow>
               (case al of
                  False # al' \<Rightarrow> Some (Some d, pH, al')
                | _ \<Rightarrow>
                    let x = \<lparr>eid = hfresh pH, epKey = pKey, edata = d\<rparr>;
                        pH1 = pH\<lparr>hcount := hcount pH + 1, hfresh := hfresh pH + 1\<rparr>
                    in do {
                      (resized, pH2, al2) \<leftarrow>
                        (if hcount pH1 \<ge> 10 \<and> hcount pH1 > 2 * htsize pH1
                         then rehash usable pH1 (hcount pH1 * 2) (tl al) else Some (False, pH1, tl al));
                      let h' = (if resized then strHash pKey mod htsize pH2 else h);
                      (es, b) \<leftarrow> insertElement (hfirst pH2) (map_option (\<lambda>bs. bs ! h') (ht pH2)) x;
                      Some (None, pH2\<lparr>hfirst := es, ht := (case b of None \<Rightarrow> ht pH2 | Some b' \<Rightarrow> map_option (\<lambda>bs. bs[h' := b']) (ht pH2))\<rparr>, al2)
                    })))"

end
