(* ===== verification/Refinement.thy ===== *)
theory Refinement
  imports Prelude
begin

text \<open>
  Objects with operations against an abstract specification: an operation takes the object to a result and the
  next object, or to \<open>None\<close> when the code would leave its contract; the specification is a total function.  The
  locale \<open>refined_object\<close> states that one operation answers as the specification does, and gives the same for
  every sequence of operations.
\<close>

fun run_steps :: "('h \<Rightarrow> 'op \<Rightarrow> ('r \<times> 'h) option) \<Rightarrow> 'h \<Rightarrow> 'op list \<Rightarrow> ('r list \<times> 'h) option" where
  "run_steps step h [] = Some ([], h)"
| "run_steps step h (c # cs) = do {
     (r, h') \<leftarrow> step h c;
     (rs, h'') \<leftarrow> run_steps step h' cs;
     Some (r # rs, h'')
   }"

fun run_spec :: "('m \<Rightarrow> 'op \<Rightarrow> 'r \<times> 'm) \<Rightarrow> 'm \<Rightarrow> 'op list \<Rightarrow> 'r list \<times> 'm" where
  "run_spec spec m [] = ([], m)"
| "run_spec spec m (c # cs) = (let (r, m') = spec m c; (rs, m'') = run_spec spec m' cs in (r # rs, m''))"

locale refined_object =
  fixes step :: "'h \<Rightarrow> 'op \<Rightarrow> ('r \<times> 'h) option"
    and inv :: "'h \<Rightarrow> bool"
    and absm :: "'h \<Rightarrow> 'm"
    and spec :: "'m \<Rightarrow> 'op \<Rightarrow> 'r \<times> 'm"
    and valid :: "'op \<Rightarrow> bool"
  assumes step_refines:
    "inv h \<Longrightarrow> valid c \<Longrightarrow> \<exists>h'. step h c = Some (fst (spec (absm h) c), h') \<and> inv h' \<and> absm h' = snd (spec (absm h) c)"
begin

lemma run_refines:
  "inv h \<Longrightarrow> list_all valid cs \<Longrightarrow>
     \<exists>h'. run_steps step h cs = Some (fst (run_spec spec (absm h) cs), h') \<and> inv h' \<and> absm h' = snd (run_spec spec (absm h) cs)"
proof (induction cs arbitrary: h)
  case (Cons c cs)
  from Cons.prems have "inv h" "valid c" "list_all valid cs" by simp_all
  from step_refines [OF this(1,2)] obtain h' where
    1: "step h c = Some (fst (spec (absm h) c), h')" "inv h'" "absm h' = snd (spec (absm h) c)" by auto
  from Cons.IH [OF 1(2) \<open>list_all valid cs\<close>] obtain h'' where
    "run_steps step h' cs = Some (fst (run_spec spec (absm h') cs), h'')" "inv h''"
    "absm h'' = snd (run_spec spec (absm h') cs)" by auto
  with 1 show ?case by (auto simp: split: prod.splits)
qed simp

lemma run_never_stuck: "inv h \<Longrightarrow> list_all valid cs \<Longrightarrow> run_steps step h cs \<noteq> None"
  using run_refines by blast

end

end
