(* ===== verification/Hash_Props.thy ===== *)
theory Hash_Props
  imports Hash_Table Refinement
begin

text \<open>
  The hash tables of \<open>hash.c\<close> refine maps on names up to case.  The elements of a bucket are a contiguous block
  of the list, which the bucket points to; linking, unlinking and resizing keep that, so the search loop of a
  bucket sees exactly the elements with its hash.
\<close>

section \<open>Contiguous blocks\<close>

text \<open>The elements that satisfy \<open>P\<close> follow each other on the list: \<open>block\<close> while inside of the run,
  \<open>contig\<close> before it.\<close>

fun block :: "('a \<Rightarrow> bool) \<Rightarrow> 'a list \<Rightarrow> bool" where
  "block P [] = True"
| "block P (x # xs) = (if P x then block P xs else (\<forall>y\<in>set xs. \<not> P y))"

fun contig :: "('a \<Rightarrow> bool) \<Rightarrow> 'a list \<Rightarrow> bool" where
  "contig P [] = True"
| "contig P (x # xs) = (if P x then block P xs else contig P xs)"

lemma block_none: "\<forall>y\<in>set xs. \<not> P y \<Longrightarrow> block P xs"
  by (cases xs) auto

lemma block_contig: "block P xs \<Longrightarrow> contig P xs"
  by (induction xs) (auto simp: block_none split: if_splits dest: block_none[of _ P])

lemma contig_none: "\<forall>y\<in>set xs. \<not> P y \<Longrightarrow> contig P xs"
  by (simp add: block_none block_contig)

lemma block_filter: "block P xs \<Longrightarrow> block P (filter Q xs)"
  by (induction xs) (auto intro: block_none)

lemma contig_filter: "contig P xs \<Longrightarrow> contig P (filter Q xs)"
  by (induction xs) (auto intro: block_filter block_contig split: if_splits)

lemma block_cong: "(\<And>x. x \<in> set xs \<Longrightarrow> P (f x) = Q x) \<Longrightarrow> block P (map f xs) = block Q xs"
  by (induction xs) auto

lemma contig_cong: "(\<And>x. x \<in> set xs \<Longrightarrow> P (f x) = Q x) \<Longrightarrow> contig P (map f xs) = contig Q xs"
  by (induction xs) (auto simp: block_cong)

lemma block_insert: "block P (A @ B) \<Longrightarrow> \<not> P e \<Longrightarrow> B = [] \<or> \<not> P (hd B) \<Longrightarrow> block P (A @ e # B)"
proof (induction A)
  case Nil
  then show ?case by (cases B) auto
qed auto

lemma contig_insert_other:
  "contig P (A @ B) \<Longrightarrow> \<not> P e \<Longrightarrow> A = [] \<or> B = [] \<or> \<not> P (hd B) \<Longrightarrow> contig P (A @ e # B)"
proof (induction A)
  case (Cons a A)
  show ?case
  proof (cases "P a")
    case True
    with Cons.prems have "block P (A @ B)" "B = [] \<or> \<not> P (hd B)" by auto
    with True Cons.prems(2) show ?thesis by (simp add: block_insert)
  next
    case False
    with Cons show ?thesis by auto
  qed
qed simp

lemma dropWhile_contig: "contig P xs \<Longrightarrow> \<exists>rest. dropWhile (\<lambda>x. \<not> P x) xs = filter P xs @ rest \<and> (\<forall>y\<in>set rest. \<not> P y)"
proof (induction xs)
  case (Cons x xs)
  have "block P ys \<Longrightarrow> \<exists>rest. ys = filter P ys @ rest \<and> (\<forall>y\<in>set rest. \<not> P y)" for ys
    by (induction ys) (auto simp: filter_empty_conv)
  with Cons show ?case by auto
qed simp

lemma block_dropWhile: "contig P xs \<Longrightarrow> block P (dropWhile (\<lambda>x. \<not> P x) xs)"
  by (induction xs) auto

lemma contig_append_none: "\<forall>y\<in>set A. \<not> P y \<Longrightarrow> contig P (A @ B) = contig P B"
  by (induction A) auto

lemma find_append_none: "\<forall>y\<in>set A. \<not> P y \<Longrightarrow> find P (A @ B) = find P B"
  by (induction A) auto

lemma find_dropWhile: "find P xs = Some x \<Longrightarrow> \<exists>ys. dropWhile (\<lambda>x. \<not> P x) xs = x # ys \<and> P x"
  by (induction xs) (auto split: if_splits)

lemma find_insert_other: "\<not> P e \<Longrightarrow> find P (A @ e # B) = find P (A @ B)"
  by (induction A) auto

section \<open>The invariant\<close>

abbreviation fold_key :: "byte list \<Rightarrow> byte list" where
  "fold_key z \<equiv> map UpperToLower z"

abbreviation bucket_of :: "nat \<Rightarrow> 'd helem \<Rightarrow> nat" where
  "bucket_of n e \<equiv> strHash (epKey e) mod n"

definition bucket_ok :: "ht_bucket \<Rightarrow> ('d helem \<Rightarrow> bool) \<Rightarrow> 'd helem list \<Rightarrow> bool" where
  "bucket_ok b P es \<longleftrightarrow> contig P es \<and> b_count b = length (filter P es) \<and>
     (\<forall>x. find P es = Some x \<longrightarrow> b_chain b = Some (eid x))"

definition ht_buckets_ok :: "ht_bucket list \<Rightarrow> 'd helem list \<Rightarrow> bool" where
  "ht_buckets_ok bs es \<longleftrightarrow> (\<forall>h < length bs. bucket_ok (bs ! h) (\<lambda>e. bucket_of (length bs) e = h) es)"

definition hash_ok :: "'d htable \<Rightarrow> bool" where
  "hash_ok pH \<longleftrightarrow>
     distinct (map eid (hfirst pH)) \<and> (\<forall>e\<in>set (hfirst pH). eid e < hfresh pH \<and> 0 \<notin> set (epKey e)) \<and>
     distinct (map (\<lambda>e. fold_key (epKey e)) (hfirst pH)) \<and> hcount pH = length (hfirst pH) \<and>
     (case ht pH of None \<Rightarrow> htsize pH = 0
      | Some bs \<Rightarrow> bs \<noteq> [] \<and> htsize pH = length bs \<and> hfirst pH \<noteq> [] \<and> ht_buckets_ok bs (hfirst pH))"

text \<open>The map a table stands for: from folded keys to data.\<close>

definition hash_map :: "'d htable \<Rightarrow> byte list \<Rightarrow> 'd option" where
  "hash_map pH = map_of (map (\<lambda>e. (fold_key (epKey e), edata e)) (hfirst pH))"

lemma strHash_fold:
  assumes "0 \<notin> set a" "0 \<notin> set b" "fold_key a = fold_key b"
  shows "strHash a = strHash b"
proof -
  have "strHash_loop h a = strHash_loop h b" for h
    using assms
  proof (induction a arbitrary: b h)
    case (Cons x a)
    then obtain y b' where b: "b = y # b'" by (cases b) auto
    with Cons show ?case by simp
  qed simp
  then show ?thesis by (simp add: strHash_def)
qed

section \<open>Insertion into a bucket\<close>

lemma link_before_at:
  "find P es = Some x \<Longrightarrow> distinct (map eid es) \<Longrightarrow>
     link_before (Some (eid x)) e es = Some (takeWhile (\<lambda>x. \<not> P x) es @ e # dropWhile (\<lambda>x. \<not> P x) es)"
proof (induction es)
  case (Cons a es)
  show ?case
  proof (cases "P a")
    case False
    with Cons.prems have f: "find P es = Some x" by simp
    then have "x \<in> set es" by (auto simp: find_Some_iff)
    with Cons.prems(2) have "eid a \<noteq> eid x" by auto
    with False f Cons show ?thesis by simp
  qed (use Cons in simp)
qed simp

lemma takeWhile_none: "\<forall>y\<in>set (takeWhile (\<lambda>x. \<not> P x) xs). \<not> P y"
  by (auto dest: set_takeWhileD)

lemma insertElement_split:
  assumes "bucket_ok b P es" "distinct (map eid es)"
  shows "\<exists>A B. insertElement es (Some b) e = Some (A @ e # B, Some (b\<lparr>b_count := b_count b + 1, b_chain := Some (eid e)\<rparr>)) \<and>
    es = A @ B \<and> (\<forall>y\<in>set A. \<not> P y) \<and> (A = [] \<or> B = [] \<or> P (hd B)) \<and> block P B"
proof (cases "find P es")
  case None
  then have "\<forall>y\<in>set es. \<not> P y" by (simp add: find_None_iff)
  with assms(1) show ?thesis
    by (intro exI [of _ "[]"] exI [of _ es]) (simp add: insertElement_def bucket_ok_def block_none)
next
  case (Some x)
  then have b: "b_chain b = Some (eid x)" "b_count b \<noteq> 0" "contig P es"
    using assms(1) by (auto simp: bucket_ok_def find_Some_iff filter_empty_conv)
  obtain ys where ys: "dropWhile (\<lambda>x. \<not> P x) es = x # ys" "P x" using find_dropWhile [OF Some] by auto
  define A B where "A = takeWhile (\<lambda>x. \<not> P x) es" and "B = dropWhile (\<lambda>x. \<not> P x) es"
  have "insertElement es (Some b) e = Some (A @ e # B, Some (b\<lparr>b_count := b_count b + 1, b_chain := Some (eid e)\<rparr>))"
    by (simp only: insertElement_def option.case b if_True not_False_eq_True link_before_at [OF Some assms(2)]
        A_def B_def bind.bind_lunit)
  moreover have "es = A @ B" by (simp add: A_def B_def)
  moreover have "\<forall>y\<in>set A. \<not> P y" unfolding A_def by (rule takeWhile_none)
  moreover have "P (hd B)" using ys by (simp add: B_def)
  moreover have "block P B" using block_dropWhile [OF b(3)] by (simp add: B_def)
  ultimately show ?thesis by blast
qed

lemma insertElement_ok:
  assumes "ht_buckets_ok bs es" "distinct (map eid es)" "h = bucket_of (length bs) e" "bs \<noteq> []"
  shows "\<exists>es' b'. insertElement es (Some (bs ! h)) e = Some (es', Some b') \<and> ht_buckets_ok (bs[h := b']) es' \<and>
    mset es' = add_mset e (mset es)"
proof -
  have h: "h < length bs" using assms(3,4) by simp
  have "bucket_ok (bs ! h) (\<lambda>e. bucket_of (length bs) e = h) es" using assms(1) h by (simp add: ht_buckets_ok_def)
  from insertElement_split [OF this assms(2), of e]
  obtain A B where ins: "insertElement es (Some (bs ! h)) e =
      Some (A @ e # B, Some ((bs ! h)\<lparr>b_count := b_count (bs ! h) + 1, b_chain := Some (eid e)\<rparr>))"
    and es: "es = A @ B" and A: "\<forall>y\<in>set A. bucket_of (length bs) y \<noteq> h"
    and hB: "A = [] \<or> B = [] \<or> bucket_of (length bs) (hd B) = h"
    and bB: "block (\<lambda>e. bucket_of (length bs) e = h) B"
    by metis
  define b' where "b' = (bs ! h)\<lparr>b_count := b_count (bs ! h) + 1, b_chain := Some (eid e)\<rparr>"
  have "bucket_ok (bs[h := b'] ! k) (\<lambda>e. bucket_of (length bs) e = k) (A @ e # B)" if k: "k < length bs" for k
  proof (cases "k = h")
    case True
    moreover have "bucket_ok (bs ! h) (\<lambda>e. bucket_of (length bs) e = h) (A @ B)"
      using assms(1) h by (simp add: ht_buckets_ok_def es)
    ultimately show ?thesis
      using A bB h assms(3) by (simp add: bucket_ok_def contig_append_none find_append_none b'_def)
  next
    case False
    with assms(1,3) k have "bucket_ok (bs[h := b'] ! k) (\<lambda>e. bucket_of (length bs) e = k) (A @ B)"
      by (simp add: ht_buckets_ok_def es)
    with False assms(3) hB show ?thesis
      by (auto simp: bucket_ok_def find_insert_other intro: contig_insert_other)
  qed
  then show ?thesis using ins es by (auto simp: ht_buckets_ok_def b'_def)
qed

lemma ht_buckets_ok_empty: "ht_buckets_ok (replicate n \<lparr>b_count = 0, b_chain = None\<rparr>) []"
  by (simp add: ht_buckets_ok_def bucket_ok_def)

lemma rehash_loop_ok:
  assumes "ht_buckets_ok bs es" "distinct (map eid (rest @ es))" "bs \<noteq> []"
  shows "\<exists>es' bs'. rehash_loop rest es bs = Some (es', bs') \<and> ht_buckets_ok bs' es' \<and>
    mset es' = mset rest + mset es \<and> length bs' = length bs"
  using assms
proof (induction rest arbitrary: es bs)
  case (Cons e rest)
  obtain es1 b1 where 1: "insertElement es (Some (bs ! bucket_of (length bs) e)) e = Some (es1, Some b1)"
      "ht_buckets_ok (bs[bucket_of (length bs) e := b1]) es1" "mset es1 = add_mset e (mset es)"
    using insertElement_ok [OF Cons.prems(1) _ refl Cons.prems(3), of e] Cons.prems(2) by auto
  have "mset (map eid (rest @ es1)) = mset (map eid ((e # rest) @ es))" by (simp add: 1)
  then have "distinct (map eid (rest @ es1))" using Cons.prems(2) by (metis mset_eq_imp_distinct_iff)
  then obtain es2 bs2 where "rehash_loop rest es1 (bs[bucket_of (length bs) e := b1]) = Some (es2, bs2)"
      "ht_buckets_ok bs2 es2" "mset es2 = mset rest + mset es1" "length bs2 = length bs"
    using Cons.IH [OF 1(2)] Cons.prems(3) by auto
  moreover have "bucket_of (length bs) e < length bs" using Cons.prems(3) by simp
  ultimately show ?case using 1 by (simp add: Let_def)
qed simp
section \<open>Search\<close>

lemma dropWhile_eid:
  assumes "find P es = Some x" "distinct (map eid es)"
  shows "dropWhile (\<lambda>e. Some (eid e) \<noteq> Some (eid x)) es = dropWhile (\<lambda>e. \<not> P e) es"
  using assms
proof (induction es)
  case (Cons a es)
  show ?case
  proof (cases "P a")
    case False
    with Cons.prems have f: "find P es = Some x" by simp
    then have "x \<in> set es" by (auto simp: find_Some_iff)
    with Cons.prems(2) have "eid a \<noteq> eid x" by auto
    with False f Cons show ?thesis by simp
  qed (use Cons in simp)
qed simp

lemma find_loop_block: "find_loop (length seg) k (seg @ rest) = Some (find (\<lambda>e. sqlite3StrICmp (epKey e) k = 0) seg)"
  by (induction seg) auto

lemma find_loop_bucket:
  assumes "bucket_ok b P es" "distinct (map eid es)"
  shows "find_loop (b_count b) k (dropWhile (\<lambda>e. Some (eid e) \<noteq> b_chain b) es) =
    Some (find (\<lambda>e. sqlite3StrICmp (epKey e) k = 0) (filter P es))"
proof (cases "find P es")
  case None
  then have "filter P es = []" by (simp add: find_None_iff filter_empty_conv)
  with assms(1) show ?thesis by (simp add: bucket_ok_def)
next
  case (Some x)
  with assms(1) have b: "b_chain b = Some (eid x)" "b_count b = length (filter P es)" "contig P es"
    by (auto simp: bucket_ok_def)
  obtain rest where "dropWhile (\<lambda>x. \<not> P x) es = filter P es @ rest" using dropWhile_contig [OF b(3)] by auto
  then show ?thesis by (simp only: b(1,2) dropWhile_eid [OF Some assms(2)] find_loop_block)
qed

lemma find_filter_implied: "(\<And>x. x \<in> set xs \<Longrightarrow> Q x \<Longrightarrow> P x) \<Longrightarrow> find Q (filter P xs) = find Q xs"
  by (induction xs) auto

lemma find_cong_set: "(\<And>x. x \<in> set xs \<Longrightarrow> P x = Q x) \<Longrightarrow> find P xs = find Q xs"
  by (induction xs) auto

text \<open>The element of a key.\<close>

definition elem_of :: "'d htable \<Rightarrow> byte list \<Rightarrow> 'd helem option" where
  "elem_of pH k = find (\<lambda>e. fold_key (epKey e) = fold_key k) (hfirst pH)"

definition home_bucket :: "'d htable \<Rightarrow> byte list \<Rightarrow> nat" where
  "home_bucket pH k = (case ht pH of None \<Rightarrow> 0 | Some bs \<Rightarrow> strHash k mod length bs)"

lemma findElement_ok:
  assumes "hash_ok pH" "0 \<notin> set k"
  shows "findElementWithHash pH k = Some (elem_of pH k, home_bucket pH k)"
proof -
  have cmp: "find (\<lambda>e. sqlite3StrICmp (epKey e) k = 0) (hfirst pH) = elem_of pH k"
    unfolding elem_of_def using assms by (intro find_cong_set) (auto simp: hash_ok_def StrICmp_zero_iff)
  show ?thesis
  proof (cases "ht pH")
    case None
    then show ?thesis using assms(1) cmp find_loop_block [of "hfirst pH" k "[]"]
      by (simp add: findElementWithHash_def home_bucket_def hash_ok_def)
  next
    case (Some bs)
    let ?h = "strHash k mod length bs"
    let ?P = "\<lambda>e. bucket_of (length bs) e = ?h"
    have d: "distinct (map eid (hfirst pH))" and h: "?h < length bs" and sz: "htsize pH = length bs"
      and b: "bucket_ok (bs ! ?h) ?P (hfirst pH)"
      using assms(1) Some by (auto simp: hash_ok_def ht_buckets_ok_def)
    have "find (\<lambda>e. sqlite3StrICmp (epKey e) k = 0) (filter ?P (hfirst pH)) =
          find (\<lambda>e. sqlite3StrICmp (epKey e) k = 0) (hfirst pH)"
    proof (rule find_filter_implied)
      fix e assume "e \<in> set (hfirst pH)" "sqlite3StrICmp (epKey e) k = 0"
      with assms have "strHash (epKey e) = strHash k"
        by (intro strHash_fold) (auto simp: hash_ok_def StrICmp_zero_iff)
      then show "?P e" by simp
    qed
    with find_loop_bucket [OF b d, of k] Some h sz cmp show ?thesis
      by (simp add: findElementWithHash_def home_bucket_def Let_def)
  qed
qed

lemma hash_map_elem: "hash_map pH (fold_key k) = map_option edata (elem_of pH k)"
proof -
  have "map_of (map (\<lambda>e. (fold_key (epKey e), edata e)) es) (fold_key k) =
        map_option edata (find (\<lambda>e. fold_key (epKey e) = fold_key k) es)" for es :: "'a helem list"
    by (induction es) auto
  then show ?thesis by (simp add: hash_map_def elem_of_def)
qed

lemma sqlite3HashFind_ok:
  "hash_ok pH \<Longrightarrow> 0 \<notin> set k \<Longrightarrow> sqlite3HashFind pH k = Some (hash_map pH (fold_key k))"
  by (simp add: sqlite3HashFind_def findElement_ok hash_map_elem)

section \<open>Removal\<close>

lemma next_of_at: "distinct (map eid (A @ x # B)) \<Longrightarrow> next_of (eid x) (A @ x # B) = (case B of [] \<Rightarrow> None | y # _ \<Rightarrow> Some (eid y))"
  by (induction A) auto

lemma filter_eid:
  assumes "distinct (map eid (A @ x # B))"
  shows "filter (\<lambda>e. eid e \<noteq> eid x) (A @ x # B) = A @ B"
proof -
  have "\<forall>e\<in>set A \<union> set B. eid e \<noteq> eid x" using assms by (auto simp: image_iff)
  then show ?thesis by (simp add: filter_id_conv)
qed

lemma block_remove: "block P (A @ x # B) \<Longrightarrow> block P (A @ B)"
  by (induction A) (auto intro: block_none split: if_splits)

lemma contig_remove: "contig P (A @ x # B) \<Longrightarrow> contig P (A @ B)"
  by (induction A) (auto intro: block_remove block_contig split: if_splits)

lemma bucket_ok_remove_other: "bucket_ok b P (A @ x # B) \<Longrightarrow> \<not> P x \<Longrightarrow> bucket_ok b P (A @ B)"
  by (auto simp: bucket_ok_def find_insert_other intro: contig_remove)

lemma find_remove_first:
  "contig P (A @ x # B) \<Longrightarrow> P x \<Longrightarrow> \<forall>y\<in>set A. \<not> P y \<Longrightarrow> find P (A @ B) = Some z \<Longrightarrow> \<exists>B'. B = z # B'"
  by (cases B) (auto simp: contig_append_none find_append_none find_Some_iff split: if_splits)

lemma bucket_ok_remove:
  assumes "bucket_ok b P (A @ x # B)" "P x" "distinct (map eid (A @ x # B))"
  shows "bucket_ok (b\<lparr>b_chain := (if b_chain b = Some (eid x) then next_of (eid x) (A @ x # B) else b_chain b),
    b_count := b_count b - 1\<rparr>) P (A @ B)"
proof (cases "\<forall>y\<in>set A. \<not> P y")
  case True
  with assms have "b_chain b = Some (eid x)" by (simp add: bucket_ok_def find_append_none)
  moreover have "\<exists>B'. B = z # B'" if "find P (A @ B) = Some z" for z
    using find_remove_first [of P A x B z] assms True that by (simp add: bucket_ok_def)
  ultimately show ?thesis
    using assms(1,2) by (auto simp: bucket_ok_def next_of_at [OF assms(3)] intro: contig_remove)
next
  case False
  then obtain y where y: "find P A = Some y" by (metis find_None_iff not_None_eq)
  then have f: "find P (A @ C) = Some y" for C by (induction A) (auto split: if_splits)
  have "y \<in> set A" using y by (auto simp: find_Some_iff)
  then have "eid y \<noteq> eid x" using assms(3) by (auto simp: image_iff)
  with assms(1,2) f show ?thesis by (auto simp: bucket_ok_def intro: contig_remove)
qed

lemma elem_of_mem:
  assumes "elem_of pH k = Some x"
  shows "x \<in> set (hfirst pH)" "fold_key (epKey x) = fold_key k"
  using assms by (auto simp: elem_of_def find_Some_iff)

lemma map_of_remove:
  assumes "distinct (map f (A @ x # B))"
  shows "map_of (map (\<lambda>e. (f e, g e)) (A @ B)) = (map_of (map (\<lambda>e. (f e, g e)) (A @ x # B)))(f x := None)"
proof -
  have "f x \<notin> f ` set A" "f x \<notin> f ` set B" using assms by auto
  then have n: "map_of (map (\<lambda>e. (f e, g e)) A) (f x) = None" "map_of (map (\<lambda>e. (f e, g e)) B) (f x) = None"
    by (auto simp: map_of_eq_None_iff image_image)
  show ?thesis
  proof
    fix k
    show "map_of (map (\<lambda>e. (f e, g e)) (A @ B)) k = ((map_of (map (\<lambda>e. (f e, g e)) (A @ x # B)))(f x := None)) k"
      using n by (cases "k = f x") (auto simp: map_add_def split: option.splits)
  qed
qed

lemma hash_ok_Clear: "hash_ok (sqlite3HashClear pH)" "hash_map (sqlite3HashClear pH) = Map.empty"
  by (simp_all add: hash_ok_def hash_map_def sqlite3HashClear_def)

lemma removeElement_ok:
  assumes ok: "hash_ok pH" and k: "0 \<notin> set k" and e: "elem_of pH k = Some x"
  shows "hash_ok (removeElementGivenHash pH x (home_bucket pH k))"
    and "hash_map (removeElementGivenHash pH x (home_bucket pH k)) = (hash_map pH)(fold_key k := None)"
proof -
  note x = elem_of_mem [OF e]
  obtain A B where es: "hfirst pH = A @ x # B" using x(1) by (meson split_list)
  define pH1 where "pH1 = pH\<lparr>hfirst := A @ B, ht := map_option (\<lambda>bs. bs[home_bucket pH k := (bs ! home_bucket pH k)\<lparr>b_chain :=
      (if b_chain (bs ! home_bucket pH k) = Some (eid x) then next_of (eid x) (A @ x # B) else b_chain (bs ! home_bucket pH k)),
      b_count := b_count (bs ! home_bucket pH k) - 1\<rparr>]) (ht pH), hcount := hcount pH - 1\<rparr>"
  have d: "distinct (map eid (A @ x # B))" "distinct (map (\<lambda>e. fold_key (epKey e)) (A @ x # B))"
    using ok by (simp_all add: hash_ok_def es)
  have rem: "removeElementGivenHash pH x (home_bucket pH k) = (if A @ B = [] then sqlite3HashClear pH1 else pH1)"
    using ok filter_eid [OF d(1)] by (auto simp: removeElementGivenHash_def Let_def es pH1_def hash_ok_def)
  have m: "hash_map pH1 = (hash_map pH)(fold_key k := None)"
    using map_of_remove [OF d(2), of edata] x(2) by (simp add: hash_map_def pH1_def es)
  have "hash_ok pH1" if "A @ B \<noteq> []"
  proof (cases "ht pH")
    case None
    with ok d show ?thesis by (auto simp: hash_ok_def pH1_def es)
  next
    case (Some bs)
    let ?h = "strHash k mod length bs"
    have b: "ht_buckets_ok bs (A @ x # B)" "bs \<noteq> []" "htsize pH = length bs" using ok Some by (auto simp: hash_ok_def es)
    have hx: "bucket_of (length bs) x = ?h"
      using ok x k strHash_fold [of "epKey x" k] by (auto simp: hash_ok_def)
    define b' where "b' = (bs ! ?h)\<lparr>b_chain :=
      (if b_chain (bs ! ?h) = Some (eid x) then next_of (eid x) (A @ x # B) else b_chain (bs ! ?h)),
      b_count := b_count (bs ! ?h) - 1\<rparr>"
    have "bucket_ok (bs[?h := b'] ! j) (\<lambda>e. bucket_of (length bs) e = j) (A @ B)" if j: "j < length bs" for j
    proof (cases "j = ?h")
      case True
      then show ?thesis
        using b j bucket_ok_remove [OF _ _ d(1), of "bs ! ?h" "\<lambda>e. bucket_of (length bs) e = ?h"] hx
        by (simp add: ht_buckets_ok_def b'_def)
    next
      case False
      then show ?thesis using b j hx bucket_ok_remove_other by (fastforce simp: ht_buckets_ok_def)
    qed
    then have "ht_buckets_ok (bs[?h := b']) (A @ B)" by (simp add: ht_buckets_ok_def)
    then show ?thesis
      using ok d that b Some by (auto simp: hash_ok_def pH1_def es home_bucket_def b'_def)
  qed
  with rem show "hash_ok (removeElementGivenHash pH x (home_bucket pH k))" by (simp add: hash_ok_Clear)
  show "hash_map (removeElementGivenHash pH x (home_bucket pH k)) = (hash_map pH)(fold_key k := None)"
    using m by (auto simp: rem hash_ok_Clear) (simp add: hash_map_def pH1_def)
qed

section \<open>Replacement\<close>

lemma find_map_cong: "(\<And>x. x \<in> set xs \<Longrightarrow> P (f x) = Q x) \<Longrightarrow> find P (map f xs) = map_option f (find Q xs)"
  by (induction xs) auto

lemma bucket_ok_map:
  assumes "\<And>x. x \<in> set es \<Longrightarrow> P (f x) = Q x" "\<And>x. x \<in> set es \<Longrightarrow> eid (f x) = eid x"
  shows "bucket_ok b P (map f es) = bucket_ok b Q es"
proof -
  have "filter P (map f es) = map f (filter Q es)" using assms(1) by (induction es) auto
  moreover have "contig P (map f es) = contig Q es" using assms(1) by (rule contig_cong)
  moreover have "find P (map f es) = map_option f (find Q es)" using assms(1) by (rule find_map_cong)
  moreover have "find Q es = Some x \<Longrightarrow> eid (f x) = eid x" for x using assms(2) by (auto simp: find_Some_iff)
  ultimately show ?thesis by (auto simp: bucket_ok_def)
qed

lemma hash_map_eq_Some:
  assumes "distinct (map (\<lambda>e. fold_key (epKey e)) (hfirst pH))"
  shows "hash_map pH k = Some v \<longleftrightarrow> (\<exists>e\<in>set (hfirst pH). fold_key (epKey e) = k \<and> edata e = v)"
proof -
  have "distinct (map fst (map (\<lambda>e. (fold_key (epKey e), edata e)) (hfirst pH)))" using assms by (simp add: comp_def)
  from map_of_eq_Some_iff [OF this] show ?thesis unfolding hash_map_def by force
qed

lemma option_eqI: "(\<And>v. a = Some v \<longleftrightarrow> b = Some v) \<Longrightarrow> a = b"
  by (cases a; cases b) auto

lemma replace_ok:
  fixes pH :: "'d htable"
  assumes ok: "hash_ok pH" and k: "0 \<notin> set k" and e: "elem_of pH k = Some x"
  shows "hash_ok (pH\<lparr>hfirst := replace_elem (eid x) k d (hfirst pH)\<rparr>)"
    and "hash_map (pH\<lparr>hfirst := replace_elem (eid x) k d (hfirst pH)\<rparr>) = (hash_map pH)(fold_key k \<mapsto> d)"
proof -
  note x = elem_of_mem [OF e]
  define f :: "'d helem \<Rightarrow> 'd helem" where "f e = (if eid e = eid x then e\<lparr>epKey := k, edata := d\<rparr> else e)" for e
  have es: "replace_elem (eid x) k d (hfirst pH) = map f (hfirst pH)" by (simp add: replace_elem_def f_def)
  have inj: "e = x" if "e \<in> set (hfirst pH)" "eid e = eid x" for e
    using that x(1) ok by (auto simp: hash_ok_def distinct_map dest: inj_onD)
  have id [simp]: "eid (f e) = eid e" for e by (simp add: f_def)
  have key: "fold_key (epKey (f e)) = fold_key (epKey e)" "0 \<notin> set (epKey (f e))" if "e \<in> set (hfirst pH)" for e
    using inj [OF that] that x(2) k ok by (auto simp: f_def hash_ok_def)
  have hash: "strHash (epKey (f e)) = strHash (epKey e)" if "e \<in> set (hfirst pH)" for e
    using key [OF that] ok that by (intro strHash_fold) (auto simp: hash_ok_def)
  have keys: "map (\<lambda>e. fold_key (epKey (f e))) (hfirst pH) = map (\<lambda>e. fold_key (epKey e)) (hfirst pH)"
    using key by simp
  have dkeys: "distinct (map (\<lambda>e. fold_key (epKey (f e))) (hfirst pH))"
    unfolding keys using ok by (simp add: hash_ok_def)
  have "bucket_ok b (\<lambda>e. bucket_of n e = h) (map f (hfirst pH)) = bucket_ok b (\<lambda>e. bucket_of n e = h) (hfirst pH)" for b n h
    using hash by (intro bucket_ok_map) auto
  then have "ht_buckets_ok bs (map f (hfirst pH)) = ht_buckets_ok bs (hfirst pH)" for bs
    by (simp add: ht_buckets_ok_def)
  then show ok': "hash_ok (pH\<lparr>hfirst := replace_elem (eid x) k d (hfirst pH)\<rparr>)"
    using ok key dkeys by (auto simp: hash_ok_def es comp_def split: option.splits)
  have d: "distinct (map (\<lambda>e. fold_key (epKey e)) (hfirst pH))" using ok by (simp add: hash_ok_def)
  have uniq: "e = x" if "e \<in> set (hfirst pH)" "fold_key (epKey e) = fold_key k" for e
    using that x d by (simp add: distinct_map inj_on_def)
  have old: "e \<noteq> x \<Longrightarrow> e \<in> set (hfirst pH) \<Longrightarrow> f e = e" for e using inj by (auto simp: f_def)
  have fx: "f x = x\<lparr>epKey := k, edata := d\<rparr>" by (simp add: f_def)
  show "hash_map (pH\<lparr>hfirst := replace_elem (eid x) k d (hfirst pH)\<rparr>) = (hash_map pH)(fold_key k \<mapsto> d)"
  proof (rule ext, rule option_eqI)
    fix j v
    have "hash_map (pH\<lparr>hfirst := replace_elem (eid x) k d (hfirst pH)\<rparr>) j = Some v \<longleftrightarrow>
          (\<exists>e\<in>set (hfirst pH). fold_key (epKey e) = j \<and> edata (f e) = v)"
      using ok' key by (subst hash_map_eq_Some) (auto simp: hash_ok_def es)
    also have "\<dots> \<longleftrightarrow> ((hash_map pH)(fold_key k \<mapsto> d)) j = Some v"
    proof (cases "j = fold_key k")
      case True
      have "(\<exists>e\<in>set (hfirst pH). fold_key (epKey e) = fold_key k \<and> edata (f e) = v) \<longleftrightarrow> edata (f x) = v"
        using uniq x by metis
      with True fx show ?thesis by simp
    next
      case False
      then show ?thesis using hash_map_eq_Some [OF d] old x(2) by (auto simp: ) metis+
    qed
    finally show "hash_map (pH\<lparr>hfirst := replace_elem (eid x) k d (hfirst pH)\<rparr>) j = Some v \<longleftrightarrow>
       ((hash_map pH)(fold_key k \<mapsto> d)) j = Some v" .
  qed
qed

section \<open>Insertion\<close>

lemma hash_map_mset:
  assumes "distinct (map (\<lambda>e. fold_key (epKey e)) (hfirst pH))" "mset (hfirst pH') = mset (hfirst pH)"
  shows "hash_map pH' = hash_map pH"
proof -
  have "mset (map (\<lambda>e. fold_key (epKey e)) (hfirst pH')) = mset (map (\<lambda>e. fold_key (epKey e)) (hfirst pH))"
    by (simp add: assms(2))
  then have d: "distinct (map (\<lambda>e. fold_key (epKey e)) (hfirst pH'))" using assms(1) by (metis mset_eq_imp_distinct_iff)
  have "set (hfirst pH') = set (hfirst pH)" using assms(2) by (metis set_mset_mset)
  then show ?thesis using hash_map_eq_Some [OF d] hash_map_eq_Some [OF assms(1)] by (intro ext option_eqI) simp
qed

text \<open>What \<open>rehash\<close> keeps: the elements, and buckets that describe them.  Between the two counts of an
  insertion the counter is one ahead, so the lemma does not mention it.\<close>

definition ht_table_ok :: "'d htable \<Rightarrow> bool" where
  "ht_table_ok pH \<longleftrightarrow> (case ht pH of None \<Rightarrow> htsize pH = 0
     | Some bs \<Rightarrow> bs \<noteq> [] \<and> htsize pH = length bs \<and> ht_buckets_ok bs (hfirst pH))"

lemma rehash_ok:
  assumes "ht_table_ok pH" "distinct (map eid (hfirst pH))" "\<And>n. n \<le> usable n" "0 < new_size"
  shows "\<exists>r pH' al'. rehash usable pH new_size al = Some (r, pH', al') \<and> ht_table_ok pH' \<and>
    mset (hfirst pH') = mset (hfirst pH) \<and> hcount pH' = hcount pH \<and> hfresh pH' = hfresh pH \<and>
    (if r then ht pH' \<noteq> None else ht pH' = ht pH \<and> htsize pH' = htsize pH)"
proof -
  define n where "n = (if new_size * sizeof_ht > SQLITE_MALLOC_SOFT_LIMIT then SQLITE_MALLOC_SOFT_LIMIT div sizeof_ht else new_size)"
  have n: "n \<noteq> 0" "usable n \<noteq> 0"
    using assms(3) [of n] assms(4) by (auto simp: n_def sizeof_ht_def SQLITE_MALLOC_SOFT_LIMIT_def)
  obtain es bs where loop: "rehash_loop (hfirst pH) [] (replicate (usable n) \<lparr>b_count = 0, b_chain = None\<rparr>) = Some (es, bs)"
      "ht_buckets_ok bs es" "mset es = mset (hfirst pH)" "length bs = usable n"
    using rehash_loop_ok [OF ht_buckets_ok_empty [of "usable n"], of "hfirst pH"] assms(2) n(2) by (auto simp: Cons_replicate_eq)
  then have t: "ht_table_ok (pH\<lparr>ht := Some bs, htsize := usable n, hfirst := es\<rparr>)" using n(2) by (auto simp: ht_table_ok_def)
  have "rehash usable pH new_size al =
    (if n = htsize pH then Some (False, pH, al)
     else if \<exists>al'. al = False # al' then Some (False, pH, tl al)
     else Some (True, pH\<lparr>ht := Some bs, htsize := usable n, hfirst := es\<rparr>, tl al))"
    unfolding rehash_def n_def [symmetric] using n(1) loop(1) by (auto split: list.split bool.split)
  then show ?thesis using t loop(3) assms(1) by auto
qed

lemma case_alloc: "(\<And>al'. al \<noteq> False # al') \<Longrightarrow> (case al of False # al' \<Rightarrow> X al' | _ \<Rightarrow> Y) = Y"
  by (auto split: list.split bool.split)

lemma link_new:
  assumes "ht_table_ok pH" "distinct (map eid (hfirst pH))" "h = home_bucket pH k" "epKey x = k"
  shows "\<exists>es b. insertElement (hfirst pH) (map_option (\<lambda>bs. bs ! h) (ht pH)) x = Some (es, b) \<and>
    mset es = add_mset x (mset (hfirst pH)) \<and>
    ht_table_ok (pH\<lparr>hfirst := es, ht := (case b of None \<Rightarrow> ht pH | Some b' \<Rightarrow> map_option (\<lambda>bs. bs[h := b']) (ht pH))\<rparr>)"
proof (cases "ht pH")
  case None
  then show ?thesis using assms(1) by (auto simp: insertElement_def ht_table_ok_def)
next
  case (Some bs)
  then have b: "ht_buckets_ok bs (hfirst pH)" "bs \<noteq> []" "htsize pH = length bs" using assms(1) by (auto simp: ht_table_ok_def)
  then have "h = bucket_of (length bs) x" using Some assms(3,4) by (simp add: home_bucket_def)
  from insertElement_ok [OF b(1) assms(2) this b(2)] show ?thesis using Some b by (auto simp: ht_table_ok_def)
qed

text \<open>A new element under a new key keeps the invariant.\<close>

lemma hash_ok_add:
  assumes ok: "hash_ok pH" and t: "ht_table_ok pH'" and m: "mset (hfirst pH') = add_mset x (mset (hfirst pH))"
    and x: "eid x = hfresh pH" "0 \<notin> set (epKey x)" "fold_key (epKey x) \<notin> (\<lambda>e. fold_key (epKey e)) ` set (hfirst pH)"
    and c: "hcount pH' = hcount pH + 1" "hfresh pH' = hfresh pH + 1"
  shows "hash_ok pH'" "hash_map pH' = (hash_map pH)(fold_key (epKey x) \<mapsto> edata x)"
proof -
  have "mset (map eid (hfirst pH')) = mset (map eid (x # hfirst pH))"
    "mset (map (\<lambda>e. fold_key (epKey e)) (hfirst pH')) = mset (map (\<lambda>e. fold_key (epKey e)) (x # hfirst pH))"
    using m by simp_all
  moreover have d: "distinct (map eid (x # hfirst pH))" "distinct (map (\<lambda>e. fold_key (epKey e)) (x # hfirst pH))"
    using ok x by (auto simp: hash_ok_def)
  ultimately have des: "distinct (map eid (hfirst pH'))" "distinct (map (\<lambda>e. fold_key (epKey e)) (hfirst pH'))"
    by (metis mset_eq_imp_distinct_iff)+
  have ses: "set (hfirst pH') = insert x (set (hfirst pH))" using m by (metis set_mset_add_mset_insert set_mset_mset)
  have "length (hfirst pH') = hcount pH + 1" using m ok by (metis Suc_eq_plus1 hash_ok_def size_add_mset size_mset)
  then show "hash_ok pH'"
    using ok t des ses x c by (auto simp: hash_ok_def ht_table_ok_def split: option.splits)
  have "hash_map pH' = hash_map (pH\<lparr>hfirst := x # hfirst pH\<rparr>)"
    using d m by (intro hash_map_mset) simp_all
  then show "hash_map pH' = (hash_map pH)(fold_key (epKey x) \<mapsto> edata x)" by (simp add: hash_map_def)
qed

lemma insert_new_ok:
  assumes ok: "hash_ok pH" and k: "0 \<notin> set k" and e: "elem_of pH k = None" and u: "\<And>n. n \<le> usable n"
    and al: "\<And>al'. al \<noteq> False # al'"
  shows "\<exists>pH' al'. sqlite3HashInsert usable pH k (Some d) al = Some (None, pH', al') \<and> hash_ok pH' \<and>
    hash_map pH' = (hash_map pH)(fold_key k \<mapsto> d)"
proof -
  define x where "x = \<lparr>eid = hfresh pH, epKey = k, edata = d\<rparr>"
  define pH1 where "pH1 = pH\<lparr>hcount := hcount pH + 1, hfresh := hfresh pH + 1\<rparr>"
  define r where "r = (if hcount pH1 \<ge> 10 \<and> hcount pH1 > 2 * htsize pH1
                       then rehash usable pH1 (hcount pH1 * 2) (tl al) else Some (False, pH1, tl al))"
  have t1: "ht_table_ok pH1" and di: "distinct (map eid (hfirst pH))" and dk: "distinct (map (\<lambda>e. fold_key (epKey e)) (hfirst pH))"
    using ok by (auto simp: hash_ok_def ht_table_ok_def pH1_def split: option.splits)
  have "\<exists>f pH2 al2. r = Some (f, pH2, al2) \<and> ht_table_ok pH2 \<and> mset (hfirst pH2) = mset (hfirst pH) \<and>
     hcount pH2 = hcount pH + 1 \<and> hfresh pH2 = hfresh pH + 1 \<and>
     (if f then ht pH2 \<noteq> None else ht pH2 = ht pH \<and> htsize pH2 = htsize pH)"
  proof (cases "hcount pH1 \<ge> 10 \<and> hcount pH1 > 2 * htsize pH1")
    case True
    then have r: "r = rehash usable pH1 (hcount pH1 * 2) (tl al)" by (simp add: r_def)
    have p: "distinct (map eid (hfirst pH1))" "0 < hcount pH1 * 2" using di by (simp_all add: pH1_def)
    have "ht pH1 = ht pH" "htsize pH1 = htsize pH" "hfirst pH1 = hfirst pH" "hcount pH1 = hcount pH + 1" "hfresh pH1 = hfresh pH + 1"
      by (simp_all add: pH1_def)
    with rehash_ok [OF t1 p(1) u p(2), of "tl al"] show ?thesis unfolding r by metis
  next
    case False
    then show ?thesis using t1 by (simp only: r_def if_False) (simp add: pH1_def, rule exI [of _ False], simp)
  qed
  then obtain f pH2 al2 where r: "r = Some (f, pH2, al2)" and t2: "ht_table_ok pH2"
    and m: "mset (hfirst pH2) = mset (hfirst pH)" and c: "hcount pH2 = hcount pH + 1" "hfresh pH2 = hfresh pH + 1"
    and f: "if f then ht pH2 \<noteq> None else ht pH2 = ht pH \<and> htsize pH2 = htsize pH" by auto
  have s: "set (hfirst pH2) = set (hfirst pH)" using m by (metis set_mset_mset)
  have d2: "distinct (map eid (hfirst pH2))" using di m by (metis mset_eq_imp_distinct_iff mset_map)
  define h' where "h' = (if f then strHash k mod htsize pH2 else home_bucket pH k)"
  have "h' = home_bucket pH2 k" using t2 f by (auto simp: h'_def home_bucket_def ht_table_ok_def split: option.splits if_splits)
  from link_new [OF t2 d2 this, of x] m
  have "\<exists>es b. insertElement (hfirst pH2) (map_option (\<lambda>bs. bs ! h') (ht pH2)) x = Some (es, b) \<and>
      mset es = add_mset x (mset (hfirst pH)) \<and>
      ht_table_ok (pH2\<lparr>hfirst := es, ht := (case b of None \<Rightarrow> ht pH2 | Some b' \<Rightarrow> map_option (\<lambda>bs. bs[h' := b']) (ht pH2))\<rparr>)"
    by (simp add: x_def)
  then obtain es b where ins: "insertElement (hfirst pH2) (map_option (\<lambda>bs. bs ! h') (ht pH2)) x = Some (es, b)"
    and mes: "mset es = add_mset x (mset (hfirst pH))"
    and t3: "ht_table_ok (pH2\<lparr>hfirst := es, ht := (case b of None \<Rightarrow> ht pH2 | Some b' \<Rightarrow> map_option (\<lambda>bs. bs[h' := b']) (ht pH2))\<rparr>)" by auto
  define pH3 where "pH3 = pH2\<lparr>hfirst := es, ht := (case b of None \<Rightarrow> ht pH2 | Some b' \<Rightarrow> map_option (\<lambda>bs. bs[h' := b']) (ht pH2))\<rparr>"
  have run: "sqlite3HashInsert usable pH k (Some d) al = Some (None, pH3, al2)"
    unfolding sqlite3HashInsert_def findElement_ok [OF ok k] e option.case prod.case case_alloc [OF al]
    by (simp only: Let_def x_def [symmetric] pH1_def [symmetric] r_def [symmetric] r bind.bind_lunit prod.case
        h'_def [symmetric] ins pH3_def [symmetric])
  have "fold_key (epKey x) \<notin> (\<lambda>e. fold_key (epKey e)) ` set (hfirst pH)"
    using e by (auto simp: elem_of_def find_None_iff x_def)
  with hash_ok_add [OF ok, of pH3 x] t3 mes c k
  have "hash_ok pH3" "hash_map pH3 = (hash_map pH)(fold_key k \<mapsto> d)" by (simp_all add: pH3_def x_def)
  with run show ?thesis by blast
qed

section \<open>Refinement\<close>

datatype 'd hash_op = HFind "byte list" | HInsert "byte list" "'d option" "bool list"

fun hash_step :: "(nat \<Rightarrow> nat) \<Rightarrow> 'd htable \<Rightarrow> 'd hash_op \<Rightarrow> ('d option \<times> 'd htable) option" where
  "hash_step usable pH (HFind k) = map_option (\<lambda>r. (r, pH)) (sqlite3HashFind pH k)"
| "hash_step usable pH (HInsert k d al) = map_option (\<lambda>(r, pH', al'). (r, pH')) (sqlite3HashInsert usable pH k d al)"

text \<open>The specification: a map from names up to case.  An insertion returns what was there; when the
  allocation of a new element fails it returns the new data and changes nothing.\<close>

fun map_step :: "(byte list \<Rightarrow> 'd option) \<Rightarrow> 'd hash_op \<Rightarrow> 'd option \<times> (byte list \<Rightarrow> 'd option)" where
  "map_step m (HFind k) = (m (fold_key k), m)"
| "map_step m (HInsert k d al) =
     (if m (fold_key k) = None \<and> d \<noteq> None \<and> take 1 al = [False] then (d, m)
      else (m (fold_key k), m(fold_key k := d)))"

fun hash_op_ok :: "'d hash_op \<Rightarrow> bool" where
  "hash_op_ok (HFind k) = (0 \<notin> set k)"
| "hash_op_ok (HInsert k d al) = (0 \<notin> set k)"

lemma hash_step_ok:
  assumes "\<And>n. n \<le> usable n" "hash_ok pH" "hash_op_ok c"
  shows "\<exists>pH'. hash_step usable pH c = Some (fst (map_step (hash_map pH) c), pH') \<and> hash_ok pH' \<and>
    hash_map pH' = snd (map_step (hash_map pH) c)"
proof (cases c)
  case (HFind k)
  with assms sqlite3HashFind_ok [OF assms(2), of k] show ?thesis by simp
next
  case (HInsert k d al)
  with assms(3) have k: "0 \<notin> set k" by simp
  note f = findElement_ok [OF assms(2) k] and m = hash_map_elem [of pH k]
  show ?thesis
  proof (cases "elem_of pH k")
    case (Some x)
    then show ?thesis
      using HInsert f m removeElement_ok [OF assms(2) k Some] replace_ok [OF assms(2) k Some]
      by (cases d) (auto simp: sqlite3HashInsert_def)
  next
    case None
    show ?thesis
    proof (cases "d = None \<or> (\<exists>al'. al = False # al')")
      case True
      then show ?thesis using HInsert f m None assms(2)
        by (auto simp: sqlite3HashInsert_def fun_upd_idem split: option.splits)
    next
      case False
      then obtain v where d: "d = Some v" and al: "al \<noteq> False # al'" for al' by auto
      have "take 1 al \<noteq> [False]" using al by (cases al) auto
      then show ?thesis using insert_new_ok [OF assms(2) k None assms(1) al, of v] HInsert d m None by auto
    qed
  qed
qed

text \<open>The tables of the code refine the specification, for every allocator that gives at least what it is asked for.\<close>

definition table_inv :: "(nat \<Rightarrow> nat) \<Rightarrow> 'd htable \<Rightarrow> bool" where
  "table_inv usable pH \<longleftrightarrow> (\<forall>n. n \<le> usable n) \<and> hash_ok pH"

interpretation schema_hash: refined_object "hash_step usable" "table_inv usable" hash_map map_step hash_op_ok
  by unfold_locales (use hash_step_ok in \<open>auto simp: table_inv_def\<close>)

lemma hash_ok_Init: "hash_ok sqlite3HashInit" "hash_map sqlite3HashInit = Map.empty"
  by (simp_all add: hash_ok_def hash_map_def sqlite3HashInit_def)

lemma hash_ok_count:
  assumes "hash_ok pH"
  shows "hcount pH = card (dom (hash_map pH))" "hash_map pH = Map.empty \<Longrightarrow> hfirst pH = [] \<and> ht pH = None \<and> htsize pH = 0"
proof -
  have "dom (hash_map pH) = (\<lambda>e. fold_key (epKey e)) ` set (hfirst pH)"
    by (auto simp: hash_map_def dom_map_of_conv_image_fst image_image)
  moreover have "card ((\<lambda>e. fold_key (epKey e)) ` set (hfirst pH)) = length (hfirst pH)"
    using assms distinct_card [of "map (\<lambda>e. fold_key (epKey e)) (hfirst pH)"] by (simp add: hash_ok_def)
  ultimately show "hcount pH = card (dom (hash_map pH))" using assms by (simp add: hash_ok_def)
  assume "hash_map pH = Map.empty"
  then have "hfirst pH = []" by (simp add: hash_map_def)
  with assms show "hfirst pH = [] \<and> ht pH = None \<and> htsize pH = 0" by (auto simp: hash_ok_def split: option.splits)
qed

section \<open>Properties\<close>

text \<open>C32. Refinement.  For every sequence of lookups, insertions, replacements and removals on a new table, with
  any outcome of every allocation and whatever resizing they cause, the results are those of a map on names up
  to case: the old data is returned, an insertion without memory returns the new data and changes nothing, and a
  table that cannot grow still answers.  No chain is followed off the list.\<close>

theorem hash_refines_map:
  assumes "\<And>n. n \<le> usable n" "list_all hash_op_ok ops"
  shows "map_option fst (run_steps (hash_step usable) sqlite3HashInit ops) = Some (fst (run_spec map_step Map.empty ops))"
  using schema_hash.run_refines [of usable sqlite3HashInit ops] assms by (auto simp: table_inv_def hash_ok_Init)

theorem hash_refines_map_witness:
  "map_option fst (run_steps (hash_step (\<lambda>n. n)) sqlite3HashInit
     [HInsert (str ''Users'') (Some 1) [], HInsert (str ''USERS'') (Some (2 :: nat)) [], HFind (str ''users''),
      HInsert (str ''x'') (Some 3) [False], HInsert (str ''uSers'') None [], HFind (str ''users'')]) =
     Some [None, Some 1, Some 2, Some 3, Some 2, None]"
proof -
  have k: "fold_key (str ''USERS'') = fold_key (str ''Users'')" "fold_key (str ''users'') = fold_key (str ''Users'')"
    "fold_key (str ''uSers'') = fold_key (str ''Users'')" "fold_key (str ''x'') \<noteq> fold_key (str ''Users'')"
    by code_simp+
  have "0 \<notin> set (str ''Users'')" "0 \<notin> set (str ''USERS'')" "0 \<notin> set (str ''users'')" "0 \<notin> set (str ''uSers'')" "0 \<notin> set (str ''x'')"
    by code_simp+
  then show ?thesis by (subst hash_refines_map) (simp_all add: k)
qed

text \<open>Invariant.  After any such sequence the count is the number of distinct names, every bucket describes
  its run of elements (\<open>hash_ok\<close>), and a table that has become empty holds no memory: no element, no bucket
  array.\<close>

theorem hash_count_and_reclaim:
  assumes "\<And>n. n \<le> usable n" "list_all hash_op_ok ops" "run_steps (hash_step usable) sqlite3HashInit ops = Some (rs, pH)"
  shows "hash_ok pH \<and> hcount pH = card (dom (snd (run_spec map_step Map.empty ops))) \<and>
    (dom (snd (run_spec map_step Map.empty ops)) = {} \<longrightarrow> hfirst pH = [] \<and> ht pH = None)"
  using schema_hash.run_refines [of usable sqlite3HashInit ops] assms hash_ok_count [of pH]
  by (auto simp: table_inv_def hash_ok_Init)

theorem hash_count_and_reclaim_witness:
  "\<exists>rs pH. run_steps (hash_step (\<lambda>n. n)) sqlite3HashInit [HInsert (str ''a'') (Some (7 :: nat)) [], HInsert (str ''A'') None []] = Some (rs, pH) \<and>
     hcount pH = 0 \<and> hfirst pH = [] \<and> ht pH = None"
proof -
  let ?ops = "[HInsert (str ''a'') (Some (7 :: nat)) [], HInsert (str ''A'') None []]"
  have ops: "list_all hash_op_ok ?ops" by code_simp
  have k: "fold_key (str ''A'') = fold_key (str ''a'')" by code_simp
  obtain rs pH where r: "run_steps (hash_step (\<lambda>n. n)) sqlite3HashInit ?ops = Some (rs, pH)"
    using schema_hash.run_never_stuck [of "\<lambda>n. n" sqlite3HashInit ?ops] ops by (auto simp: table_inv_def hash_ok_Init)
  have "dom (snd (run_spec map_step Map.empty ?ops)) = {}" by (simp add: k)
  with hash_count_and_reclaim [OF _ ops r] r show ?thesis by (intro exI [of _ rs] exI [of _ pH]) simp
qed

end
