(* ===== verification/Ctype.thy ===== *)
theory Ctype
  imports Util_Text
begin

text \<open>
  The character class table of \<open>global.c\<close> and the tests on it.  The predicates of \<open>Util_Text\<close> that the other
  theories use are shown to be the table's bits, and \<open>sqlite3UpperToLower\<close> to be the table lookup it is.
\<close>

definition sqlite3CtypeMap :: "byte list" where
  "sqlite3CtypeMap =
    [0x00, 0x00, 0x00, 0x00, 0x00, 0x00, 0x00, 0x00, 0x00, 0x01, 0x01, 0x01, 0x01, 0x01, 0x00, 0x00,
     0x00, 0x00, 0x00, 0x00, 0x00, 0x00, 0x00, 0x00, 0x00, 0x00, 0x00, 0x00, 0x00, 0x00, 0x00, 0x00,
     0x01, 0x00, 0x80, 0x00, 0x40, 0x00, 0x00, 0x80, 0x00, 0x00, 0x00, 0x00, 0x00, 0x00, 0x00, 0x00,
     0x0c, 0x0c, 0x0c, 0x0c, 0x0c, 0x0c, 0x0c, 0x0c, 0x0c, 0x0c, 0x00, 0x00, 0x00, 0x00, 0x00, 0x00,
     0x00, 0x0a, 0x0a, 0x0a, 0x0a, 0x0a, 0x0a, 0x02, 0x02, 0x02, 0x02, 0x02, 0x02, 0x02, 0x02, 0x02,
     0x02, 0x02, 0x02, 0x02, 0x02, 0x02, 0x02, 0x02, 0x02, 0x02, 0x02, 0x80, 0x00, 0x00, 0x00, 0x40,
     0x80, 0x2a, 0x2a, 0x2a, 0x2a, 0x2a, 0x2a, 0x22, 0x22, 0x22, 0x22, 0x22, 0x22, 0x22, 0x22, 0x22,
     0x22, 0x22, 0x22, 0x22, 0x22, 0x22, 0x22, 0x22, 0x22, 0x22, 0x22, 0x00, 0x00, 0x00, 0x00, 0x00,
     0x40, 0x40, 0x40, 0x40, 0x40, 0x40, 0x40, 0x40, 0x40, 0x40, 0x40, 0x40, 0x40, 0x40, 0x40, 0x40,
     0x40, 0x40, 0x40, 0x40, 0x40, 0x40, 0x40, 0x40, 0x40, 0x40, 0x40, 0x40, 0x40, 0x40, 0x40, 0x40,
     0x40, 0x40, 0x40, 0x40, 0x40, 0x40, 0x40, 0x40, 0x40, 0x40, 0x40, 0x40, 0x40, 0x40, 0x40, 0x40,
     0x40, 0x40, 0x40, 0x40, 0x40, 0x40, 0x40, 0x40, 0x40, 0x40, 0x40, 0x40, 0x40, 0x40, 0x40, 0x40,
     0x40, 0x40, 0x40, 0x40, 0x40, 0x40, 0x40, 0x40, 0x40, 0x40, 0x40, 0x40, 0x40, 0x40, 0x40, 0x40,
     0x40, 0x40, 0x40, 0x40, 0x40, 0x40, 0x40, 0x40, 0x40, 0x40, 0x40, 0x40, 0x40, 0x40, 0x40, 0x40,
     0x40, 0x40, 0x40, 0x40, 0x40, 0x40, 0x40, 0x40, 0x40, 0x40, 0x40, 0x40, 0x40, 0x40, 0x40, 0x40,
     0x40, 0x40, 0x40, 0x40, 0x40, 0x40, 0x40, 0x40, 0x40, 0x40, 0x40, 0x40, 0x40, 0x40, 0x40, 0x40]"

definition ctype :: "byte \<Rightarrow> byte" where
  "ctype c = sqlite3CtypeMap ! unat c"

definition IdChar :: "byte \<Rightarrow> bool" where
  "IdChar c \<longleftrightarrow> and (ctype c) 0x46 \<noteq> 0"

text \<open>A statement about every byte and its class is checked along the table.\<close>

lemma length_CtypeMap: "length sqlite3CtypeMap = 256"
  by (simp add: sqlite3CtypeMap_def)

definition byte_list :: "byte list" where
  "byte_list =
    [0, 1, 2, 3, 4, 5, 6, 7, 8, 9, 10, 11, 12, 13, 14, 15,
     16, 17, 18, 19, 20, 21, 22, 23, 24, 25, 26, 27, 28, 29, 30, 31,
     32, 33, 34, 35, 36, 37, 38, 39, 40, 41, 42, 43, 44, 45, 46, 47,
     48, 49, 50, 51, 52, 53, 54, 55, 56, 57, 58, 59, 60, 61, 62, 63,
     64, 65, 66, 67, 68, 69, 70, 71, 72, 73, 74, 75, 76, 77, 78, 79,
     80, 81, 82, 83, 84, 85, 86, 87, 88, 89, 90, 91, 92, 93, 94, 95,
     96, 97, 98, 99, 100, 101, 102, 103, 104, 105, 106, 107, 108, 109, 110, 111,
     112, 113, 114, 115, 116, 117, 118, 119, 120, 121, 122, 123, 124, 125, 126, 127,
     128, 129, 130, 131, 132, 133, 134, 135, 136, 137, 138, 139, 140, 141, 142, 143,
     144, 145, 146, 147, 148, 149, 150, 151, 152, 153, 154, 155, 156, 157, 158, 159,
     160, 161, 162, 163, 164, 165, 166, 167, 168, 169, 170, 171, 172, 173, 174, 175,
     176, 177, 178, 179, 180, 181, 182, 183, 184, 185, 186, 187, 188, 189, 190, 191,
     192, 193, 194, 195, 196, 197, 198, 199, 200, 201, 202, 203, 204, 205, 206, 207,
     208, 209, 210, 211, 212, 213, 214, 215, 216, 217, 218, 219, 220, 221, 222, 223,
     224, 225, 226, 227, 228, 229, 230, 231, 232, 233, 234, 235, 236, 237, 238, 239,
     240, 241, 242, 243, 244, 245, 246, 247, 248, 249, 250, 251, 252, 253, 254, 255]"

lemma byte_list_eq: "byte_list = map of_nat [0..<256]"
proof -
  have "[0..<256] = 0 # 1 # [2..<256]" by (simp add: upt_conv_Cons numeral_2_eq_2 del: upt_rec_numeral)
  then show ?thesis by (simp add: byte_list_def)
qed

lemma all_bytes:
  assumes "list_all (\<lambda>(c, m). P c m) (zip byte_list sqlite3CtypeMap)"
  shows "P c (ctype c)"
proof -
  have u: "unat c < 256" using unsigned_less [of c] by simp
  then have "byte_list ! unat c = c" by (simp add: byte_list_eq del: upt_rec_numeral)
  then have "(c, sqlite3CtypeMap ! unat c) \<in> set (zip byte_list sqlite3CtypeMap)"
    using u by (auto simp: in_set_zip length_CtypeMap byte_list_eq simp del: upt_rec_numeral intro: exI [of _ "unat c"])
  with assms have "P c (sqlite3CtypeMap ! unat c)" by (auto simp: list_all_iff)
  then show ?thesis by (simp add: ctype_def)
qed

lemma Isspace_ctype: "sqlite3Isspace c \<longleftrightarrow> and (ctype c) 0x01 \<noteq> 0"
  by (rule all_bytes [of "\<lambda>c m. sqlite3Isspace c \<longleftrightarrow> and m 0x01 \<noteq> 0"]) code_simp

lemma Isdigit_ctype: "sqlite3Isdigit c \<longleftrightarrow> and (ctype c) 0x04 \<noteq> 0"
  by (rule all_bytes [of "\<lambda>c m. sqlite3Isdigit c \<longleftrightarrow> and m 0x04 \<noteq> 0"]) code_simp

lemma Isxdigit_ctype: "sqlite3Isxdigit c \<longleftrightarrow> and (ctype c) 0x08 \<noteq> 0"
  by (rule all_bytes [of "\<lambda>c m. sqlite3Isxdigit c \<longleftrightarrow> and m 0x08 \<noteq> 0"]) code_simp

lemma Isquote_ctype: "sqlite3Isquote c \<longleftrightarrow> and (ctype c) 0x80 \<noteq> 0"
  by (rule all_bytes [of "\<lambda>c m. sqlite3Isquote c \<longleftrightarrow> and m 0x80 \<noteq> 0"]) code_simp

lemma IdChar_ranges:
  "IdChar c \<longleftrightarrow> c = 36 \<or> 48 \<le> c \<and> c \<le> 57 \<or> 65 \<le> c \<and> c \<le> 90 \<or> c = 95 \<or> 97 \<le> c \<and> c \<le> 122 \<or> 128 \<le> c"
  unfolding IdChar_def
  by (rule all_bytes [of "\<lambda>c m. and m 0x46 \<noteq> 0 \<longleftrightarrow>
    c = 36 \<or> 48 \<le> c \<and> c \<le> 57 \<or> 65 \<le> c \<and> c \<le> 90 \<or> c = 95 \<or> 97 \<le> c \<and> c \<le> 122 \<or> 128 \<le> c"]) code_simp

lemma not_IdChar [simp]: "\<not> IdChar 0" "\<not> IdChar 10" "\<not> IdChar 32" "\<not> IdChar 59" "\<not> IdChar 42" "\<not> IdChar 47" "\<not> IdChar 45"
    "\<not> IdChar 91" "\<not> IdChar 93" "\<not> IdChar 96" "\<not> IdChar 34" "\<not> IdChar 39"
  by (simp_all add: IdChar_ranges)

end
