(* ===== verification/Complete.thy ===== *)
theory Complete
  imports Ctype
begin

text \<open>
  \<open>complete.c\<close>: does a text end with a complete SQL statement?  \<open>complete_token\<close> is the \<open>switch\<close> of the loop
  of \<open>sqlite3_complete\<close>: from a text that is not empty it yields a token and the text after it, or the value the
  function returns at once.  The state machine is the table \<open>trans\<close>; an access outside of the table is \<open>None\<close>.
\<close>

section \<open>Tokens\<close>

definition tkSEMI :: nat where "tkSEMI = 0"
definition tkWS :: nat where "tkWS = 1"
definition tkOTHER :: nat where "tkOTHER = 2"
definition tkEXPLAIN :: nat where "tkEXPLAIN = 3"
definition tkCREATE :: nat where "tkCREATE = 4"
definition tkTEMP :: nat where "tkTEMP = 5"
definition tkTRIGGER :: nat where "tkTRIGGER = 6"
definition tkEND :: nat where "tkEND = 7"

lemmas tk_defs = tkSEMI_def tkWS_def tkOTHER_def tkEXPLAIN_def tkCREATE_def tkTEMP_def tkTRIGGER_def tkEND_def

definition trans_table :: "nat list list" where
  "trans_table =
    [[1, 0, 2, 3, 4, 2, 2, 2],
     [1, 1, 2, 3, 4, 2, 2, 2],
     [1, 2, 2, 2, 2, 2, 2, 2],
     [1, 3, 3, 2, 4, 2, 2, 2],
     [1, 4, 2, 2, 2, 4, 5, 2],
     [6, 5, 5, 5, 5, 5, 5, 5],
     [6, 6, 5, 5, 5, 5, 5, 7],
     [1, 7, 5, 5, 5, 5, 5, 5]]"

definition trans_step :: "nat \<Rightarrow> nat \<Rightarrow> nat option" where
  "trans_step s t = (if s < length trans_table \<and> t < length (trans_table ! s) then Some (trans_table ! s ! t) else None)"

text \<open>To the end of a C comment: the rest begins with the star of the closing mark, or is empty.\<close>

fun skip_comment :: "byte list \<Rightarrow> byte list" where
  "skip_comment [] = []"
| "skip_comment (c # z) = (if c = 42 \<and> hd0 z = 47 then c # z else skip_comment z)"

text \<open>The keyword a word is, by its first letter and its length.\<close>

definition complete_keyword :: "byte list \<Rightarrow> nat \<Rightarrow> nat" where
  "complete_keyword z nId =
    (let c = hd0 z in
     if c = 99 \<or> c = 67 then
       (if nId = 6 \<and> sqlite3StrNICmp z (str ''create'') 6 = 0 then tkCREATE else tkOTHER)
     else if c = 116 \<or> c = 84 then
       (if nId = 7 \<and> sqlite3StrNICmp z (str ''trigger'') 7 = 0 then tkTRIGGER
        else if nId = 4 \<and> sqlite3StrNICmp z (str ''temp'') 4 = 0 then tkTEMP
        else if nId = 9 \<and> sqlite3StrNICmp z (str ''temporary'') 9 = 0 then tkTEMP
        else tkOTHER)
     else if c = 101 \<or> c = 69 then
       (if nId = 3 \<and> sqlite3StrNICmp z (str ''end'') 3 = 0 then tkEND
        else if nId = 7 \<and> sqlite3StrNICmp z (str ''explain'') 7 = 0 then tkEXPLAIN
        else tkOTHER)
     else tkOTHER)"

datatype complete_lexeme = Tok nat "byte list" | RetFalse | RetState

fun complete_token :: "byte list \<Rightarrow> complete_lexeme" where
  "complete_token [] = RetState"
| "complete_token (c # z) =
    (if c = 59 then Tok tkSEMI z
     else if c = 32 \<or> c = 13 \<or> c = 9 \<or> c = 10 \<or> c = 12 then Tok tkWS z
     else if c = 47 then
       (if hd0 z \<noteq> 42 then Tok tkOTHER z
        else (case skip_comment (tl z) of [] \<Rightarrow> RetFalse | r \<Rightarrow> Tok tkWS (drop 2 r)))
     else if c = 45 then
       (if hd0 z \<noteq> 45 then Tok tkOTHER z
        else (case dropWhile (\<lambda>x. x \<noteq> 10) z of [] \<Rightarrow> RetState | r \<Rightarrow> Tok tkWS (tl r)))
     else if c = 91 then
       (case dropWhile (\<lambda>x. x \<noteq> 93) z of [] \<Rightarrow> RetFalse | r \<Rightarrow> Tok tkOTHER (tl r))
     else if c = 96 \<or> c = 34 \<or> c = 39 then
       (case dropWhile (\<lambda>x. x \<noteq> c) z of [] \<Rightarrow> RetFalse | r \<Rightarrow> Tok tkOTHER (tl r))
     else if IdChar c then
       (let nId = 1 + length (takeWhile IdChar z) in Tok (complete_keyword (c # z) nId) (drop nId (c # z)))
     else Tok tkOTHER z)"

lemma skip_comment_length: "length (skip_comment z) \<le> length z"
  by (induction z) auto

lemma complete_token_shorter: "complete_token z = Tok t z' \<Longrightarrow> length z' < length z"
proof (cases z)
  case (Cons c y)
  assume t: "complete_token z = Tok t z'"
  have d: "length (dropWhile P y) \<le> length y" for P :: "byte \<Rightarrow> bool" by (rule length_dropWhile_le)
  have "length (skip_comment (tl y)) \<le> length y" using skip_comment_length [of "tl y"] by (cases y) auto
  with t d show ?thesis
    by (auto simp: Cons Let_def split: if_splits list.splits) (metis Suc_le_eq le_imp_less_Suc length_Cons less_or_eq_imp_le)+
qed simp

section \<open>The state machine\<close>

function complete_loop :: "nat \<Rightarrow> byte list \<Rightarrow> bool option" where
  "complete_loop state z =
    (if z = [] then Some (state = 1)
     else (case complete_token z of
             RetFalse \<Rightarrow> Some False
           | RetState \<Rightarrow> Some (state = 1)
           | Tok t z' \<Rightarrow> (case trans_step state t of None \<Rightarrow> None | Some s \<Rightarrow> complete_loop s z')))"
  by pat_completeness auto
termination by (relation "measure (length \<circ> snd)") (auto dest: complete_token_shorter)

declare complete_loop.simps [simp del]

definition sqlite3_complete :: "byte list \<Rightarrow> bool option" where
  "sqlite3_complete zSql = complete_loop 0 zSql"

end
