(* ===== verification/Complete_Props.thy ===== *)
theory Complete_Props
  imports Complete "HOL-Library.Sublist"
begin

text \<open>
  The state machine of \<open>sqlite3_complete\<close> against a grammar of statements, and what completes a text.
\<close>

section \<open>The machine on a list of tokens\<close>

function complete_lex :: "byte list \<Rightarrow> nat list \<times> bool" where
  "complete_lex z =
    (if z = [] then ([], True)
     else (case complete_token z of
             RetFalse \<Rightarrow> ([], False)
           | RetState \<Rightarrow> ([], True)
           | Tok t z' \<Rightarrow> (t # fst (complete_lex z'), snd (complete_lex z'))))"
  by pat_completeness auto
termination by (relation "measure length") (auto dest: complete_token_shorter)

declare complete_lex.simps [simp del]

abbreviation delta :: "nat \<Rightarrow> nat \<Rightarrow> nat" where
  "delta s t \<equiv> trans_table ! s ! t"

lemma keyword_range: "complete_keyword z n < 8 \<and> complete_keyword z n \<noteq> tkWS"
  by (simp add: complete_keyword_def tk_defs Let_def)

lemma token_range: "complete_token z = Tok t z' \<Longrightarrow> t < 8"
  by (cases z) (auto simp: Let_def tk_defs keyword_range split: if_splits list.splits)

lemma lt8: "n < 8 \<longleftrightarrow> n \<in> {0, 1, 2, 3, 4, 5, 6, 7}" for n :: nat
  by auto

lemma delta_lt8: "s < 8 \<Longrightarrow> t < 8 \<Longrightarrow> delta s t < 8"
  unfolding lt8 by (elim insertE) (simp_all add: trans_table_def)

lemma trans_step_delta: "s < 8 \<Longrightarrow> t < 8 \<Longrightarrow> trans_step s t = Some (delta s t)"
  unfolding lt8 by (elim insertE) (simp_all add: trans_table_def trans_step_def)

lemma complete_loop_lex:
  "s < 8 \<Longrightarrow> complete_loop s z = Some (snd (complete_lex z) \<and> foldl delta s (fst (complete_lex z)) = 1)"
proof (induction z arbitrary: s rule: complete_lex.induct)
  case (1 z)
  show ?case
  proof (cases "z = []")
    case True
    then show ?thesis by (simp add: complete_loop.simps complete_lex.simps)
  next
    case False
    then show ?thesis
    proof (cases "complete_token z")
      case (Tok t z')
      have t: "t < 8" using token_range [OF Tok] .
      from 1 False Tok delta_lt8 [OF "1.prems" t]
      have "complete_loop (delta s t) z' = Some (snd (complete_lex z') \<and> foldl delta (delta s t) (fst (complete_lex z')) = 1)" by blast
      then show ?thesis
        by (simp add: complete_loop.simps [of s z] complete_lex.simps [of z] Tok False trans_step_delta "1.prems" t)
    qed (simp_all add: complete_loop.simps [of s z] complete_lex.simps [of z])
  qed
qed

section \<open>Statements\<close>

text \<open>A statement of tokens other than white space.  One that begins with
  \<open>[EXPLAIN OTHER*] CREATE TEMP* TRIGGER\<close> ends with the first \<open>; END ;\<close> after this; any other ends with its first
  semicolon.  \<open>after_head\<close> is what follows the beginning of a trigger.\<close>

fun after_create :: "nat list \<Rightarrow> nat list option" where
  "after_create [] = None"
| "after_create (t # p) = (if t = tkTEMP then after_create p else if t = tkTRIGGER then Some p else None)"

fun after_explain :: "nat list \<Rightarrow> nat list option" where
  "after_explain [] = None"
| "after_explain (t # p) = (if t = tkOTHER then after_explain p else if t = tkCREATE then after_create p else None)"

fun after_head :: "nat list \<Rightarrow> nat list option" where
  "after_head [] = None"
| "after_head (t # p) = (if t = tkEXPLAIN then after_explain p else if t = tkCREATE then after_create p else None)"

definition end_mark :: "nat list" where
  "end_mark = [tkSEMI, tkEND, tkSEMI]"

definition first_end :: "nat list \<Rightarrow> bool" where
  "first_end p \<longleftrightarrow> suffix end_mark p \<and> \<not> sublist end_mark (butlast p)"

definition first_semi :: "nat list \<Rightarrow> bool" where
  "first_semi p \<longleftrightarrow> suffix [tkSEMI] p \<and> tkSEMI \<notin> set (butlast p)"

definition statement :: "nat list \<Rightarrow> bool" where
  "statement p \<longleftrightarrow> (case after_head p of Some b \<Rightarrow> first_end b | None \<Rightarrow> first_semi p)"

text \<open>The state machine comes to state 1 for the first time at the end of the tokens.\<close>

fun returns :: "nat \<Rightarrow> nat list \<Rightarrow> bool" where
  "returns s [] = False"
| "returns s (t # p) = (if delta s t = 1 then p = [] else returns (delta s t) p)"

lemma first_end_Cons: "first_end (t # p) \<longleftrightarrow> (if prefix end_mark (t # p) then p = [tkEND, tkSEMI] else first_end p)"
proof (cases "p = []")
  case True
  then show ?thesis by (auto simp: first_end_def end_mark_def suffix_Cons)
next
  case False
  then have b: "butlast (t # p) = t # butlast p" by simp
  show ?thesis
  proof (cases "prefix end_mark (t # p)")
    case True
    then obtain r where r: "t # p = end_mark @ r" by (auto simp: prefix_def)
    have "sublist end_mark (butlast (t # p))" if "r \<noteq> []"
      using that by (simp add: r butlast_append)
    moreover have "\<not> sublist end_mark (butlast end_mark)" by (simp add: end_mark_def sublist_Cons_right)
    ultimately have "first_end (t # p) \<longleftrightarrow> r = []" unfolding first_end_def by (cases "r = []") (simp_all add: r)
    with True r show ?thesis by (auto simp: end_mark_def)
  next
    case False
    have "\<not> prefix end_mark (t # butlast p)"
      using False \<open>p \<noteq> []\<close> by (metis append_butlast_last_id append_Cons prefix_append)
    with False b show ?thesis by (auto simp: first_end_def suffix_Cons sublist_Cons_right)
  qed
qed

lemma first_end_Nil [simp]: "\<not> first_end []"
  by (simp add: first_end_def end_mark_def)

lemma first_semi_Cons: "first_semi (t # p) \<longleftrightarrow> (if t = tkSEMI then p = [] else first_semi p)"
  by (cases p) (auto simp: first_semi_def suffix_Cons)

lemma first_semi_Nil [simp]: "\<not> first_semi []"
  by (simp add: first_semi_def)

text \<open>Tokens that are not white space.\<close>

definition solid :: "nat list \<Rightarrow> bool" where
  "solid p \<longleftrightarrow> list_all (\<lambda>t. t \<in> {tkSEMI, tkOTHER, tkEXPLAIN, tkCREATE, tkTEMP, tkTRIGGER, tkEND}) p"

lemma solid_Cons:
  "solid (t # p) \<longleftrightarrow> (t = tkSEMI \<or> t = tkOTHER \<or> t = tkEXPLAIN \<or> t = tkCREATE \<or> t = tkTEMP \<or> t = tkTRIGGER \<or> t = tkEND) \<and> solid p"
  by (auto simp: solid_def)

lemma returns_trigger:
  "solid p \<Longrightarrow> returns 5 p = first_end p \<and> returns 6 p = first_end (tkSEMI # p) \<and> returns 7 p = first_end (tkSEMI # tkEND # p)"
proof (induction p)
  case (Cons t p)
  then have IH: "returns 5 p = first_end p" "returns 6 p = first_end (tkSEMI # p)" "returns 7 p = first_end (tkSEMI # tkEND # p)"
    by (simp_all add: solid_Cons)
  show ?case using Cons.prems unfolding solid_Cons
    by (elim conjE disjE; simp add: IH; simp add: first_end_Cons end_mark_def tk_defs trans_table_def IH)
qed (simp add: first_end_Cons end_mark_def tk_defs)

lemma returns_normal: "solid p \<Longrightarrow> returns 2 p = first_semi p"
proof (induction p)
  case (Cons t p)
  then have IH: "returns 2 p = first_semi p" by (simp add: solid_Cons)
  show ?case using Cons.prems unfolding solid_Cons
    by (elim conjE disjE; simp add: first_semi_Cons tk_defs trans_table_def IH)
qed simp

lemma returns_create: "solid p \<Longrightarrow> returns 4 p = (case after_create p of Some b \<Rightarrow> first_end b | None \<Rightarrow> first_semi p)"
proof (induction p)
  case (Cons t p)
  then have IH: "returns 4 p = (case after_create p of Some b \<Rightarrow> first_end b | None \<Rightarrow> first_semi p)"
    "returns 2 p = first_semi p" "returns 5 p = first_end p"
    by (simp_all add: solid_Cons returns_normal returns_trigger)
  show ?case using Cons.prems unfolding solid_Cons
    by (elim conjE disjE; simp add: first_semi_Cons tk_defs trans_table_def IH split: option.split)
qed simp

lemma returns_explain: "solid p \<Longrightarrow> returns 3 p = (case after_explain p of Some b \<Rightarrow> first_end b | None \<Rightarrow> first_semi p)"
proof (induction p)
  case (Cons t p)
  then have IH: "returns 3 p = (case after_explain p of Some b \<Rightarrow> first_end b | None \<Rightarrow> first_semi p)"
    "returns 2 p = first_semi p" "returns 4 p = (case after_create p of Some b \<Rightarrow> first_end b | None \<Rightarrow> first_semi p)"
    by (simp_all add: solid_Cons returns_normal returns_create)
  show ?case using Cons.prems unfolding solid_Cons
    by (elim conjE disjE; simp add: first_semi_Cons tk_defs trans_table_def IH split: option.split)
qed simp

lemma returns_statement: "solid p \<Longrightarrow> returns 1 p = statement p"
proof (cases p)
  case (Cons t q)
  assume "solid p"
  then have s: "solid (t # q)" by (simp add: Cons)
  then have *: "returns 3 q = (case after_explain q of Some b \<Rightarrow> first_end b | None \<Rightarrow> first_semi q)"
    "returns 2 q = first_semi q" "returns 4 q = (case after_create q of Some b \<Rightarrow> first_end b | None \<Rightarrow> first_semi q)"
    by (simp_all add: solid_Cons returns_normal returns_create returns_explain)
  show ?thesis using s unfolding solid_Cons Cons statement_def
    by (elim conjE disjE; simp add: first_semi_Cons tk_defs trans_table_def * split: option.split)
qed (simp add: statement_def)

section \<open>Lists of statements\<close>

lemma fold_split:
  "foldl delta s w = 1 \<Longrightarrow> w \<noteq> [] \<Longrightarrow> \<exists>p r. w = p @ r \<and> returns s p \<and> foldl delta 1 r = 1"
proof (induction w arbitrary: s)
  case (Cons t w)
  show ?case
  proof (cases "delta s t = 1")
    case True
    with Cons.prems show ?thesis by (intro exI [of _ "[t]"] exI [of _ w]) simp
  next
    case False
    with Cons.prems have "w \<noteq> []" "foldl delta (delta s t) w = 1" by auto
    with Cons.IH obtain p r where "w = p @ r" "returns (delta s t) p" "foldl delta 1 r = 1" by blast
    with False show ?thesis by (intro exI [of _ "t # p"] exI [of _ r]) simp
  qed
qed simp

lemma returns_fold: "returns s p \<Longrightarrow> foldl delta s p = 1"
  by (induction p arbitrary: s) (auto split: if_splits)

lemma solid_append [simp]: "solid (a @ b) \<longleftrightarrow> solid a \<and> solid b"
  by (auto simp: solid_def)

lemma statement_ne: "statement p \<Longrightarrow> p \<noteq> []"
  by (auto simp: statement_def)

lemma concat_statements:
  "w \<noteq> [] \<and> (\<exists>ss. w = concat ss \<and> list_all statement ss) \<longleftrightarrow> (\<exists>ss. ss \<noteq> [] \<and> w = concat ss \<and> list_all statement ss)"
proof (intro iffI; elim conjE exE)
  fix ss assume "w \<noteq> []" "w = concat ss" "list_all statement ss"
  then show "\<exists>ss. ss \<noteq> [] \<and> w = concat ss \<and> list_all statement ss" by (intro exI [of _ ss]) auto
next
  fix ss assume s: "ss \<noteq> []" "w = concat ss" "list_all statement ss"
  then have "hd ss \<noteq> []" using statement_ne by (cases ss) auto
  with s(1,2) have "w \<noteq> []" by (cases ss) auto
  with s(2,3) show "w \<noteq> [] \<and> (\<exists>ss. w = concat ss \<and> list_all statement ss)" by blast
qed

lemma fold_statements:
  "solid w \<Longrightarrow> foldl delta 1 w = 1 \<longleftrightarrow> (\<exists>ss. w = concat ss \<and> list_all statement ss)"
proof (induction w rule: length_induct)
  case (1 w)
  show ?case
  proof
    assume f: "foldl delta 1 w = 1"
    show "\<exists>ss. w = concat ss \<and> list_all statement ss"
    proof (cases "w = []")
      case False
      from fold_split [OF f False] obtain p r where w: "w = p @ r" "returns 1 p" "foldl delta 1 r = 1" by blast
      then have "statement p" using 1(2) returns_statement [of p] by simp
      moreover have "length r < length w" using w statement_ne [OF \<open>statement p\<close>] by simp
      then obtain ss where "r = concat ss" "list_all statement ss" using 1 w by auto
      ultimately show ?thesis using w by (intro exI [of _ "p # ss"]) simp
    qed (rule exI [of _ "[]"], simp)
  next
    assume "\<exists>ss. w = concat ss \<and> list_all statement ss"
    then obtain ss where "w = concat ss" "list_all statement ss" by blast
    then show "foldl delta 1 w = 1" using 1(2)
    proof (induction ss arbitrary: w)
      case (Cons p ss)
      then have "solid p" "statement p" "solid (concat ss)" by simp_all
      then have "foldl delta 1 p = 1" using returns_statement [of p] returns_fold by blast
      with Cons show ?case by simp
    qed simp
  qed
qed

lemma fold_skip_ws:
  "s < 8 \<Longrightarrow> list_all (\<lambda>t. t < 8) ts \<Longrightarrow> foldl delta s ts = foldl delta s (filter (\<lambda>t. t \<noteq> tkWS) ts)"
proof (induction ts arbitrary: s)
  case (Cons t ts)
  have "delta s tkWS = s" using Cons.prems(1) unfolding lt8 by (elim insertE) (simp_all add: trans_table_def tk_defs)
  with Cons delta_lt8 show ?case by auto
qed simp

lemma lex_range: "list_all (\<lambda>t. t < 8) (fst (complete_lex z))"
proof (induction z rule: complete_lex.induct)
  case (1 z)
  then show ?case by (cases "complete_token z") (auto simp: complete_lex.simps [of z] token_range)
qed

lemma solid_filter: "list_all (\<lambda>t. t < 8) ts \<Longrightarrow> solid (filter (\<lambda>t. t \<noteq> tkWS) ts)"
  by (induction ts) (auto simp: solid_def tk_defs lt8)

lemma fold_start: "solid w \<Longrightarrow> foldl delta 0 w = 1 \<longleftrightarrow> w \<noteq> [] \<and> foldl delta 1 w = 1"
proof (cases w)
  case (Cons t p)
  assume "solid w"
  then have "delta 0 t = delta 1 t" unfolding Cons solid_Cons by (elim conjE disjE; simp add: tk_defs trans_table_def)
  then show ?thesis by (simp add: Cons)
qed simp

lemma complete_statements:
  "sqlite3_complete z = Some (snd (complete_lex z) \<and>
     (\<exists>ss. ss \<noteq> [] \<and> filter (\<lambda>t. t \<noteq> tkWS) (fst (complete_lex z)) = concat ss \<and> list_all statement ss))"
proof -
  let ?w = "filter (\<lambda>t. t \<noteq> tkWS) (fst (complete_lex z))"
  have s: "solid ?w" using lex_range by (rule solid_filter)
  have "foldl delta 0 (fst (complete_lex z)) = foldl delta 0 ?w" using lex_range by (intro fold_skip_ws) simp_all
  then have "foldl delta 0 (fst (complete_lex z)) = 1 \<longleftrightarrow> ?w \<noteq> [] \<and> (\<exists>ss. ?w = concat ss \<and> list_all statement ss)"
    using fold_start [OF s] fold_statements [OF s] by simp
  also have "\<dots> \<longleftrightarrow> (\<exists>ss. ss \<noteq> [] \<and> ?w = concat ss \<and> list_all statement ss)"
    by (rule concat_statements)
  finally show ?thesis by (simp add: sqlite3_complete_def complete_loop_lex)
qed

section \<open>Completion\<close>

lemma strnicmp_loop_append:
  "N \<le> int (length a) \<Longrightarrow> \<exists>n x y x'. strnicmp_loop a b N = (n, x, y) \<and> strnicmp_loop (a @ s) b N = (n, x', y) \<and> (n < 0 \<or> hd0 x' = hd0 x)"
proof (induction a arbitrary: b N)
  case Nil
  then show ?case by (cases s) auto
next
  case (Cons c a)
  show ?case
  proof (cases "N > 0 \<and> c \<noteq> 0 \<and> UpperToLower c = UpperToLower (hd0 b)")
    case True
    then show ?thesis using Cons.IH [of "N - 1" "tl b"] Cons.prems by auto
  next
    case False
    then show ?thesis by auto
  qed
qed

lemma StrNICmp_append: "N \<le> int (length a) \<Longrightarrow> sqlite3StrNICmp (a @ s) b N = sqlite3StrNICmp a b N"
  using strnicmp_loop_append [of N a b s] by (auto simp: sqlite3_strnicmp_def)

lemma complete_keyword_append:
  assumes "z \<noteq> []" "n \<le> length z"
  shows "complete_keyword (z @ s) n = complete_keyword z n"
proof -
  have h: "hd0 (z @ s) = hd0 z" using assms(1) by (cases z) auto
  have e: "n = nat k \<Longrightarrow> 0 \<le> k \<Longrightarrow> sqlite3StrNICmp (z @ s) b k = sqlite3StrNICmp z b k" for k b
    using assms(2) by (intro StrNICmp_append) simp
  have r: "(n = 6 \<and> sqlite3StrNICmp (z @ s) b 6 = 0) = (n = 6 \<and> sqlite3StrNICmp z b 6 = 0)"
    "(n = 7 \<and> sqlite3StrNICmp (z @ s) b 7 = 0) = (n = 7 \<and> sqlite3StrNICmp z b 7 = 0)"
    "(n = 4 \<and> sqlite3StrNICmp (z @ s) b 4 = 0) = (n = 4 \<and> sqlite3StrNICmp z b 4 = 0)"
    "(n = 9 \<and> sqlite3StrNICmp (z @ s) b 9 = 0) = (n = 9 \<and> sqlite3StrNICmp z b 9 = 0)"
    "(n = 3 \<and> sqlite3StrNICmp (z @ s) b 3 = 0) = (n = 3 \<and> sqlite3StrNICmp z b 3 = 0)" for b
    using e [of 6 b] e [of 7 b] e [of 4 b] e [of 9 b] e [of 3 b] by auto
  show ?thesis by (simp only: complete_keyword_def h Let_def r)
qed

lemma skip_comment_append: "skip_comment z \<noteq> [] \<Longrightarrow> skip_comment (z @ s) = skip_comment z @ s"
proof (induction z)
  case (Cons c z)
  show ?case
  proof (cases "c = 42 \<and> hd0 z = 47")
    case True
    then have "z \<noteq> []" by auto
    then have "hd0 (z @ s) = hd0 z" by (cases z) auto
    with True show ?thesis by simp
  next
    case False
    with Cons.prems have "z \<noteq> []" by auto
    then have "hd0 (z @ s) = hd0 z" by (cases z) auto
    with False Cons show ?thesis by auto
  qed
qed simp

lemma skip_comment_shape: "skip_comment z = [] \<or> (\<exists>r. skip_comment z = 42 # 47 # r)"
proof (induction z)
  case (Cons c z)
  then show ?case by (cases z) auto
qed simp

lemma dropWhile_append_ne: "dropWhile P z \<noteq> [] \<Longrightarrow> dropWhile P (z @ s) = dropWhile P z @ s"
  by (induction z) auto

lemma takeWhile_append_stop: "dropWhile P z \<noteq> [] \<or> \<not> P (hd0 s) \<and> s \<noteq> [] \<Longrightarrow> takeWhile P (z @ s) = takeWhile P z"
  by (induction z) (cases s; auto)+

text \<open>A token that does not reach the end of the text, or cannot go on, is the same in a longer text.\<close>

lemma complete_token_append:
  assumes "complete_token z = Tok t z'" "z' \<noteq> [] \<or> (\<exists>s'. s = 10 # s')"
  shows "complete_token (z @ s) = Tok t (z' @ s)"
proof (cases z)
  case (Cons c y)
  have hd: "hd0 (y @ s) = (if y = [] then hd0 s else hd0 y)" by (cases y) auto
  have s: "hd0 s \<noteq> 42" "hd0 s \<noteq> 45" "\<not> IdChar (hd0 s)" "s \<noteq> []" if "z' = []" using that assms(2) by auto
  consider (slash) "c = 47" | (minus) "c = 45" | (bracket) "c = 91" | (quote) "c = 96 \<or> c = 34 \<or> c = 39"
    | (id) "IdChar c" | (none) "c \<noteq> 47" "c \<noteq> 45" "c \<noteq> 91" "c \<noteq> 96" "c \<noteq> 34" "c \<noteq> 39" "\<not> IdChar c" by blast
  then show ?thesis
  proof cases
    case slash
    show ?thesis
    proof (cases "hd0 y = 42")
      case True
      then have y: "tl (y @ s) = tl y @ s" "hd0 (y @ s) = 42" by (cases y; simp)+
      from assms(1) slash Cons True skip_comment_shape [of "tl y"] obtain r where r: "skip_comment (tl y) = 42 # 47 # r" by auto
      then have "skip_comment (tl y @ s) = 42 # 47 # r @ s" using skip_comment_append [of "tl y" s] by simp
      with r show ?thesis using assms(1) slash Cons True y by simp
    next
      case False
      then show ?thesis using assms slash Cons hd s by (auto split: if_splits)
    qed
  next
    case minus
    show ?thesis
    proof (cases "hd0 y = 45")
      case True
      then have y: "hd0 (y @ s) = 45" by (cases y) auto
      show ?thesis using assms(1) minus Cons True y dropWhile_append_ne [of "\<lambda>x. x \<noteq> 10" y s]
        by (cases "dropWhile (\<lambda>x. x \<noteq> 10) y") auto
    next
      case False
      then show ?thesis using assms minus Cons hd s by (auto split: if_splits)
    qed
  next
    case bracket
    then show ?thesis using assms(1) Cons dropWhile_append_ne [of "\<lambda>x. x \<noteq> 93" y s]
      by (cases "dropWhile (\<lambda>x. x \<noteq> 93) y") auto
  next
    case quote
    from quote assms(1) obtain d where d: "dropWhile (\<lambda>x. x \<noteq> c) y = d # z'" "t = tkOTHER"
      by (elim disjE) (simp_all add: Cons split: list.splits)
    then have "dropWhile (\<lambda>x. x \<noteq> c) (y @ s) = d # z' @ s" using dropWhile_append_ne [of "\<lambda>x. x \<noteq> c" y s] by simp
    with quote d(2) show ?thesis by (elim disjE) (simp_all add: Cons)
  next
    case id
    then have n: "c \<noteq> 59" "c \<noteq> 32" "c \<noteq> 13" "c \<noteq> 9" "c \<noteq> 10" "c \<noteq> 12" "c \<noteq> 47" "c \<noteq> 45" "c \<noteq> 91" "c \<noteq> 96" "c \<noteq> 34" "c \<noteq> 39"
      by (auto simp: IdChar_ranges)
    let ?n = "1 + length (takeWhile IdChar y)"
    have z': "z' = dropWhile IdChar y" "t = complete_keyword (c # y) ?n"
      using assms(1) n id by (auto simp: Cons Let_def dropWhile_eq_drop)
    then have "takeWhile IdChar (y @ s) = takeWhile IdChar y" using s by (intro takeWhile_append_stop) auto
    moreover have "complete_keyword ((c # y) @ s) ?n = complete_keyword (c # y) ?n"
      by (rule complete_keyword_append) (simp_all add: length_takeWhile_le)
    moreover have "drop ?n (c # y @ s) = z' @ s"
      by (simp add: z' dropWhile_eq_drop length_takeWhile_le)
    ultimately show ?thesis using n id z' by (simp add: Cons Let_def)
  next
    case none
    then show ?thesis using assms(1) Cons by (auto split: if_splits)
  qed
qed (use assms in simp)


abbreviation finish :: "byte list" where
  "finish \<equiv> [59, 101, 110, 100, 59]"

lemma skip_comment_close: "skip_comment z = [] \<Longrightarrow> skip_comment (z @ 42 # 47 # s) = 42 # 47 # s"
proof (induction z)
  case (Cons c z)
  show ?case
  proof (cases "c = 42 \<and> hd0 z = 47")
    case False
    with Cons show ?thesis by (cases z) auto
  qed (use Cons in simp)
qed simp

lemma dropWhile_close: "dropWhile (\<lambda>x. x \<noteq> c) z = [] \<Longrightarrow> dropWhile (\<lambda>x. x \<noteq> c) (z @ c # s) = c # s"
  by (induction z) (auto split: if_splits)

text \<open>What an unfinished construct needs to become one token.\<close>

lemma complete_token_close:
  assumes "z \<noteq> []" "\<forall>t z'. complete_token z \<noteq> Tok t z'"
  shows "\<exists>c\<in>set [[10], [42, 47], [93], [96], [34], [39 :: byte]]. \<exists>t < 8. \<forall>s. complete_token (z @ c @ s) = Tok t s"
proof -
  obtain d y where z: "z = d # y" using assms(1) by (cases z) auto
  consider "d = 47" "hd0 y = 42" "skip_comment (tl y) = []" | "d = 45" "hd0 y = 45" "dropWhile (\<lambda>x. x \<noteq> 10) y = []"
    | "d = 91" "dropWhile (\<lambda>x. x \<noteq> 93) y = []" | "d = 96 \<or> d = 34 \<or> d = 39" "dropWhile (\<lambda>x. x \<noteq> d) y = []"
    using assms(2) unfolding z by (auto simp: Let_def split: if_splits list.splits)
  then show ?thesis
  proof cases
    case 1
    then obtain w where "y = 42 # w" by (cases y) auto
    with 1 have "complete_token (z @ [42, 47] @ s) = Tok tkWS s" for s by (simp add: z skip_comment_close)
    then show ?thesis by (auto simp: tk_defs)
  next
    case 2
    then obtain w where "y = 45 # w" by (cases y) auto
    with 2 have "complete_token (z @ [10] @ s) = Tok tkWS s" for s using dropWhile_close [of 10 y s] by (simp add: z)
    then show ?thesis by (auto simp: tk_defs)
  next
    case 3
    then have "complete_token (z @ [93] @ s) = Tok tkOTHER s" for s using dropWhile_close [of 93 y s] by (simp add: z)
    then show ?thesis by (auto simp: tk_defs)
  next
    case 4
    then have "complete_token (z @ [d] @ s) = Tok tkOTHER s" for s
      using dropWhile_close [of d y s] by (elim disjE) (simp_all add: z)
    moreover have "tkOTHER < 8" by (simp add: tk_defs)
    ultimately show ?thesis using 4(1) by auto
  qed
qed

lemma complete_loop_Tok:
  "complete_token z = Tok t z' \<Longrightarrow> s < 8 \<Longrightarrow> t < 8 \<Longrightarrow> complete_loop s z = complete_loop (delta s t) z'"
  using complete_token.simps(1) by (cases "z = []") (simp_all add: complete_loop.simps [of s z] trans_step_delta)

lemma finish_tokens: "complete_token finish = Tok tkSEMI [101, 110, 100, 59]" "complete_token [101, 110, 100, 59] = Tok tkEND [59]"
    "complete_token [59] = Tok tkSEMI []" "complete_token (10 # finish) = Tok tkWS finish"
  by code_simp+

lemma complete_finish: "s < 8 \<Longrightarrow> complete_loop s finish = Some True"
proof -
  assume s: "s < 8"
  have t: "tkSEMI < 8" "tkEND < 8" by (simp_all add: tk_defs)
  have "delta (delta (delta s tkSEMI) tkEND) tkSEMI = 1"
    using s unfolding lt8 by (elim insertE) (simp_all add: trans_table_def tk_defs)
  then show ?thesis
    by (simp add: complete_loop_Tok [OF finish_tokens(1)] complete_loop_Tok [OF finish_tokens(2)] complete_loop_Tok [OF finish_tokens(3)]
        delta_lt8 s t complete_loop.simps [of _ "[]"])
qed

lemma complete_finish_nl: "s < 8 \<Longrightarrow> complete_loop s (10 # finish) = Some True"
  by (simp add: complete_loop_Tok [OF finish_tokens(4)] complete_finish delta_lt8 tkWS_def)

lemma complete_closes:
  "q < 8 \<Longrightarrow> \<exists>c\<in>set [[10], [42, 47], [93], [96], [34], [39 :: byte]]. complete_loop q (z @ c @ finish) = Some True"
proof (induction z arbitrary: q rule: length_induct)
  case (1 z)
  show ?case
  proof (cases "z = [] \<or> (\<exists>t. complete_token z = Tok t [])")
    case True
    have "complete_loop q (z @ 10 # finish) = Some True"
    proof (cases "z = []")
      case False
      with True obtain t where t: "complete_token z = Tok t []" by auto
      then have "complete_token (z @ 10 # finish) = Tok t (10 # finish)" using complete_token_append [OF t, of "10 # finish"] by simp
      from complete_loop_Tok [OF this 1(2) token_range [OF t]] show ?thesis
        by (simp only: complete_finish_nl delta_lt8 [OF 1(2) token_range [OF t]])
    qed (simp add: complete_finish_nl 1(2))
    then show ?thesis by simp
  next
    case False
    show ?thesis
    proof (cases "\<exists>t z'. complete_token z = Tok t z'")
      case True
      then obtain t z' where t: "complete_token z = Tok t z'" by blast
      with False have ne: "z' \<noteq> []" by auto
      note r = token_range [OF t]
      obtain c where c: "c \<in> set [[10], [42, 47], [93], [96], [34], [39 :: byte]]" "complete_loop (delta q t) (z' @ c @ finish) = Some True"
        using 1(1) complete_token_shorter [OF t] delta_lt8 [OF 1(2) r] by blast
      have "complete_token (z @ c @ finish) = Tok t (z' @ c @ finish)"
        using complete_token_append [OF t, of "c @ finish"] ne by blast
      from complete_loop_Tok [OF this 1(2) r] c show ?thesis by auto
    next
      case none: False
      from False none complete_token_close [of z] obtain c t where c: "c \<in> set [[10], [42, 47], [93], [96], [34], [39 :: byte]]"
        "t < 8" "\<forall>s. complete_token (z @ c @ s) = Tok t s" by blast
      from complete_loop_Tok [OF c(3) [rule_format, of finish] 1(2) c(2)] c(1)
      show ?thesis by (auto simp: complete_finish delta_lt8 1(2) c(2))
    qed
  qed
qed

section \<open>Properties\<close>

text \<open>C33. Equivalence.  \<open>sqlite3_complete\<close> never leaves its table and returns 1 exactly when the text has no
  unfinished comment, bracket or quote and its tokens other than white space are one or more whole statements:
  one that begins with \<open>[EXPLAIN OTHER*] CREATE TEMP* TRIGGER\<close> reaches to its first \<open>; END ;\<close>, any other to its
  first semicolon.\<close>

theorem complete_decides_statements:
  "sqlite3_complete z = Some (snd (complete_lex z) \<and>
     (\<exists>ss. ss \<noteq> [] \<and> filter (\<lambda>t. t \<noteq> tkWS) (fst (complete_lex z)) = concat ss \<and> list_all statement ss))"
  by (rule complete_statements)

text \<open>C34. Liveness.  No text is a dead end for a program that reads statements line by line: after a new line, or the
  mark that closes an open comment, bracket or quote, the text \<open>;end;\<close> completes it whatever came before.\<close>

theorem complete_always_reachable:
  "\<exists>c. c \<in> set [[10], [42, 47], [93], [96], [34], [39]] \<and> sqlite3_complete (z @ c @ str '';end;'') = Some True"
proof -
  have f: "str '';end;'' = finish" by code_simp
  obtain c where c: "c \<in> set [[10], [42, 47], [93], [96], [34], [39]]" "complete_loop 0 (z @ c @ finish) = Some True"
    using complete_closes [OF zero_less_numeral, of z] by blast
  show ?thesis unfolding sqlite3_complete_def f using c by blast
qed

end
