(* ===== verification/Tokenize.thy ===== *)
theory Tokenize
  imports Keywords
begin

text \<open>
  The tokenizer of \<open>tokenize.c\<close>.  A C string is the list of its bytes before the terminator; \<open>rd z i\<close> is the read
  \<open>z[i]\<close>: a byte, the terminator at the end of the list, and \<open>None\<close> beyond it.  A result \<open>None\<close> of a function
  thus means that it has read outside of the string.
\<close>

section \<open>Character classes\<close>

definition CC_X :: nat where "CC_X = 0"
definition CC_KYWD0 :: nat where "CC_KYWD0 = 1"
definition CC_KYWD :: nat where "CC_KYWD = 2"
definition CC_DIGIT :: nat where "CC_DIGIT = 3"
definition CC_DOLLAR :: nat where "CC_DOLLAR = 4"
definition CC_VARALPHA :: nat where "CC_VARALPHA = 5"
definition CC_VARNUM :: nat where "CC_VARNUM = 6"
definition CC_SPACE :: nat where "CC_SPACE = 7"
definition CC_QUOTE :: nat where "CC_QUOTE = 8"
definition CC_QUOTE2 :: nat where "CC_QUOTE2 = 9"
definition CC_PIPE :: nat where "CC_PIPE = 10"
definition CC_MINUS :: nat where "CC_MINUS = 11"
definition CC_LT :: nat where "CC_LT = 12"
definition CC_GT :: nat where "CC_GT = 13"
definition CC_EQ :: nat where "CC_EQ = 14"
definition CC_BANG :: nat where "CC_BANG = 15"
definition CC_SLASH :: nat where "CC_SLASH = 16"
definition CC_LP :: nat where "CC_LP = 17"
definition CC_RP :: nat where "CC_RP = 18"
definition CC_SEMI :: nat where "CC_SEMI = 19"
definition CC_PLUS :: nat where "CC_PLUS = 20"
definition CC_STAR :: nat where "CC_STAR = 21"
definition CC_PERCENT :: nat where "CC_PERCENT = 22"
definition CC_COMMA :: nat where "CC_COMMA = 23"
definition CC_AND :: nat where "CC_AND = 24"
definition CC_TILDA :: nat where "CC_TILDA = 25"
definition CC_DOT :: nat where "CC_DOT = 26"
definition CC_ID :: nat where "CC_ID = 27"
definition CC_ILLEGAL :: nat where "CC_ILLEGAL = 28"
definition CC_NUL :: nat where "CC_NUL = 29"
definition CC_BOM :: nat where "CC_BOM = 30"

lemmas CC_defs =
  CC_X_def CC_KYWD0_def CC_KYWD_def CC_DIGIT_def CC_DOLLAR_def CC_VARALPHA_def CC_VARNUM_def CC_SPACE_def
  CC_QUOTE_def CC_QUOTE2_def CC_PIPE_def CC_MINUS_def CC_LT_def CC_GT_def CC_EQ_def CC_BANG_def
  CC_SLASH_def CC_LP_def CC_RP_def CC_SEMI_def CC_PLUS_def CC_STAR_def CC_PERCENT_def CC_COMMA_def
  CC_AND_def CC_TILDA_def CC_DOT_def CC_ID_def CC_ILLEGAL_def CC_NUL_def CC_BOM_def

definition aiClass :: "nat list" where
  "aiClass =
    [29, 28, 28, 28, 28, 28, 28, 28, 28, 7, 7, 28, 7, 7, 28, 28, 28, 28, 28, 28, 28, 28, 28, 28, 28, 28, 28, 28, 28, 28, 28, 28,
     7, 15, 8, 5, 4, 22, 24, 8, 17, 18, 21, 20, 23, 11, 26, 16, 3, 3, 3, 3, 3, 3, 3, 3, 3, 3, 5, 19, 12, 14, 13, 6,
     5, 1, 1, 1, 1, 1, 1, 1, 1, 1, 1, 1, 1, 1, 1, 1, 1, 1, 1, 1, 1, 1, 1, 1, 0, 2, 2, 9, 28, 28, 28, 2,
     8, 1, 1, 1, 1, 1, 1, 1, 1, 1, 1, 1, 1, 1, 1, 1, 1, 1, 1, 1, 1, 1, 1, 1, 0, 2, 2, 28, 10, 28, 25, 28,
     27, 27, 27, 27, 27, 27, 27, 27, 27, 27, 27, 27, 27, 27, 27, 27, 27, 27, 27, 27, 27, 27, 27, 27, 27, 27, 27, 27, 27, 27, 27, 27,
     27, 27, 27, 27, 27, 27, 27, 27, 27, 27, 27, 27, 27, 27, 27, 27, 27, 27, 27, 27, 27, 27, 27, 27, 27, 27, 27, 27, 27, 27, 27, 27,
     27, 27, 27, 27, 27, 27, 27, 27, 27, 27, 27, 27, 27, 27, 27, 27, 27, 27, 27, 27, 27, 27, 27, 27, 27, 27, 27, 27, 27, 27, 27, 27,
     27, 27, 27, 27, 27, 27, 27, 27, 27, 27, 27, 27, 27, 27, 27, 30, 27, 27, 27, 27, 27, 27, 27, 27, 27, 27, 27, 27, 27, 27, 27, 27]"

definition cls :: "byte \<Rightarrow> nat" where
  "cls c = aiClass ! unat c"

section \<open>Reading\<close>

definition rd :: "byte list \<Rightarrow> nat \<Rightarrow> byte option" where
  "rd z i = (if i < length z then Some (z ! i) else if i = length z then Some 0 else None)"

lemma rd_less: "rd z i = Some c \<Longrightarrow> i \<le> length z"
  by (auto simp: rd_def split: if_splits)

text \<open>A loop \<open>while( P(z[i]) ) i++\<close>.\<close>

function scan :: "(byte \<Rightarrow> bool) \<Rightarrow> byte list \<Rightarrow> nat \<Rightarrow> nat option" where
  "scan P z i = (case rd z i of None \<Rightarrow> None | Some c \<Rightarrow> if P c then scan P z (i + 1) else Some i)"
  by pat_completeness auto
termination by (relation "measure (\<lambda>(P, z, i). Suc (length z) - i)") (auto dest: rd_less)

declare scan.simps [simp del]

section \<open>The loops of sqlite3GetToken\<close>

text \<open>The loop of a C comment; the second result is the last value of \<open>c\<close>.\<close>

function comment_loop :: "byte list \<Rightarrow> nat \<Rightarrow> byte \<Rightarrow> (nat \<times> byte) option" where
  "comment_loop z i c =
     (case rd z i of None \<Rightarrow> None
      | Some x \<Rightarrow> if c = 42 \<and> x = 47 then Some (i, c) else if x = 0 then Some (i, 0) else comment_loop z (i + 1) x)"
  by pat_completeness auto
termination by (relation "measure (\<lambda>(z, i, c). Suc (length z) - i)") (auto dest: rd_less)

function quote_loop :: "byte list \<Rightarrow> byte \<Rightarrow> nat \<Rightarrow> (nat \<times> byte) option" where
  "quote_loop z delim i =
     (case rd z i of None \<Rightarrow> None
      | Some c \<Rightarrow>
          if c = 0 then Some (i, c)
          else if c = delim then
            (case rd z (i + 1) of None \<Rightarrow> None
             | Some c1 \<Rightarrow> if c1 = delim then quote_loop z delim (i + 2) else Some (i, c))
          else quote_loop z delim (i + 1))"
  by pat_completeness auto
termination by (relation "measure (\<lambda>(z, d, i). Suc (length z) - i)") (auto dest: rd_less)

function bracket_loop :: "byte list \<Rightarrow> nat \<Rightarrow> byte \<Rightarrow> (nat \<times> byte) option" where
  "bracket_loop z i c =
     (if c = 93 then Some (i, c)
      else (case rd z i of None \<Rightarrow> None | Some x \<Rightarrow> if x = 0 then Some (i, x) else bracket_loop z (i + 1) x))"
  by pat_completeness auto
termination by (relation "measure (\<lambda>(z, i, c). Suc (length z) - i)") (auto dest: rd_less)

text \<open>The parenthesis of a TCL variable: \<open>do i++ while\<close>.\<close>

function paren_loop :: "byte list \<Rightarrow> nat \<Rightarrow> (nat \<times> byte) option" where
  "paren_loop z i =
     (case rd z (i + 1) of None \<Rightarrow> None
      | Some c \<Rightarrow> if c \<noteq> 0 \<and> \<not> sqlite3Isspace c \<and> c \<noteq> 41 then paren_loop z (i + 1) else Some (i + 1, c))"
  by pat_completeness auto
termination by (relation "measure (\<lambda>(z, i). Suc (length z) - i)") (auto dest: rd_less)

function var_loop :: "byte list \<Rightarrow> nat \<Rightarrow> nat \<Rightarrow> nat \<Rightarrow> (nat \<times> nat \<times> nat) option" where
  "var_loop z i n ty =
     (case rd z i of None \<Rightarrow> None
      | Some c \<Rightarrow>
          if c = 0 then Some (i, n, ty)
          else if IdChar c then var_loop z (i + 1) (n + 1) ty
          else if c = 40 \<and> n > 0 then
            (case paren_loop z i of None \<Rightarrow> None
             | Some (j, x) \<Rightarrow> if x = 41 then Some (j + 1, n, ty) else Some (j, n, TK_ILLEGAL))
          else if c = 58 then
            (case rd z (i + 1) of None \<Rightarrow> None
             | Some x \<Rightarrow> if x = 58 then var_loop z (i + 2) n ty else Some (i, n, ty))
          else Some (i, n, ty))"
  by pat_completeness auto
termination by (relation "measure (\<lambda>(z, i, n, ty). Suc (length z) - i)") (auto dest: rd_less)

declare comment_loop.simps [simp del] quote_loop.simps [simp del] bracket_loop.simps [simp del]
  paren_loop.simps [simp del] var_loop.simps [simp del]

section \<open>Numbers\<close>

text \<open>The exponent: \<open>e\<close> and a digit, or \<open>e\<close>, a sign and a digit.\<close>

definition exponent_at :: "byte list \<Rightarrow> nat \<Rightarrow> bool option" where
  "exponent_at z i = do {
     c \<leftarrow> rd z i;
     if c = 101 \<or> c = 69 then do {
       c1 \<leftarrow> rd z (i + 1);
       if sqlite3Isdigit c1 then Some True
       else if c1 = 43 \<or> c1 = 45 then do { c2 \<leftarrow> rd z (i + 2); Some (sqlite3Isdigit c2) }
       else Some False }
     else Some False }"

definition fraction_part :: "byte list \<Rightarrow> nat \<Rightarrow> (nat \<times> nat) option" where
  "fraction_part z i = do {
     c \<leftarrow> rd z i;
     if c = 46 then do { j \<leftarrow> scan sqlite3Isdigit z (i + 1); Some (j, TK_FLOAT) } else Some (i, TK_INTEGER) }"

definition exponent_part :: "byte list \<Rightarrow> nat \<Rightarrow> nat \<Rightarrow> (nat \<times> nat) option" where
  "exponent_part z i ty = do {
     e \<leftarrow> exponent_at z i;
     if e then do { j \<leftarrow> scan sqlite3Isdigit z (i + 2); Some (j, TK_FLOAT) } else Some (i, ty) }"

definition number_tail :: "byte list \<Rightarrow> nat \<Rightarrow> nat \<Rightarrow> (nat \<times> nat) option" where
  "number_tail z i ty = do { j \<leftarrow> scan IdChar z i; Some (j, if j > i then TK_ILLEGAL else ty) }"

text \<open>Does the text begin with \<open>0x\<close> and a hexadecimal digit?\<close>

definition hex_prefix :: "byte list \<Rightarrow> bool option" where
  "hex_prefix z = do {
     c0 \<leftarrow> rd z 0;
     if c0 = 48 then do {
       c1 \<leftarrow> rd z 1;
       if c1 = 120 \<or> c1 = 88 then do { c2 \<leftarrow> rd z 2; Some (sqlite3Isxdigit c2) } else Some False }
     else Some False }"

definition number_token :: "byte list \<Rightarrow> (nat \<times> nat) option" where
  "number_token z = do {
     hex \<leftarrow> hex_prefix z;
     if hex then do { i \<leftarrow> scan sqlite3Isxdigit z 3; Some (i, TK_INTEGER) }
     else do {
       i \<leftarrow> scan sqlite3Isdigit z 0;
       (i, ty) \<leftarrow> fraction_part z i;
       (i, ty) \<leftarrow> exponent_part z i ty;
       number_tail z i ty } }"

section \<open>sqlite3GetToken\<close>

text \<open>The end of the function after the \<open>switch\<close>: an identifier.\<close>

definition id_token :: "byte list \<Rightarrow> nat \<Rightarrow> (nat \<times> nat) option" where
  "id_token z i = do { j \<leftarrow> scan IdChar z i; Some (j, TK_ID) }"

definition blob_token :: "byte list \<Rightarrow> (nat \<times> nat) option" where
  "blob_token z = do {
     i \<leftarrow> scan sqlite3Isxdigit z 2;
     c \<leftarrow> rd z i;
     (i, ty) \<leftarrow> (if c \<noteq> 39 \<or> odd i then do { j \<leftarrow> scan (\<lambda>x. x \<noteq> 0 \<and> x \<noteq> 39) z i; Some (j, TK_ILLEGAL) } else Some (i, TK_BLOB));
     c \<leftarrow> rd z i;
     Some (if c \<noteq> 0 then i + 1 else i, ty) }"

definition keyword_token :: "byte list \<Rightarrow> (nat \<times> nat) option" where
  "keyword_token z = do {
     c1 \<leftarrow> rd z 1;
     if cls c1 > CC_KYWD then id_token z 1
     else do {
       i \<leftarrow> scan (\<lambda>c. cls c \<le> CC_KYWD) z 2;
       c \<leftarrow> rd z i;
       if IdChar c then id_token z (i + 1)
       else do { t \<leftarrow> keywordCode z i TK_ID; Some (i, t) } } }"

definition sqlite3GetToken :: "byte list \<Rightarrow> (nat \<times> nat) option" where
  "sqlite3GetToken z = do {
     c0 \<leftarrow> rd z 0;
     (let k = cls c0 in
      if k = CC_SPACE then do { i \<leftarrow> scan sqlite3Isspace z 1; Some (i, TK_SPACE) }
      else if k = CC_MINUS then do {
        c \<leftarrow> rd z 1;
        if c = 45 then do { i \<leftarrow> scan (\<lambda>x. x \<noteq> 0 \<and> x \<noteq> 10) z 2; Some (i, TK_SPACE) }
        else if c = 62 then do { x \<leftarrow> rd z 2; Some (if x = 62 then 3 else 2, TK_PTR) }
        else Some (1, TK_MINUS) }
      else if k = CC_LP then Some (1, TK_LP)
      else if k = CC_RP then Some (1, TK_RP)
      else if k = CC_SEMI then Some (1, TK_SEMI)
      else if k = CC_PLUS then Some (1, TK_PLUS)
      else if k = CC_STAR then Some (1, TK_STAR)
      else if k = CC_SLASH then do {
        c \<leftarrow> rd z 1;
        if c \<noteq> 42 then Some (1, TK_SLASH)
        else do {
          c2 \<leftarrow> rd z 2;
          if c2 = 0 then Some (1, TK_SLASH)
          else do { (i, c) \<leftarrow> comment_loop z 3 c2; Some (if c \<noteq> 0 then i + 1 else i, TK_SPACE) } } }
      else if k = CC_PERCENT then Some (1, TK_REM)
      else if k = CC_EQ then do { c \<leftarrow> rd z 1; Some (if c = 61 then 2 else 1, TK_EQ) }
      else if k = CC_LT then do {
        c \<leftarrow> rd z 1;
        Some (if c = 61 then (2, TK_LE) else if c = 62 then (2, TK_NE) else if c = 60 then (2, TK_LSHIFT) else (1, TK_LT)) }
      else if k = CC_GT then do {
        c \<leftarrow> rd z 1;
        Some (if c = 61 then (2, TK_GE) else if c = 62 then (2, TK_RSHIFT) else (1, TK_GT)) }
      else if k = CC_BANG then do { c \<leftarrow> rd z 1; Some (if c \<noteq> 61 then (1, TK_ILLEGAL) else (2, TK_NE)) }
      else if k = CC_PIPE then do { c \<leftarrow> rd z 1; Some (if c \<noteq> 124 then (1, TK_BITOR) else (2, TK_CONCAT)) }
      else if k = CC_COMMA then Some (1, TK_COMMA)
      else if k = CC_AND then Some (1, TK_BITAND)
      else if k = CC_TILDA then Some (1, TK_BITNOT)
      else if k = CC_QUOTE then do {
        (i, c) \<leftarrow> quote_loop z c0 1;
        Some (if c = 39 then (i + 1, TK_STRING) else if c \<noteq> 0 then (i + 1, TK_ID) else (i, TK_ILLEGAL)) }
      else if k = CC_DOT then do {
        c \<leftarrow> rd z 1;
        if \<not> sqlite3Isdigit c then Some (1, TK_DOT) else number_token z }
      else if k = CC_DIGIT then number_token z
      else if k = CC_QUOTE2 then do { (i, c) \<leftarrow> bracket_loop z 1 c0; Some (i, if c = 93 then TK_ID else TK_ILLEGAL) }
      else if k = CC_VARNUM then do { i \<leftarrow> scan sqlite3Isdigit z 1; Some (i, TK_VARIABLE) }
      else if k = CC_DOLLAR \<or> k = CC_VARALPHA then do {
        (i, n, ty) \<leftarrow> var_loop z 1 0 TK_VARIABLE;
        Some (i, if n = 0 then TK_ILLEGAL else ty) }
      else if k = CC_KYWD0 then keyword_token z
      else if k = CC_X then do { c \<leftarrow> rd z 1; if c = 39 then blob_token z else id_token z 1 }
      else if k = CC_KYWD \<or> k = CC_ID then id_token z 1
      else if k = CC_BOM then do {
        c1 \<leftarrow> rd z 1;
        if c1 = 0xBB then do { c2 \<leftarrow> rd z 2; if c2 = 0xBF then Some (3, TK_SPACE) else id_token z 1 }
        else id_token z 1 }
      else if k = CC_NUL then Some (0, TK_ILLEGAL)
      else Some (1, TK_ILLEGAL)) }"

section \<open>Window keywords\<close>

definition yyFallback :: "nat list" where
  "yyFallback =
    [0, 0, 59, 59, 59, 59, 0, 59, 59, 59, 0, 59, 59, 59, 59, 0, 0, 0, 59, 0,
     0, 59, 0, 0, 0, 0, 59, 59, 59, 59, 59, 59, 59, 59, 59, 59, 59, 59, 59, 59,
     59, 59, 59, 0, 0, 0, 59, 59, 0, 0, 0, 0, 0, 0, 0, 0, 0, 0, 0, 0,
     59, 59, 59, 59, 59, 59, 59, 59, 59, 59, 59, 59, 59, 59, 59, 59, 59, 59, 59, 59,
     59, 59, 59, 59, 59, 59, 59, 59, 59, 59, 59, 59, 59, 59, 59, 59, 59, 59, 59, 59,
     59, 0, 0, 0, 0, 0, 0, 0, 0, 0, 0, 0, 0, 0, 0, 0, 0, 0, 0, 0,
     0, 0, 0, 0, 0, 0, 0, 0, 0, 0, 0, 0, 0, 0, 0, 0, 0, 0, 0, 0,
     0, 0, 0, 0, 0, 0, 0, 0, 0, 0, 0, 0, 0, 0, 0, 0, 0, 0, 0, 0,
     0, 0, 0, 0, 0, 0, 0, 0, 0, 0, 0, 0, 0, 0, 0, 0, 0, 0, 0, 0,
     0, 0, 0, 0, 0]"

definition sqlite3ParserFallback :: "nat \<Rightarrow> nat option" where
  "sqlite3ParserFallback t = (if t < length yyFallback then Some (yyFallback ! t) else None)"

text \<open>\<open>getToken\<close> on the rest of the text: the next token that is not space, identifiers and what can stand for one
  made equal, and the rest after it.  The fuel bounds the number of tokens of white space.\<close>

fun getToken_fuel :: "nat \<Rightarrow> byte list \<Rightarrow> (nat \<times> byte list) option" where
  "getToken_fuel 0 z = None"
| "getToken_fuel (Suc k) z = do {
     (n, t) \<leftarrow> sqlite3GetToken z;
     if t = TK_SPACE then getToken_fuel k (drop n z)
     else if t = TK_ID \<or> t = TK_STRING \<or> t = TK_JOIN_KW \<or> t = TK_WINDOW \<or> t = TK_OVER then Some (TK_ID, drop n z)
     else do { f \<leftarrow> sqlite3ParserFallback t; Some (if f = TK_ID then TK_ID else t, drop n z) } }"

definition getToken :: "byte list \<Rightarrow> (nat \<times> byte list) option" where
  "getToken z = getToken_fuel (length z + 1) z"

definition analyzeWindowKeyword :: "byte list \<Rightarrow> nat option" where
  "analyzeWindowKeyword z = do {
     (t, z1) \<leftarrow> getToken z;
     if t \<noteq> TK_ID then Some TK_ID
     else do { (t2, z2) \<leftarrow> getToken z1; Some (if t2 \<noteq> TK_AS then TK_ID else TK_WINDOW) } }"

definition analyzeOverKeyword :: "byte list \<Rightarrow> nat option \<Rightarrow> nat option" where
  "analyzeOverKeyword z lastToken =
     (if lastToken = Some TK_RP then do { (t, z1) \<leftarrow> getToken z; Some (if t = TK_LP \<or> t = TK_ID then TK_OVER else TK_ID) }
      else Some TK_ID)"

definition analyzeFilterKeyword :: "byte list \<Rightarrow> nat option \<Rightarrow> nat option" where
  "analyzeFilterKeyword z lastToken =
     (if lastToken = Some TK_RP then do { (t, z1) \<leftarrow> getToken z; Some (if t = TK_LP then TK_FILTER else TK_ID) }
      else Some TK_ID)"

end
