(* ===== verification/Run_Parser.thy ===== *)
theory Run_Parser
  imports Tokenize
begin

text \<open>
  \<open>sqlite3RunParser\<close>: the loop that feeds the tokens of a text to the generated parser.  The parser
  (\<open>sqlite3Parser\<close>, generated by Lemon) is the argument \<open>parse\<close>: from its state, a token code and the token's
  text to the next state and the value it leaves in \<open>pParse->rc\<close>.  \<open>intr k\<close> is the \<open>k\<close>-th read of the
  connection's interrupt flag, and \<open>mx\<close> the limit on the length of a statement.
\<close>

definition SQLITE_INTERRUPT_RC :: int where "SQLITE_INTERRUPT_RC = 9"
definition SQLITE_TOOBIG_RC :: int where "SQLITE_TOOBIG_RC = 18"

text \<open>Why the loop was left.\<close>

datatype run_stop = TooBig | Interrupted | Unrecognized "byte list" | ParserStop int | EndOfInput

record 'p run_result =
  r_stop :: run_stop
  r_parser :: 'p
  r_fed :: "(nat \<times> byte list) list"
  r_tail :: "byte list"

text \<open>A token of a code from \<open>TK_WINDOW\<close> on, other than white space and the end of the text: the code it is fed as, or
  \<open>None\<close> inside when it is not a token of SQL.\<close>

definition late_token :: "nat \<Rightarrow> byte list \<Rightarrow> nat option \<Rightarrow> nat option option" where
  "late_token t z lastTokenParsed =
     (if t = TK_WINDOW then map_option Some (analyzeWindowKeyword (drop 6 z))
      else if t = TK_OVER then map_option Some (analyzeOverKeyword (drop 4 z) lastTokenParsed)
      else if t = TK_FILTER then map_option Some (analyzeFilterKeyword (drop 6 z) lastTokenParsed)
      else Some None)"

text \<open>One call of the parser and what follows it: \<open>rest\<close> is the continuation of the loop.\<close>

definition feed ::
    "('p \<Rightarrow> nat \<Rightarrow> byte list \<Rightarrow> 'p \<times> int) \<Rightarrow> 'p \<Rightarrow> nat \<Rightarrow> byte list \<Rightarrow> byte list \<Rightarrow>
     ('p \<Rightarrow> 'p run_result option) \<Rightarrow> 'p run_result option" where
  "feed parse p t w z' rest =
     (let (p', rc) = parse p t w in
      if rc \<noteq> 0 then Some \<lparr>r_stop = ParserStop rc, r_parser = p', r_fed = [(t, w)], r_tail = z'\<rparr>
      else map_option (\<lambda>r. r\<lparr>r_fed := (t, w) # r_fed r\<rparr>) (rest p'))"

fun parse_loop ::
    "nat \<Rightarrow> ('p \<Rightarrow> nat \<Rightarrow> byte list \<Rightarrow> 'p \<times> int) \<Rightarrow> (nat \<Rightarrow> bool) \<Rightarrow> byte list \<Rightarrow> int \<Rightarrow> nat option \<Rightarrow> nat \<Rightarrow> 'p \<Rightarrow>
     'p run_result option" where
  "parse_loop 0 parse intr z mx lst k p = None"
| "parse_loop (Suc f) parse intr z mx lst k p = do {
     (n, t) \<leftarrow> sqlite3GetToken z;
     if mx - int n < 0 then Some \<lparr>r_stop = TooBig, r_parser = p, r_fed = [], r_tail = z\<rparr>
     else if t \<ge> TK_WINDOW then
       (if intr k then Some \<lparr>r_stop = Interrupted, r_parser = p, r_fed = [], r_tail = z\<rparr>
        else if t = TK_SPACE then parse_loop f parse intr (drop n z) (mx - int n) lst (k + 1) p
        else if hd0 z = 0 then
          (if lst = Some TK_SEMI then
             feed parse p 0 [] z (parse_loop f parse intr z (mx - int n) (Some 0) (k + 1))
           else if lst = Some 0 then Some \<lparr>r_stop = EndOfInput, r_parser = p, r_fed = [], r_tail = z\<rparr>
           else feed parse p TK_SEMI [] z (parse_loop f parse intr z (mx - int n) (Some TK_SEMI) (k + 1)))
        else
          (case late_token t z lst of
             None \<Rightarrow> None
           | Some None \<Rightarrow> Some \<lparr>r_stop = Unrecognized (take n z), r_parser = p, r_fed = [], r_tail = z\<rparr>
           | Some (Some t') \<Rightarrow>
               feed parse p t' (take n z) (drop n z) (parse_loop f parse intr (drop n z) (mx - int n) (Some t') (k + 1))))
     else feed parse p t (take n z) (drop n z) (parse_loop f parse intr (drop n z) (mx - int n) (Some t) k)
   }"

text \<open>The value \<open>pParse->rc\<close> and the number of errors counted at the end; an unrecognized token sets the message
  through \<open>sqlite3ErrorMsg\<close>, which leaves \<open>SQLITE_ERROR\<close>.\<close>

definition run_rc :: "run_stop \<Rightarrow> int" where
  "run_rc s =
     (case s of TooBig \<Rightarrow> SQLITE_TOOBIG_RC | Interrupted \<Rightarrow> SQLITE_INTERRUPT_RC | Unrecognized w \<Rightarrow> 1
      | ParserStop rc \<Rightarrow> rc | EndOfInput \<Rightarrow> 0)"

text \<open>Every token takes at least one byte and the end of the text takes three more rounds, so that fuel for
  \<open>length z + 4\<close> is enough.\<close>

definition sqlite3RunParser ::
    "('p \<Rightarrow> nat \<Rightarrow> byte list \<Rightarrow> 'p \<times> int) \<Rightarrow> (nat \<Rightarrow> bool) \<Rightarrow> int \<Rightarrow> byte list \<Rightarrow> 'p \<Rightarrow> 'p run_result option" where
  "sqlite3RunParser parse intr mx zSql p = parse_loop (length zSql + 4) parse intr zSql mx None 0 p"

end
