(* ===== verification/Keyword_Tables.thy ===== *)
theory Keyword_Tables
  imports Keywords Text_Props
begin

text \<open>
  What the tables of \<open>keywordhash.h\<close> contain: the text of each keyword, its hash, and the chains.  Each fact is
  evaluated once here.
\<close>

section \<open>Characters\<close>

definition kw_char :: "byte \<Rightarrow> bool" where
  "kw_char x \<longleftrightarrow> 65 \<le> x \<and> x \<le> 90 \<or> x = 95"

lemma unlower_lower: "kw_char (unlower c) \<longrightarrow> c \<noteq> 127 \<longrightarrow> UpperToLower c = UpperToLower (unlower c)"
  by (rule all_bytes [of "\<lambda>c m. kw_char (unlower c) \<longrightarrow> c \<noteq> 127 \<longrightarrow> UpperToLower c = UpperToLower (unlower c)"]) code_simp

lemma lower_unlower:
  "(97 \<le> UpperToLower c \<and> UpperToLower c \<le> 122 \<longrightarrow> unlower c = UpperToLower c - 32) \<and> (UpperToLower c = 95 \<longrightarrow> unlower c = 95)"
  by (rule all_bytes [of "\<lambda>c m. (97 \<le> UpperToLower c \<and> UpperToLower c \<le> 122 \<longrightarrow> unlower c = UpperToLower c - 32) \<and>
    (UpperToLower c = 95 \<longrightarrow> unlower c = 95)"]) code_simp

lemma lower_letter: "65 \<le> x \<and> x \<le> 90 \<longrightarrow> 97 \<le> UpperToLower x \<and> UpperToLower x \<le> 122 \<and> UpperToLower x - 32 = x"
  by (rule all_bytes [of "\<lambda>x m. 65 \<le> x \<and> x \<le> 90 \<longrightarrow> 97 \<le> UpperToLower x \<and> UpperToLower x \<le> 122 \<and> UpperToLower x - 32 = x"]) code_simp

text \<open>On keyword characters clearing bit 0x20 is comparison up to case, but for the character 127.\<close>

lemma unlower_iff:
  assumes "kw_char x" "c \<noteq> 127"
  shows "unlower c = x \<longleftrightarrow> UpperToLower c = UpperToLower x"
proof
  assume "unlower c = x"
  with assms unlower_lower [of c] show "UpperToLower c = UpperToLower x" by simp
next
  assume e: "UpperToLower c = UpperToLower x"
  show "unlower c = x"
  proof (cases "x = 95")
    case True
    then have "UpperToLower c = 95" using e by (simp add: UpperToLower_def)
    with True lower_unlower [of c] show ?thesis by simp
  next
    case False
    with assms(1) have "65 \<le> x \<and> x \<le> 90" by (simp add: kw_char_def)
    with lower_letter [of x] lower_unlower [of c] e show ?thesis by simp
  qed
qed

section \<open>The tables\<close>

text \<open>The keywords in the order of their numbers.\<close>

definition keyword_names :: "string list" where
  "keyword_names =
    [''REINDEX'', ''INDEXED'', ''INDEX'', ''DESC'', ''ESCAPE'', ''EACH'', ''CHECK'', ''KEY'',
     ''BEFORE'', ''FOREIGN'', ''FOR'', ''IGNORE'', ''REGEXP'', ''EXPLAIN'', ''INSTEAD'', ''ADD'',
     ''DATABASE'', ''AS'', ''SELECT'', ''TABLE'', ''LEFT'', ''THEN'', ''END'', ''DEFERRABLE'',
     ''ELSE'', ''EXCLUDE'', ''DELETE'', ''TEMPORARY'', ''TEMP'', ''OR'', ''ISNULL'', ''NULLS'',
     ''SAVEPOINT'', ''INTERSECT'', ''TIES'', ''NOTNULL'', ''NOT'', ''NO'', ''NULL'', ''LIKE'',
     ''EXCEPT'', ''TRANSACTION'', ''ACTION'', ''ON'', ''NATURAL'', ''ALTER'', ''RAISE'', ''EXCLUSIVE'',
     ''EXISTS'', ''CONSTRAINT'', ''INTO'', ''OFFSET'', ''OF'', ''SET'', ''TRIGGER'', ''RANGE'',
     ''GENERATED'', ''DETACH'', ''HAVING'', ''GLOB'', ''BEGIN'', ''INNER'', ''REFERENCES'', ''UNIQUE'',
     ''QUERY'', ''WITHOUT'', ''WITH'', ''OUTER'', ''RELEASE'', ''ATTACH'', ''BETWEEN'', ''NOTHING'',
     ''GROUPS'', ''GROUP'', ''CASCADE'', ''ASC'', ''DEFAULT'', ''CASE'', ''COLLATE'', ''CREATE'',
     ''CURRENT_DATE'', ''IMMEDIATE'', ''JOIN'', ''INSERT'', ''MATCH'', ''PLAN'', ''ANALYZE'', ''PRAGMA'',
     ''MATERIALIZED'', ''DEFERRED'', ''DISTINCT'', ''IS'', ''UPDATE'', ''VALUES'', ''VIRTUAL'', ''ALWAYS'',
     ''WHEN'', ''WHERE'', ''RECURSIVE'', ''ABORT'', ''AFTER'', ''RENAME'', ''AND'', ''DROP'',
     ''PARTITION'', ''AUTOINCREMENT'', ''TO'', ''IN'', ''CAST'', ''COLUMN'', ''COMMIT'', ''CONFLICT'',
     ''CROSS'', ''CURRENT_TIMESTAMP'', ''CURRENT_TIME'', ''CURRENT'', ''PRECEDING'', ''FAIL'', ''LAST'', ''FILTER'',
     ''REPLACE'', ''FIRST'', ''FOLLOWING'', ''FROM'', ''FULL'', ''LIMIT'', ''IF'', ''ORDER'',
     ''RESTRICT'', ''OTHERS'', ''OVER'', ''RETURNING'', ''RIGHT'', ''ROLLBACK'', ''ROWS'', ''ROW'',
     ''UNBOUNDED'', ''UNION'', ''USING'', ''VACUUM'', ''VIEW'', ''WINDOW'', ''DO'', ''BY'',
     ''INITIALLY'', ''ALL'', ''PRIMARY'']"

lemma keyword_chars: "list_all (\<lambda>w. 2 \<le> length w \<and> list_all (\<lambda>c. kw_char (chr c)) w) keyword_names"
  by (simp add: keyword_names_def kw_char_def chr_def)

lemma distinct_names: "distinct keyword_names"
  by (simp add: keyword_names_def)

lemma table_lengths: "length keyword_names = 147" "length aKWLen = 148" "length aKWOffset = 148" "length aKWCode = 148" "length aKWHash = 127"
  by (simp_all add: keyword_names_def aKWLen_def aKWOffset_def aKWCode_def aKWHash_def)

text \<open>The text of keyword \<open>i\<close>, found by one walk along \<open>zKWText\<close>.\<close>

fun kw_walk :: "nat \<Rightarrow> string \<Rightarrow> nat list \<Rightarrow> nat list \<Rightarrow> string list \<Rightarrow> bool" where
  "kw_walk p s (x # xs) (l # ls) (n # ns) = (p \<le> x \<and> length n = l \<and> (let s' = drop (x - p) s in take l s' = n \<and> kw_walk x s' xs ls ns))"
| "kw_walk p s [] [] [] = True"
| "kw_walk p s _ _ _ = False"

lemma kw_walk_nth:
  "kw_walk p (drop p s) xs ls ns \<Longrightarrow> i < length ns \<Longrightarrow> length (ns ! i) = ls ! i \<and> take (ls ! i) (drop (xs ! i) s) = ns ! i"
proof (induction ns arbitrary: p xs ls i)
  case (Cons n ns)
  obtain x xs' l ls' where x: "xs = x # xs'" "ls = l # ls'" using Cons.prems(1) by (cases xs; cases ls) auto
  have "x - p + p = x" using Cons.prems(1) by (simp add: x)
  then have d: "drop (x - p) (drop p s) = drop x s" by simp
  show ?case
  proof (cases i)
    case 0
    then show ?thesis using Cons.prems(1) unfolding x kw_walk.simps Let_def d by simp
  next
    case (Suc j)
    have "kw_walk x (drop x s) xs' ls' ns" using Cons.prems(1) unfolding x kw_walk.simps Let_def d by simp
    with Cons.IH [of x xs' ls' j] Cons.prems(2) Suc x show ?thesis by simp
  qed
qed simp

lemma zKWText_walk: "\<exists>s. zKWText = str s \<and> kw_walk 0 s (tl aKWOffset) (tl aKWLen) keyword_names"
  unfolding zKWText_def by (rule exI, rule conjI [OF refl]) code_simp

abbreviation kw_name :: "nat \<Rightarrow> byte list" where
  "kw_name i \<equiv> str (keyword_names ! (i - 1))"

lemma kw_text:
  assumes "0 < i" "i < 148"
  shows "length (kw_name i) = aKWLen ! i" "take (aKWLen ! i) (drop (aKWOffset ! i) zKWText) = kw_name i"
proof -
  obtain s where s: "zKWText = str s" "kw_walk 0 s (tl aKWOffset) (tl aKWLen) keyword_names" using zKWText_walk by blast
  have n: "tl aKWOffset ! (i - 1) = aKWOffset ! i" "tl aKWLen ! (i - 1) = aKWLen ! i"
    using assms by (simp_all add: nth_tl table_lengths)
  have "i - 1 < length keyword_names" using assms by (simp add: table_lengths)
  with kw_walk_nth [of 0 s] s(2) n
  have "length (keyword_names ! (i - 1)) = aKWLen ! i \<and> take (aKWLen ! i) (drop (aKWOffset ! i) s) = keyword_names ! (i - 1)"
    by fastforce
  then show "length (kw_name i) = aKWLen ! i" "take (aKWLen ! i) (drop (aKWOffset ! i) zKWText) = kw_name i"
    by (auto simp: s(1) str_def take_map drop_map)
qed

text \<open>The hashes of the keywords, and that the chain of its hash holds every keyword.\<close>

definition kw_hashes :: "nat list" where
  "kw_hashes =
    [40, 16, 74, 62, 62, 41, 73, 69, 34, 86, 78, 14, 31, 90, 16, 44, 56, 96, 23, 123,
     105, 31, 60, 54, 64, 61, 58, 51, 5, 105, 103, 101, 26, 114, 14, 124, 104, 120, 121, 28,
     79, 18, 73, 117, 124, 88, 99, 51, 76, 91, 110, 103, 13, 20, 2, 99, 58, 47, 20, 63,
     72, 120, 28, 126, 43, 8, 97, 112, 97, 59, 70, 11, 68, 74, 37, 47, 76, 40, 37, 38,
     48, 3, 103, 0, 10, 15, 45, 102, 21, 53, 69, 1, 126, 8, 28, 92, 19, 119, 111, 94,
     88, 98, 44, 69, 4, 86, 32, 109, 85, 65, 87, 89, 81, 78, 48, 88, 125, 89, 105, 73,
     97, 66, 37, 92, 89, 106, 21, 112, 29, 100, 111, 117, 18, 2, 22, 47, 114, 28, 101, 26,
     58, 64, 96, 98, 71, 68, 45]"

lemma kw_hashes_ok: "list_all (\<lambda>(n, h). kw_hash (str n) (length n) = h) (zip keyword_names kw_hashes)"
  by code_simp

fun chain :: "nat \<Rightarrow> nat \<Rightarrow> nat list" where
  "chain 0 i = []"
| "chain (Suc k) i = (if i = 0 then [] else i # chain k (aKWNext ! i))"

lemma chains_ok: "list_all (\<lambda>(i, h). i \<in> set (chain 5 (aKWHash ! h))) (zip [1..<148] kw_hashes)"
  by code_simp

fun chain_ends :: "nat \<Rightarrow> nat \<Rightarrow> bool" where
  "chain_ends 0 i = False"
| "chain_ends (Suc k) i = (i = 0 \<or> chain_ends k (aKWNext ! i))"

lemma chains_end: "list_all (chain_ends 5) aKWHash"
  by code_simp

lemma links_range: "list_all (\<lambda>i. i < 148) aKWHash" "list_all (\<lambda>i. i < 148) aKWNext" "length aKWNext = 148" "length kw_hashes = 147"
  by (simp_all add: aKWHash_def aKWNext_def kw_hashes_def)

end
