(* ===== verification/Keyword_Props.thy ===== *)
theory Keyword_Props
  imports Keyword_Tables
begin

text \<open>
  The keyword recognizer is a search in the list of keywords: the loop of \<open>keywordCode\<close> along a chain, and the
  property of the whole routine from the facts on the tables.
\<close>

section \<open>The search\<close>

text \<open>Keyword \<open>i\<close> is the name, as the code compares them.\<close>

definition hit :: "byte list \<Rightarrow> nat \<Rightarrow> bool" where
  "hit w i \<longleftrightarrow> map unlower w = kw_name i"

lemma kw_match_iff:
  "j \<le> n \<Longrightarrow> (kw_match z k n j < n) = (\<not> (\<forall>m. j \<le> m \<and> m < n \<longrightarrow> unlower (z ! m) = k ! m))"
proof (induction z k n j rule: kw_match.induct)
  case (1 z k n j)
  show ?case
  proof (cases "j < n \<and> unlower (z ! j) = k ! j")
    case True
    then have "(kw_match z k n (j + 1) < n) = (\<not> (\<forall>m. j + 1 \<le> m \<and> m < n \<longrightarrow> unlower (z ! m) = k ! m))" using 1 by simp
    moreover have "(\<forall>m. j \<le> m \<and> m < n \<longrightarrow> unlower (z ! m) = k ! m) = (\<forall>m. j + 1 \<le> m \<and> m < n \<longrightarrow> unlower (z ! m) = k ! m)"
      using True by (metis Suc_eq_plus1 Suc_leI le_less Suc_leD)
    ultimately show ?thesis using True by (simp add: kw_match.simps [of z k n j])
  next
    case False
    then show ?thesis using 1(2) by (subst kw_match.simps) auto
  qed
qed

lemma hit_iff:
  assumes "0 < i" "i < 148" "2 \<le> n" "n \<le> length z"
  shows "hit (take n z) i \<longleftrightarrow> aKWLen ! i = n \<and> unlower (z ! 0) = drop (aKWOffset ! i) zKWText ! 0 \<and>
    unlower (z ! 1) = drop (aKWOffset ! i) zKWText ! 1 \<and> \<not> kw_match z (drop (aKWOffset ! i) zKWText) n 2 < n"
proof (cases "aKWLen ! i = n")
  case True
  let ?k = "drop (aKWOffset ! i) zKWText"
  have k: "length (kw_name i) = n" "kw_name i = take n ?k" using kw_text [OF assms(1,2)] True by auto
  have l: "length ?k \<ge> n" using k by (metis length_take min.cobounded1)
  have "hit (take n z) i \<longleftrightarrow> (\<forall>m<n. unlower (z ! m) = ?k ! m)"
    unfolding hit_def k(2) using assms(4) l by (simp add: list_eq_iff_nth_eq)
  also have "\<dots> \<longleftrightarrow> unlower (z ! 0) = ?k ! 0 \<and> unlower (z ! 1) = ?k ! 1 \<and> (\<forall>m. 2 \<le> m \<and> m < n \<longrightarrow> unlower (z ! m) = ?k ! m)"
    using assms(3) by (auto simp: numeral_2_eq_2) (metis One_nat_def Suc_leI le_neq_implies_less less_Suc0 linorder_not_less nat_less_le not_less_eq)
  finally have "hit (take n z) i \<longleftrightarrow> unlower (z ! 0) = ?k ! 0 \<and> unlower (z ! 1) = ?k ! 1 \<and>
    (\<forall>m. 2 \<le> m \<and> m < n \<longrightarrow> unlower (z ! m) = ?k ! m)" .
  with kw_match_iff [OF assms(3), of z ?k] True show ?thesis by argo
next
  case False
  then show ?thesis using kw_text(1) [OF assms(1,2)] assms(4) by (auto simp: hit_def dest!: arg_cong [of _ _ length])
qed

lemma kw_loop_step:
  assumes "0 < i" "i < 148" "2 \<le> n" "n \<le> length z"
  shows "kw_loop (Suc k) z n i = (if hit (take n z) i then Some i else kw_loop k z n (aKWNext ! i))"
  using assms(1) by (simp add: hit_iff [OF assms] Let_def)

lemma next_range: "i < 148 \<Longrightarrow> aKWNext ! i < 148"
  using links_range(2,3) by (simp add: list_all_length)

lemma kw_loop_cases:
  assumes "2 \<le> n" "n \<le> length z" "i < 148"
  shows "chain_ends k i \<Longrightarrow> (\<exists>r. kw_loop k z n i = Some r \<and>
    (r = 0 \<and> (\<forall>j\<in>set (chain k i). \<not> hit (take n z) j) \<or> 0 < r \<and> r < 148 \<and> hit (take n z) r))"
  using assms(3)
proof (induction k arbitrary: i)
  case (Suc k)
  show ?case
  proof (cases "i = 0")
    case False
    then have s: "kw_loop (Suc k) z n i = (if hit (take n z) i then Some i else kw_loop k z n (aKWNext ! i))"
      using Suc.prems(2) assms by (intro kw_loop_step) auto
    show ?thesis
    proof (cases "hit (take n z) i")
      case True
      with s False Suc.prems(2) show ?thesis by auto
    next
      case nh: False
      have "chain_ends k (aKWNext ! i)" "aKWNext ! i < 148" using Suc.prems False next_range by auto
      from Suc.IH [OF this] s nh False show ?thesis by auto
    qed
  qed simp
qed simp

lemma chain_ends_mono: "chain_ends k i \<Longrightarrow> chain_ends (k + d) i"
  by (induction k arbitrary: i) auto

lemma chain_mono: "set (chain k i) \<subseteq> set (chain (k + d) i)"
  by (induction k arbitrary: i) auto

lemma hit_unique: "hit w i \<Longrightarrow> hit w j \<Longrightarrow> 0 < i \<Longrightarrow> i < 148 \<Longrightarrow> 0 < j \<Longrightarrow> j < 148 \<Longrightarrow> i = j"
proof -
  assume a: "hit w i" "hit w j" "0 < i" "i < 148" "0 < j" "j < 148"
  then have "str (keyword_names ! (i - 1)) = str (keyword_names ! (j - 1))" unfolding hit_def by simp
  then have "keyword_names ! (i - 1) = keyword_names ! (j - 1)" by (simp only: str_inject)
  with a distinct_names have "i - 1 = j - 1" by (simp add: nth_eq_iff_index_eq table_lengths)
  with a show "i = j" by simp
qed

text \<open>A name that is a keyword has the keyword's hash.\<close>

lemma hit_fold:
  assumes "0 < i" "i < 148" "127 \<notin> set w"
  shows "hit w i \<longleftrightarrow> map UpperToLower w = map UpperToLower (kw_name i)"
proof -
  have "i - 1 < length keyword_names" using assms by (simp add: table_lengths)
  then have "list_all (\<lambda>c. kw_char (chr c)) (keyword_names ! (i - 1))" using keyword_chars by (simp add: list_all_length)
  then have k: "\<forall>x\<in>set (kw_name i). kw_char x" by (auto simp: str_def list_all_iff)
  have "(map unlower w = x) = (map UpperToLower w = map UpperToLower x)" if "127 \<notin> set w" "\<forall>c\<in>set x. kw_char c" for x
    using that
  proof (induction w arbitrary: x)
    case (Cons c w)
    then show ?case by (cases x) (auto simp: unlower_iff)
  qed auto
  with assms(3) k show ?thesis unfolding hit_def by blast
qed

lemma kw_hash_take: "0 < n \<Longrightarrow> n \<le> length z \<Longrightarrow> kw_hash z n = kw_hash (take n z) n"
  by (simp add: kw_hash_def)

lemma kw_hash_fold:
  assumes "map UpperToLower w = map UpperToLower v" "w \<noteq> []"
  shows "kw_hash w (length w) = kw_hash v (length v)"
proof -
  have l: "length w = length v" using assms(1) by (metis length_map)
  have "UpperToLower (w ! m) = UpperToLower (v ! m)" if "m < length w" for m using assms(1) that l by (metis nth_map)
  moreover have "v \<noteq> []" using assms(2) l by auto
  ultimately have "UpperToLower (w ! 0) = UpperToLower (v ! 0)" "UpperToLower (w ! (length w - 1)) = UpperToLower (v ! (length w - 1))"
    using assms(2) by simp_all
  with l show ?thesis by (simp add: kw_hash_def)
qed

lemma kw_hash_range: "kw_hash z n < 127"
  by (simp add: kw_hash_def)

lemma keyword_in_chain:
  assumes "0 < i" "i < 148"
  shows "i \<in> set (chain 148 (aKWHash ! kw_hash (kw_name i) (length (kw_name i))))"
proof -
  have m: "i - 1 < 147" using assms by simp
  have "kw_hash (kw_name i) (length (keyword_names ! (i - 1))) = kw_hashes ! (i - 1)"
    using kw_hashes_ok m by (simp add: list_all_length table_lengths links_range)
  moreover have "[1..<148] ! (i - 1) \<in> set (chain 5 (aKWHash ! (kw_hashes ! (i - 1))))"
    using chains_ok m by (simp add: list_all_length links_range del: upt_Suc)
  moreover have "[1..<148] ! (i - 1) = i" using assms by simp
  ultimately show ?thesis using chain_mono [of 5 _ 143] by (auto simp: str_def)
qed

lemma keywordCode_hit:
  assumes "2 \<le> n" "n \<le> length z" "0 < i" "i < 148" "hit (take n z) i"
    and "kw_hash z n = kw_hash (kw_name i) (length (kw_name i))"
  shows "keywordCode z n t = Some (aKWCode ! i)"
proof -
  have "aKWHash ! kw_hash z n \<in> set aKWHash" using kw_hash_range by (simp add: table_lengths)
  then have e: "chain_ends 5 (aKWHash ! kw_hash z n)" "aKWHash ! kw_hash z n < 148"
    using chains_end links_range(1) by (auto simp: list_all_iff)
  have "chain_ends 148 (aKWHash ! kw_hash z n)" using chain_ends_mono [OF e(1), of 143] by simp
  from kw_loop_cases [OF assms(1,2) e(2) this] keyword_in_chain [OF assms(3,4)] assms(5,6)
  obtain r where r: "kw_loop 148 z n (aKWHash ! kw_hash z n) = Some r" "0 < r" "r < 148" "hit (take n z) r" by auto
  with hit_unique [OF r(4) assms(5) r(2,3) assms(3,4)] show ?thesis by (simp add: keywordCode_def)
qed

lemma keywordCode_miss:
  assumes "2 \<le> n" "n \<le> length z" "\<And>i. 0 < i \<Longrightarrow> i < 148 \<Longrightarrow> \<not> hit (take n z) i"
  shows "keywordCode z n t = Some t"
proof -
  have "aKWHash ! kw_hash z n \<in> set aKWHash" using kw_hash_range by (simp add: table_lengths)
  then have e: "chain_ends 5 (aKWHash ! kw_hash z n)" "aKWHash ! kw_hash z n < 148"
    using chains_end links_range(1) by (auto simp: list_all_iff)
  have "chain_ends 148 (aKWHash ! kw_hash z n)" using chain_ends_mono [OF e(1), of 143] by simp
  from kw_loop_cases [OF assms(1,2) e(2) this] assms(3) show ?thesis by (auto simp: keywordCode_def)
qed

lemma hit_hash:
  assumes "2 \<le> n" "n \<le> length z" "0 < i" "i < 148" "127 \<notin> set (take n z)" "hit (take n z) i"
  shows "kw_hash z n = kw_hash (kw_name i) (length (kw_name i))"
proof -
  have "map UpperToLower (take n z) = map UpperToLower (kw_name i)" using hit_fold [OF assms(3,4,5)] assms(6) by simp
  moreover have "take n z \<noteq> []" "length (take n z) = n" using assms(1,2) by auto
  ultimately show ?thesis using kw_hash_fold [of "take n z" "kw_name i"] kw_hash_take [of n z] assms(1,2) by simp
qed

lemma kw_name_chars: "0 < i \<Longrightarrow> i < 148 \<Longrightarrow> 127 \<notin> set (kw_name i) \<and> 2 \<le> length (kw_name i)"
proof -
  assume "0 < i" "i < 148"
  then have "i - 1 < length keyword_names" by (simp add: table_lengths)
  then have "2 \<le> length (keyword_names ! (i - 1)) \<and> list_all (\<lambda>c. kw_char (chr c)) (keyword_names ! (i - 1))"
    using keyword_chars by (simp add: list_all_length)
  then show ?thesis by (auto simp: str_def list_all_iff kw_char_def)
qed

section \<open>Properties\<close>

text \<open>The specification: the code of the keyword whose text is the name up to case, and \<open>TK_ID\<close> when there is none.\<close>

definition keyword_spec :: "byte list \<Rightarrow> nat" where
  "keyword_spec w =
     (case map_of (zip (map (\<lambda>k. map UpperToLower (str k)) keyword_names) (tl aKWCode)) (map UpperToLower w) of
        None \<Rightarrow> TK_ID | Some t \<Rightarrow> t)"

lemma distinct_folded: "distinct (map (\<lambda>k. map UpperToLower (str k)) keyword_names)"
proof -
  have "i = j" if ij: "i < 147" "j < 147" "map UpperToLower (str (keyword_names ! i)) = map UpperToLower (str (keyword_names ! j))" for i j
  proof -
    have "hit (kw_name (i + 1)) (i + 1)" "hit (kw_name (i + 1)) (j + 1)"
      using ij kw_name_chars [of "i + 1"] hit_fold [of "i + 1" "kw_name (i + 1)"] hit_fold [of "j + 1" "kw_name (i + 1)"] by simp_all
    from hit_unique [OF this] ij show ?thesis by simp
  qed
  then show ?thesis by (auto simp: distinct_conv_nth table_lengths)
qed

lemma keyword_spec_hit: "0 < i \<Longrightarrow> i < 148 \<Longrightarrow> map UpperToLower w = map UpperToLower (kw_name i) \<Longrightarrow> keyword_spec w = aKWCode ! i"
  using map_of_zip_nth [OF _ distinct_folded, of "tl aKWCode" "i - 1"]
  by (simp add: keyword_spec_def table_lengths nth_tl)

lemma keyword_spec_miss:
  assumes "\<And>i. 0 < i \<Longrightarrow> i < 148 \<Longrightarrow> map UpperToLower w \<noteq> map UpperToLower (kw_name i)"
  shows "keyword_spec w = TK_ID"
proof -
  have "map UpperToLower w \<noteq> map UpperToLower (str (keyword_names ! i))" if "i < 147" for i
    using assms [of "i + 1"] that by simp
  then have "map UpperToLower w \<notin> set (map (\<lambda>k. map UpperToLower (str k)) keyword_names)"
    by (auto simp: in_set_conv_nth table_lengths) metis
  then have "map_of (zip (map (\<lambda>k. map UpperToLower (str k)) keyword_names) (tl aKWCode)) (map UpperToLower w) = None"
    by (auto simp: map_of_eq_None_iff dest: set_zip_leftD)
  then show ?thesis by (simp add: keyword_spec_def)
qed

lemma keyword_lookup:
  assumes "n \<le> length z" "127 \<notin> set (take n z)"
  shows "sqlite3KeywordCode z n = Some (keyword_spec (take n z))"
proof (cases "\<exists>i. 0 < i \<and> i < 148 \<and> map UpperToLower (take n z) = map UpperToLower (kw_name i)")
  case True
  then obtain i where i: "0 < i" "i < 148" "map UpperToLower (take n z) = map UpperToLower (kw_name i)" by blast
  then have n: "2 \<le> n" using kw_name_chars [OF i(1,2)] assms(1) by (metis length_map length_take min.absorb2)
  have h: "hit (take n z) i" using hit_fold [OF i(1,2) assms(2)] i(3) by simp
  show ?thesis
    using keywordCode_hit [OF n assms(1) i(1,2) h hit_hash [OF n assms(1) i(1,2) assms(2) h]] keyword_spec_hit [OF i] n
    by (simp add: sqlite3KeywordCode_def)
next
  case False
  then have "keyword_spec (take n z) = TK_ID" by (intro keyword_spec_miss) blast
  moreover have "2 \<le> n \<Longrightarrow> keywordCode z n TK_ID = Some TK_ID"
    using False hit_fold [OF _ _ assms(2)] by (intro keywordCode_miss assms(1)) auto
  ultimately show ?thesis by (simp add: sqlite3KeywordCode_def)
qed

text \<open>C35. Equivalence.  The perfect hash of \<open>keywordhash.h\<close> is a search for the name in the list of the 147
  keywords without regard to case: no keyword is missed because of its hash, its chain or the overlapping text, no
  other name is taken for one, and the chain always ends.  The names do not contain the character 127, which the
  comparison confuses with the underscore.\<close>

theorem keyword_lookup_correct:
  assumes "n \<le> length z" "127 \<notin> set (take n z)"
  shows "sqlite3KeywordCode z n = Some (keyword_spec (take n z))"
  by (rule keyword_lookup [OF assms])

theorem keyword_lookup_correct_witness:
  "sqlite3KeywordCode (str ''Select*'') 6 = Some (keyword_spec (str ''Select''))"
proof -
  have "take 6 (str ''Select*'') = str ''Select''" "6 \<le> length (str ''Select*'')" "127 \<notin> set (str ''Select'')"
    by code_simp+
  with keyword_lookup_correct [of 6 "str ''Select*''"] show ?thesis by simp
qed

text \<open>With the character 127 the hypothesis is needed: this name of twelve characters is not \<open>CURRENT_DATE\<close>, and
  \<open>sqlite3_keyword_check\<close> calls it a keyword.\<close>

lemma keyword_check_del: "sqlite3_keyword_check (str ''CURRENT'' @ 127 # str ''DATE'') 12 = Some True"
proof -
  let ?z = "str ''CURRENT'' @ 127 # str ''DATE''"
  have n: "keyword_names ! 80 = ''CURRENT_DATE''" "aKWCode ! 81 = TK_CTIME_KW"
    by (simp_all add: keyword_names_def aKWCode_def)
  have e: "hit (take 12 ?z) 81" unfolding hit_def by (simp add: n) code_simp
  have h: "kw_hash ?z 12 = kw_hash (kw_name 81) (length (kw_name 81))" by (simp add: n) code_simp
  have l: "12 \<le> length ?z" by code_simp
  have "keywordCode ?z 12 TK_ID = Some TK_CTIME_KW"
    using keywordCode_hit [OF _ l _ _ e h] by (simp add: n)
  then show ?thesis by (simp add: sqlite3_keyword_check_def sqlite3KeywordCode_def TK_CTIME_KW_def TK_ID_def)
qed

end
