(* ===== verification/Tokenize_Props.thy ===== *)
theory Tokenize_Props
  imports Tokenize Keyword_Props
begin

text \<open>
  The tokenizer stays inside of the string: \<open>yields\<close> states what a computation in the option monad returns, and
  each loop and each kind of token has one lemma in it.  The text is the concatenation of its tokens, and quoted
  text is one token.
\<close>

section \<open>Reading inside of the string\<close>

text \<open>\<open>yields Q m\<close>: the computation returns, and its value satisfies \<open>Q\<close>.\<close>

definition yields :: "('a \<Rightarrow> bool) \<Rightarrow> 'a option \<Rightarrow> bool" where
  "yields Q m \<longleftrightarrow> (\<exists>x. m = Some x \<and> Q x)"

lemma yields_Some [simp]: "yields Q (Some x) \<longleftrightarrow> Q x"
  by (simp add: yields_def)

lemma yields_bind: "yields P m \<Longrightarrow> (\<And>x. P x \<Longrightarrow> yields Q (f x)) \<Longrightarrow> yields Q (m \<bind> f)"
  by (auto simp: yields_def)

lemma yields_if: "(b \<Longrightarrow> yields Q m) \<Longrightarrow> (\<not> b \<Longrightarrow> yields Q n) \<Longrightarrow> yields Q (if b then m else n)"
  by simp

lemma yields_mono: "yields P m \<Longrightarrow> (\<And>x. P x \<Longrightarrow> Q x) \<Longrightarrow> yields Q m"
  by (auto simp: yields_def)

definition cstring :: "byte list \<Rightarrow> bool" where
  "cstring z \<longleftrightarrow> 0 \<notin> set z"

lemma cstring_drop: "cstring z \<Longrightarrow> cstring (drop n z)"
  by (auto simp: cstring_def dest: in_set_dropD)

lemma rd_yields: "i \<le> length z \<Longrightarrow> yields (\<lambda>c. rd z i = Some c \<and> (c \<noteq> 0 \<longrightarrow> i < length z)) (rd z i)"
  by (simp add: rd_def)

lemma rd_zero: "cstring z \<Longrightarrow> rd z i = Some 0 \<longleftrightarrow> i = length z"
  by (auto simp: rd_def cstring_def in_set_conv_nth split: if_splits)

lemma rd_in: "i < length z \<Longrightarrow> rd z i = Some (z ! i)"
  by (simp add: rd_def)

lemma scan_eq: "\<not> P 0 \<Longrightarrow> i \<le> length z \<Longrightarrow> scan P z i = Some (i + length (takeWhile P (drop i z)))"
proof (induction P z i rule: scan.induct)
  case (1 P z i)
  show ?case
  proof (cases "i < length z")
    case True
    have d: "drop i z = z ! i # drop (i + 1) z" using True by (simp add: Cons_nth_drop_Suc)
    show ?thesis using 1 True by (simp add: scan.simps [of P z i] rd_def d)
  next
    case False
    with 1 show ?thesis by (subst scan.simps) (simp add: rd_def)
  qed
qed

lemma scan_yields: "\<not> P 0 \<Longrightarrow> i \<le> length z \<Longrightarrow> yields (\<lambda>j. i \<le> j \<and> j \<le> length z) (scan P z i)"
  using length_takeWhile_le [of P "drop i z"] by (simp add: scan_eq)

lemma comment_loop_yields:
  "i \<le> length z \<Longrightarrow> cstring z \<Longrightarrow> yields (\<lambda>(j, x). i \<le> j \<and> j \<le> length z \<and> (x \<noteq> 0 \<longrightarrow> j < length z)) (comment_loop z i c)"
proof (induction z i c rule: comment_loop.induct)
  case (1 z i c)
  show ?case
  proof (cases "i < length z")
    case True
    then have "z ! i \<noteq> 0" using 1(3) by (auto simp: cstring_def in_set_conv_nth)
    then show ?thesis using 1 True
      by (subst comment_loop.simps) (auto simp: rd_def elim!: yields_mono)
  next
    case False
    with 1 show ?thesis by (subst comment_loop.simps) (simp add: rd_def)
  qed
qed

lemma quote_loop_yields:
  "i \<le> length z \<Longrightarrow> cstring z \<Longrightarrow> yields (\<lambda>(j, x). i \<le> j \<and> j \<le> length z \<and> (x \<noteq> 0 \<longrightarrow> j < length z)) (quote_loop z d i)"
proof (induction z d i rule: quote_loop.induct)
  case (1 z d i)
  show ?case
  proof (cases "i < length z")
    case True
    then have n: "z ! i \<noteq> 0" "\<And>k. k < length z \<Longrightarrow> z ! k \<noteq> 0" using 1(4) by (auto simp: cstring_def in_set_conv_nth)
    obtain c1 where c1: "rd z (i + 1) = Some c1" "c1 \<noteq> 0 \<longrightarrow> i + 1 < length z" using rd_yields [of "i + 1" z] True by (auto simp: yields_def)
    show ?thesis
    proof (cases "z ! i = d")
      case True
      show ?thesis
      proof (cases "c1 = d")
        case eq: True
        then have "i + 2 \<le> length z" using c1 n True by auto
        with 1(1) [OF rd_in [OF \<open>i < length z\<close>] n(1) True c1(1) eq] 1(4) n(1) True c1 eq \<open>i < length z\<close> show ?thesis
          by (subst quote_loop.simps) (auto simp: rd_in elim!: yields_mono)
      next
        case False
        with True n(1) c1 \<open>i < length z\<close> show ?thesis by (subst quote_loop.simps) (simp add: rd_in)
      qed
    next
      case False
      with 1(2) [OF rd_in [OF \<open>i < length z\<close>] n(1)] 1(4) n(1) \<open>i < length z\<close> show ?thesis
        by (subst quote_loop.simps) (auto simp: rd_in elim!: yields_mono)
    qed
  next
    case False
    with 1 show ?thesis by (subst quote_loop.simps) (simp add: rd_def)
  qed
qed

lemma bracket_loop_yields:
  "i \<le> length z \<Longrightarrow> yields (\<lambda>(j, x). i \<le> j \<and> j \<le> length z) (bracket_loop z i c)"
proof (induction z i c rule: bracket_loop.induct)
  case (1 z i c)
  then show ?case
    by (subst bracket_loop.simps) (auto simp: rd_def elim!: yields_mono)
qed

lemma paren_loop_yields:
  "i < length z \<Longrightarrow> cstring z \<Longrightarrow> yields (\<lambda>(j, x). i < j \<and> j \<le> length z \<and> (x \<noteq> 0 \<longrightarrow> j < length z)) (paren_loop z i)"
proof (induction z i rule: paren_loop.induct)
  case (1 z i)
  show ?case
  proof (cases "i + 1 < length z")
    case True
    with 1 show ?thesis by (subst paren_loop.simps) (auto simp: rd_def elim!: yields_mono)
  next
    case False
    with 1 show ?thesis by (subst paren_loop.simps) (auto simp: rd_def)
  qed
qed

lemma var_loop_yields:
  "i \<le> length z \<Longrightarrow> cstring z \<Longrightarrow> yields (\<lambda>(j, n', t). i \<le> j \<and> j \<le> length z \<and> (t = ty \<or> t = TK_ILLEGAL)) (var_loop z i n ty)"
proof (induction z i n ty rule: var_loop.induct)
  case (1 z i n ty)
  show ?case
  proof (cases "i < length z")
    case True
    obtain c1 where c1: "rd z (i + 1) = Some c1" "c1 \<noteq> 0 \<longrightarrow> i + 1 < length z" using rd_yields [of "i + 1" z] True by (auto simp: yields_def)
    obtain j x where p: "paren_loop z i = Some (j, x)" "i < j" "j \<le> length z" "x \<noteq> 0 \<longrightarrow> j < length z"
      using paren_loop_yields [OF True 1(4)] by (auto simp: yields_def)
    have a: "i + 1 \<le> length z" "c1 = 58 \<longrightarrow> i + 2 \<le> length z" using True c1 by auto
    have v: "var_loop z i n ty = (if z ! i = 0 then Some (i, n, ty)
        else if IdChar (z ! i) then var_loop z (i + 1) (n + 1) ty
        else if z ! i = 40 \<and> n > 0 then (if x = 41 then Some (j + 1, n, ty) else Some (j, n, TK_ILLEGAL))
        else if z ! i = 58 then (if c1 = 58 then var_loop z (i + 2) n ty else Some (i, n, ty))
        else Some (i, n, ty))"
      by (subst var_loop.simps) (simp add: rd_in [OF True] c1(1) [simplified] p(1))
    show ?thesis unfolding v
    proof (intro yields_if)
      assume "z ! i \<noteq> 0" "IdChar (z ! i)"
      from 1(1) [OF rd_in [OF True] this a(1) 1(4)] show "yields (\<lambda>(j, n', t). i \<le> j \<and> j \<le> length z \<and> (t = ty \<or> t = TK_ILLEGAL)) (var_loop z (i + 1) (n + 1) ty)"
        by (rule yields_mono) auto
    next
      assume h: "z ! i \<noteq> 0" "\<not> IdChar (z ! i)" "\<not> (z ! i = 40 \<and> n > 0)" "z ! i = 58" "c1 = 58"
      from 1(2) [OF rd_in [OF True] h(1-4) c1(1) h(5)] a(2) h(5) 1(4)
      show "yields (\<lambda>(j, n', t). i \<le> j \<and> j \<le> length z \<and> (t = ty \<or> t = TK_ILLEGAL)) (var_loop z (i + 2) n ty)"
        by (auto elim!: yields_mono)
    qed (use p True in auto)
  next
    case False
    with 1 show ?thesis by (subst var_loop.simps) (simp add: rd_def)
  qed
qed

section \<open>Every token stays inside of the string\<close>

text \<open>The codes the tokenizer returns: those of terminals before \<open>TK_COLUMN\<close>, white space and the illegal token.\<close>

definition lexical :: "nat \<Rightarrow> bool" where
  "lexical t \<longleftrightarrow> t \<le> TK_FILTER \<or> t = TK_SPACE \<or> t = TK_ILLEGAL"

lemma lexical_185: "lexical t \<Longrightarrow> t < 185"
  by (auto simp: lexical_def TK_FILTER_def TK_SPACE_def TK_ILLEGAL_def)

abbreviation inside :: "byte list \<Rightarrow> (nat \<times> nat) option \<Rightarrow> bool" where
  "inside z m \<equiv> yields (\<lambda>(n, t). 0 < n \<and> n \<le> length z \<and> lexical t) m"

lemma token_codes [simp]:
  "lexical TK_AS"
  "lexical TK_BITAND"
  "lexical TK_BITNOT"
  "lexical TK_BITOR"
  "lexical TK_BLOB"
  "lexical TK_COMMA"
  "lexical TK_CONCAT"
  "lexical TK_DOT"
  "lexical TK_EQ"
  "lexical TK_FILTER"
  "lexical TK_FLOAT"
  "lexical TK_GE"
  "lexical TK_GT"
  "lexical TK_ID"
  "lexical TK_ILLEGAL"
  "lexical TK_INTEGER"
  "lexical TK_JOIN_KW"
  "lexical TK_LE"
  "lexical TK_LP"
  "lexical TK_LSHIFT"
  "lexical TK_LT"
  "lexical TK_MINUS"
  "lexical TK_NE"
  "lexical TK_OVER"
  "lexical TK_PLUS"
  "lexical TK_PTR"
  "lexical TK_REM"
  "lexical TK_RP"
  "lexical TK_RSHIFT"
  "lexical TK_SEMI"
  "lexical TK_SLASH"
  "lexical TK_SPACE"
  "lexical TK_STAR"
  "lexical TK_STRING"
  "lexical TK_VARIABLE"
  "lexical TK_WINDOW"
  by (simp_all add: lexical_def TK_FILTER_def TK_AS_def TK_BITAND_def TK_BITNOT_def TK_BITOR_def TK_BLOB_def TK_COMMA_def TK_CONCAT_def TK_DOT_def TK_EQ_def TK_FILTER_def TK_FLOAT_def TK_GE_def TK_GT_def TK_ID_def TK_ILLEGAL_def TK_INTEGER_def TK_JOIN_KW_def TK_LE_def TK_LP_def TK_LSHIFT_def TK_LT_def TK_MINUS_def TK_NE_def TK_OVER_def TK_PLUS_def TK_PTR_def TK_REM_def TK_RP_def TK_RSHIFT_def TK_SEMI_def TK_SLASH_def TK_SPACE_def TK_STAR_def TK_STRING_def TK_VARIABLE_def TK_WINDOW_def)

lemma zero_classes [simp]: "\<not> sqlite3Isspace 0" "\<not> sqlite3Isdigit 0" "\<not> sqlite3Isxdigit 0" "cls 0 = CC_NUL"
  by code_simp+

lemma one_le_length [simp]: "Suc 0 \<le> length z \<longleftrightarrow> z \<noteq> []"
  by (cases z) auto

lemma id_token_inside: "0 < i \<Longrightarrow> i \<le> length z \<Longrightarrow> inside z (id_token z i)"
  unfolding id_token_def by (rule yields_bind [OF scan_yields]) auto

lemma scan_inside: "lexical t \<Longrightarrow> \<not> P 0 \<Longrightarrow> 0 < i \<Longrightarrow> i \<le> length z \<Longrightarrow> inside z (do { j \<leftarrow> scan P z i; Some (j, t) })"
  by (rule yields_bind [OF scan_yields]) auto

lemma rd_ne: "rd z i = Some c \<Longrightarrow> c \<noteq> 0 \<Longrightarrow> i < length z"
  by (auto simp: rd_def split: if_splits)

lemma exponent_yields: "i \<le> length z \<Longrightarrow> yields (\<lambda>e. e \<longrightarrow> i + 2 \<le> length z) (exponent_at z i)"
  unfolding exponent_at_def
  by (rule yields_bind [OF rd_yields], assumption, intro yields_if yields_bind [OF rd_yields]) (auto simp: sqlite3Isdigit_def)

lemma fraction_inside:
  assumes "i \<le> length z" "i = 0 \<Longrightarrow> rd z 0 = Some 46"
  shows "inside z (fraction_part z i)"
  unfolding fraction_part_def
proof (rule yields_bind [OF rd_yields [OF assms(1)]])
  fix c assume c: "rd z i = Some c \<and> (c \<noteq> 0 \<longrightarrow> i < length z)"
  then show "inside z (if c = 46 then do { j \<leftarrow> scan sqlite3Isdigit z (i + 1); Some (j, TK_FLOAT) } else Some (i, TK_INTEGER))"
  proof (intro yields_if)
    assume "c = 46"
    with c show "inside z (do { j \<leftarrow> scan sqlite3Isdigit z (i + 1); Some (j, TK_FLOAT) })"
      by (intro scan_inside) simp_all
  next
    assume "c \<noteq> 46"
    with c assms(2) have "i \<noteq> 0" by (metis option.inject)
    with assms(1) show "inside z (Some (i, TK_INTEGER))" by simp
  qed
qed

lemma exponent_inside: "lexical ty \<Longrightarrow> 0 < i \<Longrightarrow> i \<le> length z \<Longrightarrow> inside z (exponent_part z i ty)"
  unfolding exponent_part_def by (intro yields_bind [OF exponent_yields] yields_if scan_inside) auto

lemma number_tail_inside: "lexical ty \<Longrightarrow> 0 < i \<Longrightarrow> i \<le> length z \<Longrightarrow> inside z (number_tail z i ty)"
  unfolding number_tail_def by (rule yields_bind [OF scan_yields]) auto

lemma hex_prefix_yields: "z \<noteq> [] \<Longrightarrow> yields (\<lambda>h. h \<longrightarrow> 3 \<le> length z) (hex_prefix z)"
  unfolding hex_prefix_def
  by (intro yields_if yields_bind [OF rd_yields]) (auto simp: sqlite3Isxdigit_def Suc_le_eq)

lemma number_token_inside:
  assumes "z \<noteq> []" "sqlite3Isdigit (z ! 0) \<or> z ! 0 = 46"
  shows "inside z (number_token z)"
proof -
  have d: "yields (\<lambda>i. i \<le> length z \<and> (i = 0 \<longrightarrow> rd z 0 = Some 46)) (scan sqlite3Isdigit z 0)"
    using assms length_takeWhile_le [of sqlite3Isdigit z] by (cases z) (auto simp: scan_eq rd_def)
  have "inside z (do { i \<leftarrow> scan sqlite3Isdigit z 0; (i, ty) \<leftarrow> fraction_part z i; (i, ty) \<leftarrow> exponent_part z i ty; number_tail z i ty })"
  proof (rule yields_bind [OF d])
    fix i assume "i \<le> length z \<and> (i = 0 \<longrightarrow> rd z 0 = Some 46)"
    then show "inside z (do { (i, ty) \<leftarrow> fraction_part z i; (i, ty) \<leftarrow> exponent_part z i ty; number_tail z i ty })"
      by (intro yields_bind [OF fraction_inside]) (auto intro!: yields_bind [OF exponent_inside] intro: number_tail_inside split: prod.splits)
  qed
  then show ?thesis unfolding number_token_def
    by (intro yields_bind [OF hex_prefix_yields [OF assms(1)]] yields_if scan_inside) simp_all
qed

lemma blob_token_inside: "2 \<le> length z \<Longrightarrow> inside z (blob_token z)"
proof -
  assume l: "2 \<le> length z"
  show ?thesis unfolding blob_token_def
  proof (rule yields_bind [OF scan_yields [of sqlite3Isxdigit, OF zero_classes(3) l]])
    fix i assume i: "2 \<le> i \<and> i \<le> length z"
    show "inside z (do {
       c \<leftarrow> rd z i;
       (i, ty) \<leftarrow> (if c \<noteq> 39 \<or> odd i then do { j \<leftarrow> scan (\<lambda>x. x \<noteq> 0 \<and> x \<noteq> 39) z i; Some (j, TK_ILLEGAL) } else Some (i, TK_BLOB));
       c \<leftarrow> rd z i;
       Some (if c \<noteq> 0 then i + 1 else i, ty) })"
    proof (rule yields_bind [OF rd_yields])
      fix c assume "rd z i = Some c \<and> (c \<noteq> 0 \<longrightarrow> i < length z)"
      have "inside z (if c \<noteq> 39 \<or> odd i then do { j \<leftarrow> scan (\<lambda>x. x \<noteq> 0 \<and> x \<noteq> 39) z i; Some (j, TK_ILLEGAL) } else Some (i, TK_BLOB))"
        using i by (intro yields_if scan_inside) auto
      then show "inside z (do {
         (i, ty) \<leftarrow> (if c \<noteq> 39 \<or> odd i then do { j \<leftarrow> scan (\<lambda>x. x \<noteq> 0 \<and> x \<noteq> 39) z i; Some (j, TK_ILLEGAL) } else Some (i, TK_BLOB));
         c \<leftarrow> rd z i;
         Some (if c \<noteq> 0 then i + 1 else i, ty) })"
        by (rule yields_bind, clarify, intro yields_bind [OF rd_yields]) auto
    qed (use i in simp)
  qed
qed

lemma keyword_codes_range: "list_all lexical aKWCode"
  by code_simp

lemma keywordCode_returns:
  assumes "2 \<le> n" "n \<le> length z" "lexical t"
  shows "\<exists>t'. keywordCode z n t = Some t' \<and> lexical t'"
proof -
  have "aKWHash ! kw_hash z n \<in> set aKWHash" using kw_hash_range by (simp add: table_lengths)
  then have e: "chain_ends 5 (aKWHash ! kw_hash z n)" "aKWHash ! kw_hash z n < 148"
    using chains_end links_range(1) by (auto simp: list_all_iff)
  have ce: "chain_ends 148 (aKWHash ! kw_hash z n)" using chain_ends_mono [OF e(1), of 143] by simp
  have r: "lexical (aKWCode ! r)" if "r < 148" for r using keyword_codes_range that by (simp add: list_all_length table_lengths)
  from kw_loop_cases [OF assms(1,2) e(2) ce] obtain q where "kw_loop 148 z n (aKWHash ! kw_hash z n) = Some q" "q < 148" by auto
  then show ?thesis using assms(3) r [of q] by (simp add: keywordCode_def)
qed

lemma keyword_token_inside: "z \<noteq> [] \<Longrightarrow> inside z (keyword_token z)"
proof -
  assume "z \<noteq> []"
  then have l: "1 \<le> length z" by (simp add: Suc_le_eq)
  show ?thesis unfolding keyword_token_def
  proof (rule yields_bind [OF rd_yields [OF l]], intro yields_if id_token_inside)
    fix c assume "rd z 1 = Some c \<and> (c \<noteq> 0 \<longrightarrow> 1 < length z)" "\<not> CC_KYWD < cls c"
    moreover have "CC_KYWD < cls 0" by (simp add: CC_defs)
    ultimately have 2: "2 \<le> length z" by (cases "c = 0") auto
    have s: "yields (\<lambda>j. 2 \<le> j \<and> j \<le> length z) (scan (\<lambda>c. cls c \<le> CC_KYWD) z 2)"
      using 2 by (intro scan_yields) (simp_all add: CC_defs)
    show "inside z (do {
       i \<leftarrow> scan (\<lambda>c. cls c \<le> CC_KYWD) z 2;
       c \<leftarrow> rd z i;
       if IdChar c then id_token z (i + 1) else do { t \<leftarrow> keywordCode z i TK_ID; Some (i, t) } })"
    proof (rule yields_bind [OF s], rule yields_bind [OF rd_yields], simp, intro yields_if id_token_inside)
      fix i c assume "2 \<le> i \<and> i \<le> length z"
      then show "inside z (do { t \<leftarrow> keywordCode z i TK_ID; Some (i, t) })"
        using keywordCode_returns [of i z TK_ID] by auto
    next
      fix i c assume "rd z i = Some c \<and> (c \<noteq> 0 \<longrightarrow> i < length z)" "IdChar c"
      then show "i + 1 \<le> length z" by (cases "c = 0") auto
    qed auto
  qed (use \<open>z \<noteq> []\<close> in \<open>auto simp: Suc_le_eq\<close>)
qed

text \<open>The classes of the characters that need a look ahead.\<close>

lemma all_classes:
  assumes "list_all (\<lambda>(n, k). P (word_of_nat n) k) (zip [0..<256] aiClass)"
  shows "P c (cls c)"
proof -
  have l: "length aiClass = 256" by (simp add: aiClass_def)
  have u: "unat c < 256" using unsigned_less [of c] by simp
  then have "(unat c, aiClass ! unat c) \<in> set (zip [0..<256] aiClass)"
    by (auto simp: in_set_zip l intro: exI [of _ "unat c"])
  with assms have "P (word_of_nat (unat c)) (aiClass ! unat c)" by (auto simp: list_all_iff)
  then show ?thesis by (simp add: cls_def)
qed

lemma class_chars: "(cls c = CC_DIGIT \<longrightarrow> sqlite3Isdigit c) \<and> (cls c = CC_DOT \<longrightarrow> c = 46) \<and> (cls c = CC_NUL \<longrightarrow> c = 0) \<and>
    (cls c = CC_QUOTE \<longrightarrow> c = 34 \<or> c = 39 \<or> c = 96)"
  by (rule all_classes [of "\<lambda>c k. (k = CC_DIGIT \<longrightarrow> sqlite3Isdigit c) \<and> (k = CC_DOT \<longrightarrow> c = 46) \<and> (k = CC_NUL \<longrightarrow> c = 0) \<and>
     (k = CC_QUOTE \<longrightarrow> c = 34 \<or> c = 39 \<or> c = 96)"]) code_simp

lemma rd_then: "\<lbrakk>i \<le> length z; \<And>c. rd z i = Some c \<Longrightarrow> c = 0 \<or> i < length z \<Longrightarrow> inside z (f c)\<rbrakk> \<Longrightarrow> inside z (rd z i \<bind> f)"
  by (rule yields_bind [OF rd_yields]) auto

lemma minus_inside:
  "0 < length z \<Longrightarrow> inside z (do {
     c \<leftarrow> rd z 1;
     if c = 45 then do { i \<leftarrow> scan (\<lambda>x. x \<noteq> 0 \<and> x \<noteq> 10) z 2; Some (i, TK_SPACE) }
     else if c = 62 then do { x \<leftarrow> rd z 2; Some (if x = 62 then 3 else 2, TK_PTR) }
     else Some (1, TK_MINUS) })"
  by (intro rd_then yields_if scan_inside) auto

lemma slash_inside:
  assumes "0 < length z" "cstring z"
  shows "inside z (do {
     c \<leftarrow> rd z 1;
     if c \<noteq> 42 then Some (1, TK_SLASH)
     else do {
       c2 \<leftarrow> rd z 2;
       if c2 = 0 then Some (1, TK_SLASH)
       else do { (i, c) \<leftarrow> comment_loop z 3 c2; Some (if c \<noteq> 0 then i + 1 else i, TK_SPACE) } } })"
  using assms
  by (intro rd_then yields_if yields_bind [OF comment_loop_yields]) auto

lemma quote_inside:
  assumes "0 < length z" "cstring z"
  shows "inside z (do { (i, c) \<leftarrow> quote_loop z d 1;
     Some (if c = 39 then (i + 1, TK_STRING) else if c \<noteq> 0 then (i + 1, TK_ID) else (i, TK_ILLEGAL)) })"
  using assms by (intro yields_bind [OF quote_loop_yields]) auto

lemma var_inside:
  assumes "0 < length z" "cstring z" "lexical t"
  shows "inside z (do { (i, n, ty) \<leftarrow> var_loop z 1 0 t; Some (i, if n = 0 then TK_ILLEGAL else ty) })"
  using assms by (intro yields_bind [OF var_loop_yields]) auto

lemma bracket_inside:
  assumes "0 < length z"
  shows "inside z (do { (i, c) \<leftarrow> bracket_loop z 1 d; Some (i, if c = 93 then TK_ID else TK_ILLEGAL) })"
  using assms by (intro yields_bind [OF bracket_loop_yields]) auto

lemma bom_inside:
  assumes "0 < length z"
  shows "inside z (do {
     c1 \<leftarrow> rd z 1;
     if c1 = 0xBB then do { c2 \<leftarrow> rd z 2; if c2 = 0xBF then Some (3, TK_SPACE) else id_token z 1 }
     else id_token z 1 })"
  using assms by (intro rd_then yields_if id_token_inside) auto

lemma peek_inside:
  fixes f :: "byte \<Rightarrow> nat \<times> nat"
  assumes "0 < length z" "\<And>x. 0 < fst (f x) \<and> fst (f x) \<le> 2 \<and> lexical (snd (f x))" "fst (f 0) = 1"
  shows "inside z (do { x \<leftarrow> rd z 1; Some (f x) })"
proof (rule rd_then)
  fix c :: byte assume "c = 0 \<or> 1 < length z"
  then show "inside z (Some (f c))" using assms(1,3) assms(2) [of c] by (auto simp: split_beta)
qed (use assms(1) in simp)

lemma GetToken_inside:
  assumes z: "z \<noteq> []" and c: "cstring z"
  shows "inside z (sqlite3GetToken z)"
proof -
  have l: "0 < length z" using z by simp
  have n0: "z ! 0 \<noteq> 0" using c z by (auto simp: cstring_def in_set_conv_nth)
  note k = class_chars [of "z ! 0"]
  have dot: "inside z (do { c \<leftarrow> rd z 1; if \<not> sqlite3Isdigit c then Some (1, TK_DOT) else number_token z })" if "cls (z ! 0) = CC_DOT"
    using that l k z by (intro rd_then yields_if number_token_inside) auto
  have num: "inside z (number_token z)" if "cls (z ! 0) = CC_DIGIT"
    using that z k by (intro number_token_inside) auto
  have x: "inside z (do { c \<leftarrow> rd z 1; if c = 39 then blob_token z else id_token z 1 })"
    using l by (intro rd_then yields_if blob_token_inside id_token_inside) auto
  show ?thesis
    unfolding sqlite3GetToken_def rd_in [OF l] bind.bind_lunit Let_def
    using l c n0 k
    by (intro yields_if minus_inside slash_inside quote_inside var_inside bracket_inside bom_inside scan_inside dot num x
        keyword_token_inside [OF z] id_token_inside peek_inside) auto
qed

section \<open>The tokens of a text\<close>

function token_list :: "byte list \<Rightarrow> (nat \<times> byte list) list" where
  "token_list z =
     (case sqlite3GetToken z of
        None \<Rightarrow> []
      | Some (n, t) \<Rightarrow> if 0 < n \<and> z \<noteq> [] then (t, take n z) # token_list (drop n z) else [])"
  by pat_completeness auto
termination by (relation "measure length") auto

declare token_list.simps [simp del]

lemma token_list_Nil [simp]: "token_list [] = []"
  by (simp add: token_list.simps split: option.split)

lemma token_list_step:
  assumes "z \<noteq> []" "cstring z"
  obtains n t where "sqlite3GetToken z = Some (n, t)" "0 < n" "n \<le> length z" "token_list z = (t, take n z) # token_list (drop n z)"
  using GetToken_inside [OF assms] assms(1) by (auto simp: yields_def token_list.simps [of z])

lemma token_list_concat: "cstring z \<Longrightarrow> concat (map snd (token_list z)) = z"
proof (induction z rule: length_induct)
  case (1 z)
  show ?case
  proof (cases "z = []")
    case False
    then obtain n t where t: "sqlite3GetToken z = Some (n, t)" "0 < n" "n \<le> length z" "token_list z = (t, take n z) # token_list (drop n z)"
      using token_list_step 1(2) by blast
    then have "length (drop n z) < length z" by simp
    with 1 have "concat (map snd (token_list (drop n z))) = drop n z" using cstring_drop by blast
    with t show ?thesis by simp
  qed simp
qed

lemma token_list_nonempty: "\<forall>p\<in>set (token_list z). snd p \<noteq> []"
proof (induction z rule: length_induct)
  case (1 z)
  show ?case
  proof (cases "\<exists>n t. sqlite3GetToken z = Some (n, t) \<and> 0 < n \<and> z \<noteq> []")
    case True
    then obtain n t where t: "sqlite3GetToken z = Some (n, t)" "0 < n" "z \<noteq> []" by blast
    then have "length (drop n z) < length z" by (cases z) auto
    then have "\<forall>p\<in>set (token_list (drop n z)). snd p \<noteq> []" using 1 by blast
    with t show ?thesis by (simp add: token_list.simps [of z])
  next
    case False
    then show ?thesis by (cases "sqlite3GetToken z") (auto simp: token_list.simps [of z])
  qed
qed

section \<open>Quoted text\<close>

lemma double_quotes_simps [simp]: "double_quotes d [] = []"
    "double_quotes d (c # s) = (if c = d then d # d # double_quotes d s else c # double_quotes d s)"
  by (simp_all add: double_quotes_def)

lemma quote_loop_doubled:
  assumes "d \<noteq> 0" "0 \<notin> set s" "hd0 rest \<noteq> d"
  shows "quote_loop (pre @ double_quotes d s @ d # rest) d (length pre) = Some (length pre + length (double_quotes d s), d)"
  using assms(2)
proof (induction s arbitrary: pre)
  case Nil
  have "rd (pre @ d # rest) (length pre) = Some d" by (simp add: rd_def)
  moreover have "rd (pre @ d # rest) (length pre + 1) = Some (hd0 rest)" by (cases rest) (auto simp: rd_def nth_append)
  ultimately show ?case using assms by (subst quote_loop.simps) simp
next
  case (Cons c s)
  show ?case
  proof (cases "c = d")
    case True
    have r: "rd (pre @ d # d # double_quotes d s @ d # rest) (length pre) = Some d"
      "rd (pre @ d # d # double_quotes d s @ d # rest) (length pre + 1) = Some d" by (simp_all add: rd_def nth_append)
    have "quote_loop (pre @ d # d # double_quotes d s @ d # rest) d (length pre + 2) =
        Some (length pre + 2 + length (double_quotes d s), d)"
      using Cons.IH [of "pre @ [d, d]"] Cons.prems by simp
    with True r assms(1) show ?thesis by (subst quote_loop.simps) simp
  next
    case False
    have r: "rd (pre @ c # double_quotes d s @ d # rest) (length pre) = Some c" by (simp add: rd_def)
    have "quote_loop (pre @ c # double_quotes d s @ d # rest) d (length pre + 1) = Some (length pre + 1 + length (double_quotes d s), d)"
      using Cons.IH [of "pre @ [c]"] Cons.prems by simp
    with False r Cons.prems show ?thesis by (subst quote_loop.simps) simp
  qed
qed

lemma quoted_token:
  assumes "q \<in> {34, 39, 96}" "0 \<notin> set s" "hd0 rest \<noteq> q"
  shows "sqlite3GetToken (q # double_quotes q s @ q # rest) = Some (length (double_quotes q s) + 2, if q = 39 then TK_STRING else TK_ID)"
proof -
  have c: "cls q = CC_QUOTE" using assms(1) by (elim insertE) (simp_all, code_simp+)
  have "quote_loop (q # double_quotes q s @ q # rest) q 1 = Some (1 + length (double_quotes q s), q)"
    using quote_loop_doubled [of q s rest "[q]"] assms by auto
  then show ?thesis using assms(1) by (auto simp: sqlite3GetToken_def rd_def c CC_defs)
qed

text \<open>A word of keyword characters is one token with the code of the keyword list.\<close>

lemma keyword_class_127: "cls c \<le> 2 \<longrightarrow> c \<noteq> 127"
  by (rule all_classes [of "\<lambda>c k. k \<le> 2 \<longrightarrow> c \<noteq> 127"]) code_simp

lemma word_token:
  assumes "2 \<le> length w" "list_all (\<lambda>c. cls c \<le> CC_KYWD) w" "cls (hd w) = CC_KYWD0" "cls (hd0 rest) > CC_KYWD" "\<not> IdChar (hd0 rest)"
  shows "sqlite3GetToken (w @ rest) = Some (length w, keyword_spec w)"
proof -
  obtain a b v where w: "w = a # b # v" using assms(1) by (cases w; cases "tl w") auto
  have s: "scan (\<lambda>c. cls c \<le> CC_KYWD) (w @ rest) 2 = Some (length w)"
  proof -
    have "takeWhile (\<lambda>c. cls c \<le> CC_KYWD) (v @ rest) = v"
      using assms(2,4) by (cases rest) (auto simp: w list_all_iff takeWhile_append)
    then show ?thesis by (simp add: scan_eq w CC_defs)
  qed
  have r: "rd (w @ rest) (length w) = Some (hd0 rest)" by (cases rest) (auto simp: rd_def)
  have "127 \<notin> set w" using assms(2) keyword_class_127 by (auto simp: list_all_iff CC_defs)
  then have "keywordCode (w @ rest) (length w) TK_ID = Some (keyword_spec w)"
    using keyword_lookup [of "length w" "w @ rest"] assms(1) by (simp add: sqlite3KeywordCode_def)
  moreover have "\<not> cls b > CC_KYWD" using assms(2) by (simp add: w)
  ultimately have "keyword_token (w @ rest) = Some (length w, keyword_spec w)"
    using s r assms(5) by (simp add: keyword_token_def) (simp add: w rd_def)
  with assms(3) show ?thesis by (simp add: sqlite3GetToken_def w rd_def CC_defs)
qed

section \<open>The tokens that look ahead\<close>

lemma fallback_returns: "t < 185 \<Longrightarrow> \<exists>f. sqlite3ParserFallback t = Some f"
  by (simp add: sqlite3ParserFallback_def yyFallback_def)

lemma fallback_range: "t < 185 \<Longrightarrow> sqlite3ParserFallback t = Some f \<Longrightarrow> f = TK_ID \<or> f = 0"
proof -
  assume t: "t < 185" "sqlite3ParserFallback t = Some f"
  have "list_all (\<lambda>f. f = 59 \<or> f = 0) yyFallback" by (simp add: yyFallback_def)
  moreover have "length yyFallback = 185" by (simp add: yyFallback_def)
  ultimately show ?thesis using t by (auto simp: sqlite3ParserFallback_def TK_ID_def list_all_length split: if_splits)
qed

lemma GetToken_Nil: "sqlite3GetToken [] = Some (0, TK_ILLEGAL)"
  by code_simp

lemma getToken_yields:
  "cstring z \<Longrightarrow> length z < f \<Longrightarrow> yields (\<lambda>(t, r). cstring r) (getToken_fuel f z)"
proof (induction f arbitrary: z)
  case (Suc f)
  show ?case
  proof (cases "z = []")
    case True
    have "TK_ILLEGAL \<noteq> TK_SPACE" by (simp add: TK_ILLEGAL_def TK_SPACE_def)
    with True Suc.prems(1) fallback_returns [of TK_ILLEGAL] lexical_185 [of TK_ILLEGAL] show ?thesis
      by (auto simp: GetToken_Nil)
  next
    case False
    from GetToken_inside [OF False Suc.prems(1)] obtain n t where t: "sqlite3GetToken z = Some (n, t)" "0 < n" "n \<le> length z" "t < 185"
      by (auto simp: yields_def lexical_185)
    from Suc.prems have d: "cstring (drop n z)" "length (drop n z) < f" using t(2,3) by (auto simp: cstring_drop)
    obtain g where "sqlite3ParserFallback t = Some g" using fallback_returns [OF t(4)] by blast
    with t d Suc.IH [OF d] show ?thesis by simp
  qed
qed simp

lemma getToken_ok: "cstring z \<Longrightarrow> yields (\<lambda>(t, r). cstring r) (getToken z)"
  unfolding getToken_def by (rule getToken_yields) simp_all

lemma analyze_returns:
  assumes "cstring z"
  shows "\<exists>t. analyzeWindowKeyword z = Some t" "\<exists>t. analyzeOverKeyword z l = Some t" "\<exists>t. analyzeFilterKeyword z l = Some t"
proof -
  obtain t r where t: "getToken z = Some (t, r)" "cstring r" using getToken_ok [OF assms] by (auto simp: yields_def)
  obtain t2 r2 where "getToken r = Some (t2, r2)" using getToken_ok [OF t(2)] by (auto simp: yields_def)
  with t show "\<exists>t. analyzeWindowKeyword z = Some t" "\<exists>t. analyzeOverKeyword z l = Some t" "\<exists>t. analyzeFilterKeyword z l = Some t"
    by (auto simp: analyzeWindowKeyword_def analyzeOverKeyword_def analyzeFilterKeyword_def)
qed

lemma lexical_late: "lexical t \<Longrightarrow> TK_WINDOW \<le> t \<Longrightarrow> t = TK_WINDOW \<or> t = TK_OVER \<or> t = TK_FILTER \<or> t = TK_SPACE \<or> t = TK_ILLEGAL"
  by (auto simp: lexical_def TK_WINDOW_def TK_OVER_def TK_FILTER_def TK_SPACE_def TK_ILLEGAL_def)

section \<open>Properties\<close>

text \<open>C36. Type.  On every C string \<open>sqlite3GetToken\<close> reads no byte after the terminator and returns the length of a
  token inside of the string, at least 1 unless the string is empty, and a code that from \<open>TK_WINDOW\<close>
  on is one of the five that \<open>sqlite3RunParser\<close> asserts.\<close>

theorem get_token_type:
  assumes "cstring z"
  shows "\<exists>n t. sqlite3GetToken z = Some (n, t) \<and> n \<le> length z \<and> (n = 0 \<longleftrightarrow> z = []) \<and>
    (TK_WINDOW \<le> t \<longrightarrow> t \<in> {TK_WINDOW, TK_OVER, TK_FILTER, TK_SPACE, TK_ILLEGAL})"
proof (cases "z = []")
  case True
  then show ?thesis by (simp add: GetToken_Nil)
next
  case False
  with GetToken_inside [OF False assms] show ?thesis by (auto simp: yields_def lexical_late)
qed

theorem get_token_type_witness:
  "\<exists>n t. sqlite3GetToken [36, 97, 58, 58] = Some (n, t) \<and> n \<le> 4 \<and> n \<noteq> 0"
  using get_token_type [of "[36, 97, 58, 58]"] by (auto simp: cstring_def)

text \<open>C37. Round trip.  Taking token after token from a text without NUL gives back the text: the tokens, none of them
  empty, are its consecutive pieces.\<close>

theorem tokens_cover_text:
  assumes "cstring z"
  shows "concat (map snd (token_list z)) = z \<and> (\<forall>p\<in>set (token_list z). snd p \<noteq> [])"
  using token_list_concat [OF assms] token_list_nonempty by blast

theorem tokens_cover_text_witness:
  "concat (map snd (token_list (str ''a>=1.5/*x''))) = str ''a>=1.5/*x''"
proof -
  have "cstring (str ''a>=1.5/*x'')" by code_simp
  with tokens_cover_text show ?thesis by blast
qed

text \<open>C38. Safety.  Text that has been quoted by doubling the quotes in it is one token whatever it contains, followed
  by anything but a quote, and dequoting that token gives the text back: no text can break out of its quotes.\<close>

theorem quoted_text_is_one_token:
  assumes "q \<in> {34, 39, 96}" "0 \<notin> set s" "hd0 rest \<noteq> q"
  shows "\<exists>n. sqlite3GetToken (q # double_quotes q s @ q # rest) = Some (n, if q = 39 then TK_STRING else TK_ID) \<and>
    sqlite3Dequote (Some (take n (q # double_quotes q s @ q # rest))) = Some (Some s)"
  using quoted_token [OF assms] assms(1)
  by (auto simp: sqlite3Dequote_def sqlite3Isquote_def Dequote_loop_double)

theorem quoted_text_is_one_token_witness:
  "\<exists>n. sqlite3GetToken (39 # double_quotes 39 [59, 39, 45, 45] @ 39 # [59]) = Some (n, TK_STRING) \<and>
    sqlite3Dequote (Some (take n (39 # double_quotes 39 [59, 39, 45, 45] @ 39 # [59]))) = Some (Some [59, 39, 45, 45])"
  using quoted_text_is_one_token [of 39 "[59, 39, 45, 45]" "[59]"] by (auto simp del: double_quotes_simps)

end
