(* ===== verification/Run_Parser_Props.thy ===== *)
theory Run_Parser_Props
  imports Run_Parser Tokenize_Props
begin

text \<open>
  \<open>sqlite3RunParser\<close> ends for every parser, and what it feeds: the measure is the length of the text and the
  place in the closing sequence semicolon, 0.
\<close>

section \<open>The loop returns\<close>

definition rounds :: "byte list \<Rightarrow> nat option \<Rightarrow> nat" where
  "rounds z lst = (if z = [] then (if lst = Some 0 then 1 else if lst = Some TK_SEMI then 2 else 3) else length z + 3)"

lemma rounds_drop: "0 < n \<Longrightarrow> z \<noteq> [] \<Longrightarrow> n \<le> length z \<Longrightarrow> rounds (drop n z) l < rounds z l'"
  by (auto simp: rounds_def)

lemma feed_returns: "(\<And>q. \<exists>r. rest q = Some r) \<Longrightarrow> \<exists>r. feed parse p t w z' rest = Some r"
  by (auto simp: feed_def split: prod.split)

lemma late_token_returns: "cstring z \<Longrightarrow> \<exists>r. late_token t z l = Some r"
  using analyze_returns [OF cstring_drop] by (auto simp: late_token_def)

lemma hd0_zero: "cstring z \<Longrightarrow> hd0 z = 0 \<longleftrightarrow> z = []"
  by (cases z) (auto simp: cstring_def)

lemma late_codes: "TK_SEMI \<noteq> 0" "TK_ILLEGAL \<ge> TK_WINDOW" "TK_ILLEGAL \<noteq> TK_SPACE"
  by (simp_all add: TK_SEMI_def TK_ILLEGAL_def TK_WINDOW_def TK_SPACE_def)

lemma parse_loop_returns:
  "cstring z \<Longrightarrow> rounds z lst \<le> f \<Longrightarrow> \<exists>r. parse_loop f parse intr z mx lst k p = Some r"
proof (induction f arbitrary: z mx lst k p)
  case 0
  then show ?case by (simp add: rounds_def split: if_splits)
next
  case (Suc f)
  show ?case
  proof (cases "z = []")
    case True
    then show ?thesis using Suc.prems(2) late_codes
      by (auto simp: GetToken_Nil rounds_def cstring_def split: if_splits intro!: feed_returns Suc.IH)
  next
    case False
    from GetToken_inside [OF False Suc.prems(1)] obtain n t where t: "sqlite3GetToken z = Some (n, t)" "0 < n" "n \<le> length z"
      by (auto simp: yields_def)
    have d: "cstring (drop n z)" using Suc.prems(1) by (rule cstring_drop)
    have r: "rounds (drop n z) l \<le> f" for l using rounds_drop [OF t(2) False t(3), of l lst] Suc.prems(2) by simp
    have z: "hd0 z \<noteq> 0" using hd0_zero [OF Suc.prems(1)] False by simp
    obtain lt where lt: "late_token t z lst = Some lt" using late_token_returns [OF Suc.prems(1)] by blast
    have IH: "\<exists>r. parse_loop f parse intr (drop n z) mx' l k' q = Some r" for mx' l k' q using Suc.IH [OF d r] .
    show ?thesis using t z lt IH
      by (cases lt) (auto intro!: feed_returns)
  qed
qed

section \<open>What the parser is fed\<close>

text \<open>The tokens that are not white space, those of the window functions with the code the look ahead gives, then a
  semicolon unless the last was one, and the end mark 0.\<close>

fun parser_input :: "nat option \<Rightarrow> (nat \<times> byte list) list \<Rightarrow> (nat \<times> byte list) list" where
  "parser_input lst [] = (if lst = Some TK_SEMI then [(0, [])] else if lst = Some 0 then [] else [(TK_SEMI, []), (0, [])])"
| "parser_input lst ((t, w) # ts) =
     (if t = TK_SPACE then parser_input lst ts
      else (let u = (if t \<ge> TK_WINDOW then the (the (late_token t (w @ concat (map snd ts)) lst)) else t)
            in (u, w) # parser_input (Some u) ts))"

lemma late_token_Some:
  assumes "TK_WINDOW \<le> t" "lexical t" "t \<noteq> TK_SPACE" "t \<noteq> TK_ILLEGAL" "cstring z"
  shows "\<exists>u. late_token t z l = Some (Some u)"
proof -
  have "t = TK_WINDOW \<or> t = TK_OVER \<or> t = TK_FILTER"
    using lexical_late [OF assms(2,1)] assms(3,4) by blast
  then show ?thesis using analyze_returns [OF cstring_drop [OF assms(5)]] by (auto simp: late_token_def)
qed

lemma feed_accepts: "snd (parse p t w) = 0 \<Longrightarrow> feed parse p t w z' rest = map_option (\<lambda>r. r\<lparr>r_fed := (t, w) # r_fed r\<rparr>) (rest (fst (parse p t w)))"
  by (simp add: feed_def split_beta)

lemma parse_loop_feeds:
  assumes ok: "\<And>p t w. snd (parse p t w) = 0" and ni: "intr = (\<lambda>k. False)"
  shows "\<lbrakk>cstring z; rounds z lst \<le> f; int (length z) \<le> mx; \<forall>tw\<in>set (token_list z). fst tw \<noteq> TK_ILLEGAL\<rbrakk> \<Longrightarrow>
    \<exists>p' r. parse_loop f parse intr z mx lst k p = Some r \<and> r_stop r = EndOfInput \<and> r_fed r = parser_input lst (token_list z)"
proof (induction f arbitrary: z mx lst k p)
  case 0
  then show ?case by (simp add: rounds_def split: if_splits)
next
  case (Suc f)
  show ?case
  proof (cases "z = []")
    case True
    have IH: "\<exists>r. parse_loop f parse intr [] mx l k' q = Some r \<and> r_stop r = EndOfInput \<and> r_fed r = parser_input l []"
      if "rounds [] l \<le> f" for l k' q using Suc.IH [of "[]" l mx k' q] that Suc.prems(3) by (auto simp: cstring_def)
    show ?thesis
    proof (cases "lst = Some 0")
      case True
      then show ?thesis using \<open>z = []\<close> Suc.prems late_codes ni by (simp add: GetToken_Nil)
    next
      case n0: False
      show ?thesis
      proof (cases "lst = Some TK_SEMI")
        case True
        with IH [of "Some 0" "k + 1" "fst (parse p 0 [])"] Suc.prems(2) \<open>z = []\<close> obtain r where
          "parse_loop f parse intr [] mx (Some 0) (k + 1) (fst (parse p 0 [])) = Some r" "r_stop r = EndOfInput" "r_fed r = []"
          using late_codes by (auto simp: rounds_def)
        then show ?thesis using True \<open>z = []\<close> Suc.prems late_codes ni by (simp add: GetToken_Nil feed_accepts ok)
      next
        case False
        with IH [of "Some TK_SEMI" "k + 1" "fst (parse p TK_SEMI [])"] Suc.prems(2) \<open>z = []\<close> n0 obtain r where
          "parse_loop f parse intr [] mx (Some TK_SEMI) (k + 1) (fst (parse p TK_SEMI [])) = Some r" "r_stop r = EndOfInput" "r_fed r = [(0, [])]"
          using late_codes by (auto simp: rounds_def)
        then show ?thesis using False n0 \<open>z = []\<close> Suc.prems late_codes ni by (simp add: GetToken_Nil feed_accepts ok)
      qed
    qed
  next
    case False
    from GetToken_inside [OF False Suc.prems(1)] obtain n t where t: "sqlite3GetToken z = Some (n, t)" "0 < n" "n \<le> length z" "lexical t"
      by (auto simp: yields_def)
    then have tl: "token_list z = (t, take n z) # token_list (drop n z)" using False by (simp add: token_list.simps [of z])
    have d: "cstring (drop n z)" using Suc.prems(1) by (rule cstring_drop)
    have r: "rounds (drop n z) l \<le> f" for l using rounds_drop [OF t(2) False t(3), of l lst] Suc.prems(2) by simp
    have z: "hd0 z \<noteq> 0" using hd0_zero [OF Suc.prems(1)] False by simp
    have mx: "int (length (drop n z)) \<le> mx - int n" "\<not> mx - int n < 0" using Suc.prems(3) t(3) by auto
    have ill: "t \<noteq> TK_ILLEGAL" "\<forall>tw\<in>set (token_list (drop n z)). fst tw \<noteq> TK_ILLEGAL" using Suc.prems(4) tl by simp_all
    have IH: "\<exists>r. parse_loop f parse intr (drop n z) (mx - int n) l k' q = Some r \<and> r_stop r = EndOfInput \<and>
        r_fed r = parser_input l (token_list (drop n z))" for l k' q using Suc.IH [OF d r mx(1) ill(2)] by blast
    have c: "take n z @ concat (map snd (token_list (drop n z))) = z" by (simp add: token_list_concat [OF d])
    consider "t < TK_WINDOW" | "t = TK_SPACE" | "TK_WINDOW \<le> t" "t \<noteq> TK_SPACE" by linarith
    then show ?thesis
    proof cases
      case 1
      then have "t \<noteq> TK_SPACE" by (simp add: TK_WINDOW_def TK_SPACE_def)
      with 1 IH [of "Some t" k "fst (parse p t (take n z))"] t mx(2) tl show ?thesis by (auto simp: feed_accepts ok)
    next
      case 2
      then have "TK_WINDOW \<le> t" by (simp add: TK_WINDOW_def TK_SPACE_def)
      with 2 IH [of lst "k + 1" p] t mx(2) tl ni show ?thesis by auto
    next
      case 3
      then obtain u where u: "late_token t z lst = Some (Some u)" using late_token_Some [OF 3(1) t(4) 3(2) ill(1) Suc.prems(1)] by blast
      with 3 IH [of "Some u" "k + 1" "fst (parse p u (take n z))"] t mx(2) tl ni z c show ?thesis by (auto simp: feed_accepts ok)
    qed
  qed
qed

section \<open>Properties\<close>

text \<open>C39. Termination.  For every SQL text, every parser, every limit and every course of the interrupt flag, the loop
  of \<open>sqlite3RunParser\<close> comes to an end, and no look ahead reads past the end of the text.\<close>

theorem run_parser_terminates:
  assumes "cstring zSql"
  shows "\<exists>r. sqlite3RunParser parse intr mx zSql p = Some r"
  unfolding sqlite3RunParser_def by (rule parse_loop_returns [OF assms]) (simp add: rounds_def)

theorem run_parser_terminates_witness:
  "\<exists>r. sqlite3RunParser (\<lambda>p t w. (t # p, 0)) (\<lambda>k. False) 1000 (str ''select /*'') [] = Some r"
proof -
  have "cstring (str ''select /*'')" by code_simp
  then show ?thesis by (rule run_parser_terminates)
qed

text \<open>C40. What is parsed.  When the parser accepts every token, the text is within the limit, nothing interrupts and every
  token is legal, the parser gets each token of the text that is not white space, once and in order, with the code
  that the look ahead gives to \<open>WINDOW\<close>, \<open>OVER\<close> and \<open>FILTER\<close>, then a semicolon if the last token was none, then 0.\<close>

theorem run_parser_feeds_tokens:
  assumes "cstring zSql" "\<And>p t w. snd (parse p t w) = 0" "\<And>k. \<not> intr k" "int (length zSql) \<le> mx"
    and "\<forall>tw\<in>set (token_list zSql). fst tw \<noteq> TK_ILLEGAL"
  shows "\<exists>r. sqlite3RunParser parse intr mx zSql p = Some r \<and> r_stop r = EndOfInput \<and> r_fed r = parser_input None (token_list zSql)"
proof -
  have "rounds zSql None \<le> length zSql + 4" by (simp add: rounds_def)
  moreover have "intr = (\<lambda>k. False)" using assms(3) by auto
  ultimately show ?thesis
    using parse_loop_feeds [OF assms(2) _ assms(1) _ assms(4,5)] by (simp add: sqlite3RunParser_def)
qed

theorem run_parser_feeds_tokens_witness:
  "\<exists>r. sqlite3RunParser (\<lambda>p t w. (p, 0)) (\<lambda>k. False) 1000 (str ''VACUUM '') () = Some r \<and>
     r_fed r = [(TK_VACUUM, str ''VACUUM''), (TK_SEMI, []), (0, [])]"
proof -
  have c: "cstring (str ''VACUUM '')" by code_simp
  have t: "token_list (str ''VACUUM '') = [(TK_VACUUM, str ''VACUUM''), (TK_SPACE, [32])]" by code_simp
  have n: "TK_VACUUM \<noteq> TK_ILLEGAL" "TK_SPACE \<noteq> TK_ILLEGAL" "TK_VACUUM \<noteq> TK_SPACE" "\<not> TK_VACUUM \<ge> TK_WINDOW" "TK_VACUUM \<noteq> TK_SEMI" "TK_VACUUM \<noteq> 0"
    by (simp_all add: TK_VACUUM_def TK_ILLEGAL_def TK_SPACE_def TK_WINDOW_def TK_SEMI_def)
  have "int (length (str ''VACUUM '')) \<le> 1000" by code_simp
  from run_parser_feeds_tokens [OF c _ _ this, of "\<lambda>p t w. (p, 0)" "\<lambda>k. False" "()"] show ?thesis
    by (auto simp: t n)
qed

end
