(* ===== verification/Memjournal.thy ===== *)
theory Memjournal
  imports Prelude "HOL-Library.Monad_Syntax"
begin

text \<open>
  \<open>memjournal.c\<close>: a journal file kept in memory as a linked list of chunks of equal size, which moves to a real
  file when it grows past a limit.

  The list of chunks is a list; a pointer to a chunk is its position.  The bytes of a new chunk are what the
  allocator left in it, \<open>junk\<close>.  Offsets and amounts are natural numbers: the callers pass none below 0, and sums
  stay in 64 bits.  The real file is reached through the functions of a VFS, which are parameters; after the move the
  methods of the handle are the real file's, so that a journal is either in memory or such a file.  The result
  \<open>None\<close> is a NULL dereference.
\<close>

section \<open>The journal\<close>

definition SQLITE_IOERR_SHORT_READ :: int where "SQLITE_IOERR_SHORT_READ = 522"
definition SQLITE_IOERR_NOMEM :: int where "SQLITE_IOERR_NOMEM = 3082"
definition MEMJOURNAL_DFLT_FILECHUNKSIZE :: nat where "MEMJOURNAL_DFLT_FILECHUNKSIZE = 1024"

definition sizeof_FileChunk :: nat where "sizeof_FileChunk = 16"

record memjournal =
  nChunkSize :: nat
  nSpill :: int
  jchunks :: "byte list list"
  end_off :: nat
  end_chunk :: "nat option"
  rd_off :: nat
  rd_chunk :: "nat option"

section \<open>Reading\<close>

text \<open>The search from the first chunk; the length of the list stands for NULL.\<close>

function find_chunk :: "nat \<Rightarrow> byte list list \<Rightarrow> nat \<Rightarrow> nat \<Rightarrow> nat \<Rightarrow> nat" where
  "find_chunk n cs j iOff iOfst =
     (if j < length cs \<and> iOff + n \<le> iOfst then find_chunk n cs (j + 1) (iOff + n) iOfst else j)"
  by pat_completeness auto
termination by (relation "measure (\<lambda>(n, cs, j, iOff, iOfst). length cs - j)") auto

text \<open>The \<open>do\<close> loop: the bytes copied and the chunk pointer after it.\<close>

function read_loop :: "nat \<Rightarrow> byte list list \<Rightarrow> nat \<Rightarrow> nat \<Rightarrow> int \<Rightarrow> (byte list \<times> nat option) option" where
  "read_loop n cs j iChunkOffset nRead =
     (if j \<ge> length cs then None
      else
        (let iSpace = n - iChunkOffset;
             nCopy = nat (min nRead (int iSpace));
             out = take nCopy (drop iChunkOffset (cs ! j));
             nRead' = nRead - int iSpace
         in if nRead' \<ge> 0 then
              (if j + 1 < length cs \<and> nRead' > 0 then
                 (case read_loop n cs (j + 1) 0 nRead' of None \<Rightarrow> None | Some (rest, k) \<Rightarrow> Some (out @ rest, k))
               else Some (out, if j + 1 < length cs then Some (j + 1) else None))
            else Some (out, Some j)))"
  by pat_completeness auto
termination by (relation "measure (\<lambda>(n, cs, j, c, r). length cs - j)") auto

declare find_chunk.simps [simp del] read_loop.simps [simp del]

definition memjrnlRead :: "memjournal \<Rightarrow> nat \<Rightarrow> nat \<Rightarrow> (int \<times> byte list \<times> memjournal) option" where
  "memjrnlRead p iAmt iOfst =
     (if iAmt + iOfst > end_off p then Some (SQLITE_IOERR_SHORT_READ, [], p)
      else do {
        j \<leftarrow> (if rd_off p \<noteq> iOfst \<or> iOfst = 0 then Some (find_chunk (nChunkSize p) (jchunks p) 0 0 iOfst) else rd_chunk p);
        (out, k) \<leftarrow> read_loop (nChunkSize p) (jchunks p) j (iOfst mod nChunkSize p) (int iAmt);
        Some (0, out, p\<lparr>rd_off := (if k = None then 0 else iOfst + iAmt), rd_chunk := k\<rparr>)
      })"

section \<open>Truncation\<close>

text \<open>The chunk that holds the last byte of a file of \<open>size\<close> bytes.\<close>

function trunc_find :: "nat \<Rightarrow> byte list list \<Rightarrow> nat \<Rightarrow> nat \<Rightarrow> nat \<Rightarrow> nat" where
  "trunc_find n cs j iOff size' =
     (if j < length cs \<and> iOff < size' then trunc_find n cs (j + 1) (iOff + n) size' else j)"
  by pat_completeness auto
termination by (relation "measure (\<lambda>(n, cs, j, iOff, s). length cs - j)") auto

declare trunc_find.simps [simp del]

definition memjrnlTruncate :: "memjournal \<Rightarrow> nat \<Rightarrow> memjournal" where
  "memjrnlTruncate p sz =
     (if sz < end_off p then
        (let (cs, k) =
           (if sz = 0 then ([], None)
            else (let j = trunc_find (nChunkSize p) (jchunks p) 0 (nChunkSize p) sz in
                  if j < length (jchunks p) then (take (j + 1) (jchunks p), Some j) else (jchunks p, None)))
         in p\<lparr>jchunks := cs, end_chunk := k, end_off := sz, rd_chunk := None, rd_off := 0\<rparr>)
      else p)"

section \<open>Writing\<close>

text \<open>A new chunk at the end of the list: linked from the end point, or the first one.\<close>

definition new_chunk :: "byte list \<Rightarrow> memjournal \<Rightarrow> memjournal" where
  "new_chunk junk p =
     (let cs = (case end_chunk p of None \<Rightarrow> [junk] | Some k \<Rightarrow> take (k + 1) (jchunks p) @ [junk])
      in p\<lparr>jchunks := cs, end_chunk := Some (length cs - 1)\<rparr>)"

definition copy_into :: "byte list \<Rightarrow> nat \<Rightarrow> byte list \<Rightarrow> byte list" where
  "copy_into c k d = take k c @ d @ drop (k + length d) c"

text \<open>The \<open>while\<close> loop of an append.  The allocator's outcomes are \<open>al\<close>: a request fails when the next one is
  \<open>False\<close>.  A chunk size of 0 does not occur; the loop would not end.\<close>

function write_loop :: "byte list \<Rightarrow> memjournal \<Rightarrow> byte list \<Rightarrow> bool list \<Rightarrow> (int \<times> memjournal \<times> bool list) option" where
  "write_loop junk p zWrite al =
     (if zWrite = [] then Some (0, p, al)
      else if nChunkSize p = 0 then None
      else
        (let iChunkOffset = end_off p mod nChunkSize p;
             iSpace = min (length zWrite) (nChunkSize p - iChunkOffset)
         in if iChunkOffset = 0 \<and> take 1 al = [False] then Some (SQLITE_IOERR_NOMEM, p, tl al)
            else
              (let p1 = (if iChunkOffset = 0 then new_chunk junk p else p);
                   al1 = (if iChunkOffset = 0 then tl al else al)
               in case end_chunk p1 of
                    None \<Rightarrow> None
                  | Some k \<Rightarrow>
                      write_loop junk
                        (p1\<lparr>jchunks := (jchunks p1)[k := copy_into (jchunks p1 ! k) iChunkOffset (take iSpace zWrite)],
                            end_off := end_off p1 + iSpace\<rparr>)
                        (drop iSpace zWrite) al1)))"
  by pat_completeness auto
termination by (relation "measure (\<lambda>(junk, p, z, al). length z)") auto

declare write_loop.simps [simp del]

text \<open>The write that stays in memory.  A write at offset 0 into a journal that has a chunk goes to the first chunk;
  past its end it would be a heap overflow.\<close>

definition memjrnl_append :: "byte list \<Rightarrow> memjournal \<Rightarrow> byte list \<Rightarrow> nat \<Rightarrow> bool list \<Rightarrow> (int \<times> memjournal \<times> bool list) option" where
  "memjrnl_append junk p zBuf iOfst al =
     (let p1 = (if iOfst > 0 \<and> iOfst \<noteq> end_off p then memjrnlTruncate p iOfst else p)
      in if iOfst = 0 \<and> jchunks p1 \<noteq> [] then
           (if length zBuf > nChunkSize p1 then None
            else Some (0, p1\<lparr>jchunks := (jchunks p1)[0 := copy_into (jchunks p1 ! 0) 0 zBuf]\<rparr>, al))
         else write_loop junk p1 zBuf al)"

section \<open>Moving to a real file\<close>

record 'f vfs =
  xOpen :: "int \<times> 'f"
  xWrite :: "'f \<Rightarrow> byte list \<Rightarrow> nat \<Rightarrow> int \<times> 'f"
  xRead :: "'f \<Rightarrow> nat \<Rightarrow> nat \<Rightarrow> int \<times> byte list"
  xTruncate :: "'f \<Rightarrow> nat \<Rightarrow> int \<times> 'f"
  xFileSize :: "'f \<Rightarrow> nat"

datatype 'f journal = InMemory memjournal | OnDisk 'f

text \<open>The chunks to the file, the last one cut to the end point.\<close>

fun flush_loop :: "'f vfs \<Rightarrow> 'f \<Rightarrow> nat \<Rightarrow> nat \<Rightarrow> nat \<Rightarrow> byte list list \<Rightarrow> int \<times> 'f" where
  "flush_loop v f nChunk iOff e [] = (0, f)"
| "flush_loop v f nChunk iOff e (c # cs) =
     (let n = (if iOff + nChunk > e then e - iOff else nChunk);
          (rc, f') = xWrite v f (take n c) iOff
      in if rc \<noteq> 0 then (rc, f') else flush_loop v f' n (iOff + n) e cs)"

definition memjrnlCreateFile :: "'f vfs \<Rightarrow> memjournal \<Rightarrow> int \<times> 'f journal" where
  "memjrnlCreateFile v p =
     (case xOpen v of (rc, f) \<Rightarrow>
        if rc \<noteq> 0 then (rc, InMemory p)
        else (case flush_loop v f (nChunkSize p) 0 (end_off p) (jchunks p) of (rc, f') \<Rightarrow>
                if rc = 0 then (0, OnDisk f') else (rc, InMemory p)))"

definition memjrnlWrite ::
    "'f vfs \<Rightarrow> byte list \<Rightarrow> memjournal \<Rightarrow> byte list \<Rightarrow> nat \<Rightarrow> bool list \<Rightarrow> (int \<times> 'f journal \<times> bool list) option" where
  "memjrnlWrite v junk p zBuf iOfst al =
     (if nSpill p > 0 \<and> int (length zBuf + iOfst) > nSpill p then
        (case memjrnlCreateFile v p of
           (rc, OnDisk f) \<Rightarrow> if rc = 0 then (case xWrite v f zBuf iOfst of (rc', f') \<Rightarrow> Some (rc', OnDisk f', al)) else Some (rc, OnDisk f, al)
         | (rc, j) \<Rightarrow> Some (rc, j, al))
      else map_option (\<lambda>(rc, p', al'). (rc, InMemory p', al')) (memjrnl_append junk p zBuf iOfst al))"

section \<open>The file methods\<close>

definition memjrnlFileSize :: "memjournal \<Rightarrow> nat" where
  "memjrnlFileSize p = end_off p"

text \<open>The method tables: what a caller gets from the handle.\<close>

definition journal_write ::
    "'f vfs \<Rightarrow> byte list \<Rightarrow> 'f journal \<Rightarrow> byte list \<Rightarrow> nat \<Rightarrow> bool list \<Rightarrow> (int \<times> 'f journal \<times> bool list) option" where
  "journal_write v junk j d iOfst al =
     (case j of InMemory p \<Rightarrow> memjrnlWrite v junk p d iOfst al
      | OnDisk f \<Rightarrow> (case xWrite v f d iOfst of (rc, f') \<Rightarrow> Some (rc, OnDisk f', al)))"

definition journal_read :: "'f vfs \<Rightarrow> 'f journal \<Rightarrow> nat \<Rightarrow> nat \<Rightarrow> (int \<times> byte list \<times> 'f journal) option" where
  "journal_read v j iAmt iOfst =
     (case j of InMemory p \<Rightarrow> map_option (\<lambda>(rc, d, p'). (rc, d, InMemory p')) (memjrnlRead p iAmt iOfst)
      | OnDisk f \<Rightarrow> (case xRead v f iAmt iOfst of (rc, d) \<Rightarrow> Some (rc, d, OnDisk f)))"

definition journal_truncate :: "'f vfs \<Rightarrow> 'f journal \<Rightarrow> nat \<Rightarrow> int \<times> 'f journal" where
  "journal_truncate v j sz =
     (case j of InMemory p \<Rightarrow> (0, InMemory (memjrnlTruncate p sz))
      | OnDisk f \<Rightarrow> (case xTruncate v f sz of (rc, f') \<Rightarrow> (rc, OnDisk f')))"

definition journal_size :: "'f vfs \<Rightarrow> 'f journal \<Rightarrow> nat" where
  "journal_size v j = (case j of InMemory p \<Rightarrow> memjrnlFileSize p | OnDisk f \<Rightarrow> xFileSize v f)"

definition sqlite3JournalOpen :: "'f vfs \<Rightarrow> int \<Rightarrow> int \<times> 'f journal option" where
  "sqlite3JournalOpen v spill =
     (if spill = 0 then (case xOpen v of (rc, f) \<Rightarrow> (rc, if rc = 0 then Some (OnDisk f) else None))
      else (0, Some (InMemory
        \<lparr>nChunkSize = (if spill > 0 then nat spill else 8 + MEMJOURNAL_DFLT_FILECHUNKSIZE - sizeof_FileChunk),
         nSpill = spill, jchunks = [], end_off = 0, end_chunk = None, rd_off = 0, rd_chunk = None\<rparr>)))"

definition sqlite3JournalIsInMemory :: "'f journal \<Rightarrow> bool" where
  "sqlite3JournalIsInMemory j = (case j of InMemory p \<Rightarrow> True | OnDisk f \<Rightarrow> False)"

end
