(* ===== verification/Chunks.thy ===== *)
theory Chunks
  imports Prelude
begin

text \<open>
  Lists of chunks of one size and the bytes they hold: the journal in memory and the log file are such lists.
\<close>

definition uniform :: "nat \<Rightarrow> byte list list \<Rightarrow> bool" where
  "uniform n cs \<longleftrightarrow> (\<forall>c\<in>set cs. length c = n)"

lemma uniform_simps [simp]: "uniform n []" "uniform n (c # cs) \<longleftrightarrow> length c = n \<and> uniform n cs"
    "uniform n (cs @ ds) \<longleftrightarrow> uniform n cs \<and> uniform n ds"
  by (auto simp: uniform_def)

lemma uniform_take: "uniform n cs \<Longrightarrow> uniform n (take k cs)" "uniform n cs \<Longrightarrow> uniform n (drop k cs)"
  by (auto simp: uniform_def dest: in_set_takeD in_set_dropD)

lemma uniform_update: "uniform n cs \<Longrightarrow> length c = n \<Longrightarrow> uniform n (cs[k := c])"
  by (auto simp: uniform_def dest: set_update_subset_insert [THEN subsetD])

lemma uniform_length: "uniform n cs \<Longrightarrow> length (concat cs) = length cs * n"
  by (induction cs) auto

lemma uniform_drop: "uniform n cs \<Longrightarrow> drop (j * n) (concat cs) = concat (drop j cs)"
proof (induction j arbitrary: cs)
  case (Suc j)
  then show ?case by (cases cs) auto
qed simp

lemma uniform_take_concat: "uniform n cs \<Longrightarrow> take (j * n) (concat cs) = concat (take j cs)"
proof (induction j arbitrary: cs)
  case (Suc j)
  then show ?case by (cases cs) auto
qed simp

lemma uniform_nth: "uniform n cs \<Longrightarrow> k < length cs \<Longrightarrow> take n (drop (k * n) (concat cs)) = cs ! k"
proof -
  assume u: "uniform n cs" and k: "k < length cs"
  then have "drop k cs = cs ! k # drop (Suc k) cs" by (simp add: Cons_nth_drop_Suc)
  then have "drop (k * n) (concat cs) = cs ! k @ concat (drop (Suc k) cs)" using uniform_drop [OF u, of k] by simp
  moreover have "length (cs ! k) = n" using u k by (simp add: uniform_def)
  ultimately show ?thesis by simp
qed

end
