(* ===== verification/Memjournal_Props.thy ===== *)
theory Memjournal_Props
  imports Memjournal Chunks Refinement "HOL-Library.Sublist"
begin

text \<open>
  The journal in memory against a byte string: the invariant of the list of chunks, what every file method does to
  the bytes it holds, what is left when memory runs out, and the move to a file.
\<close>

section \<open>Chunks\<close>

lemma length_copy_into: "k + length d \<le> length c \<Longrightarrow> length (copy_into c k d) = length c"
  by (simp add: copy_into_def)

text \<open>The bytes before the end of the copied ones.\<close>

lemma concat_update_last:
  assumes "uniform n cs" "k < length cs" "o' + length d \<le> n"
  shows "take (k * n + o' + length d) (concat (cs[k := copy_into (cs ! k) o' d])) = take (k * n + o') (concat cs) @ d"
proof -
  have l: "length (cs ! k) = n" using assms(1,2) by (simp add: uniform_def)
  have cs: "cs = take k cs @ cs ! k # drop (Suc k) cs" using assms(2) by (simp add: id_take_nth_drop)
  have lt: "length (concat (take k cs)) = k * n" using uniform_length [OF uniform_take(1) [OF assms(1), of k]] assms(2) by simp
  have 1: "concat (cs[k := c]) = concat (take k cs) @ c @ concat (drop (Suc k) cs)" for c
    using assms(2) by (simp add: upd_conv_take_nth_drop)
  have 2: "concat cs = concat (take k cs) @ cs ! k @ concat (drop (Suc k) cs)" by (subst cs) simp
  show ?thesis unfolding 1 by (subst 2) (use l lt assms(3) in \<open>simp add: copy_into_def\<close>)
qed

section \<open>The invariant\<close>

definition jinv :: "memjournal \<Rightarrow> bool" where
  "jinv p \<longleftrightarrow> 0 < nChunkSize p \<and> uniform (nChunkSize p) (jchunks p) \<and>
     (if end_off p = 0 then jchunks p = [] \<and> end_chunk p = None
      else jchunks p \<noteq> [] \<and> end_chunk p = Some (length (jchunks p) - 1) \<and>
        (length (jchunks p) - 1) * nChunkSize p < end_off p \<and> end_off p \<le> length (jchunks p) * nChunkSize p) \<and>
     (rd_off p = 0 \<or> rd_chunk p = Some (rd_off p div nChunkSize p) \<and> rd_off p div nChunkSize p < length (jchunks p))"

definition jbytes :: "memjournal \<Rightarrow> byte list" where
  "jbytes p = take (end_off p) (concat (jchunks p))"

lemma jbytes_length: "jinv p \<Longrightarrow> length (jbytes p) = end_off p"
  by (auto simp: jbytes_def jinv_def uniform_length split: if_splits)

section \<open>Reading\<close>

lemma find_chunk_eq:
  "0 < n \<Longrightarrow> j * n \<le> x \<Longrightarrow> j \<le> length cs \<Longrightarrow> x div n < length cs \<Longrightarrow> find_chunk n cs j (j * n) x = x div n"
proof (induction "length cs - j" arbitrary: j)
  case 0
  then have "j = length cs" by simp
  with 0 have "length cs * n \<le> x" by simp
  then have "length cs \<le> x div n" using 0(2) by (simp add: less_eq_div_iff_mult_less_eq)
  with 0 show ?case by simp
next
  case (Suc d)
  show ?case
  proof (cases "j * n + n \<le> x")
    case True
    have "(j + 1) * n \<le> x" using True by simp
    then have "j + 1 \<le> x div n" using Suc.prems(1) by (simp add: less_eq_div_iff_mult_less_eq del: add_mult_distrib)
    with Suc.prems(4) have j: "j < length cs" by linarith
    have "find_chunk n cs (j + 1) ((j + 1) * n) x = x div n" using Suc True by (intro Suc.hyps(1)) auto
    with j True show ?thesis by (subst find_chunk.simps) (simp add: algebra_simps)
  next
    case False
    then have "x div n = j" using Suc.prems by (intro div_nat_eqI) (simp_all add: mult.commute)
    with False show ?thesis by (subst find_chunk.simps) simp
  qed
qed

lemma read_loop_eq:
  "\<lbrakk>0 < n; uniform n cs; j < length cs; k < n; 0 < r; j * n + k + r \<le> length cs * n\<rbrakk> \<Longrightarrow>
    read_loop n cs j k (int r) = Some (take r (drop (j * n + k) (concat cs)),
      if (j * n + k + r) div n < length cs then Some ((j * n + k + r) div n) else None)"
proof (induction "length cs - j" arbitrary: j k r)
  case 0
  then show ?case by simp
next
  case (Suc d)
  have l: "length (cs ! j) = n" using Suc.prems by (simp add: uniform_def)
  have dr: "drop (j * n + k) (concat cs) = drop k (cs ! j) @ concat (drop (Suc j) cs)"
  proof -
    have "drop (j * n + k) (concat cs) = drop k (concat (drop j cs))"
      using uniform_drop [OF Suc.prems(2), of j] by (metis add.commute drop_drop)
    also have "drop j cs = cs ! j # drop (Suc j) cs" using Suc.prems(3) by (simp add: Cons_nth_drop_Suc)
    finally show ?thesis using l Suc.prems(4) by simp
  qed
  show ?case
  proof (cases "r < n - k")
    case True
    then have "(j * n + k + r) div n = j" using Suc.prems(1) by (intro div_nat_eqI) (simp_all add: mult.commute)
    then show ?thesis using True Suc.prems l dr by (subst read_loop.simps) (simp add: Let_def)
  next
    case False
    show ?thesis
    proof (cases "r = n - k")
      case True
      then have e: "(j * n + k + r) div n = Suc j" using Suc.prems(1,4) by simp
      show ?thesis using True Suc.prems l dr e by (subst read_loop.simps) (simp add: Let_def)
    next
      case more: False
      define r' where "r' = r - (n - k)"
      have r': "0 < r'" "int r - int (n - k) = int r'" "r = (n - k) + r'" using False more by (auto simp: r'_def)
      have ends: "j * n + k + r = Suc j * n + 0 + r'" using r' Suc.prems(4) by simp
      have "Suc j < length cs"
      proof (rule ccontr)
        assume "\<not> Suc j < length cs"
        then have "length cs = Suc j" using Suc.prems(3) by simp
        with Suc.prems(6) ends r' show False by simp
      qed
      moreover have "read_loop n cs (Suc j) 0 (int r') = Some (take r' (drop (Suc j * n + 0) (concat cs)),
          if (Suc j * n + 0 + r') div n < length cs then Some ((Suc j * n + 0 + r') div n) else None)"
        using Suc.hyps(2) Suc.prems calculation r' ends by (intro Suc.hyps(1)) auto
      moreover have "drop (Suc j * n + 0) (concat cs) = concat (drop (Suc j) cs)" using uniform_drop [OF Suc.prems(2), of "Suc j"] by simp
      moreover have "nat (min (int r) (int (n - k))) = n - k" using False by simp
      moreover have "(n + r') div n = Suc (r' div n)" using Suc.prems(1) div_add_self1 [of n r'] by simp
      ultimately show ?thesis
        using Suc.prems(3,4) l dr r' ends
        by (subst read_loop.simps) (simp add: Let_def del: mult_Suc)
    qed
  qed
qed

lemma jinv_chunks: "jinv p \<Longrightarrow> 0 < nChunkSize p \<and> uniform (nChunkSize p) (jchunks p) \<and> end_off p \<le> length (jchunks p) * nChunkSize p"
  by (auto simp: jinv_def split: if_splits)

lemma div_in_chunks: "jinv p \<Longrightarrow> x < end_off p \<Longrightarrow> x div nChunkSize p < length (jchunks p)"
  using jinv_chunks [of p] by (simp add: div_less_iff_less_mult)

lemma memjrnlRead_eq:
  assumes p: "jinv p" and a: "0 < a" "a + x \<le> end_off p"
  obtains p' where "memjrnlRead p a x = Some (0, take a (drop x (jbytes p)), p')" "jinv p'" "jbytes p' = jbytes p"
    "nChunkSize p' = nChunkSize p" "nSpill p' = nSpill p"
proof -
  let ?n = "nChunkSize p" and ?cs = "jchunks p"
  have n: "0 < ?n" and u: "uniform ?n ?cs" and e: "end_off p \<le> length ?cs * ?n" using jinv_chunks [OF p] by auto
  have j: "x div ?n < length ?cs" using a by (intro div_in_chunks p) simp
  have f: "find_chunk ?n ?cs 0 0 x = x div ?n" using find_chunk_eq [OF n, of 0 x ?cs] j by simp
  have start: "(if rd_off p \<noteq> x \<or> x = 0 then Some (find_chunk ?n ?cs 0 0 x) else rd_chunk p) = Some (x div ?n)"
    using p f by (auto simp: jinv_def)
  have x: "x div ?n * ?n + x mod ?n = x" by simp
  let ?k = "if (x + a) div ?n < length ?cs then Some ((x + a) div ?n) else None"
  have l: "read_loop ?n ?cs (x div ?n) (x mod ?n) (int a) = Some (take a (drop x (concat ?cs)), ?k)"
    using read_loop_eq [OF n u j, of "x mod ?n" a] a e n by (simp only: x) auto
  have d: "take a (drop x (jbytes p)) = take a (drop x (concat ?cs))" using a by (simp add: jbytes_def drop_take min_def)
  let ?p = "p\<lparr>rd_off := (if ?k = None then 0 else x + a), rd_chunk := ?k\<rparr>"
  have "memjrnlRead p a x = Some (0, take a (drop x (jbytes p)), ?p)"
    unfolding memjrnlRead_def start d using a by (simp add: l add.commute)
  moreover have "jinv ?p" using p by (auto simp: jinv_def)
  ultimately show thesis by (rule that) (simp_all add: jbytes_def)
qed

section \<open>Truncation\<close>

lemma trunc_find_eq:
  "\<lbrakk>0 < n; 0 < sz; j * n < sz; sz \<le> length cs * n\<rbrakk> \<Longrightarrow> trunc_find n cs j (Suc j * n) sz = (sz - 1) div n"
proof (induction "length cs - j" arbitrary: j rule: less_induct)
  case less
  have j: "j < length cs"
  proof (rule ccontr)
    assume "\<not> j < length cs"
    then have "length cs * n \<le> j * n" by simp
    with less.prems show False by simp
  qed
  show ?case
  proof (cases "Suc j * n < sz")
    case True
    have "trunc_find n cs (Suc j) (Suc (Suc j) * n) sz = (sz - 1) div n" using less.prems True j by (intro less.hyps) auto
    with True j show ?thesis by (subst trunc_find.simps) (simp add: algebra_simps)
  next
    case False
    then have "(sz - 1) div n = j" using less.prems by (intro div_nat_eqI) (auto simp: mult.commute)
    with False show ?thesis by (subst trunc_find.simps) simp
  qed
qed

lemma memjrnlTruncate_eq:
  assumes p: "jinv p"
  shows "jinv (memjrnlTruncate p sz)" "jbytes (memjrnlTruncate p sz) = take sz (jbytes p)"
    "nChunkSize (memjrnlTruncate p sz) = nChunkSize p" "nSpill (memjrnlTruncate p sz) = nSpill p"
proof -
  let ?n = "nChunkSize p" and ?cs = "jchunks p"
  have n: "0 < ?n" and u: "uniform ?n ?cs" and e: "end_off p \<le> length ?cs * ?n" using jinv_chunks [OF p] by auto
  have "jinv (memjrnlTruncate p sz) \<and> jbytes (memjrnlTruncate p sz) = take sz (jbytes p) \<and>
    nChunkSize (memjrnlTruncate p sz) = ?n \<and> nSpill (memjrnlTruncate p sz) = nSpill p"
  proof (cases "0 < sz \<and> sz < end_off p")
    case True
    define j where "j = (sz - 1) div ?n"
    have t: "trunc_find ?n ?cs 0 ?n sz = j" using trunc_find_eq [OF n, of sz 0 ?cs] True e by (simp add: j_def)
    have jl: "j < length ?cs" unfolding j_def using True div_in_chunks [OF p, of "sz - 1"] by auto
    have j1: "j * ?n < sz" using div_times_less_eq_dividend [of "sz - 1" ?n] True unfolding j_def by linarith
    have j2: "sz \<le> Suc j * ?n" using dividend_less_div_times [OF n, of "sz - 1"] unfolding j_def mult_Suc by linarith
    have "take sz (concat (take (Suc j) ?cs)) = take sz (concat ?cs)"
      using j2 by (simp add: uniform_take_concat [OF u, symmetric] min_def del: mult_Suc)
    moreover have "min (length ?cs) (Suc j) = Suc j" "min sz (end_off p) = sz" using jl True by simp_all
    ultimately show ?thesis using True jl j1 j2 n u t
      by (auto simp: memjrnlTruncate_def Let_def jinv_def jbytes_def uniform_take)
  next
    case False
    then consider "sz = 0" "0 < end_off p" | "end_off p \<le> sz" by linarith
    then show ?thesis
      by cases (use p n in \<open>auto simp: memjrnlTruncate_def jinv_def jbytes_def min_def\<close>)
  qed
  then show "jinv (memjrnlTruncate p sz)" "jbytes (memjrnlTruncate p sz) = take sz (jbytes p)"
    "nChunkSize (memjrnlTruncate p sz) = nChunkSize p" "nSpill (memjrnlTruncate p sz) = nSpill p" by auto
qed
section \<open>Appending\<close>

text \<open>One turn of the loop: \<open>cs\<close> is the list of chunks, the new one included, that ends with the chunk written.\<close>

lemma append_state:
  assumes p: "jinv p" and cs: "uniform (nChunkSize p) cs" "length cs = Suc k" "length (jchunks p) \<le> Suc k"
    and e: "end_off p = k * nChunkSize p + o'" and d: "d \<noteq> []" "o' + length d \<le> nChunkSize p"
    and old: "take (end_off p) (concat cs) = jbytes p"
  defines "q \<equiv> p\<lparr>jchunks := cs[k := copy_into (cs ! k) o' d], end_off := end_off p + length d, end_chunk := Some k\<rparr>"
  shows "jinv q" "jbytes q = jbytes p @ d"
proof -
  have n: "0 < nChunkSize p" using jinv_chunks [OF p] by simp
  have "length (cs ! k) = nChunkSize p" using cs(1,2) by (simp add: uniform_def)
  then have "uniform (nChunkSize p) (cs[k := copy_into (cs ! k) o' d])"
    using cs(1) d(2) by (simp add: uniform_update length_copy_into)
  with p n cs(2,3) d show "jinv q" by (auto simp: q_def jinv_def e split: if_splits)
  have "k < length cs" using cs(2) by simp
  from concat_update_last [OF cs(1) this d(2)] show "jbytes q = jbytes p @ d"
    using old by (simp add: q_def jbytes_def e)
qed

lemma full_chunks:
  assumes p: "jinv p" and m: "end_off p mod nChunkSize p = 0"
  shows "end_off p = length (jchunks p) * nChunkSize p"
proof (cases "end_off p = 0")
  case False
  obtain j where j: "end_off p = j * nChunkSize p" using m by (metis mod_0_imp_dvd dvd_def mult.commute)
  have "(length (jchunks p) - 1) * nChunkSize p < j * nChunkSize p" "j * nChunkSize p \<le> length (jchunks p) * nChunkSize p"
    using p False by (auto simp: jinv_def j [symmetric])
  then have "length (jchunks p) - 1 < j" "j \<le> length (jchunks p)" using jinv_chunks [OF p] by simp_all
  then show ?thesis using j by (metis Suc_diff_1 le_antisym less_eq_Suc_le less_nat_zero_code not_gr_zero diff_is_0_eq diff_Suc_1 zero_le Suc_pred le_less_trans gr0I)
qed (use p in \<open>simp add: jinv_def\<close>)

lemma last_chunk:
  assumes p: "jinv p" and m: "end_off p mod nChunkSize p \<noteq> 0"
  shows "jchunks p \<noteq> []" "end_chunk p = Some (length (jchunks p) - 1)"
    "end_off p = (length (jchunks p) - 1) * nChunkSize p + end_off p mod nChunkSize p"
proof -
  let ?n = "nChunkSize p" and ?k = "length (jchunks p) - 1"
  have e: "end_off p \<noteq> 0" using m by (metis mod_0)
  then show ne: "jchunks p \<noteq> []" "end_chunk p = Some ?k" using p by (auto simp: jinv_def)
  have "?k * ?n < end_off p" "end_off p \<le> Suc ?k * ?n" using p e by (auto simp: jinv_def simp del: mult_Suc)
  moreover have "end_off p \<noteq> Suc ?k * ?n" using m by (metis mod_mult_self2_is_0)
  ultimately have "end_off p div ?n = ?k" by (intro div_nat_eqI) (auto simp: mult.commute)
  then show "end_off p = ?k * ?n + end_off p mod ?n" by (metis div_mult_mod_eq)
qed

text \<open>One turn, in terms of the list with the chunk to write.\<close>

definition turn :: "byte list \<Rightarrow> memjournal \<Rightarrow> byte list \<Rightarrow> memjournal" where
  "turn junk p d =
     (let o' = end_off p mod nChunkSize p;
          cs = (if o' = 0 then jchunks p @ [junk] else jchunks p);
          k = length cs - 1
      in p\<lparr>jchunks := cs[k := copy_into (cs ! k) o' d], end_off := end_off p + length d, end_chunk := Some k\<rparr>)"

lemma turn_state:
  assumes p: "jinv p" and j: "length junk = nChunkSize p" and d: "d \<noteq> []" "end_off p mod nChunkSize p + length d \<le> nChunkSize p"
  shows "jinv (turn junk p d)" "jbytes (turn junk p d) = jbytes p @ d"
    "nChunkSize (turn junk p d) = nChunkSize p" "nSpill (turn junk p d) = nSpill p"
proof -
  let ?o = "end_off p mod nChunkSize p"
  define cs where "cs = (if ?o = 0 then jchunks p @ [junk] else jchunks p)"
  define k where "k = length cs - 1"
  have u: "uniform (nChunkSize p) (jchunks p)" using jinv_chunks [OF p] by auto
  have t: "turn junk p d = p\<lparr>jchunks := cs[k := copy_into (cs ! k) ?o d], end_off := end_off p + length d, end_chunk := Some k\<rparr>"
    by (simp add: turn_def cs_def k_def Let_def)
  have e: "end_off p = k * nChunkSize p + ?o" "length cs = Suc k"
    using full_chunks [OF p] last_chunk [OF p] by (auto simp: k_def cs_def)
  moreover have "take (end_off p) (concat cs) = jbytes p"
    using full_chunks [OF p] uniform_length [OF u] by (auto simp: jbytes_def cs_def)
  moreover have "uniform (nChunkSize p) cs" "length (jchunks p) \<le> Suc k" using u j e(2) by (auto simp: cs_def split: if_splits)
  ultimately show "jinv (turn junk p d)" "jbytes (turn junk p d) = jbytes p @ d"
    unfolding t using append_state [OF p, of cs k ?o d] d by blast+
  show "nChunkSize (turn junk p d) = nChunkSize p" "nSpill (turn junk p d) = nSpill p" by (simp_all add: t)
qed

lemma write_loop_turn:
  assumes p: "jinv p" and z: "z \<noteq> []" and al: "end_off p mod nChunkSize p \<noteq> 0 \<or> take 1 al \<noteq> [False]"
  defines "sp \<equiv> min (length z) (nChunkSize p - end_off p mod nChunkSize p)"
  shows "write_loop junk p z al = write_loop junk (turn junk p (take sp z)) (drop sp z) (if end_off p mod nChunkSize p = 0 then tl al else al)"
proof (cases "end_off p mod nChunkSize p = 0")
  case True
  have c: "new_chunk junk p = p\<lparr>jchunks := jchunks p @ [junk], end_chunk := Some (length (jchunks p))\<rparr>"
    using p by (auto simp: new_chunk_def jinv_def Let_def split: if_splits)
  have sp: "min (length z) (nChunkSize p) = sp" "length (take sp z) = sp" using True by (simp_all add: sp_def)
  have swap: "p\<lparr>jchunks := a, end_off := b, end_chunk := c\<rparr> = p\<lparr>end_chunk := c, jchunks := a, end_off := b\<rparr>" for a b c by (cases p) simp
  show ?thesis using True z al jinv_chunks [OF p]
    by (subst write_loop.simps) (simp add: c swap Let_def turn_def sp del: length_take)
next
  case False
  have sp: "length (take sp z) = sp" by (simp add: sp_def)
  have c: "p\<lparr>jchunks := a, end_off := b, end_chunk := Some (length (jchunks p) - Suc 0)\<rparr> = p\<lparr>jchunks := a, end_off := b\<rparr>" for a b
    using last_chunk(2) [OF p False] by (cases p) simp
  show ?thesis using False z jinv_chunks [OF p] last_chunk(2) [OF p False]
    by (subst write_loop.simps) (simp add: c Let_def turn_def sp sp_def [symmetric] del: length_take)
qed

lemma write_loop_appends:
  "\<lbrakk>jinv p; length junk = nChunkSize p\<rbrakk> \<Longrightarrow>
   \<exists>rc p' al' d. write_loop junk p z al = Some (rc, p', al') \<and> jinv p' \<and> jbytes p' = jbytes p @ d \<and> prefix d z \<and>
    nChunkSize p' = nChunkSize p \<and> nSpill p' = nSpill p \<and> (if rc = 0 then d = z else rc = SQLITE_IOERR_NOMEM \<and> al \<noteq> [])"
proof (induction "length z" arbitrary: p z al rule: less_induct)
  case less
  let ?n = "nChunkSize p" and ?o = "end_off p mod nChunkSize p"
  have n: "0 < ?n" using jinv_chunks [OF less.prems(1)] by auto
  show ?case
  proof (cases "z = [] \<or> ?o = 0 \<and> take 1 al = [False]")
    case True
    then show ?thesis using less.prems n
      by (subst write_loop.simps) (auto simp: SQLITE_IOERR_NOMEM_def intro!: exI [of _ "[]"])
  next
    case False
    define sp where "sp = min (length z) (?n - ?o)"
    define al1 where "al1 = (if ?o = 0 then tl al else al)"
    let ?q = "turn junk p (take sp z)"
    have sp: "0 < sp" "sp \<le> length z" "?o + sp \<le> ?n" using n False mod_less_divisor [OF n, of "end_off p"] by (auto simp: sp_def)
    have q: "jinv ?q" "jbytes ?q = jbytes p @ take sp z" "nChunkSize ?q = ?n" "nSpill ?q = nSpill p"
      using turn_state [OF less.prems, of "take sp z"] sp False by auto
    have step: "write_loop junk p z al = write_loop junk ?q (drop sp z) al1"
      unfolding sp_def al1_def by (rule write_loop_turn [OF less.prems(1)]) (use False in auto)
    obtain rc p' al' d where r: "write_loop junk ?q (drop sp z) al1 = Some (rc, p', al')" "jinv p'"
      "jbytes p' = jbytes ?q @ d" "prefix d (drop sp z)" "nChunkSize p' = ?n" "nSpill p' = nSpill p"
      "if rc = 0 then d = drop sp z else rc = SQLITE_IOERR_NOMEM \<and> al1 \<noteq> []"
    proof -
      have l: "length (drop sp z) < length z" "length junk = nChunkSize ?q" using sp q(3) less.prems(2) by auto
      from less.hyps [OF l(1) q(1) l(2), of al1] q(3,4) that show thesis by metis
    qed
    have "prefix (take sp z @ d) z" using r(4) by (metis append_take_drop_id same_prefix_prefix)
    moreover have "al1 \<noteq> [] \<longrightarrow> al \<noteq> []" by (auto simp: al1_def)
    moreover have "jbytes p' = jbytes p @ (take sp z @ d)" using r(3) q(2) by simp
    moreover have "d = drop sp z \<longrightarrow> take sp z @ d = z" by simp
    ultimately show ?thesis using r step by (metis (no_types))
  qed
qed

text \<open>The bytes after a write into memory: the start of the journal rewritten, or the journal cut and extended.\<close>

definition put_bytes :: "byte list \<Rightarrow> byte list \<Rightarrow> nat \<Rightarrow> byte list" where
  "put_bytes m d x = (if x = 0 \<and> m \<noteq> [] then take (length m) (d @ drop (length d) m) else take x m @ d)"

lemma header_rewrite:
  assumes p: "jinv p" and c: "jchunks p \<noteq> []" and d: "length d \<le> nChunkSize p"
  defines "q \<equiv> p\<lparr>jchunks := (jchunks p)[0 := copy_into (jchunks p ! 0) 0 d]\<rparr>"
  shows "jinv q" "jbytes q = take (length (jbytes p)) (d @ drop (length d) (jbytes p))"
proof -
  have u: "uniform (nChunkSize p) (jchunks p)" using jinv_chunks [OF p] by simp
  then have l: "length (jchunks p ! 0) = nChunkSize p" using c by (simp add: uniform_def)
  then have "uniform (nChunkSize p) (jchunks q)" using u d by (simp add: q_def uniform_update length_copy_into)
  with p c show "jinv q" by (auto simp: q_def jinv_def)
  obtain c0 cs where cs: "jchunks p = c0 # cs" using c by (cases "jchunks p") auto
  have q: "concat (jchunks q) = d @ drop (length d) (concat (jchunks p))" using d l by (simp add: q_def cs copy_into_def)
  have "length (jbytes p) = end_off p" using p by (rule jbytes_length)
  then show "jbytes q = take (length (jbytes p)) (d @ drop (length d) (jbytes p))"
    using q by (simp only: jbytes_def) (simp add: q_def drop_take)
qed

lemma memjrnl_append_puts:
  assumes p: "jinv p" and j: "length junk = nChunkSize p" and ok: "x \<noteq> 0 \<or> length d \<le> nChunkSize p"
  shows "\<exists>rc p' al' d1. memjrnl_append junk p d x al = Some (rc, p', al') \<and> jinv p' \<and> nChunkSize p' = nChunkSize p \<and> nSpill p' = nSpill p \<and>
    jbytes p' = put_bytes (jbytes p) d1 x \<and> prefix d1 d \<and> (if rc = 0 then d1 = d else rc = SQLITE_IOERR_NOMEM \<and> al \<noteq> [])"
proof (cases "x = 0 \<and> jchunks p \<noteq> []")
  case True
  have "jbytes p \<noteq> []" using p True jbytes_length [OF p] by (auto simp: jinv_def split: if_splits)
  with True header_rewrite [OF p, of d] ok show ?thesis
    by (intro exI [of _ 0] exI [of _ "p\<lparr>jchunks := (jchunks p)[0 := copy_into (jchunks p ! 0) 0 d]\<rparr>"] exI [of _ al] exI [of _ d])
      (simp add: memjrnl_append_def put_bytes_def)
next
  case False
  let ?p1 = "if x > 0 \<and> x \<noteq> end_off p then memjrnlTruncate p x else p"
  have p1: "jinv ?p1" "nChunkSize ?p1 = nChunkSize p" "nSpill ?p1 = nSpill p"
    using p memjrnlTruncate_eq [OF p, of x] by auto
  have b: "jbytes ?p1 = take x (jbytes p) \<and> (x = 0 \<longrightarrow> jbytes p = [])"
    using False p memjrnlTruncate_eq(2) [OF p, of x] jbytes_length [OF p] by (auto simp: jinv_def jbytes_def split: if_splits)
  have w: "memjrnl_append junk p d x al = write_loop junk ?p1 d al" using False by (auto simp: memjrnl_append_def Let_def)
  have b': "jbytes ?p1 @ d1 = put_bytes (jbytes p) d1 x" for d1 using b by (auto simp: put_bytes_def)
  have "length junk = nChunkSize ?p1" using p1(2) j by simp
  from write_loop_appends [OF p1(1) this, of d al] show ?thesis unfolding p1(2,3) b' w by blast
qed

section \<open>Moving to a file\<close>

text \<open>What the code relies on in a file system: a file just opened is empty, and a write that reports success put the
  bytes where it was asked to.\<close>

definition pwrite :: "byte list \<Rightarrow> byte list \<Rightarrow> nat \<Rightarrow> byte list" where
  "pwrite m d x = take x m @ d @ drop (x + length d) m"

definition vfs_laws :: "'f vfs \<Rightarrow> ('f \<Rightarrow> byte list) \<Rightarrow> bool" where
  "vfs_laws v content \<longleftrightarrow> (\<forall>f. xOpen v = (0, f) \<longrightarrow> content f = []) \<and>
     (\<forall>f d x f'. xWrite v f d x = (0, f') \<longrightarrow> x \<le> length (content f) \<longrightarrow> content f' = pwrite (content f) d x)"

lemma flush_loop_writes:
  "\<lbrakk>vfs_laws v content; uniform n cs; 0 < n; length (content f) = i;
    if cs = [] then e = i else i + (length cs - 1) * n < e \<and> e \<le> i + length cs * n;
    flush_loop v f n i e cs = (0, f')\<rbrakk> \<Longrightarrow> content f' = content f @ take (e - i) (concat cs)"
proof (induction cs arbitrary: f i n)
  case (Cons c cs)
  let ?n = "if i + n > e then e - i else n"
  have n: "?n \<le> n" "0 < ?n" "i < e" using Cons.prems(3,5) by auto
  obtain rc g where w: "xWrite v f (take ?n c) i = (rc, g)" by (cases "xWrite v f (take ?n c) i")
  with Cons.prems(6) have rc: "rc = 0" and r: "flush_loop v g ?n (i + ?n) e cs = (0, f')" by (auto simp: Let_def split: if_splits)
  have g: "content g = content f @ take ?n c" using w rc Cons.prems(1,4) by (auto simp: vfs_laws_def pwrite_def)
  have lc: "length c = n" and u: "uniform n cs" using Cons.prems(2) by simp_all
  show ?case
  proof (cases "cs = []")
    case True
    with r g lc Cons.prems(5) show ?thesis by (auto split: if_splits)
  next
    case False
    have eq: "?n = n" using Cons.prems(5) False by (cases cs) auto
    have "content f' = content g @ take (e - (i + n)) (concat cs)"
      using Cons.IH [of n g "i + n"] Cons.prems(1,3,4,5) u g r lc False by (cases cs) (auto simp: eq)
    with g lc eq Cons.prems(5) False show ?thesis by (cases cs) auto
  qed
qed simp

lemma memjrnlCreateFile_all_or_nothing:
  assumes v: "vfs_laws v content" and p: "jinv p"
  shows "(\<exists>rc. rc \<noteq> 0 \<and> memjrnlCreateFile v p = (rc, InMemory p)) \<or> (\<exists>f. memjrnlCreateFile v p = (0, OnDisk f) \<and> content f = jbytes p)"
proof -
  obtain rc f where o1: "xOpen v = (rc, f)" by (cases "xOpen v")
  obtain rc' f' where l: "flush_loop v f (nChunkSize p) 0 (end_off p) (jchunks p) = (rc', f')"
    by (cases "flush_loop v f (nChunkSize p) 0 (end_off p) (jchunks p)")
  show ?thesis
  proof (cases "rc = 0 \<and> rc' = 0")
    case True
    then have f: "content f = []" using o1 v by (simp add: vfs_laws_def)
    have "content f' = content f @ take (end_off p - 0) (concat (jchunks p))"
      using jinv_chunks [OF p] p l True f by (intro flush_loop_writes [OF v]) (auto simp: jinv_def split: if_splits)
    with True o1 l f show ?thesis by (simp add: memjrnlCreateFile_def jbytes_def)
  next
    case False
    with o1 l show ?thesis by (auto simp: memjrnlCreateFile_def)
  qed
qed

section \<open>A journal in memory is a byte string\<close>

text \<open>The operations of a handle and what they answer.\<close>

datatype jop = JWrite "byte list" nat | JRead nat nat | JTruncate nat | JFileSize

datatype janswer = Status int | Data int "byte list" | FileSize nat

text \<open>The operations of the model, with memory for every request.\<close>

fun journal_step :: "'f vfs \<Rightarrow> byte list \<Rightarrow> 'f journal \<Rightarrow> jop \<Rightarrow> (janswer \<times> 'f journal) option" where
  "journal_step v junk j (JWrite d x) = map_option (\<lambda>(rc, j', al). (Status rc, j')) (journal_write v junk j d x [])"
| "journal_step v junk j (JRead a x) = map_option (\<lambda>(rc, d, j'). (Data rc d, j')) (journal_read v j a x)"
| "journal_step v junk j (JTruncate s) = (case journal_truncate v j s of (rc, j') \<Rightarrow> Some (Status rc, j'))"
| "journal_step v junk j JFileSize = Some (FileSize (journal_size v j), j)"

text \<open>The same on a byte string.\<close>

fun bytes_step :: "byte list \<Rightarrow> jop \<Rightarrow> janswer \<times> byte list" where
  "bytes_step m (JWrite d x) = (Status 0, put_bytes m d x)"
| "bytes_step m (JRead a x) =
     (if a + x > length m then (Data SQLITE_IOERR_SHORT_READ [], m) else (Data 0 (take a (drop x m)), m))"
| "bytes_step m (JTruncate s) = (Status 0, take s m)"
| "bytes_step m JFileSize = (FileSize (length m), m)"

fun jop_ok :: "nat \<Rightarrow> jop \<Rightarrow> bool" where
  "jop_ok n (JWrite d x) = (x \<noteq> 0 \<or> length d \<le> n)"
| "jop_ok n (JRead a x) = (a > 0)"
| "jop_ok n _ = True"

fun mem_inv :: "byte list \<Rightarrow> 'f journal \<Rightarrow> bool" where
  "mem_inv junk (InMemory p) = (jinv p \<and> nSpill p < 0 \<and> nChunkSize p = length junk)"
| "mem_inv junk (OnDisk f) = False"

fun mem_bytes :: "'f journal \<Rightarrow> byte list" where
  "mem_bytes (InMemory p) = jbytes p"
| "mem_bytes (OnDisk f) = []"

lemma journal_step_refines:
  assumes "mem_inv junk j" "jop_ok (length junk) c"
  shows "\<exists>j'. journal_step v junk j c = Some (fst (bytes_step (mem_bytes j) c), j') \<and> mem_inv junk j' \<and>
    mem_bytes j' = snd (bytes_step (mem_bytes j) c)"
proof (cases j)
  case (InMemory p)
  with assms(1) have p: "jinv p" "nSpill p < 0" "nChunkSize p = length junk" by simp_all
  note len = jbytes_length [OF p(1)]
  show ?thesis
  proof (cases c)
    case (JWrite d x)
    have "x \<noteq> 0 \<or> length d \<le> nChunkSize p" using assms(2) JWrite p(3) by simp
    from memjrnl_append_puts [OF p(1) p(3) [symmetric] this, of "[]"] obtain p' al' where
      w: "memjrnl_append junk p d x [] = Some (0, p', al')" "jinv p'" "nChunkSize p' = nChunkSize p" "nSpill p' = nSpill p"
      "jbytes p' = put_bytes (jbytes p) d x" by (auto split: if_splits)
    with p show ?thesis by (simp add: InMemory JWrite journal_write_def memjrnlWrite_def)
  next
    case (JRead a x)
    show ?thesis
    proof (cases "a + x \<le> end_off p")
      case True
      have "0 < a" using assms(2) JRead by simp
      from memjrnlRead_eq [OF p(1) this True] obtain p' where "memjrnlRead p a x = Some (0, take a (drop x (jbytes p)), p')"
        "jinv p'" "jbytes p' = jbytes p" "nChunkSize p' = nChunkSize p" "nSpill p' = nSpill p" by blast
      with p True len show ?thesis by (simp add: InMemory JRead journal_read_def)
    next
      case False
      with p len show ?thesis by (simp add: InMemory JRead journal_read_def memjrnlRead_def)
    qed
  next
    case (JTruncate s)
    with p memjrnlTruncate_eq [OF p(1), of s] show ?thesis by (simp add: InMemory journal_truncate_def)
  next
    case JFileSize
    with p len show ?thesis by (simp add: InMemory journal_size_def memjrnlFileSize_def)
  qed
qed (use assms in simp)

interpretation mem_journal: refined_object "journal_step v junk" "mem_inv junk" mem_bytes bytes_step "jop_ok (length junk)" for v junk
  by unfold_locales (rule journal_step_refines)

lemma journal_opened_empty:
  "spill < 0 \<Longrightarrow> length junk = 1016 \<Longrightarrow>
    \<exists>j. sqlite3JournalOpen v spill = (0, Some j) \<and> sqlite3JournalIsInMemory j \<and> mem_inv junk j \<and> mem_bytes j = []"
  by (simp add: sqlite3JournalOpen_def sqlite3JournalIsInMemory_def jinv_def jbytes_def MEMJOURNAL_DFLT_FILECHUNKSIZE_def sizeof_FileChunk_def)

section \<open>Properties\<close>

text \<open>C29. Refinement.  A journal opened to stay in memory answers every sequence of writes, reads, truncations and size
  queries as a byte string does: a write at offset 0 of a journal that is not empty rewrites its first bytes and
  keeps its size, any other write cuts the journal at its offset and extends it, a read past the end is a short
  read.  No operation leaves the list of chunks or dereferences NULL.\<close>

theorem memjournal_is_byte_string:
  assumes "spill < 0" "length junk = 1016" "list_all (jop_ok 1016) ops"
  shows "\<exists>j j'. sqlite3JournalOpen v spill = (0, Some j) \<and>
    run_steps (journal_step v junk) j ops = Some (fst (run_spec bytes_step [] ops), j') \<and>
    mem_bytes j' = snd (run_spec bytes_step [] ops)"
proof -
  obtain j where j: "sqlite3JournalOpen v spill = (0, Some j)" "mem_inv junk j" "mem_bytes j = []"
    using journal_opened_empty [OF assms(1,2)] by blast
  from mem_journal.run_refines [OF j(2)] assms(2,3) j(1,3) show ?thesis by (metis (no_types, lifting))
qed

text \<open>A file system whose files are byte strings.\<close>

definition list_vfs :: "byte list vfs" where
  "list_vfs = \<lparr>xOpen = (0, []), xWrite = (\<lambda>f d x. (0, pwrite f d x)), xRead = (\<lambda>f a x. (0, take a (drop x f))),
     xTruncate = (\<lambda>f s. (0, take s f)), xFileSize = length\<rparr>"

theorem memjournal_is_byte_string_witness:
  "\<exists>j j'. sqlite3JournalOpen list_vfs (- 1) = (0, Some j) \<and>
    run_steps (journal_step list_vfs (replicate 1016 0)) j [JWrite [1, 2, 3] 0, JWrite [4] 3, JWrite [9] 0, JRead 2 2, JTruncate 1, JFileSize]
      = Some (fst (run_spec bytes_step [] [JWrite [1, 2, 3] 0, JWrite [4] 3, JWrite [9] 0, JRead 2 2, JTruncate 1, JFileSize]), j') \<and>
    mem_bytes j' = snd (run_spec bytes_step [] [JWrite [1, 2, 3] 0, JWrite [4] 3, JWrite [9] 0, JRead 2 2, JTruncate 1, JFileSize])"
  by (rule memjournal_is_byte_string) simp_all

text \<open>C30. Error.  A write that makes a journal outgrow its limit copies the whole journal to the file before it writes
  there.  When the file cannot be opened or any part of the copy fails, the error is returned and the journal is as
  it was, in memory; otherwise the file held the bytes of the journal when the write reached it.\<close>

theorem memjournal_spill_all_or_nothing:
  assumes "vfs_laws v content" "jinv p" "0 < nSpill p" "int (length d + x) > nSpill p"
  shows "(\<exists>rc. rc \<noteq> 0 \<and> memjrnlWrite v junk p d x al = Some (rc, InMemory p, al)) \<or>
    (\<exists>f rc f'. content f = jbytes p \<and> xWrite v f d x = (rc, f') \<and> memjrnlWrite v junk p d x al = Some (rc, OnDisk f', al))"
proof -
  from memjrnlCreateFile_all_or_nothing [OF assms(1,2)] show ?thesis
  proof (elim disjE exE conjE)
    fix rc assume "rc \<noteq> 0" "memjrnlCreateFile v p = (rc, InMemory p)"
    then show ?thesis using assms(3,4) by (simp add: memjrnlWrite_def)
  next
    fix f assume f: "memjrnlCreateFile v p = (0, OnDisk f)" "content f = jbytes p"
    obtain rc f' where "xWrite v f d x = (rc, f')" by (cases "xWrite v f d x")
    then have "content f = jbytes p \<and> xWrite v f d x = (rc, f') \<and> memjrnlWrite v junk p d x al = Some (rc, OnDisk f', al)"
      using f assms(3,4) by (simp add: memjrnlWrite_def)
    then show ?thesis by blast
  qed
qed

abbreviation full_journal :: memjournal where
  "full_journal \<equiv> \<lparr>nChunkSize = 4, nSpill = 4, jchunks = [[1, 2, 3, 0]], end_off = 3, end_chunk = Some 0, rd_off = 0, rd_chunk = None\<rparr>"

theorem memjournal_spill_all_or_nothing_witness:
  "((\<exists>rc. rc \<noteq> 0 \<and> memjrnlWrite list_vfs [0, 0, 0, 0] full_journal [4, 5] 3 [] = Some (rc, InMemory full_journal, [])) \<or>
    (\<exists>f rc f'. id f = jbytes full_journal \<and> xWrite list_vfs f [4, 5] 3 = (rc, f') \<and>
      memjrnlWrite list_vfs [0, 0, 0, 0] full_journal [4, 5] 3 [] = Some (rc, OnDisk f', []))) \<and>
   memjrnlWrite list_vfs [0, 0, 0, 0] full_journal [4, 5] 3 [] = Some (0, OnDisk [1, 2, 3, 4, 5], [])"
proof -
  have l: "vfs_laws list_vfs id" by (simp add: vfs_laws_def list_vfs_def)
  have "flush_loop list_vfs [] 4 0 3 [[1, 2, 3, 0]] = (0, [1, 2, 3])" by (simp add: list_vfs_def pwrite_def)
  then have w: "memjrnlWrite list_vfs [0, 0, 0, 0] full_journal [4, 5] 3 [] = Some (0, OnDisk [1, 2, 3, 4, 5], [])"
    by (simp add: memjrnlWrite_def memjrnlCreateFile_def) (simp add: list_vfs_def pwrite_def)
  show ?thesis using memjournal_spill_all_or_nothing [OF l, of full_journal "[4, 5]" 3 "[0, 0, 0, 0]" "[]"] w by (simp add: jinv_def)
qed

end
