(* ===== verification/Wal_Index.thy ===== *)
theory Wal_Index
  imports Prelude
begin

text \<open>
  \<open>wal.c\<close>: the index of the write-ahead log in shared memory, which finds the last frame of a page.

  The index is a sequence of pages; each holds the page numbers of a run of frames (4062 for page 0, which starts
  with the header, 4096 for the others) and a hash table of 8192 slots into it.  A page of the index is a value of
  \<open>wal_page\<close>, the index a function from page numbers to pages.  Mapping a page is a call of the operating system:
  its result codes are the parameter \<open>mp\<close>.  Frame numbers and slots are natural numbers: frames stay below \<open>2 ^ 31\<close>
  (the code keeps them in \<open>int\<close>), slots hold at most 4096.  The shared copy of the header is passed where it is read.
\<close>

section \<open>State\<close>

definition HASHTABLE_NPAGE :: nat where "HASHTABLE_NPAGE = 4096"
definition HASHTABLE_HASH_1 :: u32 where "HASHTABLE_HASH_1 = 383"
definition HASHTABLE_NSLOT :: nat where "HASHTABLE_NSLOT = HASHTABLE_NPAGE * 2"
definition WALINDEX_HDR_SIZE :: nat where "WALINDEX_HDR_SIZE = 48 * 2 + 40"
definition HASHTABLE_NPAGE_ONE :: nat where "HASHTABLE_NPAGE_ONE = HASHTABLE_NPAGE - WALINDEX_HDR_SIZE div 4"
definition SQLITE_CORRUPT :: int where "SQLITE_CORRUPT = 11"

record wal_page =
  aPgno :: "pgno list"
  aHash :: "nat list"

type_synonym wal_index = "nat \<Rightarrow> wal_page"

text \<open>The connection's handle: its copy of the header (the first seven fields) and what it keeps for itself.\<close>

record wal =
  mxFrame :: nat
  nPage :: u32
  bigEndCksum :: bool
  hdr_szPage :: u16
  aFrameCksum :: "u32 \<times> u32"
  aSalt :: "byte list"
  szPage :: nat
  minFrame :: nat
  readLock :: int
  bShmUnreliable :: bool
  iReCksum :: nat
  nCkpt :: u32

section \<open>Hash tables\<close>

definition walHash :: "pgno \<Rightarrow> nat" where
  "walHash iPage = unat ((iPage * HASHTABLE_HASH_1) AND (of_nat HASHTABLE_NSLOT - 1))"

definition walNextHash :: "nat \<Rightarrow> nat" where
  "walNextHash iPriorHash = (iPriorHash + 1) mod HASHTABLE_NSLOT"

definition walHashGet :: "(nat \<Rightarrow> int) \<Rightarrow> wal_index \<Rightarrow> nat \<Rightarrow> int \<times> wal_page \<times> nat" where
  "walHashGet mp wi iHash =
     (mp iHash, wi iHash, if iHash = 0 then 0 else HASHTABLE_NPAGE_ONE + (iHash - 1) * HASHTABLE_NPAGE)"

definition walFramePage :: "nat \<Rightarrow> nat" where
  "walFramePage iFrame = (iFrame + HASHTABLE_NPAGE - HASHTABLE_NPAGE_ONE - 1) div HASHTABLE_NPAGE"

definition walFramePgno :: "wal_index \<Rightarrow> nat \<Rightarrow> pgno" where
  "walFramePgno wi iFrame =
     (let iHash = walFramePage iFrame
      in if iHash = 0 then aPgno (wi 0) ! (iFrame - 1)
         else aPgno (wi iHash) ! ((iFrame - 1 - HASHTABLE_NPAGE_ONE) mod HASHTABLE_NPAGE))"

section \<open>Changing the index\<close>

definition walCleanupHash :: "(nat \<Rightarrow> int) \<Rightarrow> wal \<Rightarrow> wal_index \<Rightarrow> wal_index" where
  "walCleanupHash mp w wi =
     (if mxFrame w = 0 then wi
      else
        (let i = walFramePage (mxFrame w);
             (rc, pg, iZero) = walHashGet mp wi i;
             iLimit = mxFrame w - iZero
         in if rc \<noteq> 0 then wi
            else wi(i := pg\<lparr>aHash := map (\<lambda>h. if h > iLimit then 0 else h) (aHash pg),
                            aPgno := take iLimit (aPgno pg) @ replicate (length (aPgno pg) - iLimit) 0\<rparr>)))"

text \<open>The search for a free slot: \<open>None\<close> when there were more collisions than entries.\<close>

fun append_probe :: "nat list \<Rightarrow> nat \<Rightarrow> nat \<Rightarrow> nat option" where
  "append_probe h iKey nCollide =
     (if h ! iKey = 0 then Some iKey
      else (case nCollide of 0 \<Rightarrow> None | Suc c \<Rightarrow> append_probe h (walNextHash iKey) c))"

declare append_probe.simps [simp del]

definition walIndexAppend :: "(nat \<Rightarrow> int) \<Rightarrow> wal \<Rightarrow> wal_index \<Rightarrow> nat \<Rightarrow> pgno \<Rightarrow> int \<times> wal_index" where
  "walIndexAppend mp w wi iFrame iPage =
     (let i = walFramePage iFrame; (rc, pg, iZero) = walHashGet mp wi i
      in if rc \<noteq> 0 then (rc, wi)
         else
           (let idx = iFrame - iZero;
                pg1 = (if idx = 1 then \<lparr>aPgno = replicate (length (aPgno pg)) 0, aHash = replicate HASHTABLE_NSLOT 0\<rparr> else pg);
                wi1 = wi(i := pg1);
                wi2 = (if aPgno pg1 ! (idx - 1) \<noteq> 0 then walCleanupHash mp w wi1 else wi1);
                pg2 = wi2 i
            in case append_probe (aHash pg2) (walHash iPage) idx of
                 None \<Rightarrow> (SQLITE_CORRUPT, wi2)
               | Some iKey \<Rightarrow>
                   (0, wi2(i := \<lparr>aPgno = (aPgno pg2)[idx - 1 := iPage], aHash = (aHash pg2)[iKey := idx]\<rparr>))))"

text \<open>The end of \<open>walFrames\<close>: the frames written are entered, then the handle moves its end of the log.\<close>

fun append_frames :: "(nat \<Rightarrow> int) \<Rightarrow> wal \<Rightarrow> wal_index \<Rightarrow> nat \<Rightarrow> pgno list \<Rightarrow> int \<times> wal_index \<times> nat" where
  "append_frames mp w wi iFrame [] = (0, wi, iFrame)"
| "append_frames mp w wi iFrame (p # ps) =
     (case walIndexAppend mp w wi (iFrame + 1) p of (rc, wi') \<Rightarrow>
        if rc = 0 then append_frames mp w wi' (iFrame + 1) ps else (rc, wi', iFrame + 1))"

definition index_frames :: "(nat \<Rightarrow> int) \<Rightarrow> wal \<Rightarrow> wal_index \<Rightarrow> pgno list \<Rightarrow> int \<times> wal \<times> wal_index" where
  "index_frames mp w wi ps =
     (case append_frames mp w wi (mxFrame w) ps of (rc, wi', iFrame) \<Rightarrow>
        if rc = 0 then (0, w\<lparr>mxFrame := iFrame\<rparr>, wi') else (rc, w, wi'))"

text \<open>A rollback goes back to the shared header \<open>live\<close>; the pages of the frames given up are told to \<open>xUndo\<close>, until
  it fails.\<close>

fun undo_loop :: "(pgno \<Rightarrow> int) \<Rightarrow> wal_index \<Rightarrow> nat list \<Rightarrow> int \<times> pgno list" where
  "undo_loop xUndo wi [] = (0, [])"
| "undo_loop xUndo wi (f # fs) =
     (let p = walFramePgno wi f; rc = xUndo p
      in if rc \<noteq> 0 then (rc, [p]) else (case undo_loop xUndo wi fs of (rc', ps) \<Rightarrow> (rc', p # ps)))"

definition sqlite3WalUndo :: "(nat \<Rightarrow> int) \<Rightarrow> (pgno \<Rightarrow> int) \<Rightarrow> (wal \<Rightarrow> wal) \<Rightarrow> wal \<Rightarrow> wal_index \<Rightarrow> (int \<times> pgno list) \<times> wal \<times> wal_index" where
  "sqlite3WalUndo mp xUndo live w wi =
     (let iMax = mxFrame w; w' = live w
      in (undo_loop xUndo wi [mxFrame w' + 1..<iMax + 1], w',
          if iMax \<noteq> mxFrame w' then walCleanupHash mp w' wi else wi))"

text \<open>A savepoint: end of the log, checksum there and the number of the log.\<close>

type_synonym wal_savepoint = "nat \<times> (u32 \<times> u32) \<times> u32"

definition sqlite3WalSavepoint :: "wal \<Rightarrow> wal_savepoint" where
  "sqlite3WalSavepoint w = (mxFrame w, aFrameCksum w, nCkpt w)"

definition sqlite3WalSavepointUndo :: "(nat \<Rightarrow> int) \<Rightarrow> wal_savepoint \<Rightarrow> wal \<Rightarrow> wal_index \<Rightarrow> wal_savepoint \<times> wal \<times> wal_index" where
  "sqlite3WalSavepointUndo mp sv w wi =
     (case sv of (mx, ck, n) \<Rightarrow>
        (let (mx', n') = (if n \<noteq> nCkpt w then (0, nCkpt w) else (mx, n))
         in if mx' < mxFrame w then
              (let w' = w\<lparr>mxFrame := mx', aFrameCksum := ck\<rparr> in ((mx', ck, n'), w', walCleanupHash mp w' wi))
            else ((mx', ck, n'), w, wi)))"

section \<open>Looking up a page\<close>

fun wal_find_loop :: "wal_page \<Rightarrow> nat \<Rightarrow> nat \<Rightarrow> nat \<Rightarrow> pgno \<Rightarrow> nat \<Rightarrow> nat \<Rightarrow> nat \<Rightarrow> nat option" where
  "wal_find_loop pg iZero iLast lo p iKey nCollide iRead =
     (let iH = aHash pg ! iKey
      in if iH = 0 then Some iRead
         else
           (let iFrame = iH + iZero;
                r = (if iFrame \<le> iLast \<and> iFrame \<ge> lo \<and> aPgno pg ! (iH - 1) = p then iFrame else iRead)
            in case nCollide of 0 \<Rightarrow> None | Suc c \<Rightarrow> wal_find_loop pg iZero iLast lo p (walNextHash iKey) c r))"

declare wal_find_loop.simps [simp del]

fun find_tables :: "(nat \<Rightarrow> int) \<Rightarrow> wal \<Rightarrow> wal_index \<Rightarrow> pgno \<Rightarrow> nat \<Rightarrow> int \<times> nat" where
  "find_tables mp w wi p iHash =
     (if iHash < walFramePage (minFrame w) then (0, 0)
      else
        (let (rc, pg, iZero) = walHashGet mp wi iHash
         in if rc \<noteq> 0 then (rc, 0)
            else (case wal_find_loop pg iZero (mxFrame w) (minFrame w) p (walHash p) HASHTABLE_NSLOT 0 of
                    None \<Rightarrow> (SQLITE_CORRUPT, 0)
                  | Some r \<Rightarrow> if r \<noteq> 0 then (0, r)
                             else (case iHash of 0 \<Rightarrow> (0, 0) | Suc i \<Rightarrow> find_tables mp w wi p i))))"

declare find_tables.simps [simp del]

definition walFindFrame :: "(nat \<Rightarrow> int) \<Rightarrow> wal \<Rightarrow> wal_index \<Rightarrow> pgno \<Rightarrow> int \<times> nat" where
  "walFindFrame mp w wi p =
     (if mxFrame w = 0 \<or> readLock w = 0 \<and> \<not> bShmUnreliable w then (0, 0)
      else find_tables mp w wi p (walFramePage (mxFrame w)))"

end
