(* ===== verification/Byte_Codec.thy ===== *)
theory Byte_Codec
  imports Prelude
begin

text \<open>
  The contract of a self-delimiting byte encoding: a writer that returns the bytes it stores and a
  reader that, given those bytes followed by anything, returns how many it consumed and the value.
  From that one law follow that no encoding is a prefix of another and that any sequence of values
  written one after the other is read back in order.  \<open>Bytes4\<close> and \<open>Varint\<close> interpret the
  contract on the integer encodings of the code.
\<close>

fun decode_seq :: "(byte list \<Rightarrow> (nat \<times> 'a) option) \<Rightarrow> nat \<Rightarrow> byte list \<Rightarrow> ('a list \<times> byte list) option" where
  "decode_seq dec 0 p = Some ([], p)"
| "decode_seq dec (Suc k) p = do {
     (n, x) \<leftarrow> dec p;
     (xs, q) \<leftarrow> decode_seq dec k (drop n p);
     Some (x # xs, q)
   }"

locale byte_codec =
  fixes enc :: "'a \<Rightarrow> byte list"
    and dec :: "byte list \<Rightarrow> (nat \<times> 'a) option"
  assumes dec_enc: "dec (enc x @ rest) = Some (length (enc x), x)"
begin

lemma enc_prefix_free: "enc x @ r = enc y @ s \<Longrightarrow> x = y \<and> r = s"
  by (metis append_eq_append_conv dec_enc option.inject prod.inject)

lemma enc_inject: "enc x = enc y \<longleftrightarrow> x = y"
  using enc_prefix_free [of x "[]" y "[]"] by auto

lemma decode_seq_enc: "decode_seq dec (length xs) (concat (map enc xs) @ rest) = Some (xs, rest)"
  by (induction xs) (simp_all add: dec_enc)

end

end
