(* ===== verification/Bytes4.thy ===== *)
theory Bytes4
  imports Byte_Codec
begin

text \<open>
  Big-endian 32-bit integers in memory (\<open>sqlite3Put4byte\<close> and \<open>sqlite3Get4byte\<close> of \<open>util.c\<close>,
  in the portable form the build compiles).  The writer returns the four bytes it stores; the reader
  takes the bytes from \<open>p\<close> to the end of the buffer.
\<close>

section \<open>Four-byte integers\<close>

definition sqlite3Get4byte :: "byte list \<Rightarrow> u32 option" where
  "sqlite3Get4byte p = do {
     p0 \<leftarrow> nth_opt p 0; p1 \<leftarrow> nth_opt p 1; p2 \<leftarrow> nth_opt p 2; p3 \<leftarrow> nth_opt p 3;
     Some (push_bit 24 (ucast p0) OR push_bit 16 (ucast p1) OR push_bit 8 (ucast p2) OR ucast p3)
   }"

definition sqlite3Put4byte :: "u32 \<Rightarrow> byte list" where
  "sqlite3Put4byte v =
     [ucast (drop_bit 24 v), ucast (drop_bit 16 v), ucast (drop_bit 8 v), ucast v]"

lemma sqlite3Get4byte_Put4byte: "sqlite3Get4byte (sqlite3Put4byte v @ rest) = Some v"
proof -
  have "push_bit 24 (ucast (ucast (drop_bit 24 v) :: byte)) OR push_bit 16 (ucast (ucast (drop_bit 16 v) :: byte))
          OR push_bit 8 (ucast (ucast (drop_bit 8 v) :: byte)) OR ucast (ucast v :: byte) = (v :: u32)"
    (is "?w = v")
  proof (rule bit_word_eqI)
    fix n
    assume "n < LENGTH(32)"
    then consider "n < 8" | "8 \<le> n" "n < 16" | "16 \<le> n" "n < 24" | "24 \<le> n" "n < 32" by fastforce
    then show "bit ?w n = bit v n"
      by cases (auto simp: bit_simps)
  qed
  then show ?thesis by (simp add: sqlite3Get4byte_def sqlite3Put4byte_def nth_opt_simps)
qed

interpretation be4: byte_codec sqlite3Put4byte "\<lambda>p. map_option (Pair 4) (sqlite3Get4byte p)"
  by unfold_locales (simp only: sqlite3Get4byte_Put4byte, simp add: sqlite3Put4byte_def)

end
