(* ===== verification/Wal_Frames.thy ===== *)
theory Wal_Frames
  imports Wal_Index Bytes4
begin

text \<open>
  \<open>wal.c\<close>: the frames of the log file with their checksums, and the recovery that rebuilds the header and the index
  from the file after a crash.

  The build is for little-endian processors (\<open>SQLITE_BIGENDIAN\<close> is 0).  The log file is its bytes and the result codes
  of the reads; locks are the result codes of their requests.  The buffer in which recovery builds a page of the
  index holds anything when the page is begun: \<open>junk\<close>.  The result \<open>None\<close> is a read outside of a buffer.
\<close>

section \<open>Checksums\<close>

definition WAL_HDRSIZE :: nat where "WAL_HDRSIZE = 32"
definition WAL_FRAME_HDRSIZE :: nat where "WAL_FRAME_HDRSIZE = 24"
definition WAL_MAGIC :: u32 where "WAL_MAGIC = 0x377f0682"
definition WAL_MAX_VERSION :: u32 where "WAL_MAX_VERSION = 3007000"
definition SQLITE_CANTOPEN :: int where "SQLITE_CANTOPEN = 14"
definition SQLITE_BUSY :: int where "SQLITE_BUSY = 5"

definition walFrameOffset :: "nat \<Rightarrow> nat \<Rightarrow> nat" where
  "walFrameOffset iFrame pgsz = WAL_HDRSIZE + (iFrame - 1) * (pgsz + WAL_FRAME_HDRSIZE)"

text \<open>The bytes as integers in the order of the processor.\<close>

definition le32 :: "byte \<Rightarrow> byte \<Rightarrow> byte \<Rightarrow> byte \<Rightarrow> u32" where
  "le32 a b c d = ucast a OR push_bit 8 (ucast b) OR push_bit 16 (ucast c) OR push_bit 24 (ucast d)"

fun words32 :: "byte list \<Rightarrow> u32 list" where
  "words32 (a # b # c # d # r) = le32 a b c d # words32 r"
| "words32 _ = []"

definition BYTESWAP32 :: "u32 \<Rightarrow> u32" where
  "BYTESWAP32 x = push_bit 24 (x AND 0x000000FF) + push_bit 8 (x AND 0x0000FF00)
     + drop_bit 8 (x AND 0x00FF0000) + drop_bit 24 (x AND 0xFF000000)"

text \<open>The three loops: swapped bytes, sixteen integers a turn, two integers a turn.\<close>

fun cksum_swapped :: "u32 list \<Rightarrow> u32 \<Rightarrow> u32 \<Rightarrow> (u32 \<times> u32) option" where
  "cksum_swapped [] s1 s2 = Some (s1, s2)"
| "cksum_swapped (x # y # r) s1 s2 =
     (let s1 = s1 + BYTESWAP32 x + s2; s2 = s2 + BYTESWAP32 y + s1 in cksum_swapped r s1 s2)"
| "cksum_swapped [_] s1 s2 = None"

fun cksum_native :: "u32 list \<Rightarrow> u32 \<Rightarrow> u32 \<Rightarrow> (u32 \<times> u32) option" where
  "cksum_native [] s1 s2 = Some (s1, s2)"
| "cksum_native (x # y # r) s1 s2 = (let s1 = s1 + x + s2; s2 = s2 + y + s1 in cksum_native r s1 s2)"
| "cksum_native [_] s1 s2 = None"

fun cksum_unrolled :: "u32 list \<Rightarrow> u32 \<Rightarrow> u32 \<Rightarrow> (u32 \<times> u32) option" where
  "cksum_unrolled [] s1 s2 = Some (s1, s2)"
| "cksum_unrolled (a0 # a1 # a2 # a3 # a4 # a5 # a6 # a7 # a8 # a9 # a10 # a11 # a12 # a13 # a14 # a15 # r) s1 s2 =
     (let s1 = s1 + a0 + s2; s2 = s2 + a1 + s1; s1 = s1 + a2 + s2; s2 = s2 + a3 + s1;
          s1 = s1 + a4 + s2; s2 = s2 + a5 + s1; s1 = s1 + a6 + s2; s2 = s2 + a7 + s1;
          s1 = s1 + a8 + s2; s2 = s2 + a9 + s1; s1 = s1 + a10 + s2; s2 = s2 + a11 + s1;
          s1 = s1 + a12 + s2; s2 = s2 + a13 + s1; s1 = s1 + a14 + s2; s2 = s2 + a15 + s1
      in cksum_unrolled r s1 s2)"
| "cksum_unrolled _ s1 s2 = None"

text \<open>A \<open>do\<close> loop reads before it tests: no bytes at all, or a number that is no multiple of 8, is a read outside.\<close>

definition walChecksumBytes :: "bool \<Rightarrow> byte list \<Rightarrow> u32 \<times> u32 \<Rightarrow> (u32 \<times> u32) option" where
  "walChecksumBytes nativeCksum a aIn =
     (if a = [] \<or> length a mod 8 \<noteq> 0 then None
      else if \<not> nativeCksum then cksum_swapped (words32 a) (fst aIn) (snd aIn)
      else if length a mod 64 = 0 then cksum_unrolled (words32 a) (fst aIn) (snd aIn)
      else cksum_native (words32 a) (fst aIn) (snd aIn))"

section \<open>Frames\<close>

definition walEncodeFrame :: "wal \<Rightarrow> u32 \<Rightarrow> u32 \<Rightarrow> byte list \<Rightarrow> (byte list \<times> wal) option" where
  "walEncodeFrame w iPage nTruncate aData =
     (let h = sqlite3Put4byte iPage @ sqlite3Put4byte nTruncate
      in if iReCksum w = 0 then do {
           d \<leftarrow> mem_read aData 0 (int (szPage w));
           ck \<leftarrow> walChecksumBytes (\<not> bigEndCksum w) h (aFrameCksum w);
           ck \<leftarrow> walChecksumBytes (\<not> bigEndCksum w) d ck;
           Some (h @ take 8 (aSalt w) @ sqlite3Put4byte (fst ck) @ sqlite3Put4byte (snd ck), w\<lparr>aFrameCksum := ck\<rparr>)
         } else Some (h @ replicate 16 0, w))"

text \<open>One frame written behind the last: its bytes.  \<open>aData\<close> is the page as the codec encrypts it.\<close>

definition walWriteOneFrame :: "wal \<Rightarrow> u32 \<Rightarrow> u32 \<Rightarrow> byte list \<Rightarrow> (byte list \<times> wal) option" where
  "walWriteOneFrame w pgno nTruncate aData = do {
     (aFrame, w') \<leftarrow> walEncodeFrame w pgno nTruncate aData;
     d \<leftarrow> mem_read aData 0 (int (szPage w));
     Some (aFrame @ d, w')
   }"

fun write_frames :: "wal \<Rightarrow> (u32 \<times> u32 \<times> byte list) list \<Rightarrow> (byte list \<times> wal) option" where
  "write_frames w [] = Some ([], w)"
| "write_frames w ((p, t, d) # fs) = do {
     (b, w1) \<leftarrow> walWriteOneFrame w p t d;
     (bs, w2) \<leftarrow> write_frames w1 fs;
     Some (b @ bs, w2)
   }"

text \<open>The result is 1 with the page number and the size, or 0; the checksum of the handle moves on in any case that
  reaches it.\<close>

definition walDecodeFrame :: "wal \<Rightarrow> byte list \<Rightarrow> byte list \<Rightarrow> ((int \<times> u32 \<times> u32) \<times> wal) option" where
  "walDecodeFrame w aData aFrame = do {
     salt \<leftarrow> mem_read aFrame 8 8;
     if aSalt w \<noteq> salt then Some ((0, 0, 0), w)
     else do {
       pgno \<leftarrow> sqlite3Get4byte aFrame;
       if pgno = 0 then Some ((0, 0, 0), w)
       else do {
         h \<leftarrow> mem_read aFrame 0 8;
         d \<leftarrow> mem_read aData 0 (int (szPage w));
         ck \<leftarrow> walChecksumBytes (\<not> bigEndCksum w) h (aFrameCksum w);
         ck \<leftarrow> walChecksumBytes (\<not> bigEndCksum w) d ck;
         c1 \<leftarrow> sqlite3Get4byte (drop 16 aFrame);
         c2 \<leftarrow> sqlite3Get4byte (drop 20 aFrame);
         nTruncate \<leftarrow> sqlite3Get4byte (drop 4 aFrame);
         Some (if fst ck \<noteq> c1 \<or> snd ck \<noteq> c2 then (0, 0, 0) else (1, pgno, nTruncate), w\<lparr>aFrameCksum := ck\<rparr>)
       }
     }
   }"

text \<open>The header that \<open>walFrames\<close> writes before the first frame, with the handle that has its checksum.\<close>

definition write_wal_header :: "wal \<Rightarrow> nat \<Rightarrow> (byte list \<times> wal) option" where
  "write_wal_header w pgsz =
     (let h = sqlite3Put4byte WAL_MAGIC @ sqlite3Put4byte WAL_MAX_VERSION @ sqlite3Put4byte (of_nat pgsz) @
              sqlite3Put4byte (nCkpt w) @ take 8 (aSalt w)
      in do {
        ck \<leftarrow> walChecksumBytes True h (0, 0);
        Some (h @ sqlite3Put4byte (fst ck) @ sqlite3Put4byte (snd ck),
              w\<lparr>szPage := pgsz, bigEndCksum := False, aFrameCksum := ck\<rparr>)
      })"

section \<open>Recovery\<close>

record wal_file =
  content :: "byte list"
  size_rc :: int
  read_rc :: "nat \<Rightarrow> int"

definition wal_read :: "wal_file \<Rightarrow> nat \<Rightarrow> nat \<Rightarrow> int \<times> byte list" where
  "wal_read fd n off = (read_rc fd off, take n (drop off (content fd)))"

record wal_ckpt_info =
  nBackfill :: nat
  nBackfillAttempted :: nat
  aReadMark :: "u32 list"

text \<open>The frames of one page of the index, up to the first that cannot be read or is not valid: the result code,
  whether the loop ended before its last frame, the handle, the index and the checksum of the last commit.\<close>

fun recover_page :: "(nat \<Rightarrow> int) \<Rightarrow> wal_file \<Rightarrow> nat \<Rightarrow> nat list \<Rightarrow> wal \<times> wal_index \<times> (u32 \<times> u32) \<Rightarrow>
    (int \<times> bool \<times> wal \<times> wal_index \<times> (u32 \<times> u32)) option" where
  "recover_page mp fd pgsz [] (w, wi, ck) = Some (0, False, w, wi, ck)"
| "recover_page mp fd pgsz (iFrame # fs) (w, wi, ck) =
     (let (rc, aFrame) = wal_read fd (pgsz + WAL_FRAME_HDRSIZE) (walFrameOffset iFrame pgsz)
      in if rc \<noteq> 0 then Some (rc, True, w, wi, ck)
         else do {
           ((isValid, pgno, nTruncate), w1) \<leftarrow> walDecodeFrame w (drop WAL_FRAME_HDRSIZE aFrame) aFrame;
           if isValid = 0 then Some (0, True, w1, wi, ck)
           else
             (case walIndexAppend mp w1 wi iFrame pgno of (rc, wi1) \<Rightarrow>
                if rc \<noteq> 0 then Some (rc, True, w1, wi1, ck)
                else if nTruncate \<noteq> 0 then
                  recover_page mp fd pgsz fs
                    (w1\<lparr>mxFrame := iFrame, nPage := nTruncate,
                        hdr_szPage := ucast ((of_nat pgsz :: u32) AND 0xff00 OR drop_bit 16 (of_nat pgsz))\<rparr>, wi1, aFrameCksum w1)
                else recover_page mp fd pgsz fs (w1, wi1, ck))
         })"

fun recover_pages :: "(nat \<Rightarrow> int) \<Rightarrow> (nat \<Rightarrow> wal_page) \<Rightarrow> wal_file \<Rightarrow> nat \<Rightarrow> nat \<Rightarrow> nat list \<Rightarrow> wal \<times> wal_index \<times> (u32 \<times> u32) \<Rightarrow>
    (int \<times> wal \<times> wal_index \<times> (u32 \<times> u32)) option" where
  "recover_pages mp junk fd pgsz iLastFrame [] (w, wi, ck) = Some (0, w, wi, ck)"
| "recover_pages mp junk fd pgsz iLastFrame (iPg # is) (w, wi, ck) =
     (let iLast = min iLastFrame (HASHTABLE_NPAGE_ONE + iPg * HASHTABLE_NPAGE);
          iFirst = 1 + (if iPg = 0 then 0 else HASHTABLE_NPAGE_ONE + (iPg - 1) * HASHTABLE_NPAGE)
      in if mp iPg \<noteq> 0 then Some (mp iPg, w, wi, ck)
         else do {
           (rc, stopped, w1, wi1, ck1) \<leftarrow> recover_page mp fd pgsz [iFirst..<iLast + 1] (w, wi(iPg := junk iPg), ck);
           if stopped then Some (rc, w1, wi1, ck1)
           else recover_pages mp junk fd pgsz iLastFrame is (w1, wi1, ck1)
         })"

text \<open>The read marks, each set when its lock is granted; another error than a busy lock ends the recovery.\<close>

fun set_read_marks :: "(nat \<Rightarrow> int) \<Rightarrow> nat \<Rightarrow> nat list \<Rightarrow> u32 list \<Rightarrow> int \<times> u32 list" where
  "set_read_marks lock mx [] rm = (0, rm)"
| "set_read_marks lock mx (i # is) rm =
     (if lock i = 0 then
        (case set_read_marks lock mx is (rm[i := (if i = 1 \<and> mx \<noteq> 0 then of_nat mx else 0xffffffff)]) of (rc, rm') \<Rightarrow> (rc, rm'))
      else if lock i \<noteq> SQLITE_BUSY then (lock i, rm)
      else (case set_read_marks lock mx is rm of (rc, rm') \<Rightarrow> (if is = [] then lock i else rc, rm')))"

definition zero_hdr :: "wal \<Rightarrow> wal" where
  "zero_hdr w = w\<lparr>mxFrame := 0, nPage := 0, bigEndCksum := False, hdr_szPage := 0, aFrameCksum := (0, 0), aSalt := replicate 8 0\<rparr>"

text \<open>The log file read: the result code, the handle, the index and the checksum of the last commit.  The page size is
  read into an \<open>int\<close>; for the smallest one \<open>szPage-1\<close> overflows, which C leaves undefined: \<open>None\<close>.\<close>

definition recover_file :: "(nat \<Rightarrow> int) \<Rightarrow> (nat \<Rightarrow> wal_page) \<Rightarrow> bool \<Rightarrow> wal_file \<Rightarrow> wal \<Rightarrow> wal_index \<Rightarrow>
    (int \<times> wal \<times> wal_index \<times> (u32 \<times> u32)) option" where
  "recover_file mp junk al fd w wi =
     (if length (content fd) \<le> WAL_HDRSIZE then Some (0, w, wi, (0, 0))
      else
        (let (rc, aBuf) = wal_read fd WAL_HDRSIZE 0
         in if rc \<noteq> 0 then Some (rc, w, wi, (0, 0))
            else do {
              magic \<leftarrow> sqlite3Get4byte aBuf;
              sz \<leftarrow> sqlite3Get4byte (drop 8 aBuf);
              if magic AND 0xFFFFFFFE \<noteq> WAL_MAGIC then Some (0, w, wi, (0, 0))
              else if sz = 0x80000000 then None
              else if sz AND (sz - 1) \<noteq> 0 \<or> sint sz > 65536 \<or> sint sz < 512 then Some (0, w, wi, (0, 0))
              else do {
                n \<leftarrow> sqlite3Get4byte (drop 12 aBuf);
                salt \<leftarrow> mem_read aBuf 16 8;
                h \<leftarrow> mem_read aBuf 0 24;
                ck \<leftarrow> walChecksumBytes (magic AND 1 = 0) h (0, 0);
                let w1 = w\<lparr>bigEndCksum := magic AND 1 \<noteq> 0, szPage := unat sz, nCkpt := n, aSalt := salt, aFrameCksum := ck\<rparr>;
                c1 \<leftarrow> sqlite3Get4byte (drop 24 aBuf);
                c2 \<leftarrow> sqlite3Get4byte (drop 28 aBuf);
                version \<leftarrow> sqlite3Get4byte (drop 4 aBuf);
                if fst ck \<noteq> c1 \<or> snd ck \<noteq> c2 then Some (0, w1, wi, (0, 0))
                else if version \<noteq> WAL_MAX_VERSION then Some (SQLITE_CANTOPEN, w1, wi, (0, 0))
                else if \<not> al then Some (SQLITE_NOMEM, w1, wi, (0, 0))
                else
                  (let iLastFrame = (length (content fd) - WAL_HDRSIZE) div (unat sz + WAL_FRAME_HDRSIZE)
                   in recover_pages mp junk fd (unat sz) iLastFrame [0..<walFramePage iLastFrame + 1] (w1, wi, (0, 0)))
              }
            }))"

text \<open>\<open>lock0\<close> is the lock on all but the writer, \<open>lock i\<close> that of read mark \<open>i\<close>.\<close>

definition walIndexRecover :: "(nat \<Rightarrow> int) \<Rightarrow> (nat \<Rightarrow> wal_page) \<Rightarrow> int \<Rightarrow> (nat \<Rightarrow> int) \<Rightarrow> bool \<Rightarrow> wal_file \<Rightarrow>
    wal \<Rightarrow> wal_index \<Rightarrow> wal_ckpt_info \<Rightarrow> (int \<times> wal \<times> wal_index \<times> wal_ckpt_info) option" where
  "walIndexRecover mp junk lock0 lock al fd w wi info =
     (if lock0 \<noteq> 0 then Some (lock0, w, wi, info)
      else if size_rc fd \<noteq> 0 then Some (size_rc fd, zero_hdr w, wi, info)
      else do {
        (rc, w1, wi1, ck) \<leftarrow> recover_file mp junk al fd (zero_hdr w) wi;
        if rc \<noteq> 0 then Some (rc, w1, wi1, info)
        else
          (let w2 = w1\<lparr>aFrameCksum := ck\<rparr>;
               (rc, rm) = set_read_marks lock (mxFrame w2) [1..<5] ((aReadMark info)[0 := 0])
           in Some (rc, w2, wi1, \<lparr>nBackfill = 0, nBackfillAttempted = mxFrame w2, aReadMark = rm\<rparr>))
      })"

end
