(* ===== verification/Wal_Iterator.thy ===== *)
theory Wal_Iterator
  imports Wal_Index
begin

text \<open>
  \<open>wal.c\<close>: the iterator of a checkpoint, which visits the pages of the log in ascending order, each with its last
  frame.  Every page of the index is a segment, sorted by a merge sort that drops all but the last entry of a page.

  The sublists of the sort are lists; in the code they are adjacent parts of one array, and a merge writes its result
  over its left list and the room of the right one behind it.
\<close>

section \<open>The merge sort\<close>

text \<open>One round of the loop takes the smaller head, the right one of two equal, and drops the other of them.\<close>

function walMerge :: "pgno list \<Rightarrow> nat list \<Rightarrow> nat list \<Rightarrow> nat list" where
  "walMerge aContent aLeft aRight =
     (if aLeft = [] \<and> aRight = [] then []
      else
        (let (logpage, l1, r1) =
               (if aLeft \<noteq> [] \<and> (aRight = [] \<or> aContent ! hd aLeft < aContent ! hd aRight)
                then (hd aLeft, tl aLeft, aRight) else (hd aRight, aLeft, tl aRight));
             l2 = (if l1 \<noteq> [] \<and> aContent ! hd l1 = aContent ! logpage then tl l1 else l1)
         in logpage # walMerge aContent l2 r1))"
  by pat_completeness auto
termination
  by (relation "measure (\<lambda>(c, l, r). length l + length r)") (auto simp: neq_Nil_conv split: if_splits)

declare walMerge.simps [simp del]

text \<open>The counter of sublists: entry \<open>j\<close> of \<open>aSub\<close> is merged when bit \<open>j\<close> of the index is set.\<close>

function merge_fill :: "pgno list \<Rightarrow> nat list list \<Rightarrow> nat \<Rightarrow> nat \<Rightarrow> nat list \<Rightarrow> nat \<times> nat list" where
  "merge_fill aContent aSub iList iSub aMerge =
     (if odd (iList div 2 ^ iSub)
      then merge_fill aContent aSub iList (iSub + 1) (walMerge aContent (aSub ! iSub) aMerge)
      else (iSub, aMerge))"
  by pat_completeness auto
termination
proof (relation "measure (\<lambda>(c, s, k, j, m). k div 2 ^ j)")
  fix aContent :: "pgno list" and aSub :: "nat list list" and iList iSub :: nat and aMerge :: "nat list"
  assume "odd (iList div 2 ^ iSub)"
  then have "0 < iList div 2 ^ iSub" using odd_pos by blast
  then have "iList div 2 ^ iSub div 2 < iList div 2 ^ iSub" by simp
  moreover have "iList div 2 ^ (iSub + 1) = iList div 2 ^ iSub div 2" by (simp only: power_add power_one_right div_mult2_eq)
  ultimately show "((aContent, aSub, iList, iSub + 1, walMerge aContent (aSub ! iSub) aMerge), aContent, aSub, iList, iSub, aMerge)
      \<in> measure (\<lambda>(c, s, k, j, m). k div 2 ^ j)" by simp
qed simp

declare merge_fill.simps [simp del]

fun sort_fill :: "pgno list \<Rightarrow> nat list \<Rightarrow> nat \<Rightarrow> nat list list \<times> nat \<times> nat list \<Rightarrow> nat list list \<times> nat \<times> nat list" where
  "sort_fill aContent [] iList st = st"
| "sort_fill aContent (x # xs) iList (aSub, _, _) =
     (let (iSub, aMerge) = merge_fill aContent aSub iList 0 [x]
      in sort_fill aContent xs (iList + 1) (aSub[iSub := aMerge], iSub, aMerge))"

function sort_join :: "pgno list \<Rightarrow> nat list list \<Rightarrow> nat \<Rightarrow> nat \<Rightarrow> nat list \<Rightarrow> nat list" where
  "sort_join aContent aSub nList iSub aMerge =
     (if iSub < 13
      then sort_join aContent aSub nList (iSub + 1)
             (if odd (nList div 2 ^ iSub) then walMerge aContent (aSub ! iSub) aMerge else aMerge)
      else aMerge)"
  by pat_completeness auto
termination by (relation "measure (\<lambda>(c, s, n, j, m). 13 - j)") auto

declare sort_join.simps [simp del]

definition walMergesort :: "pgno list \<Rightarrow> nat list \<Rightarrow> nat list" where
  "walMergesort aContent aList =
     (case sort_fill aContent aList 0 (replicate 13 [], 0, []) of (aSub, iSub, aMerge) \<Rightarrow>
        sort_join aContent aSub (length aList) (iSub + 1) aMerge)"

section \<open>The iterator\<close>

record wal_segment =
  iNext :: nat
  aIndex :: "nat list"
  seg_aPgno :: "pgno list"
  seg_iZero :: nat

record wal_iterator =
  iPrior :: pgno
  segments :: "wal_segment list"

definition zero_segment :: wal_segment where
  "zero_segment = \<lparr>iNext = 0, aIndex = [], seg_aPgno = [], seg_iZero = 0\<rparr>"

fun init_segments :: "(nat \<Rightarrow> int) \<Rightarrow> wal \<Rightarrow> wal_index \<Rightarrow> nat \<Rightarrow> nat list \<Rightarrow> wal_segment list \<Rightarrow> int \<times> wal_segment list" where
  "init_segments mp w wi nSegment [] ss = (0, ss)"
| "init_segments mp w wi nSegment (i # is) ss =
     (let (rc, pg, iZero) = walHashGet mp wi i
      in if rc \<noteq> 0 then (rc, ss)
         else
           (let nEntry = (if i + 1 = nSegment then mxFrame w - iZero else length (aPgno pg))
            in init_segments mp w wi nSegment is
                 (ss[i := \<lparr>iNext = 0, aIndex = walMergesort (aPgno pg) [0..<nEntry], seg_aPgno = aPgno pg, seg_iZero = iZero + 1\<rparr>])))"

text \<open>\<open>al\<close> is the outcome of the allocation.\<close>

definition walIteratorInit :: "(nat \<Rightarrow> int) \<Rightarrow> wal \<Rightarrow> wal_index \<Rightarrow> nat \<Rightarrow> bool \<Rightarrow> int \<times> wal_iterator option" where
  "walIteratorInit mp w wi nBackfill al =
     (let nSegment = walFramePage (mxFrame w) + 1
      in if \<not> al then (SQLITE_NOMEM, None)
         else (case init_segments mp w wi nSegment [walFramePage (nBackfill + 1)..<nSegment] (replicate nSegment zero_segment) of
                 (rc, ss) \<Rightarrow> (rc, if rc = 0 then Some \<lparr>iPrior = 0, segments = ss\<rparr> else None)))"

text \<open>The \<open>while\<close> loop of a segment: the next entry whose page is beyond \<open>iMin\<close>.\<close>

function seg_skip :: "pgno \<Rightarrow> wal_segment \<Rightarrow> nat \<Rightarrow> nat" where
  "seg_skip iMin s n =
     (if n < length (aIndex s) \<and> \<not> seg_aPgno s ! (aIndex s ! n) > iMin then seg_skip iMin s (n + 1) else n)"
  by pat_completeness auto
termination by (relation "measure (\<lambda>(m, s, n). length (aIndex s) - n)") auto

declare seg_skip.simps [simp del]

text \<open>The segments from the last to the first; \<open>0xFFFFFFFF\<close> is no page, \<open>f\<close> is what the frame was before.\<close>

fun iter_scan :: "pgno \<Rightarrow> nat \<Rightarrow> wal_segment list \<Rightarrow> wal_segment list \<times> pgno \<times> nat" where
  "iter_scan iMin f [] = ([], 0xFFFFFFFF, f)"
| "iter_scan iMin f (s # ss) =
     (let (ss', iRet, iFrame) = iter_scan iMin f ss;
          n = seg_skip iMin s (iNext s);
          s' = s\<lparr>iNext := n\<rparr>
      in if n < length (aIndex s) \<and> seg_aPgno s ! (aIndex s ! n) < iRet
         then (s' # ss', seg_aPgno s ! (aIndex s ! n), seg_iZero s + aIndex s ! n)
         else (s' # ss', iRet, iFrame))"

definition walIteratorNext :: "wal_iterator \<Rightarrow> nat \<Rightarrow> int \<times> pgno \<times> nat \<times> wal_iterator" where
  "walIteratorNext p f =
     (case iter_scan (iPrior p) f (segments p) of (ss, iRet, iFrame) \<Rightarrow>
        (if iRet = 0xFFFFFFFF then 1 else 0, iRet, iFrame, \<lparr>iPrior = iRet, segments = ss\<rparr>))"

end
