(* ===== verification/Wal_Checkpoint.thy ===== *)
theory Wal_Checkpoint
  imports Wal_Frames Wal_Iterator Memjournal
begin

text \<open>
  \<open>wal.c\<close>: a checkpoint, which copies the frames of the log that no reader needs there any more into the database
  file.

  The database file is read and written in whole pages: it is a function from page numbers to their bytes.  What the
  environment answers is the record \<open>ckpt_env\<close>: the results of locks (after waiting, \<open>walBusyLock\<close>), of the file
  operations and of the allocation, and what is in a page when its write fails.  The hints to the file system are left
  out.
\<close>

section \<open>Setting\<close>

definition SQLITE_CHECKPOINT_PASSIVE :: int where "SQLITE_CHECKPOINT_PASSIVE = 0"
definition SQLITE_CHECKPOINT_RESTART :: int where "SQLITE_CHECKPOINT_RESTART = 2"
definition SQLITE_CHECKPOINT_TRUNCATE :: int where "SQLITE_CHECKPOINT_TRUNCATE = 3"
definition READMARK_NOT_USED :: u32 where "READMARK_NOT_USED = 0xffffffff"

type_synonym db_file = "pgno \<Rightarrow> byte list"

record ckpt_env =
  ck_map :: "nat \<Rightarrow> int"
  ck_lock :: "nat \<Rightarrow> int"
  ck_readers :: int
  ck_alloc :: bool
  ck_sync_wal :: int
  ck_size :: "int \<times> nat"
  ck_interrupt :: "pgno \<Rightarrow> int"
  ck_write :: "pgno \<Rightarrow> int"
  ck_torn :: "pgno \<Rightarrow> byte list"
  ck_truncate :: int
  ck_sync_db :: int
  ck_cut :: int
  ck_salt :: "byte list"

definition walPagesize :: "wal \<Rightarrow> nat" where
  "walPagesize w = unat (hdr_szPage w AND 0xfe00) + unat (hdr_szPage w AND 0x0001) * 2 ^ 16"

section \<open>Restarting the log\<close>

definition walRestartHdr :: "byte list \<Rightarrow> wal \<Rightarrow> wal_ckpt_info \<Rightarrow> (wal \<times> wal_ckpt_info) option" where
  "walRestartHdr salt1 w info = do {
     s0 \<leftarrow> sqlite3Get4byte (aSalt w);
     Some (w\<lparr>nCkpt := nCkpt w + 1, mxFrame := 0, aSalt := sqlite3Put4byte (1 + s0) @ salt1\<rparr>,
           info\<lparr>nBackfill := 0, nBackfillAttempted := 0,
                aReadMark := (aReadMark info)[1 := 0, 2 := READMARK_NOT_USED, 3 := READMARK_NOT_USED, 4 := READMARK_NOT_USED]\<rparr>)
   }"

section \<open>How far the checkpoint may go\<close>

text \<open>The read marks: one whose lock is granted is moved on, one that a reader holds limits the checkpoint.  The first
  result is true when an error ends the checkpoint.\<close>

fun ckpt_marks :: "(nat \<Rightarrow> int) \<Rightarrow> nat list \<Rightarrow> int \<times> nat \<times> u32 list \<Rightarrow> bool \<times> int \<times> nat \<times> u32 list" where
  "ckpt_marks lock [] st = (False, st)"
| "ckpt_marks lock (i # is) (rc, mxSafe, rm) =
     (if mxSafe > unat (rm ! i) then
        (if lock i = 0 then ckpt_marks lock is (0, mxSafe, rm[i := if i = 1 then of_nat mxSafe else READMARK_NOT_USED])
         else if lock i = SQLITE_BUSY then ckpt_marks lock is (SQLITE_BUSY, unat (rm ! i), rm)
         else (True, lock i, mxSafe, rm))
      else ckpt_marks lock is (rc, mxSafe, rm))"

section \<open>Copying\<close>

text \<open>The iterator moves on to larger pages, so that the loop ends.\<close>

lemma seg_skip_greater: "seg_skip q s n < length (aIndex s) \<Longrightarrow> q < seg_aPgno s ! (aIndex s ! seg_skip q s n)"
proof (induction q s n rule: seg_skip.induct)
  case (1 q s n)
  show ?case
  proof (cases "n < length (aIndex s) \<and> \<not> seg_aPgno s ! (aIndex s ! n) > q")
    case True
    then have "seg_skip q s n = seg_skip q s (n + 1)" by (subst seg_skip.simps) simp
    with 1 True show ?thesis by simp
  next
    case False
    then have "seg_skip q s n = n" by (subst seg_skip.simps) (simp only: if_False)
    with 1 False show ?thesis by simp
  qed
qed

lemma iter_scan_greater: "iter_scan q f ss = (ss', r, f') \<Longrightarrow> r = 0xFFFFFFFF \<or> q < r"
proof (induction ss arbitrary: ss' r f')
  case (Cons s ss)
  obtain ss1 r1 f1 where s1: "iter_scan q f ss = (ss1, r1, f1)" by (cases "iter_scan q f ss")
  let ?n = "seg_skip q s (iNext s)"
  have "?n < length (aIndex s) \<Longrightarrow> q < seg_aPgno s ! (aIndex s ! ?n)" by (rule seg_skip_greater)
  with Cons.prems Cons.IH [OF s1] show ?case by (auto simp: s1 Let_def split: if_splits)
qed simp

lemma walIteratorNext_greater: "walIteratorNext it f = (rc, p, f', it') \<Longrightarrow> rc = 0 \<Longrightarrow> iPrior it < p \<and> iPrior it' = p"
  using iter_scan_greater [of "iPrior it" f "segments it"] by (auto simp: walIteratorNext_def split: prod.splits if_splits)

function ckpt_copy :: "ckpt_env \<Rightarrow> wal_file \<Rightarrow> nat \<Rightarrow> nat \<Rightarrow> nat \<Rightarrow> u32 \<Rightarrow> wal_iterator \<Rightarrow> nat \<Rightarrow> db_file \<Rightarrow> int \<times> db_file" where
  "ckpt_copy e fd pgsz nDone mxSafe mxPage pIter iFrame db =
     (let (stop, iDbpage, iFrame', pIter') = walIteratorNext pIter iFrame
      in if stop \<noteq> 0 then (0, db)
         else if ck_interrupt e iDbpage \<noteq> 0 then (ck_interrupt e iDbpage, db)
         else if iFrame' \<le> nDone \<or> iFrame' > mxSafe \<or> iDbpage > mxPage
           then ckpt_copy e fd pgsz nDone mxSafe mxPage pIter' iFrame' db
         else
           (let (rc, zBuf) = wal_read fd pgsz (walFrameOffset iFrame' pgsz + WAL_FRAME_HDRSIZE)
            in if rc \<noteq> 0 then (rc, db)
               else if ck_write e iDbpage \<noteq> 0 then (ck_write e iDbpage, db(iDbpage := ck_torn e iDbpage))
               else ckpt_copy e fd pgsz nDone mxSafe mxPage pIter' iFrame' (db(iDbpage := zBuf))))"
  by pat_completeness auto
termination
proof (relation "measure (\<lambda>(e, fd, n, b, s, x, it, f, db). 2 ^ 32 - unat (iPrior it))", goal_cases)
  case 1 show ?case by simp
next
  case (2 e fd pgsz nDone mxSafe mxPage pIter iFrame db x stop y iDbpage z iFrame' pIter')
  then have "iPrior pIter < iDbpage \<and> iPrior pIter' = iDbpage"
    using walIteratorNext_greater [of pIter iFrame stop iDbpage iFrame' pIter'] by simp
  moreover have "unat iDbpage < 2 ^ 32" using unsigned_less [of iDbpage] by simp
  ultimately show ?case by (auto simp: word_less_nat_alt intro: diff_less_mono2 less_trans)
next
  case (3 e fd pgsz nDone mxSafe mxPage pIter iFrame db x stop y iDbpage z iFrame' pIter' u rc zBuf)
  then have "iPrior pIter < iDbpage \<and> iPrior pIter' = iDbpage"
    using walIteratorNext_greater [of pIter iFrame stop iDbpage iFrame' pIter'] by simp
  moreover have "unat iDbpage < 2 ^ 32" using unsigned_less [of iDbpage] by simp
  ultimately show ?case by (auto simp: word_less_nat_alt intro: diff_less_mono2 less_trans)
qed

declare ckpt_copy.simps [simp del]

section \<open>The checkpoint\<close>

text \<open>The part for a log that is not all copied: whether it ended the checkpoint, its result code, the database file
  and the shared checkpoint state.  \<open>live\<close> is the end of the log in the shared header.\<close>

definition ckpt_backfill :: "ckpt_env \<Rightarrow> wal_file \<Rightarrow> nat \<Rightarrow> wal \<Rightarrow> wal_index \<Rightarrow> wal_ckpt_info \<Rightarrow> db_file \<Rightarrow>
    bool \<times> int \<times> db_file \<times> wal_ckpt_info" where
  "ckpt_backfill e fd live w wi info db =
     (let pgsz = walPagesize w;
          (failed, rc, mxSafe, rm) = ckpt_marks (ck_lock e) [1..<5] (0, mxFrame w, aReadMark info);
          info1 = info\<lparr>aReadMark := rm\<rparr>
      in if failed then (True, rc, db, info1)
         else
           (let (rc1, pIter) = (if nBackfill info < mxSafe then walIteratorInit (ck_map e) w wi (nBackfill info) (ck_alloc e) else (rc, None));
                (rc5, db5, info5) =
                  (case pIter of
                     None \<Rightarrow> (rc1, db, info1)
                   | Some it \<Rightarrow>
                       (if ck_lock e 0 \<noteq> 0 then (ck_lock e 0, db, info1)
                        else
                          (let info2 = info1\<lparr>nBackfillAttempted := mxSafe\<rparr>;
                               nReq = unat (nPage w) * pgsz;
                               rc2 = (if ck_sync_wal e \<noteq> 0 then ck_sync_wal e
                                      else if fst (ck_size e) = 0 \<and> snd (ck_size e) < nReq \<and>
                                              snd (ck_size e) + 65536 + mxFrame w * pgsz < nReq then SQLITE_CORRUPT
                                      else fst (ck_size e));
                               (rc3, db3) = (if rc2 = 0 then ckpt_copy e fd pgsz (nBackfill info) mxSafe (nPage w) it 0 db else (rc2, db));
                               (rc4, db4) =
                                 (if rc3 = 0 \<and> mxSafe = live then
                                    (if ck_truncate e \<noteq> 0 then (ck_truncate e, \<lambda>p. if p \<le> nPage w then db3 p else ck_torn e p)
                                     else (ck_sync_db e, \<lambda>p. if p \<le> nPage w then db3 p else []))
                                  else (rc3, db3))
                           in (rc4, db4, if rc4 = 0 then info2\<lparr>nBackfill := mxSafe\<rparr> else info2))))
            in (False, if rc5 = SQLITE_BUSY then 0 else rc5, db5, info5)))"

definition walCheckpoint :: "ckpt_env \<Rightarrow> int \<Rightarrow> wal_file \<Rightarrow> nat \<Rightarrow> wal \<Rightarrow> wal_index \<Rightarrow> wal_ckpt_info \<Rightarrow> db_file \<Rightarrow>
    (int \<times> db_file \<times> wal_ckpt_info \<times> wal \<times> wal_file) option" where
  "walCheckpoint e eMode fd live w wi info db =
     (let (failed, rc, db1, info1) =
            (if nBackfill info < mxFrame w then ckpt_backfill e fd live w wi info db else (False, 0, db, info))
      in if failed \<or> rc \<noteq> 0 \<or> eMode = SQLITE_CHECKPOINT_PASSIVE then Some (rc, db1, info1, w, fd)
         else if nBackfill info1 < mxFrame w then Some (SQLITE_BUSY, db1, info1, w, fd)
         else if eMode < SQLITE_CHECKPOINT_RESTART then Some (0, db1, info1, w, fd)
         else if ck_readers e \<noteq> 0 then Some (ck_readers e, db1, info1, w, fd)
         else if eMode \<noteq> SQLITE_CHECKPOINT_TRUNCATE then Some (0, db1, info1, w, fd)
         else do {
           (w1, info2) \<leftarrow> walRestartHdr (ck_salt e) w info1;
           Some (ck_cut e, db1, info2, w1, if ck_cut e = 0 then fd\<lparr>content := []\<rparr> else fd)
         })"

section \<open>Reading a page\<close>

definition sqlite3WalReadFrame :: "wal \<Rightarrow> wal_file \<Rightarrow> nat \<Rightarrow> nat \<Rightarrow> int \<times> byte list" where
  "sqlite3WalReadFrame w fd iRead nOut =
     (let sz = walPagesize w in wal_read fd (if nOut > sz then sz else nOut) (walFrameOffset iRead sz + WAL_FRAME_HDRSIZE))"

text \<open>How the pager reads a page, up to the decryption: from the log if it is there, otherwise from the database file,
  whose results are \<open>db_rc\<close>.\<close>

definition readDbPage :: "(nat \<Rightarrow> int) \<Rightarrow> wal_file \<Rightarrow> (pgno \<Rightarrow> int) \<Rightarrow> nat \<Rightarrow> wal \<Rightarrow> wal_index \<Rightarrow> db_file \<Rightarrow> pgno \<Rightarrow> int \<times> byte list" where
  "readDbPage mp fd db_rc pageSize w wi db p =
     (let (rc, iFrame) = walFindFrame mp w wi p
      in if rc \<noteq> 0 then (rc, [])
         else if iFrame \<noteq> 0 then sqlite3WalReadFrame w fd iFrame pageSize
         else (if db_rc p = SQLITE_IOERR_SHORT_READ then 0 else db_rc p, db p))"

end
