(* ===== verification/Wal_Index_Props.thy ===== *)
theory Wal_Index_Props
  imports Wal_Index Refinement "HOL-Library.Multiset"
begin

text \<open>
  The index of the log against a list of page numbers: every table is the one that entering its frames in order
  gives, cutting the log gives the table of the shorter list, and a look-up is a backwards search.
\<close>

lemma wal_consts: "HASHTABLE_NPAGE = 4096" "HASHTABLE_NSLOT = 8192" "HASHTABLE_NPAGE_ONE = 4062"
  by (simp_all add: HASHTABLE_NPAGE_def HASHTABLE_NSLOT_def HASHTABLE_NPAGE_ONE_def WALINDEX_HDR_SIZE_def)

section \<open>The hash table as a list read from a slot\<close>

lemma walHash_less: "walHash p < HASHTABLE_NSLOT"
proof -
  have "(of_nat HASHTABLE_NSLOT - 1 :: u32) = mask 13" by (simp add: wal_consts mask_eq_exp_minus_1)
  then have "walHash p = take_bit 13 (unat (p * HASHTABLE_HASH_1))"
    by (simp add: walHash_def take_bit_eq_mask [symmetric] unsigned_take_bit_eq)
  then show ?thesis using take_bit_nat_less_exp [of 13 "unat (p * HASHTABLE_HASH_1)"] by (simp add: wal_consts)
qed

lemma rotate_next:
  assumes "length h = HASHTABLE_NSLOT" "rotate k h = x # xs"
  shows "rotate (walNextHash k) h = xs @ [x]"
proof -
  have "rotate (walNextHash k) h = rotate (k + 1) h" using rotate_conv_mod [of "k + 1" h] assms(1) by (simp add: walNextHash_def)
  also have "\<dots> = rotate1 (rotate k h)" by simp
  finally show ?thesis by (simp add: assms(2))
qed

lemma rotate_first: "length h = HASHTABLE_NSLOT \<Longrightarrow> k < HASHTABLE_NSLOT \<Longrightarrow> rotate k h = x # xs \<Longrightarrow> h ! k = x"
  using nth_rotate [of 0 h k] by (auto simp: wal_consts)

lemma next_less: "walNextHash k < HASHTABLE_NSLOT"
  by (simp add: walNextHash_def wal_consts)

lemma next_add: "(walNextHash k + n) mod HASHTABLE_NSLOT = (k + Suc n) mod HASHTABLE_NSLOT"
  by (simp add: walNextHash_def mod_simps)

lemma append_probe_free:
  "\<lbrakk>length h = HASHTABLE_NSLOT; k < HASHTABLE_NSLOT; rotate k h = xs @ 0 # ys; 0 \<notin> set xs; length xs \<le> c\<rbrakk> \<Longrightarrow>
    append_probe h k c = Some ((k + length xs) mod HASHTABLE_NSLOT)"
proof (induction xs arbitrary: k c ys)
  case Nil
  then have "h ! k = 0" by (intro rotate_first) auto
  with Nil.prems(2) show ?case by (simp add: append_probe.simps)
next
  case (Cons x xs)
  then have "h ! k = x" by (intro rotate_first) auto
  moreover obtain c' where "c = Suc c'" using Cons.prems(5) by (cases c) auto
  moreover have "rotate (walNextHash k) h = xs @ 0 # (ys @ [x])" using rotate_next [OF Cons.prems(1), of k x "xs @ 0 # ys"] Cons.prems(3) by simp
  moreover have "x \<noteq> 0" "0 \<notin> set xs" using Cons.prems(4) by auto
  ultimately show ?case using Cons.IH [OF Cons.prems(1) next_less, of k "ys @ [x]" c'] Cons.prems(5)
    by (simp add: append_probe.simps [of h k] next_add)
qed

lemma wal_find_loop_fold:
  "\<lbrakk>length (aHash pg) = HASHTABLE_NSLOT; k < HASHTABLE_NSLOT; rotate k (aHash pg) = xs @ 0 # ys; 0 \<notin> set xs; length xs \<le> c\<rbrakk> \<Longrightarrow>
    wal_find_loop pg z hi lo p k c r =
      Some (foldl (\<lambda>r i. if i + z \<le> hi \<and> i + z \<ge> lo \<and> aPgno pg ! (i - 1) = p then i + z else r) r xs)"
proof (induction xs arbitrary: k c ys r)
  case Nil
  then have "aHash pg ! k = 0" by (intro rotate_first) auto
  then show ?case by (simp add: wal_find_loop.simps)
next
  case (Cons x xs)
  then have "aHash pg ! k = x" by (intro rotate_first) auto
  moreover obtain c' where "c = Suc c'" using Cons.prems(5) by (cases c) auto
  moreover have "rotate (walNextHash k) (aHash pg) = xs @ 0 # (ys @ [x])"
    using rotate_next [OF Cons.prems(1), of k x "xs @ 0 # ys"] Cons.prems(3) by simp
  moreover have "x \<noteq> 0" "0 \<notin> set xs" using Cons.prems(4) by auto
  ultimately show ?case using Cons.IH [OF Cons.prems(1) next_less, of k "ys @ [x]" c'] Cons.prems(5)
    by (simp add: wal_find_loop.simps [of pg z hi lo p k] Let_def)
qed

lemma mod_slot_cancel:
  assumes "a < m" "b < m" "(k + a) mod m = (k + b) mod (m :: nat)"
  shows "a = b"
proof -
  have aux: "x \<le> y" if "x < m" "(k + x) mod m = (k + y) mod m" for x y
  proof (rule ccontr)
    assume "\<not> x \<le> y"
    then have "m dvd (k + x) - (k + y)" using that(2) mod_eq_dvd_iff_nat [of "k + y" "k + x" m] by simp
    with \<open>\<not> x \<le> y\<close> that(1) show False by (auto dest: dvd_imp_le)
  qed
  from aux [of a b] aux [of b a] assms show ?thesis by auto
qed

lemma rotate_update:
  assumes "length h = HASHTABLE_NSLOT" "j < HASHTABLE_NSLOT"
  shows "rotate k (h[(k + j) mod HASHTABLE_NSLOT := v]) = (rotate k h)[j := v]"
proof (rule nth_equalityI)
  fix n assume n: "n < length (rotate k (h[(k + j) mod HASHTABLE_NSLOT := v]))"
  have "(k + j) mod HASHTABLE_NSLOT = (k + n) mod HASHTABLE_NSLOT \<longleftrightarrow> j = n"
    using n assms mod_slot_cancel [of n HASHTABLE_NSLOT j k] by auto
  then show "rotate k (h[(k + j) mod HASHTABLE_NSLOT := v]) ! n = (rotate k h)[j := v] ! n"
    using n assms by (simp add: nth_rotate nth_list_update wal_consts)
qed simp

section \<open>The table of a list of pages\<close>

text \<open>The entries found from the slot of a page, and the first free slot behind them.\<close>

definition run :: "nat list \<Rightarrow> pgno \<Rightarrow> nat list" where
  "run h p = takeWhile (\<lambda>x. x \<noteq> 0) (rotate (walHash p) h)"

definition free_slot :: "nat list \<Rightarrow> pgno \<Rightarrow> nat" where
  "free_slot h p = (walHash p + length (run h p)) mod HASHTABLE_NSLOT"

text \<open>The table after the first \<open>n\<close> pages of a list were entered.\<close>

primrec table :: "pgno list \<Rightarrow> nat \<Rightarrow> nat list" where
  "table ps 0 = replicate HASHTABLE_NSLOT 0"
| "table ps (Suc n) = (let h = table ps n in h[free_slot h (ps ! n) := Suc n])"

lemma table_cong: "(\<And>i. i < n \<Longrightarrow> ps ! i = qs ! i) \<Longrightarrow> table ps n = table qs n"
  by (induction n) auto

definition slot_entries :: "nat list \<Rightarrow> nat list" where
  "slot_entries h = filter (\<lambda>x. x \<noteq> 0) h"

lemma slot_entries_nonzero: "0 \<notin> set us \<Longrightarrow> slot_entries us = us" "slot_entries (xs @ ys) = slot_entries xs @ slot_entries ys" "slot_entries (0 # xs) = slot_entries xs"
  by (induction us) (auto simp: slot_entries_def)

text \<open>What the table keeps: every entry once, and from the slot of a page its entries in the order of the frames.\<close>

definition tab_ok :: "nat list \<Rightarrow> pgno list \<Rightarrow> nat \<Rightarrow> bool" where
  "tab_ok h ps n \<longleftrightarrow> length h = HASHTABLE_NSLOT \<and> distinct (slot_entries h) \<and> set (slot_entries h) \<subseteq> {1..n} \<and>
     (\<forall>q. filter (\<lambda>i. ps ! (i - 1) = q) (run h q) = filter (\<lambda>i. ps ! (i - 1) = q) [1..<n + 1])"

lemma rotate_mset: "mset (rotate k h) = mset h"
  by (metis append_take_drop_id mset_append rotate_drop_take union_commute)

lemma slot_entries_rotate: "set (slot_entries (rotate k h)) = set (slot_entries h)" "length (slot_entries (rotate k h)) = length (slot_entries h)"
    "distinct (slot_entries (rotate k h)) = distinct (slot_entries h)"
proof -
  have m: "mset (slot_entries (rotate k h)) = mset (slot_entries h)" by (simp add: slot_entries_def rotate_mset)
  then show "set (slot_entries (rotate k h)) = set (slot_entries h)" by (rule mset_eq_setD)
  show "length (slot_entries (rotate k h)) = length (slot_entries h)" using m by (rule mset_eq_length)
  show "distinct (slot_entries (rotate k h)) = distinct (slot_entries h)" using m by (rule mset_eq_imp_distinct_iff)
qed

lemma run_split:
  assumes h: "length h = HASHTABLE_NSLOT" "length (slot_entries h) < HASHTABLE_NSLOT"
  obtains ys where "rotate (walHash p) h = run h p @ 0 # ys" "0 \<notin> set (run h p)" "length (run h p) \<le> length (slot_entries h)"
proof -
  let ?r = "rotate (walHash p) h"
  have "length (slot_entries ?r) < length ?r" using h slot_entries_rotate(2) by simp
  moreover have "slot_entries ?r = ?r" if "\<forall>x\<in>set ?r. x \<noteq> 0" using that by (simp add: slot_entries_def filter_id_conv)
  ultimately have "\<exists>x\<in>set ?r. x = 0" by (metis less_irrefl)
  then have d: "dropWhile (\<lambda>x. x \<noteq> 0) ?r \<noteq> []" by (auto simp: dropWhile_eq_Nil_conv)
  then obtain z ys where zy: "dropWhile (\<lambda>x. x \<noteq> 0) ?r = z # ys" by (cases "dropWhile (\<lambda>x. x \<noteq> 0) ?r") auto
  then have "z = 0" by (simp add: dropWhile_eq_Cons_conv)
  have "?r = run h p @ 0 # ys" using zy \<open>z = 0\<close> by (metis run_def takeWhile_dropWhile_id)
  moreover have n: "0 \<notin> set (run h p)" by (auto simp: run_def dest: set_takeWhileD)
  moreover have "length (run h p) \<le> length (slot_entries h)"
  proof -
    have "slot_entries ?r = run h p @ slot_entries ys" using n by (subst calculation(1)) (simp add: slot_entries_nonzero)
    then show ?thesis using slot_entries_rotate(2) [of "walHash p" h] by simp
  qed
  ultimately show thesis by (rule that)
qed

lemma tab_count: "tab_ok h ps n \<Longrightarrow> length (slot_entries h) \<le> n"
proof -
  assume "tab_ok h ps n"
  then have "length (slot_entries h) = card (set (slot_entries h))" "set (slot_entries h) \<subseteq> {1..n}" by (auto simp: tab_ok_def distinct_card)
  then show "length (slot_entries h) \<le> n" using card_mono [of "{1..n}" "set (slot_entries h)"] by simp
qed

lemma tab_put:
  assumes t: "tab_ok h ps n" and n: "n < HASHTABLE_NPAGE"
  shows "tab_ok (h[free_slot h (ps ! n) := Suc n]) ps (Suc n)"
proof -
  let ?p = "ps ! n"
  have len: "length h = HASHTABLE_NSLOT" and dist: "distinct (slot_entries h)" and sub: "set (slot_entries h) \<subseteq> {1..n}"
    and L: "\<And>q. filter (\<lambda>i. ps ! (i - 1) = q) (run h q) = filter (\<lambda>i. ps ! (i - 1) = q) [1..<n + 1]"
    using t by (auto simp: tab_ok_def)
  have few: "length (slot_entries h) < HASHTABLE_NSLOT" using tab_count [OF t] n by (simp add: wal_consts)
  obtain ys where R: "rotate (walHash ?p) h = run h ?p @ 0 # ys" "0 \<notin> set (run h ?p)" using run_split [OF len few] by metis
  define h' where "h' = h[free_slot h ?p := Suc n]"
  have lr: "length (run h ?p) < HASHTABLE_NSLOT" using arg_cong [OF R(1), of length] len by simp
  have R': "rotate (walHash ?p) h' = run h ?p @ Suc n # ys"
    unfolding h'_def free_slot_def using rotate_update [OF len lr, of "walHash ?p" "Suc n"] by (simp add: R(1))
  have ent: "mset (slot_entries h') = add_mset (Suc n) (mset (slot_entries h))"
  proof -
    have "mset (slot_entries (rotate (walHash ?p) h')) = add_mset (Suc n) (mset (slot_entries (rotate (walHash ?p) h)))"
      by (simp add: R(1) R' slot_entries_def)
    then show ?thesis by (metis slot_entries_def mset_filter rotate_mset)
  qed
  have "set (slot_entries h') = insert (Suc n) (set (slot_entries h))" using ent by (metis set_mset_add_mset_insert set_mset_mset)
  moreover have "distinct (slot_entries h')"
  proof -
    have "mset (slot_entries h') = mset (Suc n # slot_entries h)" using ent by simp
    then have "distinct (slot_entries h') = distinct (Suc n # slot_entries h)" by (rule mset_eq_imp_distinct_iff)
    then show ?thesis using dist sub by auto
  qed
  moreover have "filter (\<lambda>i. ps ! (i - 1) = q) (run h' q) = filter (\<lambda>i. ps ! (i - 1) = q) [1..<Suc n + 1]" for q
  proof -
    obtain j where j: "j < HASHTABLE_NSLOT" "free_slot h ?p = (walHash q + j) mod HASHTABLE_NSLOT"
    proof -
      let ?e = "free_slot h ?p" and ?k = "walHash q" and ?N = HASHTABLE_NSLOT
      have l: "?e < ?N" "?k < ?N" by (simp_all add: free_slot_def wal_consts walHash_less [unfolded wal_consts])
      have "(?k + (?e + ?N - ?k) mod ?N) mod ?N = (?k + (?e + ?N - ?k)) mod ?N" by (rule mod_add_right_eq)
      also have "?k + (?e + ?N - ?k) = ?e + ?N" using l by simp
      also have "(?e + ?N) mod ?N = ?e" using l(1) by simp
      finally have "?e = (?k + (?e + ?N - ?k) mod ?N) mod ?N" ..
      moreover have "(?e + ?N - ?k) mod ?N < ?N" by (rule mod_less_divisor) (simp add: wal_consts)
      ultimately show thesis by (rule that [rotated])
    qed
    let ?r = "rotate (walHash q) h"
    have r': "rotate (walHash q) h' = ?r[j := Suc n]" unfolding h'_def j(2) by (rule rotate_update [OF len j(1)])
    have rj: "?r ! j = 0"
    proof -
      have "h ! free_slot h ?p = 0"
        using nth_rotate [of "length (run h ?p)" h "walHash ?p"] lr len R(1) by (simp add: free_slot_def)
      then show ?thesis using nth_rotate [of j h "walHash q"] j len by simp
    qed
    define us ws where "us = take j ?r" and "ws = drop (Suc j) ?r"
    have "j < length ?r" using j(1) len by simp
    from id_take_nth_drop [OF this] have sp: "?r = us @ 0 # ws" unfolding us_def ws_def rj .
    have lu: "length us = j" using j(1) len by (simp add: us_def)
    have sp': "rotate (walHash q) h' = us @ Suc n # ws" unfolding r' sp by (simp add: list_update_append lu)
    show ?thesis
    proof (cases "0 \<in> set us")
      case True
      then have same: "run h' q = run h q" by (auto simp: run_def sp sp' takeWhile_append1)
      have "?p \<noteq> q"
      proof
        assume "?p = q"
        then have "run h ?p @ 0 # ys = us @ 0 # ws" using R(1) sp by simp
        moreover have "j = length (run h ?p)"
          using mod_slot_cancel [OF j(1) lr, of "walHash q"] j(2) \<open>?p = q\<close> by (simp add: free_slot_def)
        ultimately have "us = run h ?p" using lu by (simp add: append_eq_append_conv)
        with R(2) True show False by simp
      qed
      then show ?thesis using L [of q] by (simp add: same)
    next
      case False
      have nz: "0 < x" if "x \<in> set us" for x using False that by (cases x) auto
      have old: "run h q = us" using nz by (simp add: run_def sp takeWhile_append2)
      have new: "run h' q = us @ Suc n # takeWhile (\<lambda>x. x \<noteq> 0) ws" using nz by (simp add: run_def sp' takeWhile_append2)
      have "filter (\<lambda>i. ps ! (i - 1) = q) (takeWhile (\<lambda>x. x \<noteq> 0) ws) = []"
      proof (rule ccontr)
        assume "\<not> ?thesis"
        then obtain i where i: "i \<in> set ws" "i \<noteq> 0" "ps ! (i - 1) = q"
          by (auto simp: filter_empty_conv dest: set_takeWhileD)
        have e: "slot_entries ?r = us @ slot_entries ws" using False by (simp add: sp slot_entries_nonzero)
        have iw: "i \<in> set (slot_entries ws)" using i by (simp add: slot_entries_def)
        then have "i \<in> set (slot_entries h)" using e slot_entries_rotate(1) [of "walHash q" h] by auto
        with sub have "i \<in> {1..n}" by blast
        with i(3) have "i \<in> set (filter (\<lambda>i. ps ! (i - 1) = q) [1..<n + 1])" by (simp del: upt_Suc)
        then have "i \<in> set (filter (\<lambda>i. ps ! (i - 1) = q) (run h q))" unfolding L .
        then have "i \<in> set us" by (simp add: old)
        moreover have "distinct (us @ slot_entries ws)" using e dist slot_entries_rotate(3) [of "walHash q" h] by simp
        ultimately show False using iw by auto
      qed
      then show ?thesis using L [of q] old new by simp
    qed
  qed
  moreover have "length h' = HASHTABLE_NSLOT" using len by (simp add: h'_def)
  moreover have "set (slot_entries h') \<subseteq> {1..Suc n}" using calculation(1) sub by auto
  ultimately show ?thesis unfolding tab_ok_def h'_def [symmetric] by blast
qed

lemma slot_table_ok: "n \<le> HASHTABLE_NPAGE \<Longrightarrow> tab_ok (table ps n) ps n"
proof (induction n)
  case 0
  have "rotate k (replicate HASHTABLE_NSLOT (0 :: nat)) = replicate HASHTABLE_NSLOT 0" for k by (induction k) auto
  then show ?case by (simp add: tab_ok_def slot_entries_def run_def wal_consts)
next
  case (Suc n)
  then show ?case using tab_put [of "table ps n" ps n] by (simp add: Let_def)
qed

lemma table_cut:
  "k \<le> n \<Longrightarrow> n \<le> HASHTABLE_NPAGE \<Longrightarrow> map (\<lambda>x. if x > k then 0 else x) (table ps n) = table ps k"
proof (induction n)
  case (Suc n)
  let ?c = "\<lambda>x. if x > k then 0 else x"
  show ?case
  proof (cases "k = Suc n")
    case True
    have "set (table ps (Suc n)) \<subseteq> {0..Suc n}"
      using slot_table_ok [of "Suc n" ps] Suc.prems by (auto simp: tab_ok_def slot_entries_def)
    then have "map ?c (table ps (Suc n)) = table ps (Suc n)" using True by (intro map_idI) auto
    with True show ?thesis by simp
  next
    case False
    let ?h = "table ps n"
    have t: "tab_ok ?h ps n" using Suc.prems by (intro slot_table_ok) simp
    then have len: "length ?h = HASHTABLE_NSLOT" by (simp add: tab_ok_def)
    have few: "length (slot_entries ?h) < HASHTABLE_NSLOT" using tab_count [OF t] Suc.prems by (simp add: wal_consts)
    obtain ys where R: "rotate (walHash (ps ! n)) ?h = run ?h (ps ! n) @ 0 # ys" using run_split [OF len few] by metis
    have "length (run ?h (ps ! n)) < HASHTABLE_NSLOT" using arg_cong [OF R, of length] len by simp
    then have "?h ! free_slot ?h (ps ! n) = 0"
      using nth_rotate [of "length (run ?h (ps ! n))" ?h "walHash (ps ! n)"] len R by (simp add: free_slot_def)
    moreover have "free_slot ?h (ps ! n) < length ?h" using len by (simp add: free_slot_def wal_consts)
    ultimately have "(map ?c ?h)[free_slot ?h (ps ! n) := 0] = map ?c ?h"
      using list_update_id [of "map ?c ?h" "free_slot ?h (ps ! n)"] by simp
    then have "map ?c (table ps (Suc n)) = map ?c ?h" using False Suc.prems by (simp add: Let_def map_update)
    with Suc False show ?thesis by simp
  qed
qed (simp add: wal_consts)

section \<open>The index of a log\<close>

definition cap :: "nat \<Rightarrow> nat" where
  "cap i = (if i = 0 then HASHTABLE_NPAGE_ONE else HASHTABLE_NPAGE)"

definition zero :: "nat \<Rightarrow> nat" where
  "zero i = (if i = 0 then 0 else HASHTABLE_NPAGE_ONE + (i - 1) * HASHTABLE_NPAGE)"

text \<open>A page of the index holds the page numbers \<open>ps\<close> and their table.\<close>

definition page_ok :: "nat \<Rightarrow> wal_page \<Rightarrow> pgno list \<Rightarrow> bool" where
  "page_ok c pg ps \<longleftrightarrow> length ps \<le> c \<and> aPgno pg = ps @ replicate (c - length ps) 0 \<and> aHash pg = table ps (length ps)"

definition frames_of :: "nat \<Rightarrow> pgno list \<Rightarrow> pgno list" where
  "frames_of i lg = take (cap i) (drop (zero i) lg)"

definition wi_ok :: "wal_index \<Rightarrow> pgno list \<Rightarrow> bool" where
  "wi_ok wi lg \<longleftrightarrow> 0 \<notin> set lg \<and>
     (\<forall>i. length (aPgno (wi i)) = cap i \<and> (zero i < length lg \<longrightarrow> page_ok (cap i) (wi i) (frames_of i lg)))"

lemma walHashGet_eq: "walHashGet mp wi i = (mp i, wi i, zero i)"
  by (simp add: walHashGet_def zero_def)

lemma walFramePage_range: "0 < f \<Longrightarrow> zero (walFramePage f) < f \<and> f \<le> zero (walFramePage f) + cap (walFramePage f)"
proof -
  assume f: "0 < f"
  define q where "q = (f + 33) div 4096"
  have "walFramePage f = q" by (simp add: walFramePage_def wal_consts q_def)
  moreover have "q * 4096 \<le> f + 33" "f + 33 < q * 4096 + 4096" unfolding q_def
    using dividend_less_div_times [of 4096 "f + 33"] by simp_all
  ultimately show ?thesis using f by (cases q) (simp_all add: zero_def cap_def wal_consts)
qed

lemma zero_next: "zero i + cap i = zero (Suc i)"
  by (cases i) (simp_all add: zero_def cap_def wal_consts)

lemma zero_mono: "i < j \<Longrightarrow> zero i + cap i \<le> zero j"
proof (induction j)
  case (Suc j)
  have "zero j \<le> zero (Suc j)" by (metis le_add1 zero_next)
  with Suc show ?case by (cases "i = j") (auto simp: zero_next)
qed simp

lemma walFramePage_unique: "zero i < f \<Longrightarrow> f \<le> zero i + cap i \<Longrightarrow> walFramePage f = i"
  using walFramePage_range [of f] zero_mono [of i "walFramePage f"] zero_mono [of "walFramePage f" i]
  by (metis gr_implies_not0 le_less_trans linorder_neqE_nat not_le order_trans zero_less_iff_neq_zero leD)

lemma cap_bounds: "cap i \<le> HASHTABLE_NPAGE" "0 < cap i"
  by (simp_all add: cap_def wal_consts)

lemma length_table [simp]: "length (table ps n) = HASHTABLE_NSLOT"
  by (induction n) (simp_all add: Let_def)

lemma page_ok_cut:
  assumes "page_ok c pg ps" "k \<le> length ps" "c \<le> HASHTABLE_NPAGE"
  shows "page_ok c (pg\<lparr>aHash := map (\<lambda>h. if h > k then 0 else h) (aHash pg),
                       aPgno := take k (aPgno pg) @ replicate (length (aPgno pg) - k) 0\<rparr>) (take k ps)"
  using assms table_cut [of k "length ps" ps] table_cong [of k "take k ps" ps] by (simp add: page_ok_def min_def)

text \<open>Entering a frame into a page of the index.\<close>

lemma page_ok_enter:
  assumes p: "page_ok c pg ps" and c: "length ps < c" "c \<le> HASHTABLE_NPAGE"
  shows "append_probe (aHash pg) (walHash p) (Suc (length ps)) = Some (free_slot (aHash pg) p)"
    "page_ok c \<lparr>aPgno = (aPgno pg)[length ps := p], aHash = (aHash pg)[free_slot (aHash pg) p := Suc (length ps)]\<rparr> (ps @ [p])"
proof -
  have h: "aHash pg = table ps (length ps)" using p by (simp add: page_ok_def)
  have t: "tab_ok (aHash pg) ps (length ps)" unfolding h using c by (intro slot_table_ok) simp
  then have len: "length (aHash pg) = HASHTABLE_NSLOT" by (simp add: tab_ok_def)
  have few: "length (slot_entries (aHash pg)) < HASHTABLE_NSLOT" using tab_count [OF t] c by (simp add: wal_consts)
  obtain ys where R: "rotate (walHash p) (aHash pg) = run (aHash pg) p @ 0 # ys" "0 \<notin> set (run (aHash pg) p)"
    "length (run (aHash pg) p) \<le> length (slot_entries (aHash pg))" using run_split [OF len few] by metis
  show "append_probe (aHash pg) (walHash p) (Suc (length ps)) = Some (free_slot (aHash pg) p)"
    unfolding free_slot_def using append_probe_free [OF len walHash_less R(1,2)] R(3) tab_count [OF t] by simp
  have "table (ps @ [p]) (length ps) = table ps (length ps)" by (rule table_cong) (simp add: nth_append)
  moreover have "replicate (c - length ps) (0 :: pgno) = 0 # replicate (c - Suc (length ps)) 0"
    using c(1) by (metis Suc_diff_Suc replicate_Suc)
  ultimately show "page_ok c \<lparr>aPgno = (aPgno pg)[length ps := p], aHash = (aHash pg)[free_slot (aHash pg) p := Suc (length ps)]\<rparr> (ps @ [p])"
    using p c(1) by (simp add: page_ok_def Let_def list_update_append nth_append)
qed

lemma frames_of_snoc:
  assumes "i = walFramePage (Suc k)" "k \<le> length lg"
  shows "frames_of i (take k lg @ [p]) = take (k - zero i) (frames_of i lg) @ [p]" "length (take (k - zero i) (frames_of i lg)) = k - zero i"
    "zero i \<le> k" "k - zero i < cap i"
proof -
  have r: "zero i \<le> k" "k - zero i < cap i" using walFramePage_range [of "Suc k"] assms(1) by auto
  then show "zero i \<le> k" "k - zero i < cap i" by simp_all
  show "length (take (k - zero i) (frames_of i lg)) = k - zero i" using r assms(2) by (simp add: frames_of_def)
  show "frames_of i (take k lg @ [p]) = take (k - zero i) (frames_of i lg) @ [p]"
  proof -
    have "drop (zero i) (take k lg @ [p]) = drop (zero i) (take k lg) @ [p]" using r assms(2) by simp
    moreover have "length (drop (zero i) (take k lg)) < cap i" using r assms(2) by simp
    ultimately have "frames_of i (take k lg @ [p]) = drop (zero i) (take k lg) @ [p]" by (simp add: frames_of_def)
    also have "drop (zero i) (take k lg) = take (k - zero i) (frames_of i lg)" using r by (simp add: frames_of_def drop_take min_absorb1)
    finally show ?thesis .
  qed
qed

lemma frames_of_before:
  assumes "zero i + cap i \<le> k" "k \<le> length lg"
  shows "frames_of i (take k lg @ ps) = frames_of i lg"
proof -
  have "cap i \<le> length (drop (zero i) (take k lg))" using assms by simp
  moreover have "drop (zero i) (take k lg @ ps) = drop (zero i) (take k lg) @ drop (zero i - k) ps" using assms by simp
  ultimately have "frames_of i (take k lg @ ps) = take (cap i) (drop (zero i) (take k lg))" by (simp add: frames_of_def)
  also have "\<dots> = frames_of i lg" using assms by (simp add: frames_of_def drop_take min_absorb1)
  finally show ?thesis .
qed

text \<open>A frame is entered at the end of the log, or at the end of the handle's log over what a dead writer left.\<close>

lemma walIndexAppend_ok:
  assumes wi: "wi_ok wi lg" and p: "p \<noteq> 0" and k: "k = length lg \<or> k = mxFrame w \<and> k \<le> length lg"
    and mp: "mp (walFramePage (Suc k)) = 0"
  shows "\<exists>wi'. walIndexAppend mp w wi (Suc k) p = (0, wi') \<and> wi_ok wi' (take k lg @ [p])"
proof -
  define i where "i = walFramePage (Suc k)"
  define n where "n = k - zero i"
  define ps where "ps = take n (frames_of i lg)"
  have kl: "k \<le> length lg" using k by auto
  note sn = frames_of_snoc [OF i_def kl, folded n_def, folded ps_def]
  have len: "length (aPgno (wi i)) = cap i" using wi by (simp add: wi_ok_def)
  have idx: "Suc k - zero i = Suc n" using sn(3) by (simp add: n_def)
  define pg1 where "pg1 = (if Suc n = 1 then \<lparr>aPgno = replicate (length (aPgno (wi i))) 0, aHash = replicate HASHTABLE_NSLOT 0\<rparr> else wi i)"
  define wi1 where "wi1 = wi(i := pg1)"
  define wi2 where "wi2 = (if aPgno pg1 ! n \<noteq> 0 then walCleanupHash mp w wi1 else wi1)"
  have wi2: "page_ok (cap i) (wi2 i) ps \<and> (\<forall>j. j \<noteq> i \<longrightarrow> wi2 j = wi j)"
  proof (cases "n = 0")
    case True
    then have "aPgno pg1 ! n = 0" using cap_bounds(2) [of i] by (simp add: pg1_def len)
    then show ?thesis using True by (simp add: wi2_def wi1_def pg1_def page_ok_def ps_def len)
  next
    case False
    then have pg1: "pg1 = wi i" "wi1 = wi" by (simp_all add: pg1_def wi1_def)
    have "zero i < length lg" using False kl by (simp add: n_def)
    then have ok: "page_ok (cap i) (wi i) (frames_of i lg)" using wi by (simp add: wi_ok_def)
    have nl: "n \<le> length (frames_of i lg)" using sn(2) by (simp add: ps_def)
    show ?thesis
    proof (cases "n = length (frames_of i lg)")
      case True
      then have "aPgno pg1 ! n = 0" using ok sn(4) by (simp add: pg1 page_ok_def nth_append)
      with True ok show ?thesis by (simp add: wi2_def pg1 ps_def)
    next
      case less: False
      with nl have lt: "n < length (frames_of i lg)" by simp
      have "frames_of i lg ! n \<in> set lg" using lt nth_mem [OF lt] by (auto simp: frames_of_def dest: in_set_takeD in_set_dropD)
      then have "frames_of i lg ! n \<noteq> 0" using wi by (metis wi_ok_def)
      then have nz: "aPgno pg1 ! n \<noteq> 0" using ok lt by (simp add: pg1 page_ok_def nth_append)
      have "k < length lg" using lt sn(3) by (auto simp: n_def frames_of_def)
      then have km: "k = mxFrame w" using k by simp
      have "walFramePage k = i" using sn(3,4) False by (intro walFramePage_unique) (simp_all add: n_def)
      then have "walCleanupHash mp w wi = wi(i := (wi i)\<lparr>aHash := map (\<lambda>h. if h > n then 0 else h) (aHash (wi i)),
          aPgno := take n (aPgno (wi i)) @ replicate (length (aPgno (wi i)) - n) 0\<rparr>)"
        using False mp by (simp add: walCleanupHash_def walHashGet_eq km [symmetric] i_def [symmetric] n_def [symmetric] Let_def)
          (auto simp: n_def)
      then show ?thesis using page_ok_cut [OF ok nl cap_bounds(1)] nz by (simp add: wi2_def pg1 ps_def)
    qed
  qed
  have lps: "length ps = n" using sn(2) by simp
  define wi3 where "wi3 = wi2(i := \<lparr>aPgno = (aPgno (wi2 i))[n := p],
    aHash = (aHash (wi2 i))[free_slot (aHash (wi2 i)) p := Suc n]\<rparr>)"
  have pl: "length ps < cap i" using lps sn(4) by simp
  note en = page_ok_enter [OF conjunct1 [OF wi2] pl cap_bounds(1), unfolded lps]
  have "walIndexAppend mp w wi (Suc k) p =
    (case append_probe (aHash (wi2 i)) (walHash p) (Suc n) of None \<Rightarrow> (SQLITE_CORRUPT, wi2)
     | Some iKey \<Rightarrow> (0, wi2(i := \<lparr>aPgno = (aPgno (wi2 i))[n := p], aHash = (aHash (wi2 i))[iKey := Suc n]\<rparr>)))"
    using mp unfolding walIndexAppend_def walHashGet_eq i_def [symmetric]
    by (simp only: Let_def prod.case idx diff_Suc_1 simp_thms if_False pg1_def wi1_def wi2_def)
  then have run: "walIndexAppend mp w wi (Suc k) p = (0, wi3)" by (simp add: en(1) wi3_def)
  have "wi_ok wi3 (take k lg @ [p])" unfolding wi_ok_def
  proof (intro conjI allI impI)
    show "0 \<notin> set (take k lg @ [p])" using wi p by (auto simp: wi_ok_def dest: in_set_takeD)
    fix j
    have lj: "length (aPgno (wi j)) = cap j" for j using wi by (simp add: wi_ok_def)
    show "length (aPgno (wi3 j)) = cap j"
      using wi2 lj pl by (cases "j = i") (auto simp: wi3_def page_ok_def)
    assume z: "zero j < length (take k lg @ [p])"
    show "page_ok (cap j) (wi3 j) (frames_of j (take k lg @ [p]))"
    proof (cases "j = i")
      case True
      with en(2) [of p] sn(1) [of p] show ?thesis by (simp add: wi3_def)
    next
      case False
      have "zero j \<le> k" using z kl by simp
      then have "\<not> i < j" using zero_mono [of i j] sn(4) by (auto simp: n_def)
      with False have ji: "zero j + cap j \<le> zero i" using zero_mono [of j i] by simp
      then have "zero j + cap j \<le> k" using sn(3) by simp
      with kl have "frames_of j (take k lg @ [p]) = frames_of j lg" "zero j < length lg"
        using frames_of_before [of j k lg "[p]"] cap_bounds(2) [of j] by auto
      then show ?thesis using wi wi2 False by (auto simp: wi3_def wi_ok_def)
    qed
  qed
  with run show ?thesis by blast
qed

section \<open>Looking up a page\<close>

text \<open>The last of the frames \<open>lo\<close> to \<open>hi\<close> that holds a page, 0 for none: a search backwards through the log.\<close>

fun last_frame :: "pgno list \<Rightarrow> nat \<Rightarrow> nat \<Rightarrow> pgno \<Rightarrow> nat" where
  "last_frame lg lo 0 p = 0"
| "last_frame lg lo (Suc h) p = (if Suc h < lo then 0 else if lg ! h = p then Suc h else last_frame lg lo h p)"

definition holds :: "pgno list \<Rightarrow> nat \<Rightarrow> pgno \<Rightarrow> nat \<Rightarrow> bool" where
  "holds lg lo p f \<longleftrightarrow> 0 < f \<and> lo \<le> f \<and> lg ! (f - 1) = p"

lemma last_frame_unique:
  assumes "r = 0 \<or> r \<le> hi \<and> holds lg lo p r" "\<And>f. f \<le> hi \<Longrightarrow> holds lg lo p f \<Longrightarrow> f \<le> r"
  shows "last_frame lg lo hi p = r"
  using assms
proof (induction hi)
  case (Suc h)
  show ?case
  proof (cases "holds lg lo p (Suc h)")
    case True
    then have "r = Suc h" using Suc.prems by (metis le_antisym le_zero_eq nat.distinct(1) order_refl)
    with True show ?thesis by (simp add: holds_def)
  next
    case False
    then have "r = 0 \<or> r \<le> h \<and> holds lg lo p r" using Suc.prems(1) by (metis le_Suc_eq)
    moreover have "f \<le> r" if "f \<le> h" "holds lg lo p f" for f using Suc.prems(2) that by simp
    ultimately have IH: "last_frame lg lo h p = r" by (rule Suc.IH)
    moreover have "r = 0" if "Suc h < lo" using Suc.prems(1) that by (auto simp: holds_def)
    ultimately show ?thesis using False by (auto simp: holds_def)
  qed
qed (auto simp: holds_def)

lemma fold_last: "foldl (\<lambda>r i. if Q i then g i else r) r xs = (if filter Q xs = [] then r else g (last (filter Q xs)))"
  by (induction xs arbitrary: r) auto

lemma sorted_le_last: "sorted xs \<Longrightarrow> (x :: nat) \<in> set xs \<Longrightarrow> x \<le> last xs"
  by (induction xs) (auto dest: last_in_set)

text \<open>One table gives the last frame of the page among its own.\<close>

lemma find_in_page:
  assumes wi: "wi_ok wi lg" and z: "zero i < length lg"
  obtains r where "wal_find_loop (wi i) (zero i) hi lo p (walHash p) HASHTABLE_NSLOT 0 = Some r"
    "r = 0 \<or> r \<le> hi \<and> zero i < r \<and> r \<le> length lg \<and> holds lg lo p r"
    "\<And>f. f \<le> hi \<Longrightarrow> f \<le> length lg \<Longrightarrow> zero i < f \<Longrightarrow> f \<le> zero i + cap i \<Longrightarrow> holds lg lo p f \<Longrightarrow> f \<le> r"
proof -
  let ?ps = "frames_of i lg" and ?pg = "wi i"
  let ?n = "length ?ps"
  have ok: "page_ok (cap i) ?pg ?ps" using wi z by (simp add: wi_ok_def)
  have n: "?n \<le> HASHTABLE_NPAGE" using ok cap_bounds(1) [of i] by (simp add: page_ok_def)
  have h: "aHash ?pg = table ?ps ?n" using ok by (simp add: page_ok_def)
  have t: "tab_ok (aHash ?pg) ?ps ?n" unfolding h by (rule slot_table_ok [OF n])
  then have len: "length (aHash ?pg) = HASHTABLE_NSLOT" by (simp add: tab_ok_def)
  have few: "length (slot_entries (aHash ?pg)) < HASHTABLE_NSLOT" using tab_count [OF t] n by (simp add: wal_consts)
  obtain ys where R: "rotate (walHash p) (aHash ?pg) = run (aHash ?pg) p @ 0 # ys" "0 \<notin> set (run (aHash ?pg) p)"
    "length (run (aHash ?pg) p) \<le> length (slot_entries (aHash ?pg))" using run_split [OF len few] by metis
  define Q where "Q = (\<lambda>j. j + zero i \<le> hi \<and> j + zero i \<ge> lo \<and> aPgno ?pg ! (j - 1) = p)"
  let ?xs = "filter Q (run (aHash ?pg) p)"
  have loop: "wal_find_loop ?pg (zero i) hi lo p (walHash p) HASHTABLE_NSLOT 0 =
    Some (if ?xs = [] then 0 else last ?xs + zero i)"
    using wal_find_loop_fold [OF len walHash_less R(1,2), of HASHTABLE_NSLOT "zero i" hi lo p 0] R(3) few
    by (simp add: fold_last Q_def)
  have pg: "aPgno ?pg ! (j - 1) = ?ps ! (j - 1) \<and> lg ! (j + zero i - 1) = ?ps ! (j - 1)" if "j \<in> {1..?n}" for j
    using ok that by (auto simp: page_ok_def nth_append frames_of_def add.commute)
  have runs: "set (run (aHash ?pg) p) \<subseteq> {1..?n}"
  proof
    fix j assume "j \<in> set (run (aHash ?pg) p)"
    then have "j \<in> set (rotate (walHash p) (aHash ?pg))" "j \<noteq> 0" using R(2) by (simp add: R(1), metis)
    then have "j \<in> set (slot_entries (aHash ?pg))" by (simp add: slot_entries_def)
    then show "j \<in> {1..?n}" using t by (auto simp: tab_ok_def)
  qed
  have xs: "?xs = filter Q [1..<?n + 1]"
  proof -
    let ?P = "\<lambda>j. ?ps ! (j - 1) = p"
    have "?xs = filter Q (filter ?P (run (aHash ?pg) p))"
      unfolding filter_filter by (rule filter_cong) (use runs pg in \<open>auto simp: Q_def\<close>)
    also have "\<dots> = filter Q (filter ?P [1..<?n + 1])" using t by (simp add: tab_ok_def del: upt_Suc)
    also have "\<dots> = filter Q [1..<?n + 1]"
      unfolding filter_filter by (rule filter_cong) (use pg in \<open>auto simp: Q_def simp del: upt_Suc\<close>)
    finally show ?thesis .
  qed
  have nl: "?n + zero i \<le> length lg" using z by (simp add: frames_of_def)
  have H: "holds lg lo p (j + zero i) \<longleftrightarrow> aPgno ?pg ! (j - 1) = p \<and> lo \<le> j + zero i" if "j \<in> {1..?n}" for j
    using pg [OF that] that by (auto simp: holds_def)
  show thesis
  proof (rule that [OF loop])
    show "(if ?xs = [] then 0 else last ?xs + zero i) = 0 \<or> (if ?xs = [] then 0 else last ?xs + zero i) \<le> hi \<and>
      zero i < (if ?xs = [] then 0 else last ?xs + zero i) \<and> (if ?xs = [] then 0 else last ?xs + zero i) \<le> length lg \<and>
      holds lg lo p (if ?xs = [] then 0 else last ?xs + zero i)"
    proof (cases "?xs = []")
      case False
      then have "last ?xs \<in> set (filter Q [1..<?n + 1])" unfolding xs by (rule last_in_set)
      then have "last ?xs \<in> {1..?n}" "Q (last ?xs)" by (auto simp del: upt_Suc)
      with False nl H [of "last ?xs"] show ?thesis by (auto simp: Q_def)
    qed simp
    fix f assume f: "f \<le> hi" "f \<le> length lg" "zero i < f" "f \<le> zero i + cap i" "holds lg lo p f"
    define j where "j = f - zero i"
    have j: "j \<in> {1..?n}" "f = j + zero i" using f by (auto simp: j_def frames_of_def)
    then have "Q j" using f H [of j] by (auto simp: Q_def)
    then have m: "j \<in> set (filter Q [1..<?n + 1])" using j(1) by (simp del: upt_Suc)
    then have ne: "?xs \<noteq> []" unfolding xs by (metis empty_iff empty_set)
    have "sorted (filter Q [1..<?n + 1])" by (simp add: sorted_wrt_filter del: upt_Suc)
    then have "j \<le> last (filter Q [1..<?n + 1])" using m by (rule sorted_le_last)
    with ne xs j(2) show "f \<le> (if ?xs = [] then 0 else last ?xs + zero i)" by simp
  qed
qed

lemma find_tables_last:
  assumes wi: "wi_ok wi lg" and mp: "\<And>j. mp j = 0" and hi: "mxFrame w \<le> length lg" and lo: "0 < minFrame w"
  shows "zero i < mxFrame w \<Longrightarrow> (\<And>f. f \<le> mxFrame w \<Longrightarrow> holds lg (minFrame w) p f \<Longrightarrow> f \<le> zero i + cap i) \<Longrightarrow>
    find_tables mp w wi p i = (0, last_frame lg (minFrame w) (mxFrame w) p)"
proof (induction i rule: less_induct)
  case (less i)
  let ?lo = "minFrame w" and ?hi = "mxFrame w"
  show ?case
  proof (cases "i < walFramePage ?lo")
    case True
    have "\<not> holds lg ?lo p f" if "f \<le> ?hi" for f
      using less.prems(2) [OF that] zero_mono [OF True] walFramePage_range [OF lo] by (auto simp: holds_def)
    then have "last_frame lg ?lo ?hi p = 0" by (intro last_frame_unique) auto
    with True show ?thesis by (simp add: find_tables.simps)
  next
    case False
    have z: "zero i < length lg" using less.prems(1) hi by simp
    obtain r where r: "wal_find_loop (wi i) (zero i) ?hi ?lo p (walHash p) HASHTABLE_NSLOT 0 = Some r"
      "r = 0 \<or> r \<le> ?hi \<and> zero i < r \<and> r \<le> length lg \<and> holds lg ?lo p r"
      "\<And>f. f \<le> ?hi \<Longrightarrow> f \<le> length lg \<Longrightarrow> zero i < f \<Longrightarrow> f \<le> zero i + cap i \<Longrightarrow> holds lg ?lo p f \<Longrightarrow> f \<le> r"
      by (rule find_in_page [OF wi z]) blast
    have top: "f \<le> r \<or> f \<le> zero i" if "f \<le> ?hi" "holds lg ?lo p f" for f
      using r(3) [OF that(1) _ _ less.prems(2) [OF that] that(2)] that(1) hi by force
    show ?thesis
    proof (cases "r = 0")
      case True
      then have below: "f \<le> zero i" if "f \<le> ?hi" "holds lg ?lo p f" for f using top [OF that] by auto
      show ?thesis
      proof (cases i)
        case 0
        have "\<not> holds lg ?lo p f" if "f \<le> ?hi" for f using below [OF that] 0 by (auto simp: zero_def holds_def)
        then have "last_frame lg ?lo ?hi p = 0" by (intro last_frame_unique) auto
        with 0 True False r(1) mp show ?thesis by (subst find_tables.simps) (simp add: walHashGet_eq)
      next
        case (Suc j)
        have "find_tables mp w wi p j = (0, last_frame lg ?lo ?hi p)"
          using less.prems(1) below zero_next [of j] by (intro less.IH) (simp_all add: Suc)
        with Suc True False r(1) mp show ?thesis by (subst find_tables.simps) (simp add: walHashGet_eq)
      qed
    next
      case pos: False
      have "last_frame lg ?lo ?hi p = r"
        using r(2) pos top by (intro last_frame_unique) force+
      with pos False r(1) mp show ?thesis by (subst find_tables.simps) (simp add: walHashGet_eq)
    qed
  qed
qed

lemma walFindFrame_last:
  assumes "wi_ok wi lg" "\<And>j. mp j = 0" "mxFrame w \<le> length lg" "0 < minFrame w" "readLock w \<noteq> 0"
  shows "walFindFrame mp w wi p = (0, last_frame lg (minFrame w) (mxFrame w) p)"
proof (cases "mxFrame w = 0")
  case False
  with walFramePage_range [of "mxFrame w"]
  have "find_tables mp w wi p (walFramePage (mxFrame w)) = (0, last_frame lg (minFrame w) (mxFrame w) p)"
    by (intro find_tables_last assms) auto
  with False assms(5) show ?thesis by (simp add: walFindFrame_def)
qed (simp add: walFindFrame_def)

section \<open>Writers and readers\<close>

text \<open>Cutting the log: a handle gives up the frames behind its end.\<close>

lemma walCleanupHash_ok:
  assumes wi: "wi_ok wi lg" and m: "mxFrame w \<le> length lg" and mp: "\<And>j. mp j = 0"
  shows "wi_ok (walCleanupHash mp w wi) (take (mxFrame w) lg)"
proof -
  let ?m = "mxFrame w"
  have cut: "page_ok (cap j) (wi j) (frames_of j (take ?m lg))" if "zero j + cap j \<le> ?m" for j
    using wi m that frames_of_before [of j ?m lg "[]"] cap_bounds(2) [of j] by (auto simp: wi_ok_def)
  have lens: "length (aPgno (wi j)) = cap j" for j using wi by (simp add: wi_ok_def)
  have nz: "0 \<notin> set (take ?m lg)" using wi by (auto simp: wi_ok_def dest: in_set_takeD)
  show ?thesis
  proof (cases "?m = 0")
    case True
    then show ?thesis using lens by (simp add: walCleanupHash_def wi_ok_def)
  next
    case False
    define i where "i = walFramePage ?m"
    define n where "n = ?m - zero i"
    have r: "zero i < ?m" "?m \<le> zero i + cap i" using walFramePage_range [of ?m] False by (simp_all add: i_def)
    have ok: "page_ok (cap i) (wi i) (frames_of i lg)" using wi r(1) m by (simp add: wi_ok_def)
    have fr: "frames_of i (take ?m lg) = take n (frames_of i lg)" using r m by (simp add: frames_of_def drop_take n_def min_def)
    have "n \<le> length (frames_of i lg)" using r m by (simp add: n_def frames_of_def) linarith
    note c = page_ok_cut [OF ok this cap_bounds(1), folded fr]
    have w: "walCleanupHash mp w wi = wi(i := (wi i)\<lparr>aHash := map (\<lambda>h. if h > n then 0 else h) (aHash (wi i)),
        aPgno := take n (aPgno (wi i)) @ replicate (length (aPgno (wi i)) - n) 0\<rparr>)"
      using False mp by (simp add: walCleanupHash_def walHashGet_eq i_def [symmetric] n_def [symmetric] Let_def)
    have "page_ok (cap j) (walCleanupHash mp w wi j) (frames_of j (take ?m lg))" if "zero j < ?m" for j
    proof (cases "j = i")
      case False
      then have "zero j + cap j \<le> ?m" using zero_mono [of j i] zero_mono [of i j] r that by force
      with False cut show ?thesis by (simp add: w)
    qed (simp add: w c)
    moreover have "length (aPgno (walCleanupHash mp w wi j)) = cap j" for j
      using lens r by (simp add: w n_def)
    ultimately show ?thesis using nz by (simp add: wi_ok_def)
  qed
qed

lemma append_frames_ok:
  assumes "wi_ok wi lg" "k = length lg \<or> k = mxFrame w \<and> k \<le> length lg" "0 \<notin> set ps" "\<And>j. mp j = 0"
  shows "\<exists>wi' lg'. append_frames mp w wi k ps = (0, wi', k + length ps) \<and> wi_ok wi' lg' \<and> take (k + length ps) lg' = take k lg @ ps \<and>
    k + length ps \<le> length lg'"
  using assms
proof (induction ps arbitrary: wi lg k)
  case Nil
  then show ?case by (intro exI [of _ wi] exI [of _ lg]) auto
next
  case (Cons p ps)
  have kl: "k \<le> length lg" using Cons.prems(2) by auto
  have "p \<noteq> 0" using Cons.prems(3) by auto
  from walIndexAppend_ok [OF Cons.prems(1) this Cons.prems(2), of mp] Cons.prems(4) obtain wi1 where
    w: "walIndexAppend mp w wi (Suc k) p = (0, wi1)" "wi_ok wi1 (take k lg @ [p])" by auto
  have l: "Suc k = length (take k lg @ [p])" using kl by simp
  have "0 \<notin> set ps" using Cons.prems(3) by simp
  from Cons.IH [OF w(2) disjI1 [OF l] this Cons.prems(4)] obtain wi2 lg2 where
    r: "append_frames mp w wi1 (Suc k) ps = (0, wi2, Suc k + length ps)" "wi_ok wi2 lg2"
    "take (Suc k + length ps) lg2 = take (Suc k) (take k lg @ [p]) @ ps" "Suc k + length ps \<le> length lg2" by blast
  have "take (Suc k) (take k lg @ [p]) = take k lg @ [p]" using kl by simp
  with r w(1) show ?case by (intro exI [of _ wi2] exI [of _ lg2]) simp
qed

lemma walFramePgno_eq:
  assumes "wi_ok wi lg" "0 < f" "f \<le> length lg"
  shows "walFramePgno wi f = lg ! (f - 1)"
proof -
  let ?i = "walFramePage f"
  have r: "zero ?i < f" "f \<le> zero ?i + cap ?i" using walFramePage_range [OF assms(2)] by auto
  then have ok: "page_ok (cap ?i) (wi ?i) (frames_of ?i lg)" using assms(1,3) by (simp add: wi_ok_def)
  have "aPgno (wi ?i) ! (f - 1 - zero ?i) = lg ! (f - 1)"
    using ok r assms(3) by (auto simp: page_ok_def nth_append frames_of_def)
  moreover have "(f - 1 - HASHTABLE_NPAGE_ONE) mod HASHTABLE_NPAGE = f - 1 - zero ?i" if "?i \<noteq> 0"
  proof -
    have "f - 1 - HASHTABLE_NPAGE_ONE = (?i - 1) * HASHTABLE_NPAGE + (f - 1 - zero ?i)" "f - 1 - zero ?i < HASHTABLE_NPAGE"
      using r that by (simp_all add: zero_def cap_def)
    then show ?thesis by simp
  qed
  ultimately show ?thesis by (cases "?i = 0") (simp_all add: walFramePgno_def Let_def zero_def)
qed

text \<open>The writer's operations on a handle and the shared index, another connection that takes over from the header of
  the last commit after a crash, and a reader with the end of the log it saw when it started.\<close>

datatype wal_op = WalFrames "pgno list" | WalUndo nat | WalSavepointUndo nat | WalTakeOver nat | WalFind pgno nat nat

datatype wal_answer = WalRc int | WalPages "pgno list" | WalFrame int nat | WalDone

fun wal_step :: "wal \<times> wal_index \<Rightarrow> wal_op \<Rightarrow> (wal_answer \<times> wal \<times> wal_index) option" where
  "wal_step (w, wi) (WalFrames ps) = (case index_frames (\<lambda>_. 0) w wi ps of (rc, w', wi') \<Rightarrow> Some (WalRc rc, w', wi'))"
| "wal_step (w, wi) (WalUndo m) =
     (case sqlite3WalUndo (\<lambda>_. 0) (\<lambda>_. 0) (\<lambda>w. w\<lparr>mxFrame := min m (mxFrame w)\<rparr>) w wi of ((rc, ps), w', wi') \<Rightarrow> Some (WalPages ps, w', wi'))"
| "wal_step (w, wi) (WalSavepointUndo m) =
     (case sqlite3WalSavepointUndo (\<lambda>_. 0) (m, aFrameCksum w, nCkpt w) w wi of (sv, w', wi') \<Rightarrow> Some (WalDone, w', wi'))"
| "wal_step (w, wi) (WalTakeOver m) = Some (WalDone, w\<lparr>mxFrame := min m (mxFrame w)\<rparr>, wi)"
| "wal_step (w, wi) (WalFind p lo hi) =
     (case walFindFrame (\<lambda>_. 0) (w\<lparr>minFrame := lo, mxFrame := min hi (mxFrame w), readLock := 1\<rparr>) wi p of (rc, f) \<Rightarrow> Some (WalFrame rc f, w, wi))"

fun log_step :: "pgno list \<Rightarrow> wal_op \<Rightarrow> wal_answer \<times> pgno list" where
  "log_step lg (WalFrames ps) = (WalRc 0, lg @ ps)"
| "log_step lg (WalUndo m) = (WalPages (drop m lg), take m lg)"
| "log_step lg (WalSavepointUndo m) = (WalDone, take m lg)"
| "log_step lg (WalTakeOver m) = (WalDone, take m lg)"
| "log_step lg (WalFind p lo hi) = (WalFrame 0 (last_frame lg lo (min hi (length lg)) p), lg)"

fun wal_op_ok :: "wal_op \<Rightarrow> bool" where
  "wal_op_ok (WalFrames ps) = (0 \<notin> set ps)"
| "wal_op_ok (WalFind p lo hi) = (0 < lo)"
| "wal_op_ok _ = True"

definition wal_inv :: "wal \<times> wal_index \<Rightarrow> bool" where
  "wal_inv s \<longleftrightarrow> (\<exists>lg. wi_ok (snd s) lg \<and> mxFrame (fst s) \<le> length lg)"

definition wal_log :: "wal \<times> wal_index \<Rightarrow> pgno list" where
  "wal_log s = map (walFramePgno (snd s)) [1..<mxFrame (fst s) + 1]"

lemma wal_log_eq: "wi_ok wi lg \<Longrightarrow> mxFrame w \<le> length lg \<Longrightarrow> wal_log (w, wi) = take (mxFrame w) lg"
  by (rule nth_equalityI) (simp_all add: wal_log_def walFramePgno_eq nth_append del: upt_Suc)

lemma last_frame_take: "hi \<le> k \<Longrightarrow> last_frame (take k lg) lo hi p = last_frame lg lo hi p"
  by (induction hi) auto

lemma undo_loop_ok: "undo_loop (\<lambda>_. 0) wi fs = (0, map (walFramePgno wi) fs)"
  by (induction fs) (simp_all add: Let_def)

lemma wal_step_refines:
  assumes "wal_inv s" "wal_op_ok c"
  shows "\<exists>s'. wal_step s c = Some (fst (log_step (wal_log s) c), s') \<and> wal_inv s' \<and> wal_log s' = snd (log_step (wal_log s) c)"
proof -
  obtain w wi where s: "s = (w, wi)" by (cases s)
  from assms(1) obtain lg where lg: "wi_ok wi lg" "mxFrame w \<le> length lg" by (auto simp: wal_inv_def s)
  note L = wal_log_eq [OF lg]
  let ?cut = "\<lambda>m. w\<lparr>mxFrame := min m (mxFrame w)\<rparr>"
  have cutlog: "wal_log (v, vi) = take m (wal_log s)"
    if "mxFrame v = min m (mxFrame w)" "wi_ok vi lg'" "mxFrame v \<le> length lg'" "take (mxFrame v) lg' = take (mxFrame v) lg" for v vi lg' m
    using wal_log_eq [OF that(2,3)] that L by (simp add: s min.commute)
  have clean: "wi_ok (walCleanupHash (\<lambda>_. 0) v wi) (take (mxFrame v) lg)" if "mxFrame v \<le> mxFrame w" for v
    using that lg by (intro walCleanupHash_ok) auto
  show ?thesis
  proof (cases c)
    case (WalFrames ps)
    have "0 \<notin> set ps" using assms(2) WalFrames by simp
    from append_frames_ok [OF lg(1) _ this, of "mxFrame w" w "\<lambda>_. 0"] lg(2) obtain vi lg' where
      r: "append_frames (\<lambda>_. 0) w wi (mxFrame w) ps = (0, vi, mxFrame w + length ps)" "wi_ok vi lg'"
      "take (mxFrame w + length ps) lg' = take (mxFrame w) lg @ ps" "mxFrame w + length ps \<le> length lg'" by auto
    have "wal_log (w\<lparr>mxFrame := mxFrame w + length ps\<rparr>, vi) = wal_log s @ ps"
      using wal_log_eq [OF r(2), of "w\<lparr>mxFrame := mxFrame w + length ps\<rparr>"] r(3,4) L by (simp add: s)
    with r show ?thesis by (auto simp: s WalFrames index_frames_def wal_inv_def)
  next
    case (WalUndo m)
    let ?w = "?cut m" and ?wi = "if mxFrame w \<noteq> mxFrame (?cut m) then walCleanupHash (\<lambda>_. 0) (?cut m) wi else wi"
    let ?lg = "if mxFrame w \<noteq> mxFrame (?cut m) then take (mxFrame (?cut m)) lg else lg"
    have ok: "wi_ok ?wi ?lg" "mxFrame ?w \<le> length ?lg" using clean [of ?w] lg by auto
    have "wal_log (?w, ?wi) = take m (wal_log s)" by (rule cutlog [OF _ ok]) auto
    moreover have "map (walFramePgno wi) [mxFrame ?w + 1..<mxFrame w + 1] = drop m (wal_log s)"
      by (simp add: s wal_log_def drop_map min_def del: upt_Suc)
    moreover have "wal_inv (?w, ?wi)" using ok unfolding wal_inv_def fst_conv snd_conv by blast
    moreover have "wal_step s c = Some (WalPages (map (walFramePgno wi) [mxFrame ?w + 1..<mxFrame w + 1]), ?w, ?wi)"
      by (simp add: s WalUndo sqlite3WalUndo_def Let_def undo_loop_ok del: upt_Suc)
    ultimately show ?thesis by (simp add: WalUndo)
  next
    case (WalSavepointUndo m)
    show ?thesis
    proof (cases "m < mxFrame w")
      case True
      let ?w = "w\<lparr>mxFrame := m, aFrameCksum := aFrameCksum w\<rparr>"
      have ok: "wi_ok (walCleanupHash (\<lambda>_. 0) ?w wi) (take m lg)" "mxFrame ?w \<le> length (take m lg)"
        using clean [of ?w] lg True by auto
      have "wal_log (?w, walCleanupHash (\<lambda>_. 0) ?w wi) = take m (wal_log s)" by (rule cutlog [OF _ ok]) (use True in auto)
      with ok True show ?thesis by (auto simp: s WalSavepointUndo sqlite3WalSavepointUndo_def Let_def wal_inv_def)
    next
      case False
      then have "take m (wal_log s) = wal_log s" by (simp add: s wal_log_def)
      with False assms(1) show ?thesis by (simp add: s WalSavepointUndo sqlite3WalSavepointUndo_def Let_def)
    qed
  next
    case (WalTakeOver m)
    have "wal_log (?cut m, wi) = take m (wal_log s)" by (rule cutlog [OF _ lg(1)]) (use lg in auto)
    with lg show ?thesis by (auto simp: s WalTakeOver wal_inv_def)
  next
    case (WalFind p lo hi)
    let ?w = "w\<lparr>minFrame := lo, mxFrame := min hi (mxFrame w), readLock := 1\<rparr>"
    have "walFindFrame (\<lambda>_. 0) ?w wi p = (0, last_frame lg (minFrame ?w) (mxFrame ?w) p)"
      using assms(2) lg by (intro walFindFrame_last) (auto simp: WalFind)
    moreover have "last_frame (wal_log s) lo (min hi (length (wal_log s))) p = last_frame lg lo (min hi (mxFrame w)) p"
      using L lg by (simp add: s last_frame_take min_absorb2)
    ultimately show ?thesis using assms(1) by (simp add: s WalFind)
  qed
qed

interpretation wal_index_log: refined_object wal_step wal_inv wal_log log_step wal_op_ok
  by unfold_locales (rule wal_step_refines)

section \<open>Properties\<close>

lemma wal_start: "(\<And>i. length (aPgno (wi i)) = cap i) \<Longrightarrow> mxFrame w = 0 \<Longrightarrow> wal_inv (w, wi) \<and> wal_log (w, wi) = []"
  by (auto simp: wal_inv_def wi_ok_def wal_log_def intro: exI [of _ "[]"])

text \<open>C20. Refinement.  Whatever sequence of commits, spilled pages, rollbacks, savepoints and crashes of writers is
  interleaved with the look-ups of readers, the hash tables of the log's index answer as a list of page numbers
  searched backwards does: a reader finds the last frame of its page between its first frame and the end of the log
  it saw, and none when there is none.  What an earlier log left in the index, or a writer that died in the middle
  of a transaction, is never found, and no table is ever too full.\<close>

theorem wal_index_refines_log:
  assumes "mxFrame w = 0" "\<And>i. length (aPgno (wi i)) = cap i" "list_all wal_op_ok ops"
  shows "map_option fst (run_steps wal_step (w, wi) ops) = Some (fst (run_spec log_step [] ops))"
  using wal_index_log.run_refines [of "(w, wi)" ops] wal_start [of wi w] assms by auto

text \<open>An index of pages with any content, and a handle at the start of a log.\<close>

abbreviation old_index :: wal_index where
  "old_index \<equiv> \<lambda>i. \<lparr>aPgno = replicate (cap i) 7, aHash = replicate 8192 1\<rparr>"

abbreviation new_log :: wal where
  "new_log \<equiv> \<lparr>mxFrame = 0, nPage = 0, bigEndCksum = False, hdr_szPage = 4096, aFrameCksum = (0, 0), aSalt = [], szPage = 4096,
     minFrame = 1, readLock = 1, bShmUnreliable = False, iReCksum = 0, nCkpt = 0\<rparr>"

lemma last_frame_numeral: "last_frame lg lo (numeral k) p =
    (if numeral k < lo then 0 else if lg ! pred_numeral k = p then numeral k else last_frame lg lo (pred_numeral k) p)"
  by (simp add: numeral_eq_Suc)

theorem wal_index_refines_log_witness:
  "map_option fst (run_steps wal_step (new_log, old_index)
     [WalFrames [1, 5, 2], WalFind 5 1 3, WalFrames [5, 8193], WalFind 5 1 3, WalFind 5 1 5, WalFind 7 1 5,
      WalTakeOver 3, WalFrames [1], WalFind 8193 1 4, WalUndo 2, WalFind 1 1 9]) =
   Some [WalRc 0, WalFrame 0 2, WalRc 0, WalFrame 0 2, WalFrame 0 4, WalFrame 0 0, WalDone, WalRc 0, WalFrame 0 0,
     WalPages [2, 1], WalFrame 0 1]"
  by (subst wal_index_refines_log) (simp_all add: last_frame_numeral)

end
