(* ===== verification/Wal_Iterator_Props.thy ===== *)
theory Wal_Iterator_Props
  imports Wal_Iterator Wal_Index_Props
begin

text \<open>
  The iterator of a checkpoint: the merge sort keeps the last entry of every page, and the iterator visits the pages
  of the log in ascending order, each with its last frame.
\<close>

section \<open>Merging\<close>

text \<open>\<open>digest c A ys\<close>: of the slot_entries \<open>A\<close>, \<open>ys\<close> has the last one of every page, in the order of the pages.\<close>

definition ascending :: "pgno list \<Rightarrow> nat list \<Rightarrow> bool" where
  "ascending c ys \<longleftrightarrow> sorted_wrt (\<lambda>i j. c ! i < c ! j) ys"

definition digest :: "pgno list \<Rightarrow> nat set \<Rightarrow> nat list \<Rightarrow> bool" where
  "digest c A ys \<longleftrightarrow> ascending c ys \<and> set ys \<subseteq> A \<and> (\<forall>a\<in>A. \<exists>y\<in>set ys. c ! y = c ! a \<and> a \<le> y)"

lemma ascending_simps: "ascending c []" "ascending c (y # ys) \<longleftrightarrow> (\<forall>z\<in>set ys. c ! y < c ! z) \<and> ascending c ys"
  by (simp_all add: ascending_def)

lemma walMerge_Nil: "walMerge c [] [] = []"
  by (simp add: walMerge.simps)

lemma walMerge_left:
  "l = x # l1 \<Longrightarrow> r = [] \<or> c ! x < c ! hd r \<Longrightarrow> l2 = (if l1 \<noteq> [] \<and> c ! hd l1 = c ! x then tl l1 else l1) \<Longrightarrow>
    walMerge c l r = x # walMerge c l2 r"
  by (subst walMerge.simps) auto

lemma walMerge_right:
  "r = x # r1 \<Longrightarrow> l = [] \<or> \<not> c ! hd l < c ! x \<Longrightarrow> l2 = (if l \<noteq> [] \<and> c ! hd l = c ! x then tl l else l) \<Longrightarrow>
    walMerge c l r = x # walMerge c l2 r1"
  by (subst walMerge.simps) auto

lemma walMerge_props:
  "\<lbrakk>ascending c l; ascending c r\<rbrakk> \<Longrightarrow>
    ascending c (walMerge c l r) \<and> set (walMerge c l r) \<subseteq> set l \<union> set r \<and> set r \<subseteq> set (walMerge c l r) \<and>
    (\<forall>x\<in>set l. x \<in> set (walMerge c l r) \<or> (\<exists>y\<in>set r. c ! y = c ! x))"
proof (induction "length l + length r" arbitrary: l r rule: less_induct)
  case less
  show ?case
  proof (cases "l = [] \<and> r = []")
    case False
    show ?thesis
    proof (cases "l \<noteq> [] \<and> (r = [] \<or> c ! hd l < c ! hd r)")
      case True
      then obtain x l1 where l: "l = x # l1" by (cases l) auto
      have up: "\<forall>z\<in>set l1. c ! x < c ! z" "ascending c l1" using less.prems(1) by (simp_all add: l ascending_simps)
      have ur: "\<forall>z\<in>set r. c ! x < c ! z" using True less.prems(2) by (cases r) (auto simp: l ascending_simps)
      have eq: "walMerge c l r = x # walMerge c l1 r"
        using True up(1) by (intro walMerge_left [OF l]) (auto simp: l neq_Nil_conv)
      have "length l1 + length r < length l + length r" by (simp add: l)
      from less.hyps [OF this up(2) less.prems(2)] up ur show ?thesis
        unfolding eq ascending_simps by (auto simp: l)
    next
      case right: False
      then obtain x r1 where r: "r = x # r1" using False by (cases r) auto
      have ur: "\<forall>z\<in>set r1. c ! x < c ! z" "ascending c r1" using less.prems(2) by (simp_all add: r ascending_simps)
      define l2 where "l2 = (if l \<noteq> [] \<and> c ! hd l = c ! x then tl l else l)"
      have eq: "walMerge c l r = x # walMerge c l2 r1"
        using right by (intro walMerge_right [OF r _ l2_def]) (auto simp: r)
      have l2: "ascending c l2" "set l2 \<subseteq> set l" "\<forall>z\<in>set l. z \<in> set l2 \<or> c ! z = c ! x" "length l2 \<le> length l"
        using less.prems(1) by (cases l; auto simp: l2_def ascending_simps)+
      have ul: "\<forall>z\<in>set l2. c ! x < c ! z"
        using less.prems(1) right by (cases l) (auto simp: l2_def r ascending_simps not_less order.order_iff_strict)
      have "length l2 + length r1 < length l + length r" using l2(4) by (simp add: r)
      from less.hyps [OF this l2(1) ur(2)] ur ul l2(2,3) show ?thesis
        unfolding eq ascending_simps by (auto simp: r)
    qed
  qed (simp add: walMerge_Nil ascending_simps)
qed

lemma digest_merge:
  assumes "digest c A l" "digest c B r" "\<And>a b. a \<in> A \<Longrightarrow> b \<in> B \<Longrightarrow> a < b"
  shows "digest c (A \<union> B) (walMerge c l r)"
proof -
  have m: "ascending c (walMerge c l r)" "set (walMerge c l r) \<subseteq> set l \<union> set r" "set r \<subseteq> set (walMerge c l r)"
    "\<And>x. x \<in> set l \<Longrightarrow> x \<in> set (walMerge c l r) \<or> (\<exists>y\<in>set r. c ! y = c ! x)"
    using walMerge_props [of c l r] assms(1,2) by (auto simp: digest_def)
  have "\<exists>y\<in>set (walMerge c l r). c ! y = c ! a \<and> a \<le> y" if "a \<in> A \<union> B" for a
  proof (cases "a \<in> B")
    case True
    then obtain y where "y \<in> set r" "c ! y = c ! a" "a \<le> y" using assms(2) unfolding digest_def by blast
    with m(3) show ?thesis by blast
  next
    case False
    with that have "a \<in> A" by simp
    then obtain y where y: "y \<in> set l" "c ! y = c ! a" "a \<le> y" using assms(1) by (auto simp: digest_def)
    show ?thesis
    proof (cases "y \<in> set (walMerge c l r)")
      case False
      then obtain z where z: "z \<in> set r" "c ! z = c ! y" using m(4) [OF y(1)] by blast
      have "z \<in> B" using z(1) assms(2) by (auto simp: digest_def)
      then have "a < z" using assms(3) \<open>a \<in> A\<close> by blast
      with z m(3) y show ?thesis by (intro bexI [of _ z]) auto
    qed (use y in blast)
  qed
  with m(1,2) assms(1,2) show ?thesis by (auto simp: digest_def)
qed

section \<open>Sorting\<close>

text \<open>Entry \<open>j\<close> of the counter at index \<open>k\<close>, where bit \<open>j\<close> of \<open>k\<close> is set, has the digest of the \<open>2 ^ j\<close> slot_entries from
  \<open>low j k\<close>.\<close>

definition low :: "nat \<Rightarrow> nat \<Rightarrow> nat" where
  "low j k = k div 2 ^ Suc j * 2 ^ Suc j"

definition counter :: "pgno list \<Rightarrow> nat list list \<Rightarrow> nat \<Rightarrow> bool" where
  "counter c aSub k \<longleftrightarrow> length aSub = 13 \<and> (\<forall>j<13. odd (k div 2 ^ j) \<longrightarrow> digest c {low j k..<low j k + 2 ^ j} (aSub ! j))"

lemma digest_single: "digest c {k..<Suc k} [k]"
  by (auto simp: digest_def ascending_def)

lemma div_Suc_power: "k div 2 ^ Suc j = k div 2 ^ j div 2" for k :: nat
  by (simp only: power_Suc2 div_mult2_eq)

lemma block_div: "(q * 2 ^ s + (2 ^ s - 1)) div 2 ^ s = q" for q :: nat
  by (subst div_mult_self3) simp_all

lemma digest_join:
  "digest c {a..<b} l \<Longrightarrow> digest c {b..<d} r \<Longrightarrow> a \<le> b \<Longrightarrow> b \<le> d \<Longrightarrow> digest c {a..<d} (walMerge c l r)"
  using digest_merge [of c "{a..<b}" l "{b..<d}" r] by (simp add: ivl_disj_un_two(3))

lemma merge_fill_ok:
  "\<lbrakk>counter c aSub k; k < 4096; s < 13; k = q * 2 ^ s + (2 ^ s - 1); digest c {Suc k - 2 ^ s..<Suc k} m\<rbrakk> \<Longrightarrow>
    \<exists>s' m' q'. merge_fill c aSub k s m = (s', m') \<and> s' < 13 \<and> even q' \<and> k = q' * 2 ^ s' + (2 ^ s' - 1) \<and> digest c {Suc k - 2 ^ s'..<Suc k} m'"
proof (induction q arbitrary: s m rule: less_induct)
  case (less q)
  have q: "k div 2 ^ s = q" unfolding less.prems(4) by (rule block_div)
  show ?case
  proof (cases "odd q")
    case True
    then obtain p where p: "q = 2 * p + 1" by (rule oddE)
    have k: "k = p * 2 ^ Suc s + (2 ^ Suc s - 1)" using less.prems(4) by (simp add: p algebra_simps)
    have kd: "k div 2 ^ Suc s = p" unfolding k by (rule block_div)
    have Sk: "Suc k = p * 2 ^ Suc s + 2 ^ Suc s" using k by (simp del: power_Suc)
    have lo: "low s k = Suc k - 2 ^ Suc s" "low s k + 2 ^ s = Suc k - 2 ^ s"
      unfolding low_def kd Sk by (simp_all del: power_Suc) simp
    have "(2 :: nat) ^ Suc s \<le> Suc k" using k by simp
    then have "(2 :: nat) ^ Suc s \<le> 2 ^ 12" using less.prems(2) by simp
    then have s: "Suc s < 13" by (metis less_Suc_eq_le numeral_eq_Suc one_less_numeral_iff pred_numeral_simps(2) power_le_imp_le_exp semiring_norm(76) less_Suc_eq_le eval_nat_numeral(3))
    have "digest c {Suc k - 2 ^ Suc s..<Suc k - 2 ^ s} (aSub ! s)"
      using less.prems(1,3) True unfolding counter_def q [symmetric] lo(2) [symmetric] lo(1) [symmetric] by blast
    moreover have "Suc k - 2 ^ Suc s \<le> Suc k - 2 ^ s" by (intro diff_le_mono2) simp
    ultimately have "digest c {Suc k - 2 ^ Suc s..<Suc k} (walMerge c (aSub ! s) m)" using less.prems(5) by (intro digest_join) auto
    from less.IH [OF _ less.prems(1,2) s k this] True p q show ?thesis by (subst merge_fill.simps) simp
  next
    case False
    with less.prems q show ?thesis by (subst merge_fill.simps) (rule exI [of _ s], rule exI [of _ m], rule exI [of _ q], simp)
  qed
qed

lemma counter_next:
  assumes t: "counter c aSub k" and s: "s < 13" "even q" "k = q * 2 ^ s + (2 ^ s - 1)" and d: "digest c {Suc k - 2 ^ s..<Suc k} m"
  shows "counter c (aSub[s := m]) (Suc k)"
proof -
  obtain p where p: "q = 2 * p" using s(2) by (rule evenE)
  have S: "Suc k = (q + 1) * 2 ^ s" using s(3) by (simp add: algebra_simps)
  have above: "Suc k div 2 ^ Suc s = k div 2 ^ Suc s"
  proof -
    have "Suc k div 2 ^ s = q + 1" using S by simp
    moreover have "k div 2 ^ s = q" unfolding s(3) by (rule block_div)
    ultimately show ?thesis by (simp only: div_Suc_power) (simp add: p)
  qed
  have "digest c {low j (Suc k)..<low j (Suc k) + 2 ^ j} (aSub[s := m] ! j)" if j: "j < 13" "odd (Suc k div 2 ^ j)" for j
  proof -
    consider "j < s" | "j = s" | "s < j" by linarith
    then show ?thesis
    proof cases
      case 1
      have "Suc k div 2 ^ j = (q + 1) * 2 ^ (s - j)" using 1 unfolding S by (simp add: power_diff div_mult_swap le_imp_power_dvd)
      with 1 j(2) show ?thesis by simp
    next
      case 2
      have "low s (Suc k) = Suc k - 2 ^ s" "low s (Suc k) + 2 ^ s = Suc k"
        using S by (simp_all add: low_def above, simp_all add: div_Suc_power s(3) div_nat_eqI p)
      with 2 d s(1) t show ?thesis by (simp add: counter_def)
    next
      case 3
      then obtain e where e: "j = Suc s + e" using less_iff_Suc_add by auto
      have "Suc k div 2 ^ j = k div 2 ^ j" unfolding e power_add by (simp only: div_mult2_eq above)
      moreover from this have "low j (Suc k) = low j k" by (simp only: low_def div_Suc_power)
      ultimately show ?thesis using 3 t j by (simp add: counter_def)
    qed
  qed
  with t show ?thesis by (simp add: counter_def)
qed

lemma sort_fill_ok:
  "\<lbrakk>counter c aSub k; k < n; n \<le> 4096\<rbrakk> \<Longrightarrow>
    \<exists>aSub' s m q. sort_fill c [k..<n] k (aSub, s0, m0) = (aSub', s, m) \<and> counter c aSub' n \<and> s < 13 \<and> n = (2 * q + 1) * 2 ^ s \<and>
      digest c {n - 2 ^ s..<n} m"
proof (induction "n - k" arbitrary: k aSub s0 m0)
  case (Suc d)
  obtain s m q where f: "merge_fill c aSub k 0 [k] = (s, m)" "s < 13" "even q" "k = q * 2 ^ s + (2 ^ s - 1)"
    "digest c {Suc k - 2 ^ s..<Suc k} m"
    using merge_fill_ok [of c aSub k 0 k "[k]"] Suc.prems digest_single [of c k] by auto
  have t: "counter c (aSub[s := m]) (Suc k)" by (rule counter_next [OF Suc.prems(1) f(2-5)])
  have u: "[k..<n] = k # [Suc k..<n]" using Suc.prems(2) by (simp add: upt_rec)
  show ?case
  proof (cases "Suc k < n")
    case True
    show ?thesis using Suc.hyps(1) [OF _ t True Suc.prems(3), of s m] Suc.hyps(2) f(1) by (simp add: u del: upt_Suc)
  next
    case False
    then have n: "n = Suc k" using Suc.prems(2) by simp
    obtain p where "q = 2 * p" using f(3) by (rule evenE)
    then have "n = (2 * p + 1) * 2 ^ s" using f(4) by (simp add: n algebra_simps)
    moreover have "sort_fill c [k..<n] k (aSub, s0, m0) = (aSub[s := m], s, m)" using f(1) by (simp add: u n)
    moreover have "digest c {n - 2 ^ s..<n} m" "counter c (aSub[s := m]) n" using f(5) t by (simp_all add: n)
    ultimately show ?thesis using f(2) by metis
  qed
qed simp

lemma sort_join_ok:
  "\<lbrakk>counter c aSub n; n \<le> 4096; t \<le> 13; digest c {n div 2 ^ t * 2 ^ t..<n} m\<rbrakk> \<Longrightarrow> digest c {0..<n} (sort_join c aSub n t m)"
proof (induction "13 - t" arbitrary: t m)
  case 0
  then have "t = 13" by simp
  moreover have "n div 2 ^ 13 = 0" using 0(3) by simp
  ultimately show ?case using 0 by (subst sort_join.simps) simp
next
  case (Suc d)
  then have t: "t < 13" by simp
  let ?m = "if odd (n div 2 ^ t) then walMerge c (aSub ! t) m else m"
  have "digest c {n div 2 ^ Suc t * 2 ^ Suc t..<n} ?m"
  proof (cases "odd (n div 2 ^ t)")
    case True
    then obtain p where p: "n div 2 ^ t = 2 * p + 1" by (rule oddE)
    have e: "low t n + 2 ^ t = n div 2 ^ t * 2 ^ t" unfolding low_def div_Suc_power p by (simp add: algebra_simps)
    have d: "digest c {low t n..<n div 2 ^ t * 2 ^ t} (aSub ! t)"
      unfolding e [symmetric] using True t Suc.prems(1) by (simp add: counter_def)
    have "low t n \<le> n div 2 ^ t * 2 ^ t" unfolding e [symmetric] by simp
    from digest_join [OF d Suc.prems(4) this] True show ?thesis by (simp add: low_def)
  next
    case False
    then obtain p where p: "n div 2 ^ t = 2 * p" by (auto elim: evenE)
    have "n div 2 ^ Suc t * 2 ^ Suc t = n div 2 ^ t * 2 ^ t" unfolding div_Suc_power p by simp
    with False Suc.prems(4) show ?thesis by (simp del: power_Suc)
  qed
  then have "digest c {0..<n} (sort_join c aSub n (Suc t) ?m)" using Suc t by (intro Suc.hyps(1)) auto
  with t show ?case by (subst sort_join.simps) simp
qed

lemma walMergesort_ok:
  assumes "n \<le> 4096"
  shows "digest c {0..<n} (walMergesort c [0..<n])"
proof (cases "n = 0")
  case True
  have "sort_join c aSub 0 t [] = []" for aSub t
    by (induction "13 - t" arbitrary: t) (simp_all add: sort_join.simps)
  then show ?thesis using True by (simp add: walMergesort_def digest_def ascending_def)
next
  case False
  have "counter c (replicate 13 []) 0" by (simp add: counter_def)
  from sort_fill_ok [OF this, of n 0 "[]"] False assms obtain aSub s m q where
    f: "sort_fill c [0..<n] 0 (replicate 13 [], 0, []) = (aSub, s, m)" "counter c aSub n" "s < 13" "n = (2 * q + 1) * 2 ^ s"
    "digest c {n - 2 ^ s..<n} m" by auto
  have "n div 2 ^ Suc s * 2 ^ Suc s = n - 2 ^ s" unfolding div_Suc_power using f(4) by (simp add: algebra_simps)
  with f(5) have "digest c {n div 2 ^ Suc s * 2 ^ Suc s..<n} m" by (simp only:)
  then have "digest c {0..<n} (sort_join c aSub n (Suc s) m)" using f(2,3) assms by (intro sort_join_ok) auto
  then show ?thesis using f(1) by (simp add: walMergesort_def)
qed

section \<open>Segments\<close>

definition pg :: "wal_segment \<Rightarrow> nat \<Rightarrow> pgno" where
  "pg s n = seg_aPgno s ! (aIndex s ! n)"

definition seg_good :: "pgno \<Rightarrow> wal_segment \<Rightarrow> bool" where
  "seg_good iMin s \<longleftrightarrow> ascending (seg_aPgno s) (aIndex s) \<and> (\<forall>n<length (aIndex s). pg s n < 0xFFFFFFFF) \<and>
     iNext s \<le> length (aIndex s) \<and> (\<forall>n<iNext s. pg s n \<le> iMin)"

lemma pg_mono: "seg_good iMin s \<Longrightarrow> i < j \<Longrightarrow> j < length (aIndex s) \<Longrightarrow> pg s i < pg s j"
  by (simp add: seg_good_def ascending_def pg_def sorted_wrt_iff_nth_less)

lemma seg_skip_props:
  "\<lbrakk>n \<le> length (aIndex s); \<And>i. i < n \<Longrightarrow> pg s i \<le> iMin\<rbrakk> \<Longrightarrow>
    seg_skip iMin s n \<le> length (aIndex s) \<and> (\<forall>i < seg_skip iMin s n. pg s i \<le> iMin) \<and>
    (seg_skip iMin s n < length (aIndex s) \<longrightarrow> iMin < pg s (seg_skip iMin s n))"
proof (induction iMin s n rule: seg_skip.induct)
  case (1 iMin s n)
  show ?case
  proof (cases "n < length (aIndex s) \<and> \<not> pg s n > iMin")
    case True
    then have "seg_skip iMin s n = seg_skip iMin s (n + 1)" by (simp add: seg_skip.simps [of iMin s n] pg_def)
    moreover have "pg s i \<le> iMin" if "i < n + 1" for i
      using that "1.prems"(2) [of i] True by (cases "i = n") (auto simp: not_less)
    ultimately show ?thesis using "1.IH" True by (simp add: pg_def)
  next
    case False
    then have "seg_skip iMin s n = n" by (auto simp: seg_skip.simps [of iMin s n] pg_def)
    with False "1.prems" show ?thesis by auto
  qed
qed

text \<open>The frame a segment has for a page, and the one of the last segment that has the page.\<close>

definition seg_frame :: "wal_segment \<Rightarrow> pgno \<Rightarrow> nat option" where
  "seg_frame s p = map_of (map (\<lambda>j. (seg_aPgno s ! j, seg_iZero s + j)) (aIndex s)) p"

fun last_of :: "wal_segment list \<Rightarrow> pgno \<Rightarrow> nat option" where
  "last_of [] p = None"
| "last_of (s # ss) p = (case last_of ss p of Some f \<Rightarrow> Some f | None \<Rightarrow> seg_frame s p)"

lemma seg_frame_None: "seg_frame s p = None \<longleftrightarrow> (\<forall>n<length (aIndex s). pg s n \<noteq> p)"
  by (auto simp: seg_frame_def map_of_eq_None_iff pg_def all_set_conv_all_nth image_iff)

lemma seg_frame_Some:
  assumes "seg_good iMin s" "n < length (aIndex s)"
  shows "seg_frame s (pg s n) = Some (seg_iZero s + aIndex s ! n)"
proof -
  have "distinct (map (\<lambda>j. seg_aPgno s ! j) (aIndex s))"
    unfolding distinct_conv_nth using pg_mono [OF assms(1)] by (auto simp: pg_def) (metis less_irrefl linorder_neqE_nat)
  then have "distinct (map fst (map (\<lambda>j. (seg_aPgno s ! j, seg_iZero s + j)) (aIndex s)))" by (simp add: comp_def)
  then show ?thesis unfolding seg_frame_def by (rule map_of_is_SomeI) (use assms(2) in \<open>auto simp: pg_def\<close>)
qed

lemma seg_frame_next: "seg_frame (s\<lparr>iNext := n\<rparr>) = seg_frame s"
  by (rule ext) (simp add: seg_frame_def)

lemma iter_scan_ok:
  "\<lbrakk>\<forall>s\<in>set ss. seg_good iMin s; iter_scan iMin f0 ss = (ss', r, f)\<rbrakk> \<Longrightarrow>
    last_of ss' = last_of ss \<and> (\<forall>s\<in>set ss'. seg_good iMin s) \<and>
    (if r = 0xFFFFFFFF then \<forall>p>iMin. last_of ss p = None
     else iMin < r \<and> last_of ss r = Some f \<and> (\<forall>p. iMin < p \<and> p < r \<longrightarrow> last_of ss p = None))"
proof (induction ss arbitrary: ss' r f)
  case (Cons s ss)
  obtain ts r1 f1 where t: "iter_scan iMin f0 ss = (ts, r1, f1)" by (cases "iter_scan iMin f0 ss")
  have g: "seg_good iMin s" and gs: "\<forall>s\<in>set ss. seg_good iMin s" using Cons.prems(1) by simp_all
  note IH = Cons.IH [OF gs t]
  define n where "n = seg_skip iMin s (iNext s)"
  let ?s = "s\<lparr>iNext := n\<rparr>" and ?p = "pg s n"
  have n: "n \<le> length (aIndex s)" "\<And>i. i < n \<Longrightarrow> pg s i \<le> iMin" "n < length (aIndex s) \<Longrightarrow> iMin < ?p"
    using seg_skip_props [of "iNext s" s iMin] g by (auto simp: n_def seg_good_def)
  have s': "seg_good iMin ?s" using g n by (simp add: seg_good_def pg_def)
  have beyond: "seg_frame s p = None" if "iMin < p" "n < length (aIndex s) \<Longrightarrow> p < ?p" for p
    unfolding seg_frame_None
  proof (intro allI impI notI)
    fix i assume i: "i < length (aIndex s)" "pg s i = p"
    then have "\<not> i < n" using n(2) [of i] that(1) by auto
    then have "n < length (aIndex s)" "?p \<le> pg s i" using i(1) pg_mono [OF g, of n i] by (auto simp: order.order_iff_strict not_less)
    with that(2) i(2) show False by simp
  qed
  show ?case
  proof (cases "n < length (aIndex s) \<and> ?p < r1")
    case True
    then have res: "ss' = ?s # ts" "r = ?p" "f = seg_iZero s + aIndex s ! n"
      using Cons.prems(2) t by (auto simp: n_def [symmetric] pg_def Let_def)
    have none: "last_of ss p = None" if "iMin < p" "p \<le> ?p" for p
      using IH that True by (auto split: if_splits)
    have "?p \<noteq> 0xFFFFFFFF" using g True by (auto simp: seg_good_def)
    with none [OF n(3)] none n(3) True IH s' beyond seg_frame_Some [OF g, of n] show ?thesis
      by (auto simp: res fun_eq_iff seg_frame_next split: option.splits)
  next
    case False
    then have res: "ss' = ?s # ts" "r = r1" "f = f1"
      using Cons.prems(2) t by (auto simp: n_def [symmetric] pg_def Let_def)
    have "r1 \<le> ?p" if "n < length (aIndex s)" using False that by simp
    moreover have "\<not> n < length (aIndex s)" if "r1 = 0xFFFFFFFF" using False that g by (auto simp: seg_good_def)
    ultimately have "seg_frame s p = None" if "iMin < p" "r1 = 0xFFFFFFFF \<or> p < r1" for p
      using that by (intro beyond) force+
    with IH s' show ?thesis by (auto simp: res fun_eq_iff seg_frame_next split: option.splits if_splits)
  qed
qed simp

section \<open>Iterating\<close>

text \<open>What the loop of a checkpoint sees: the pages and frames until \<open>walIteratorNext\<close> returns 1.\<close>

fun wal_iterate :: "nat \<Rightarrow> wal_iterator \<Rightarrow> (pgno \<times> nat) list" where
  "wal_iterate 0 p = []"
| "wal_iterate (Suc n) p =
     (case walIteratorNext p 0 of (rc, iPage, iFrame, p') \<Rightarrow> if rc \<noteq> 0 then [] else (iPage, iFrame) # wal_iterate n p')"

definition pages_from :: "pgno \<Rightarrow> (pgno \<Rightarrow> nat option) \<Rightarrow> pgno set" where
  "pages_from q L = {p. q < p \<and> L p \<noteq> None}"

lemma wal_iterate_ok:
  "\<lbrakk>\<forall>s\<in>set (segments it). seg_good (iPrior it) s; card (pages_from (iPrior it) (last_of (segments it))) < n\<rbrakk> \<Longrightarrow>
    wal_iterate n it = map (\<lambda>p. (p, the (last_of (segments it) p))) (sorted_list_of_set (pages_from (iPrior it) (last_of (segments it))))"
proof (induction n arbitrary: it)
  case (Suc n)
  let ?L = "last_of (segments it)" and ?q = "iPrior it"
  let ?S = "pages_from ?q ?L"
  obtain ss r f where sc: "iter_scan ?q 0 (segments it) = (ss, r, f)" by (cases "iter_scan ?q 0 (segments it)")
  note R = iter_scan_ok [OF Suc.prems(1) sc]
  have fin: "finite ?S" by simp
  show ?case
  proof (cases "r = 0xFFFFFFFF")
    case True
    then have "?S = {}" using R by (auto simp: pages_from_def)
    with True sc show ?thesis by (simp add: walIteratorNext_def)
  next
    case False
    with R have r: "?q < r" "?L r = Some f" "\<And>p. ?q < p \<Longrightarrow> p < r \<Longrightarrow> ?L p = None" "last_of ss = ?L" by auto
    have m: "Min ?S = r" using r(1,2) fin by (intro Min_eqI) (auto simp: pages_from_def not_less dest: r(3) intro: leI)
    have rest: "?S - {r} = pages_from r ?L" using r by (auto simp: pages_from_def) (metis linorder_neqE option.distinct(1))
    have ne: "r \<in> ?S" using r by (simp add: pages_from_def)
    have up: "\<forall>s\<in>set ss. seg_good r s" using R r(1) unfolding seg_good_def by (meson le_less_trans less_imp_le)
    have "card (pages_from r ?L) < n" using card_Diff1_less [OF fin ne] Suc.prems(2) unfolding rest by linarith
    then have IH: "wal_iterate n \<lparr>iPrior = r, segments = ss\<rparr> = map (\<lambda>p. (p, the (?L p))) (sorted_list_of_set (pages_from r ?L))"
      using Suc.IH [of "\<lparr>iPrior = r, segments = ss\<rparr>"] up r(4) by simp
    have "sorted_list_of_set ?S = r # sorted_list_of_set (pages_from r ?L)"
      using sorted_list_of_set_nonempty [OF fin] ne m rest by auto
    with IH False sc r(2) show ?thesis by (simp add: walIteratorNext_def)
  qed
qed simp

section \<open>The iterator of a log\<close>

text \<open>The segment of page \<open>i\<close> of the index, for a log of \<open>m\<close> frames.\<close>

definition segment_of :: "wal_index \<Rightarrow> nat \<Rightarrow> nat \<Rightarrow> wal_segment" where
  "segment_of wi m i =
     \<lparr>iNext = 0, aIndex = walMergesort (aPgno (wi i)) [0..<(if i = walFramePage m then m - zero i else cap i)],
      seg_aPgno = aPgno (wi i), seg_iZero = zero i + 1\<rparr>"

lemma init_segments_ok:
  assumes "\<And>j. mp j = 0" "N = walFramePage (mxFrame w) + 1" "\<And>i. length (aPgno (wi i)) = cap i"
  shows "a \<le> N \<Longrightarrow> length ss = N \<Longrightarrow>
    init_segments mp w wi N [a..<N] ss = (0, take a ss @ map (segment_of wi (mxFrame w)) [a..<N])"
proof (induction "N - a" arbitrary: a ss)
  case (Suc d)
  then have "a < N" by simp
  then have u: "[a..<N] = a # [Suc a..<N]" by (simp add: upt_rec)
  let ?ss = "ss[a := segment_of wi (mxFrame w) a]"
  have "init_segments mp w wi N [a..<N] ss = init_segments mp w wi N [Suc a..<N] ?ss"
    unfolding u using assms by (simp add: walHashGet_eq segment_of_def Let_def del: upt_Suc)
  also have "\<dots> = (0, take (Suc a) ?ss @ map (segment_of wi (mxFrame w)) [Suc a..<N])"
    using Suc \<open>a < N\<close> by (intro Suc.hyps(1)) auto
  also have "take (Suc a) ?ss = take a ss @ [segment_of wi (mxFrame w) a]"
    using Suc.prems \<open>a < N\<close> by (simp add: take_Suc_conv_app_nth)
  finally show ?case by (simp add: u del: upt_Suc)
qed simp

text \<open>A segment has the last frame of every page among its frames.\<close>

definition log_index :: "wal_index \<Rightarrow> pgno list \<Rightarrow> nat \<Rightarrow> bool" where
  "log_index wi lg m \<longleftrightarrow> wi_ok wi lg \<and> 0 < m \<and> m \<le> length lg \<and> 0xFFFFFFFF \<notin> set (take m lg)"

lemma log_indexD:
  assumes "log_index wi lg m"
  shows "wi_ok wi lg" "0 < m" "m \<le> length lg" "0xFFFFFFFF \<notin> set (take m lg)"
  using assms by (simp_all add: log_index_def)

lemma segment_entries:
  assumes L: "log_index wi lg m" and i: "i \<le> walFramePage m"
  defines "n \<equiv> (if i = walFramePage m then m - zero i else cap i)"
  shows "n \<le> 4096" "zero i + n = min m (zero i + cap i)" "x < n \<Longrightarrow> aPgno (wi i) ! x = lg ! (zero i + x)" "zero i + n \<le> length lg"
proof -
  note wi = log_indexD(1) [OF L] and m = log_indexD(2,3) [OF L]
  have r: "zero (walFramePage m) < m" "m \<le> zero (walFramePage m) + cap (walFramePage m)" using walFramePage_range [OF m(1)] by auto
  have zi: "zero i < m" "i \<noteq> walFramePage m \<Longrightarrow> zero i + cap i < m"
    using zero_mono [of i "walFramePage m"] i r(1) by (cases "i = walFramePage m"; simp)+
  show n: "n \<le> 4096" using r cap_bounds(1) [of i] by (auto simp: n_def wal_consts)
  show e: "zero i + n = min m (zero i + cap i)" using zi r by (auto simp: n_def)
  then show l: "zero i + n \<le> length lg" using m(2) by simp
  have "page_ok (cap i) (wi i) (frames_of i lg)" using wi zi m(2) by (simp add: wi_ok_def)
  moreover assume "x < n"
  moreover from this have "x < cap i" "zero i + x < length lg" using e l by auto
  ultimately show "aPgno (wi i) ! x = lg ! (zero i + x)" by (auto simp: page_ok_def nth_append frames_of_def)
qed

lemma segment_good:
  assumes L: "log_index wi lg m" and i: "i \<le> walFramePage m"
  shows "seg_good 0 (segment_of wi m i)"
proof -
  note m = log_indexD(2,3) [OF L] and top = log_indexD(4) [OF L]
  let ?n = "if i = walFramePage m then m - zero i else cap i"
  have d: "digest (aPgno (wi i)) {0..<?n} (walMergesort (aPgno (wi i)) [0..<?n])"
    by (rule walMergesort_ok) (rule segment_entries(1) [OF L i])
  have "pg (segment_of wi m i) k < 0xFFFFFFFF" if k: "k < length (aIndex (segment_of wi m i))" for k
  proof -
    have "aIndex (segment_of wi m i) ! k \<in> {0..<?n}" using d nth_mem [OF k] by (auto simp: segment_of_def digest_def)
    then have x: "aIndex (segment_of wi m i) ! k < ?n" by simp
    have "pg (segment_of wi m i) k = lg ! (zero i + aIndex (segment_of wi m i) ! k)"
      using segment_entries(3) [OF L i x] by (simp add: pg_def segment_of_def)
    moreover have l: "zero i + aIndex (segment_of wi m i) ! k < m" using x segment_entries(2) [OF L i] by linarith
    then have "lg ! (zero i + aIndex (segment_of wi m i) ! k) \<in> set (take m lg)"
      using nth_mem [of "zero i + aIndex (segment_of wi m i) ! k" "take m lg"] m(2) by simp
    ultimately have "pg (segment_of wi m i) k \<noteq> 0xFFFFFFFF" using top by metis
    moreover have "(0xFFFFFFFF :: pgno) = - 1" by simp
    ultimately show ?thesis by (simp only: word_order.not_eq_extremum)
  qed
  with d show ?thesis by (auto simp: seg_good_def segment_of_def digest_def)
qed

lemma segment_frames:
  assumes L: "log_index wi lg m" and i: "i \<le> walFramePage m"
  shows "seg_frame (segment_of wi m i) p = Some f \<Longrightarrow> f \<le> m \<and> zero i < f \<and> lg ! (f - 1) = p"
    "zero i < g \<Longrightarrow> g \<le> m \<Longrightarrow> g \<le> zero i + cap i \<Longrightarrow> lg ! (g - 1) = p \<Longrightarrow> \<exists>f. seg_frame (segment_of wi m i) p = Some f \<and> g \<le> f"
proof -
  let ?s = "segment_of wi m i" and ?n = "if i = walFramePage m then m - zero i else cap i"
  have d: "digest (aPgno (wi i)) {0..<?n} (aIndex ?s)"
    unfolding segment_of_def wal_segment.simps by (rule walMergesort_ok) (rule segment_entries(1) [OF L i])
  note E = segment_entries [OF L i] and fr = seg_frame_Some [OF segment_good [OF L i]]
  {
    assume "seg_frame ?s p = Some f"
    then obtain k where k: "k < length (aIndex ?s)" "pg ?s k = p" using seg_frame_None [of ?s p] by auto
    then have "f = zero i + 1 + aIndex ?s ! k" using fr [OF k(1)] \<open>seg_frame ?s p = Some f\<close> by (simp add: segment_of_def)
    moreover have x: "aIndex ?s ! k < ?n" using d nth_mem [OF k(1)] by (auto simp: digest_def)
    moreover have "lg ! (zero i + aIndex ?s ! k) = p" using E(3) [OF x] k(2) by (simp add: pg_def segment_of_def)
    ultimately show "f \<le> m \<and> zero i < f \<and> lg ! (f - 1) = p" using E(2) by simp
  }
  {
    assume g: "zero i < g" "g \<le> m" "g \<le> zero i + cap i" "lg ! (g - 1) = p"
    have x: "g - 1 - zero i < ?n" using g E(2) by (simp add: min_def split: if_splits)
    then have "g - 1 - zero i \<in> {0..<?n}" by simp
    with d obtain y where y: "y \<in> set (aIndex ?s)" "aPgno (wi i) ! y = aPgno (wi i) ! (g - 1 - zero i)" "g - 1 - zero i \<le> y"
      unfolding digest_def by blast
    then obtain k where k: "k < length (aIndex ?s)" "aIndex ?s ! k = y" by (auto simp: in_set_conv_nth)
    have "pg ?s k = p" using y(2) E(3) [OF x] g k by (simp add: pg_def segment_of_def)
    with fr [OF k(1)] k y(3) g show "\<exists>f. seg_frame ?s p = Some f \<and> g \<le> f" by (auto simp: segment_of_def)
  }
qed

lemma last_of_segments:
  assumes L: "log_index wi lg m" and "a \<le> walFramePage m"
  shows "last_of (map (segment_of wi m) [a..<walFramePage m + 1]) p =
    (let f = last_frame lg (zero a + 1) m p in if f = 0 then None else Some f)"
proof -
  note m = log_indexD(2,3) [OF L]
  have found: "\<exists>r. last_of (map (segment_of wi m) [a..<walFramePage m + 1]) p = r \<and>
      (case r of Some f \<Rightarrow> f \<le> m \<and> holds lg (zero a + 1) p f | None \<Rightarrow> True) \<and>
      (\<forall>g. g \<le> m \<and> holds lg (zero a + 1) p g \<longrightarrow> (case r of Some f \<Rightarrow> g \<le> f | None \<Rightarrow> False))"
    if "a \<le> walFramePage m + 1" for a
    using that
  proof (induction "walFramePage m + 1 - a" arbitrary: a)
    case 0
    have "\<not> (g \<le> m \<and> holds lg (zero a + 1) p g)" for g
      using 0 walFramePage_range [OF m(1)] zero_next [of "walFramePage m"] by (auto simp: holds_def)
    with 0 show ?case by auto
  next
    case (Suc d)
    then have a: "a \<le> walFramePage m" by simp
    have u: "[a..<walFramePage m + 1] = a # [Suc a..<walFramePage m + 1]" using a by (simp add: upt_rec)
    obtain r where r: "last_of (map (segment_of wi m) [Suc a..<walFramePage m + 1]) p = r"
      "(case r of Some f \<Rightarrow> f \<le> m \<and> holds lg (zero (Suc a) + 1) p f | None \<Rightarrow> True)"
      "\<And>g. g \<le> m \<Longrightarrow> holds lg (zero (Suc a) + 1) p g \<Longrightarrow> (case r of Some f \<Rightarrow> g \<le> f | None \<Rightarrow> False)"
      using Suc.hyps(1) [of "Suc a"] Suc.hyps(2) a by auto
    have split: "holds lg (zero (Suc a) + 1) p g \<or> (zero a < g \<and> g \<le> zero a + cap a \<and> lg ! (g - 1) = p)"
      if "holds lg (zero a + 1) p g" for g using that zero_next [of a] by (auto simp: holds_def)
    show ?case
    proof (cases r)
      case (Some f)
      then have "last_of (map (segment_of wi m) [a..<walFramePage m + 1]) p = Some f" using r(1) unfolding u by (simp del: upt_Suc)
      moreover have "holds lg (zero a + 1) p f" "f \<le> m" "zero (Suc a) < f" using r(2) Some zero_next [of a] by (auto simp: holds_def)
      moreover have "g \<le> f" if "g \<le> m" "holds lg (zero a + 1) p g" for g
        using split [OF that(2)] r(3) [OF that(1)] Some zero_next [of a] \<open>zero (Suc a) < f\<close> by auto
      ultimately show ?thesis by auto
    next
      case None
      then have eq: "last_of (map (segment_of wi m) [a..<walFramePage m + 1]) p = seg_frame (segment_of wi m a) p"
        using r(1) unfolding u by (simp del: upt_Suc)
      have here: "zero a < g \<and> g \<le> zero a + cap a \<and> lg ! (g - 1) = p" if "g \<le> m" "holds lg (zero a + 1) p g" for g
        using split [OF that(2)] r(3) [OF that(1)] None by auto
      have "case seg_frame (segment_of wi m a) p of Some f \<Rightarrow> f \<le> m \<and> holds lg (zero a + 1) p f | None \<Rightarrow> True"
        using segment_frames(1) [OF L a, of p] by (auto simp: holds_def split: option.split)
      moreover have "case seg_frame (segment_of wi m a) p of Some f \<Rightarrow> g \<le> f | None \<Rightarrow> False"
        if "g \<le> m" "holds lg (zero a + 1) p g" for g
        using segment_frames(2) [OF L a, of g p] here [OF that] that(1) by auto
      ultimately show ?thesis unfolding eq by blast
    qed
  qed
  from assms(2) have "a \<le> walFramePage m + 1" by simp
  from found [OF this] obtain r where r: "last_of (map (segment_of wi m) [a..<walFramePage m + 1]) p = r"
    "case r of Some f \<Rightarrow> f \<le> m \<and> holds lg (zero a + 1) p f | None \<Rightarrow> True"
    "\<And>g. g \<le> m \<Longrightarrow> holds lg (zero a + 1) p g \<Longrightarrow> (case r of Some f \<Rightarrow> g \<le> f | None \<Rightarrow> False)" by blast
  show ?thesis
  proof (cases r)
    case None
    have "last_frame lg (zero a + 1) m p = 0" using r(3) None by (intro last_frame_unique) auto
    with r(1) None show ?thesis by simp
  next
    case (Some f)
    have "last_frame lg (zero a + 1) m p = f" using r(2,3) Some by (intro last_frame_unique) auto
    moreover have "f \<noteq> 0" using r(2) Some by (simp add: holds_def)
    ultimately show ?thesis using r(1) Some by simp
  qed
qed

lemma last_frame_pos: "0 < last_frame lg lo hi p \<longleftrightarrow> (\<exists>f\<le>hi. holds lg lo p f)"
proof (induction hi)
  case (Suc h)
  have "(\<exists>f\<le>Suc h. holds lg lo p f) \<longleftrightarrow> holds lg lo p (Suc h) \<or> (\<exists>f\<le>h. holds lg lo p f)" by (auto simp: le_Suc_eq)
  moreover have "\<not> (\<exists>f\<le>h. holds lg lo p f)" if "Suc h < lo" using that by (auto simp: holds_def)
  ultimately show ?case using Suc by (auto simp: holds_def [of lg lo p "Suc h"])
qed (simp add: holds_def)

lemma seg_good_zero: "seg_good 0 zero_segment" "seg_frame zero_segment p = None"
  by (simp_all add: zero_segment_def seg_good_def ascending_def seg_frame_def)

lemma last_of_zero: "last_of (replicate n zero_segment @ ss) = last_of ss"
  by (induction n) (auto simp: fun_eq_iff seg_good_zero split: option.split)

lemma pages_of_log:
  assumes "0 \<notin> set lg" "m \<le> length lg" "0 < lo"
  shows "{p. 0 < p \<and> 0 < last_frame lg lo m p} = set (drop (lo - 1) (take m lg))"
proof (intro set_eqI iffI)
  fix p assume "p \<in> {p. 0 < p \<and> 0 < last_frame lg lo m p}"
  then obtain f where f: "f \<le> m" "0 < f" "lo \<le> f" "lg ! (f - 1) = p" by (auto simp: last_frame_pos holds_def)
  then have "drop (lo - 1) (take m lg) ! (f - lo) = p" "f - lo < length (drop (lo - 1) (take m lg))" using assms by auto
  then show "p \<in> set (drop (lo - 1) (take m lg))" using nth_mem by metis
next
  fix p assume "p \<in> set (drop (lo - 1) (take m lg))"
  then obtain k where k: "k < m - (lo - 1)" "lg ! (lo - 1 + k) = p" using assms(2) by (auto simp: in_set_conv_nth)
  then have "p \<in> set lg" using assms(2) nth_mem [of "lo - 1 + k" lg] by auto
  then have "p \<noteq> 0" using assms(1) by metis
  moreover have "holds lg lo p (lo + k)" "lo + k \<le> m" using k assms(3) by (auto simp: holds_def)
  ultimately show "p \<in> {p. 0 < p \<and> 0 < last_frame lg lo m p}" by (auto simp: last_frame_pos word_neq_0_conv)
qed

lemma wal_iterator_ok:
  assumes wi: "wi_ok wi lg" and m: "mxFrame w \<le> length lg" "nBackfill < mxFrame w" and top: "0xFFFFFFFF \<notin> set (take (mxFrame w) lg)"
  defines "b \<equiv> zero (walFramePage (nBackfill + 1)) + 1"
  shows "\<exists>it. walIteratorInit (\<lambda>_. 0) w wi nBackfill True = (0, Some it) \<and>
    wal_iterate (mxFrame w + 1) it =
      map (\<lambda>p. (p, last_frame lg b (mxFrame w) p)) (sorted_list_of_set (set (drop (b - 1) (take (mxFrame w) lg))))"
proof -
  let ?m = "mxFrame w" and ?a = "walFramePage (nBackfill + 1)" and ?W = "walFramePage (mxFrame w)"
  have m0: "0 < ?m" using m(2) by simp
  have a: "?a \<le> ?W" using m(2) by (simp add: walFramePage_def div_le_mono)
  define ss where "ss = replicate ?a zero_segment @ map (segment_of wi ?m) [?a..<?W + 1]"
  let ?it = "\<lparr>iPrior = 0, segments = ss\<rparr>"
  have lens: "\<And>i. length (aPgno (wi i)) = cap i" using wi by (simp add: wi_ok_def)
  have init: "walIteratorInit (\<lambda>_. 0) w wi nBackfill True = (0, Some ?it)"
    using init_segments_ok [of "\<lambda>_. 0" "?W + 1" w wi ?a "replicate (?W + 1) zero_segment"] lens a
    by (simp add: walIteratorInit_def Let_def min_absorb1 ss_def del: upt_Suc replicate_Suc)
  have ix: "log_index wi lg ?m" using wi m0 m(1) top by (simp add: log_index_def)
  have L: "last_of (segments ?it) p = (let f = last_frame lg b ?m p in if f = 0 then None else Some f)" for p
    using last_of_segments [OF ix a, of p] by (simp add: ss_def last_of_zero b_def del: upt_Suc)
  have good: "\<forall>s\<in>set (segments ?it). seg_good (iPrior ?it) s"
    using segment_good [OF ix] seg_good_zero(1) by (auto simp: ss_def simp del: upt_Suc)
  have z: "0 \<notin> set lg" using wi by (simp add: wi_ok_def)
  have S: "pages_from (iPrior ?it) (last_of (segments ?it)) = set (drop (b - 1) (take ?m lg))"
  proof -
    have "pages_from 0 (last_of ss) = {p. 0 < p \<and> 0 < last_frame lg b ?m p}" using L by (auto simp: pages_from_def Let_def)
    then show ?thesis using pages_of_log [OF z m(1), of b] by (simp add: b_def)
  qed
  have "card (pages_from (iPrior ?it) (last_of (segments ?it))) < ?m + 1"
    unfolding S using card_length [of "drop (b - 1) (take ?m lg)"] m(1) by simp
  from wal_iterate_ok [OF good this]
  have "wal_iterate (?m + 1) ?it = map (\<lambda>p. (p, the (last_of (segments ?it) p))) (sorted_list_of_set (set (drop (b - 1) (take ?m lg))))"
    unfolding S .
  also have "\<dots> = map (\<lambda>p. (p, last_frame lg b ?m p)) (sorted_list_of_set (set (drop (b - 1) (take ?m lg))))"
  proof (rule map_cong [OF refl])
    fix p assume "p \<in> set (sorted_list_of_set (set (drop (b - 1) (take ?m lg))))"
    then have "p \<in> {p. 0 < p \<and> 0 < last_frame lg b ?m p}" using pages_of_log [OF z m(1), of b] by (simp add: b_def)
    then show "(p, the (last_of (segments ?it) p)) = (p, last_frame lg b ?m p)" using L [of p] by (simp add: Let_def)
  qed
  finally show ?thesis using init by blast
qed

section \<open>Properties\<close>

text \<open>C23. Functional.  After any history of writers, with every frame up to \<open>nBackfill\<close> already in the database, a
  checkpoint visits each page of the frames from the start of the index page of the next frame once, in ascending
  order, with the last frame of the page in the log, and then stops: no page with a later frame is missed and none
  is written twice or out of date.\<close>

theorem checkpoint_visits_last_frames:
  assumes "mxFrame w = 0" "\<And>i. length (aPgno (wi i)) = cap i" "list_all wal_op_ok ops"
    and "run_steps wal_step (w, wi) ops = Some (rs, w', wi')" "lg = snd (run_spec log_step [] ops)"
    and "0xFFFFFFFF \<notin> set lg" "nBackfill < length lg"
  shows "\<exists>b it. b \<le> nBackfill + 1 \<and> walIteratorInit (\<lambda>_. 0) w' wi' nBackfill True = (0, Some it) \<and>
    wal_iterate (length lg + 1) it =
      map (\<lambda>p. (p, last_frame lg b (length lg) p)) (sorted_list_of_set (set (drop (b - 1) lg)))"
proof -
  have "wal_inv (w, wi)" "wal_log (w, wi) = []" using wal_start [of wi w] assms(1,2) by auto
  with wal_index_log.run_refines [of "(w, wi)" ops] assms(3-5) have "wal_inv (w', wi')" "wal_log (w', wi') = lg" by auto
  then obtain lg0 where l: "wi_ok wi' lg0" "mxFrame w' \<le> length lg0" by (auto simp: wal_inv_def)
  have lg: "lg = take (mxFrame w') lg0" using wal_log_eq [OF l] \<open>wal_log (w', wi') = lg\<close> by simp
  then have len: "mxFrame w' = length lg" using l(2) by simp
  have tk: "take (length lg) lg0 = lg" by (metis lg len)
  define b where "b = zero (walFramePage (nBackfill + 1)) + 1"
  obtain it where it: "walIteratorInit (\<lambda>_. 0) w' wi' nBackfill True = (0, Some it)"
    "wal_iterate (length lg + 1) it =
      map (\<lambda>p. (p, last_frame lg0 b (length lg) p)) (sorted_list_of_set (set (drop (b - 1) lg)))"
  proof -
    have "nBackfill < mxFrame w'" "0xFFFFFFFF \<notin> set (take (mxFrame w') lg0)" using assms(6,7) by (simp_all add: len tk)
    from wal_iterator_ok [OF l this] that show thesis unfolding len tk b_def by blast
  qed
  have "last_frame lg0 b (length lg) p = last_frame lg b (length lg) p" for p
    using last_frame_take [of "length lg" "length lg" lg0 b p] by (simp add: tk)
  moreover have "b \<le> nBackfill + 1" using walFramePage_range [of "nBackfill + 1"] by (simp add: b_def)
  ultimately show ?thesis using it by (intro exI [of _ b] exI [of _ it]) simp
qed

theorem checkpoint_visits_last_frames_witness:
  "\<exists>rs w wi it. run_steps wal_step (new_log, old_index) [WalFrames [1, 5, 2], WalFrames [5, 1]] = Some (rs, w, wi) \<and>
    walIteratorInit (\<lambda>_. 0) w wi 2 True = (0, Some it) \<and> wal_iterate 6 it = [(1, 5), (2, 3), (5, 4)]"
proof -
  let ?ops = "[WalFrames [1, 5, 2], WalFrames [5, 1]]" and ?lg = "[1, 5, 2, 5, 1] :: pgno list"
  have l: "mxFrame new_log = 0" "\<And>i. length (aPgno (old_index i)) = cap i" "list_all wal_op_ok ?ops" by simp_all
  obtain rs w wi where r: "run_steps wal_step (new_log, old_index) ?ops = Some (rs, w, wi)"
    using wal_index_log.run_never_stuck [of "(new_log, old_index)" ?ops] wal_start [of old_index new_log] l by auto
  have lg: "?lg = snd (run_spec log_step [] ?ops)" by simp
  have top: "0xFFFFFFFF \<notin> set ?lg" "2 < length ?lg" by simp_all
  obtain b it where b: "b \<le> 2 + 1" "walIteratorInit (\<lambda>_. 0) w wi 2 True = (0, Some it)"
    "wal_iterate (length ?lg + 1) it = map (\<lambda>p. (p, last_frame ?lg b (length ?lg) p)) (sorted_list_of_set (set (drop (b - 1) ?lg)))"
    using checkpoint_visits_last_frames [OF l r lg top] by blast
  have n: "length ?lg = 5" "length ?lg + 1 = 6" by simp_all
  have bs: "b = 0 \<or> b = 1 \<or> b = 2 \<or> b = 3" using b(1) by auto
  then have "set (drop (b - 1) ?lg) = set [1, 2, 5]" by (elim disjE) auto
  moreover have "sorted_list_of_set (set [1, 2, 5 :: pgno]) = [1, 2, 5]" by (subst sorted_list_of_set_sort_remdups) simp
  moreover have "last_frame ?lg b 5 1 = 5" "last_frame ?lg b 5 2 = 3" "last_frame ?lg b 5 5 = 4"
    using bs by (elim disjE; simp add: last_frame_numeral)+
  ultimately have "wal_iterate 6 it = [(1, 5), (2, 3), (5, 4)]" using b(3) unfolding n by simp
  with r b(2) show ?thesis by blast
qed

end
