(* ===== verification/Wal_Frames_Props.thy ===== *)
theory Wal_Frames_Props
  imports Wal_Frames Chunks Wal_Index_Props
begin

text \<open>
  Checksums, frames and recovery of the write-ahead log: the three checksum loops compute one reference function, a
  frame decodes to what was encoded, and \<open>walIndexRecover\<close> run on a file as \<open>walFrames\<close> writes it, with a torn tail,
  restores the log up to its last commit.  The proof carries an invariant over the frames read (\<open>read_inv\<close>), page of the
  index by page, on top of the index's invariant \<open>wi_ok\<close>.
\<close>

section \<open>Checksums\<close>

lemma cksum_unrolled_eq: "length ws mod 16 = 0 \<Longrightarrow> cksum_unrolled ws s1 s2 = cksum_native ws s1 s2"
proof (induction ws s1 s2 rule: cksum_unrolled.induct)
  case (2 a0 a1 a2 a3 a4 a5 a6 a7 a8 a9 a10 a11 a12 a13 a14 a15 r s1 s2)
  have r: "length r mod 16 = 0" using "2.prems" by simp
  show ?case unfolding cksum_unrolled.simps cksum_native.simps Let_def by (rule "2.IH") (rule refl r)+
qed simp_all

lemma length_words32: "length (words32 a) = length a div 4"
  by (induction a rule: words32.induct) auto

lemma cksum_swapped_total: "even (length ws) \<Longrightarrow> cksum_swapped ws s1 s2 \<noteq> None"
  by (induction ws s1 s2 rule: cksum_swapped.induct) (simp_all del: not_None_eq add: Let_def)

lemma cksum_native_total: "even (length ws) \<Longrightarrow> cksum_native ws s1 s2 \<noteq> None"
  by (induction ws s1 s2 rule: cksum_native.induct) (simp_all del: not_None_eq add: Let_def)

lemma walChecksumBytes_native:
  "a \<noteq> [] \<Longrightarrow> length a mod 8 = 0 \<Longrightarrow> walChecksumBytes True a ck = cksum_native (words32 a) (fst ck) (snd ck)"
proof -
  assume a: "a \<noteq> []" "length a mod 8 = 0"
  have "length (words32 a) mod 16 = 0" if "length a mod 64 = 0"
    using that unfolding length_words32 by presburger
  with a show ?thesis by (simp add: walChecksumBytes_def cksum_unrolled_eq)
qed

lemma walChecksumBytes_total: "a \<noteq> [] \<Longrightarrow> length a mod 8 = 0 \<Longrightarrow> \<exists>ck'. walChecksumBytes nb a ck = Some ck'"
proof -
  assume a: "a \<noteq> []" "length a mod 8 = 0"
  then have "even (length (words32 a))" unfolding length_words32 by presburger
  with a show ?thesis using cksum_swapped_total [of "words32 a"] cksum_native_total [of "words32 a"] walChecksumBytes_native [OF a]
    by (cases nb) (simp_all add: walChecksumBytes_def)
qed

text \<open>The reference: integers in one byte order or the other, taken two at a time.\<close>

fun ints32 :: "bool \<Rightarrow> byte list \<Rightarrow> u32 list" where
  "ints32 le (a # b # c # d # r) = (if le then le32 a b c d else le32 d c b a) # ints32 le r"
| "ints32 le _ = []"

fun pairs :: "'a list \<Rightarrow> ('a \<times> 'a) list" where
  "pairs (x # y # r) = (x, y) # pairs r"
| "pairs _ = []"

definition fletcher :: "u32 \<times> u32 \<Rightarrow> u32 \<times> u32 \<Rightarrow> u32 \<times> u32" where
  "fletcher s x = (let s1 = fst s + fst x + snd s in (s1, snd s + snd x + s1))"

lemma byte_masks:
  "(0x000000FF :: u32) = Bit_Operations.mask 8" "(0x0000FF00 :: u32) = push_bit 8 (Bit_Operations.mask 8)"
  "(0x00FF0000 :: u32) = push_bit 16 (Bit_Operations.mask 8)" "(0xFF000000 :: u32) = push_bit 24 (Bit_Operations.mask 8)"
  by (simp_all add: mask_eq_exp_minus_1)

lemma BYTESWAP32_le32: "BYTESWAP32 (le32 a b c d) = le32 d c b a"
proof -
  let ?x = "le32 a b c d"
  have parts: "push_bit 24 (?x AND 0x000000FF) = push_bit 24 (ucast a)" "push_bit 8 (?x AND 0x0000FF00) = push_bit 16 (ucast b)"
    "drop_bit 8 (?x AND 0x00FF0000) = push_bit 8 (ucast c)" "drop_bit 24 (?x AND 0xFF000000) = ucast d"
    unfolding byte_masks le32_def by (rule bit_word_eqI; force simp: bit_simps dest: bit_imp_le_length)+
  have sums: "push_bit 24 (ucast a :: u32) + push_bit 16 (ucast b) = push_bit 24 (ucast a) OR push_bit 16 (ucast b)"
    "(push_bit 24 (ucast a :: u32) OR push_bit 16 (ucast b)) + push_bit 8 (ucast c) =
       (push_bit 24 (ucast a) OR push_bit 16 (ucast b)) OR push_bit 8 (ucast c)"
    "((push_bit 24 (ucast a :: u32) OR push_bit 16 (ucast b)) OR push_bit 8 (ucast c)) + ucast d =
       ((push_bit 24 (ucast a) OR push_bit 16 (ucast b)) OR push_bit 8 (ucast c)) OR ucast d"
    by (rule disjunctive_add; auto simp: bit_simps dest: bit_imp_le_length)+
  show ?thesis unfolding BYTESWAP32_def parts sums by (simp add: le32_def or.commute or.left_commute)
qed

lemma cksum_native_pairs: "even (length ws) \<Longrightarrow> cksum_native ws s1 s2 = Some (foldl fletcher (s1, s2) (pairs ws))"
  by (induction ws s1 s2 rule: cksum_native.induct) (simp_all add: fletcher_def Let_def)

lemma cksum_swapped_native: "cksum_swapped ws s1 s2 = cksum_native (map BYTESWAP32 ws) s1 s2"
  by (induction ws s1 s2 rule: cksum_swapped.induct) (simp_all add: Let_def)

lemma words32_ints32: "words32 a = ints32 True a" "map BYTESWAP32 (words32 a) = ints32 False a"
  by (induction a rule: words32.induct) (simp_all add: BYTESWAP32_le32)

text \<open>C31. All three loops of \<open>walChecksumBytes\<close> (byte swapped, sixteen integers a turn, two integers a turn) compute the
  same checksum: the fold of the two sums over the bytes read as integers in the order the flag asks for.\<close>

theorem wal_checksum_is_fletcher:
  assumes "a \<noteq> []" "length a mod 8 = 0"
  shows "walChecksumBytes nativeCksum a ck = Some (foldl fletcher ck (pairs (ints32 nativeCksum a)))"
proof -
  have e: "even (length (words32 a))" using assms(2) unfolding length_words32 by presburger
  show ?thesis
  proof (cases nativeCksum)
    case True
    then show ?thesis using walChecksumBytes_native [OF assms] e
      by (simp add: words32_ints32 cksum_native_pairs)
  next
    case False
    have "even (length (map BYTESWAP32 (words32 a)))" using e by simp
    from cksum_native_pairs [OF this] show ?thesis using False assms by (simp add: walChecksumBytes_def cksum_swapped_native words32_ints32(2))
  qed
qed

theorem wal_checksum_is_fletcher_witness:
  "walChecksumBytes False [0, 0, 0, 1, 0, 0, 0, 2] (0, 0) = Some (1, 3) \<and>
   walChecksumBytes True [1, 0, 0, 0, 2, 0, 0, 0] (0, 0) = Some (1, 3)"
  by (subst (1 2) wal_checksum_is_fletcher) (simp_all add: fletcher_def le32_def)

section \<open>Frames\<close>

definition frame_ck :: "bool \<Rightarrow> u32 \<times> u32 \<Rightarrow> u32 \<Rightarrow> u32 \<Rightarrow> byte list \<Rightarrow> (u32 \<times> u32) option" where
  "frame_ck big ck p t d =
     Option.bind (walChecksumBytes (\<not> big) (sqlite3Put4byte p @ sqlite3Put4byte t) ck) (walChecksumBytes (\<not> big) d)"

definition frame_hdr :: "byte list \<Rightarrow> u32 \<Rightarrow> u32 \<Rightarrow> u32 \<times> u32 \<Rightarrow> byte list" where
  "frame_hdr salt p t ck =
     sqlite3Put4byte p @ sqlite3Put4byte t @ salt @ sqlite3Put4byte (fst ck) @ sqlite3Put4byte (snd ck)"

lemma length_Put4byte [simp]: "length (sqlite3Put4byte v) = 4"
  by (simp add: sqlite3Put4byte_def)

lemma length_frame_hdr: "length salt = 8 \<Longrightarrow> length (frame_hdr salt p t ck) = 24"
  by (simp add: frame_hdr_def)

lemma frame_ck_total: "length d \<noteq> 0 \<Longrightarrow> length d mod 8 = 0 \<Longrightarrow> \<exists>ck'. frame_ck big ck p t d = Some ck'"
proof -
  assume d: "length d \<noteq> 0" "length d mod 8 = 0"
  have h: "sqlite3Put4byte p @ sqlite3Put4byte t \<noteq> []" "length (sqlite3Put4byte p @ sqlite3Put4byte t) mod 8 = 0"
    by (simp_all add: sqlite3Put4byte_def)
  obtain c1 where "walChecksumBytes (\<not> big) (sqlite3Put4byte p @ sqlite3Put4byte t) ck = Some c1"
    using walChecksumBytes_total [OF h] by blast
  moreover obtain c2 where "walChecksumBytes (\<not> big) d c1 = Some c2" using walChecksumBytes_total [of d] d by (metis length_0_conv)
  ultimately show ?thesis by (simp add: frame_ck_def)
qed

lemma walEncodeFrame_eq:
  assumes "iReCksum w = 0" "length (aSalt w) = 8" "length d = szPage w"
  shows "walEncodeFrame w p t d =
    map_option (\<lambda>ck. (frame_hdr (aSalt w) p t ck, w\<lparr>aFrameCksum := ck\<rparr>)) (frame_ck (bigEndCksum w) (aFrameCksum w) p t d)"
  using assms
  by (cases "walChecksumBytes (\<not> bigEndCksum w) (sqlite3Put4byte p @ sqlite3Put4byte t) (aFrameCksum w)")
    (auto simp: walEncodeFrame_def frame_ck_def frame_hdr_def mem_read_def Let_def map_option_case split: option.split)

lemma walDecodeFrame_hdr:
  assumes w: "length (aSalt w) = 8" "length d = szPage w" and ck: "frame_ck (bigEndCksum w) (aFrameCksum w) p t d = Some ck" and p: "p \<noteq> 0"
  shows "walDecodeFrame w d (frame_hdr (aSalt w) p t ck @ d) = Some ((1, p, t), w\<lparr>aFrameCksum := ck\<rparr>)"
proof -
  let ?f = "frame_hdr (aSalt w) p t ck @ d"
  have "mem_read ?f 8 8 = Some (aSalt w)" using w(1) by (simp add: mem_read_def frame_hdr_def sqlite3Put4byte_def)
  moreover have "sqlite3Get4byte ?f = Some p" by (simp add: frame_hdr_def sqlite3Get4byte_Put4byte)
  moreover have "mem_read ?f 0 8 = Some (sqlite3Put4byte p @ sqlite3Put4byte t)"
    using w(1) by (simp add: mem_read_def frame_hdr_def sqlite3Put4byte_def)
  moreover have "mem_read d 0 (int (szPage w)) = Some d" using w(2) by (simp add: mem_read_def)
  moreover have "drop 16 ?f = sqlite3Put4byte (fst ck) @ sqlite3Put4byte (snd ck) @ d"
    "drop 20 ?f = sqlite3Put4byte (snd ck) @ d" "drop 4 ?f = sqlite3Put4byte t @ aSalt w @ sqlite3Put4byte (fst ck) @ sqlite3Put4byte (snd ck) @ d"
    using w(1) by (simp_all add: frame_hdr_def)
  ultimately show ?thesis using ck p
    by (auto simp: walDecodeFrame_def frame_ck_def sqlite3Get4byte_Put4byte bind_eq_Some_conv)
qed

section \<open>The log as written\<close>

text \<open>A frame of the log: page, size of the database if it commits, page content.\<close>

type_synonym wal_frame = "u32 \<times> u32 \<times> byte list"

abbreviation "f_pg fr \<equiv> fst (fr :: wal_frame)"
abbreviation "f_size fr \<equiv> fst (snd (fr :: wal_frame))"
abbreviation "f_data fr \<equiv> snd (snd (fr :: wal_frame))"

definition next_ck :: "bool \<Rightarrow> u32 \<times> u32 \<Rightarrow> wal_frame \<Rightarrow> u32 \<times> u32" where
  "next_ck big ck fr = (case frame_ck big ck (f_pg fr) (f_size fr) (f_data fr) of Some c \<Rightarrow> c | None \<Rightarrow> ck)"

definition ck_at :: "bool \<Rightarrow> u32 \<times> u32 \<Rightarrow> wal_frame list \<Rightarrow> u32 \<times> u32" where
  "ck_at big ck fs = foldl (next_ck big) ck fs"

text \<open>The bytes of each frame.\<close>

fun blocks :: "bool \<Rightarrow> byte list \<Rightarrow> u32 \<times> u32 \<Rightarrow> wal_frame list \<Rightarrow> byte list list" where
  "blocks big salt ck [] = []"
| "blocks big salt ck (fr # fs) =
     (frame_hdr salt (f_pg fr) (f_size fr) (next_ck big ck fr) @ f_data fr) # blocks big salt (next_ck big ck fr) fs"

definition frames_ok :: "nat \<Rightarrow> wal_frame list \<Rightarrow> bool" where
  "frames_ok pgsz fs \<longleftrightarrow> (\<forall>fr\<in>set fs. f_pg fr \<noteq> 0 \<and> length (f_data fr) = pgsz)"

lemma length_blocks [simp]: "length (blocks big salt ck fs) = length fs"
  by (induction fs arbitrary: ck) auto

lemma blocks_uniform: "length salt = 8 \<Longrightarrow> frames_ok pgsz fs \<Longrightarrow> uniform (pgsz + 24) (blocks big salt ck fs)"
  by (induction fs arbitrary: ck) (auto simp: frames_ok_def length_frame_hdr)

lemma blocks_nth:
  "k < length fs \<Longrightarrow> blocks big salt ck fs ! k =
    frame_hdr salt (f_pg (fs ! k)) (f_size (fs ! k)) (ck_at big ck (take (Suc k) fs)) @ f_data (fs ! k)"
  by (induction fs arbitrary: ck k) (auto simp: ck_at_def nth_Cons split: nat.split)

lemma ck_at_Suc: "k < length fs \<Longrightarrow> ck_at big ck (take (Suc k) fs) = next_ck big (ck_at big ck (take k fs)) (fs ! k)"
  by (simp add: ck_at_def take_Suc_conv_app_nth)

definition pgsz_ok :: "nat \<Rightarrow> bool" where
  "pgsz_ok n \<longleftrightarrow> n \<in> {512, 1024, 2048, 4096, 8192, 16384, 32768, 65536}"

lemma pgsz_okD: "pgsz_ok n \<Longrightarrow> 0 < n \<and> n mod 8 = 0"
  by (auto simp: pgsz_ok_def)

lemma next_ck_frame:
  "pgsz_ok pgsz \<Longrightarrow> length (f_data fr) = pgsz \<Longrightarrow> frame_ck big ck (f_pg fr) (f_size fr) (f_data fr) = Some (next_ck big ck fr)"
  using frame_ck_total [of "f_data fr" big ck "f_pg fr" "f_size fr"] pgsz_okD [of pgsz] by (auto simp: next_ck_def)

lemma write_frames_blocks:
  assumes "pgsz_ok (szPage w)" "frames_ok (szPage w) fs" "length (aSalt w) = 8" "iReCksum w = 0"
  shows "write_frames w fs = Some (concat (blocks (bigEndCksum w) (aSalt w) (aFrameCksum w) fs),
    w\<lparr>aFrameCksum := ck_at (bigEndCksum w) (aFrameCksum w) fs\<rparr>)"
  using assms
proof (induction fs arbitrary: w)
  case (Cons fr fs)
  obtain p t d where fr: "fr = (p, t, d)" by (cases fr)
  have d: "length d = szPage w" using Cons.prems(2) by (simp add: frames_ok_def fr)
  let ?ck = "next_ck (bigEndCksum w) (aFrameCksum w) fr"
  have "frame_ck (bigEndCksum w) (aFrameCksum w) p t d = Some ?ck" using next_ck_frame [of "szPage w" fr] Cons.prems(1) d by (simp add: fr)
  then have "walWriteOneFrame w p t d = Some (frame_hdr (aSalt w) p t ?ck @ d, w\<lparr>aFrameCksum := ?ck\<rparr>)"
    using walEncodeFrame_eq [of w d p t] Cons.prems d by (simp add: walWriteOneFrame_def mem_read_def)
  moreover have "write_frames (w\<lparr>aFrameCksum := ?ck\<rparr>) fs = Some (concat (blocks (bigEndCksum w) (aSalt w) ?ck fs),
      w\<lparr>aFrameCksum := ck_at (bigEndCksum w) ?ck fs\<rparr>)"
    using Cons.IH [of "w\<lparr>aFrameCksum := ?ck\<rparr>"] Cons.prems by (simp add: frames_ok_def)
  ultimately show ?case by (simp add: fr ck_at_def)
qed (simp add: ck_at_def)

section \<open>Recovery\<close>

text \<open>The number of frames up to the last commit.\<close>

definition commit_len :: "wal_frame list \<Rightarrow> nat" where
  "commit_len fs = length (dropWhile (\<lambda>fr. f_size fr = 0) (rev fs))"

lemma commit_len_snoc: "commit_len (fs @ [fr]) = (if f_size fr = 0 then commit_len fs else Suc (length fs))"
  by (simp add: commit_len_def)

lemma commit_len_le: "commit_len fs \<le> length fs"
  unfolding commit_len_def using length_dropWhile_le [of "\<lambda>fr. f_size fr = 0" "rev fs"] by simp

lemma commit_len_size: "0 < commit_len fs \<Longrightarrow> f_size (fs ! (commit_len fs - 1)) \<noteq> 0"
proof (induction fs rule: rev_induct)
  case (snoc fr fs)
  then show ?case using commit_len_le [of fs] by (cases "f_size fr = 0") (auto simp: commit_len_snoc nth_append)
qed (simp add: commit_len_def)

text \<open>What is known when \<open>k\<close> frames have been read.\<close>

fun read_inv :: "wal \<Rightarrow> wal_frame list \<Rightarrow> nat \<Rightarrow> wal \<times> wal_index \<times> (u32 \<times> u32) \<Rightarrow> bool" where
  "read_inv w0 fs k (w, wi, ck) \<longleftrightarrow>
     aSalt w = aSalt w0 \<and> bigEndCksum w = bigEndCksum w0 \<and> szPage w = szPage w0 \<and>
     mxFrame w = commit_len (take k fs) \<and> wi_ok wi (map fst (take k fs)) \<and>
     nPage w = (if mxFrame w = 0 then 0 else f_size (fs ! (mxFrame w - 1))) \<and>
     ck = (if mxFrame w = 0 then (0, 0) else ck_at (bigEndCksum w0) (aFrameCksum w0) (take (mxFrame w) fs))"

definition log_file :: "wal \<Rightarrow> wal_frame list \<Rightarrow> byte list \<Rightarrow> byte list \<Rightarrow> wal_file \<Rightarrow> bool" where
  "log_file w0 fs h tail fd \<longleftrightarrow> length h = 32 \<and> (\<forall>x. read_rc fd x = 0) \<and> length (aSalt w0) = 8 \<and> pgsz_ok (szPage w0) \<and>
     frames_ok (szPage w0) fs \<and>
     content fd = h @ concat (blocks (bigEndCksum w0) (aSalt w0) (aFrameCksum w0) fs) @ tail"

text \<open>What follows the frames is no valid frame: too short, of another log, or with a wrong checksum.\<close>

definition torn :: "wal \<Rightarrow> byte list \<Rightarrow> bool" where
  "torn w tail \<longleftrightarrow> length tail < szPage w + 24 \<or>
     (\<exists>w'. walDecodeFrame w (drop 24 (take (szPage w + 24) tail)) (take (szPage w + 24) tail) = Some ((0, 0, 0), w'))"

lemma wal_consts2: "WAL_HDRSIZE = 32" "WAL_FRAME_HDRSIZE = 24"
  by (simp_all add: WAL_HDRSIZE_def WAL_FRAME_HDRSIZE_def)

lemma concat_blocks_length:
  assumes "log_file w0 fs h tail fd"
  shows "length (concat (blocks (bigEndCksum w0) (aSalt w0) (aFrameCksum w0) fs)) = length fs * (szPage w0 + 24)"
proof -
  have "uniform (szPage w0 + 24) (blocks (bigEndCksum w0) (aSalt w0) (aFrameCksum w0) fs)"
    using assms by (intro blocks_uniform) (simp_all add: log_file_def)
  from uniform_length [OF this] show ?thesis by simp
qed

lemma wal_read_frame:
  assumes f: "log_file w0 fs h tail fd"
  shows "k < length fs \<Longrightarrow> wal_read fd (szPage w0 + WAL_FRAME_HDRSIZE) (walFrameOffset (Suc k) (szPage w0)) =
      (0, blocks (bigEndCksum w0) (aSalt w0) (aFrameCksum w0) fs ! k)"
    "wal_read fd (szPage w0 + WAL_FRAME_HDRSIZE) (walFrameOffset (Suc (length fs)) (szPage w0)) = (0, take (szPage w0 + 24) tail)"
proof -
  let ?n = "szPage w0 + 24" and ?bs = "blocks (bigEndCksum w0) (aSalt w0) (aFrameCksum w0) fs"
  have u: "uniform ?n ?bs" using f by (intro blocks_uniform) (simp_all add: log_file_def)
  note len = concat_blocks_length [OF f]
  have d: "drop (walFrameOffset (Suc k) (szPage w0)) (content fd) = drop (k * ?n) (concat ?bs @ tail)" for k
  proof -
    have "content fd = h @ concat ?bs @ tail" "length h = 32" using f by (simp_all add: log_file_def)
    then show ?thesis by (simp add: walFrameOffset_def wal_consts2)
  qed
  have rr: "read_rc fd x = 0" for x using f by (simp add: log_file_def)
  {
    assume k: "k < length fs"
    have "k * ?n + ?n \<le> length fs * ?n" using mult_le_mono1 [of "Suc k" "length fs" ?n] k by simp
    then have "take ?n (drop (k * ?n) (concat ?bs @ tail)) = take ?n (drop (k * ?n) (concat ?bs))" using len by simp
    also have "\<dots> = ?bs ! k" using k by (intro uniform_nth [OF u]) simp
    finally show "wal_read fd (szPage w0 + WAL_FRAME_HDRSIZE) (walFrameOffset (Suc k) (szPage w0)) = (0, ?bs ! k)"
      by (simp only: wal_read_def d rr wal_consts2)
  }
  show "wal_read fd (szPage w0 + WAL_FRAME_HDRSIZE) (walFrameOffset (Suc (length fs)) (szPage w0)) = (0, take ?n tail)"
    using len by (simp add: wal_read_def d rr wal_consts2)
qed

lemma walDecodeFrame_cong:
  assumes "walDecodeFrame w d a = Some (r, w1)"
    and v: "aSalt v = aSalt w" "bigEndCksum v = bigEndCksum w" "szPage v = szPage w" "aFrameCksum v = aFrameCksum w"
  shows "walDecodeFrame v d a = Some (r, v\<lparr>aFrameCksum := aFrameCksum w1\<rparr>)"
proof -
  have vv: "v\<lparr>aFrameCksum := aFrameCksum w\<rparr> = v" using v(4) by (cases v) simp
  have "walDecodeFrame v d a = map_option (\<lambda>(r, w1). (r, v\<lparr>aFrameCksum := aFrameCksum w1\<rparr>)) (walDecodeFrame w d a)"
    unfolding walDecodeFrame_def v by (simp add: vv split: Option.bind_split)
  with assms(1) show ?thesis by simp
qed

lemma recover_page_ok:
  assumes f: "log_file w0 fs h tail fd" and t: "torn (w0\<lparr>aFrameCksum := ck_at (bigEndCksum w0) (aFrameCksum w0) fs\<rparr>) tail"
    and mp: "mp = (\<lambda>_. 0)" and N: "32 + L * (szPage w0 + 24) \<le> length (content fd)"
  shows "\<lbrakk>k \<le> length fs; k \<le> L; read_inv w0 fs k (w, wi, ck); aFrameCksum w = ck_at (bigEndCksum w0) (aFrameCksum w0) (take k fs)\<rbrakk> \<Longrightarrow>
    \<exists>b w' wi' ck'. recover_page mp fd (szPage w0) [Suc k..<Suc L] (w, wi, ck) = Some (0, b, w', wi', ck') \<and> (b \<longleftrightarrow> length fs < L) \<and>
      read_inv w0 fs (min L (length fs)) (w', wi', ck') \<and>
      (\<not> b \<longrightarrow> aFrameCksum w' = ck_at (bigEndCksum w0) (aFrameCksum w0) (take L fs))"
proof (induction "L - k" arbitrary: k w wi ck)
  case 0
  then have "L = k" by simp
  with 0 show ?case by (intro exI [of _ False] exI [of _ w] exI [of _ wi] exI [of _ ck]) (simp add: min_absorb1)
next
  case (Suc n)
  then have kL: "k < L" by simp
  then have u: "[Suc k..<Suc L] = Suc k # [Suc (Suc k)..<Suc L]" by (simp add: upt_rec)
  let ?big = "bigEndCksum w0" and ?ck0 = "aFrameCksum w0"
  have inv: "aSalt w = aSalt w0" "bigEndCksum w = ?big" "szPage w = szPage w0" "mxFrame w = commit_len (take k fs)" "wi_ok wi (map fst (take k fs))"
    "nPage w = (if mxFrame w = 0 then 0 else f_size (fs ! (mxFrame w - 1)))"
    "ck = (if mxFrame w = 0 then (0, 0) else ck_at ?big ?ck0 (take (mxFrame w) fs))" using Suc.prems(3) by auto
  show ?case
  proof (cases "k < length fs")
    case False
    then have kf: "k = length fs" using Suc.prems(1) by simp
    let ?fr = "take (szPage w0 + 24) tail"
    have "Suc (length fs) * (szPage w0 + 24) \<le> L * (szPage w0 + 24)" using kL kf by (intro mult_le_mono1) simp
    then have "szPage w0 + 24 \<le> length tail" using N concat_blocks_length [OF f] f by (simp add: log_file_def)
    with t obtain w1 where "walDecodeFrame (w0\<lparr>aFrameCksum := ck_at ?big ?ck0 fs\<rparr>) (drop 24 ?fr) ?fr = Some ((0, 0, 0), w1)"
      by (auto simp: torn_def)
    then have "walDecodeFrame w (drop 24 ?fr) ?fr = Some ((0, 0, 0), w\<lparr>aFrameCksum := aFrameCksum w1\<rparr>)"
      by (rule walDecodeFrame_cong) (use inv Suc.prems(4) kf in auto)
    moreover have "read_inv w0 fs (length fs) (w\<lparr>aFrameCksum := aFrameCksum w1\<rparr>, wi, ck)" using inv kf by simp
    ultimately show ?thesis using wal_read_frame(2) [OF f] kL kf unfolding u
      by (intro exI [of _ True] exI [of _ "w\<lparr>aFrameCksum := aFrameCksum w1\<rparr>"] exI [of _ wi] exI [of _ ck])
        (simp add: wal_consts2 min_absorb2)
  next
    case True
    obtain p sz d where fr: "fs ! k = (p, sz, d)" by (cases "fs ! k")
    let ?ck = "ck_at ?big ?ck0 (take (Suc k) fs)"
    have ok: "p \<noteq> 0" "length d = szPage w0" using f nth_mem [OF True] by (auto simp: log_file_def frames_ok_def fr)
    have ck: "frame_ck ?big (aFrameCksum w) p sz d = Some ?ck"
      using next_ck_frame [of "szPage w0" "fs ! k" ?big "aFrameCksum w"] f ok(2) Suc.prems(4)
      by (simp add: log_file_def fr ck_at_Suc [OF True])
    let ?blk = "frame_hdr (aSalt w) p sz ?ck @ d"
    have rd: "wal_read fd (szPage w0 + WAL_FRAME_HDRSIZE) (walFrameOffset (Suc k) (szPage w0)) = (0, ?blk)"
      using wal_read_frame(1) [OF f True] blocks_nth [OF True] by (simp add: fr inv)
    have s8: "length (aSalt w) = 8" using f inv by (simp add: log_file_def)
    have dec: "walDecodeFrame w (drop WAL_FRAME_HDRSIZE ?blk) ?blk = Some ((1, p, sz), w\<lparr>aFrameCksum := ?ck\<rparr>)"
      using walDecodeFrame_hdr [of w d p sz ?ck] s8 ok ck inv by (simp add: wal_consts2 length_frame_hdr)
    have lk: "Suc k = Suc (length (map fst (take k fs)))" "take k (map fst (take k fs)) = map fst (take k fs)" using True by simp_all
    obtain wi1 where ap: "walIndexAppend mp (w\<lparr>aFrameCksum := ?ck\<rparr>) wi (Suc k) p = (0, wi1)" "wi_ok wi1 (map fst (take k fs) @ [p])"
      using walIndexAppend_ok [OF inv(5) ok(1), of k "w\<lparr>aFrameCksum := ?ck\<rparr>" mp] lk mp by auto
    have wi1: "wi_ok wi1 (map fst (take (Suc k) fs))" using ap(2) True by (simp add: take_Suc_conv_app_nth fr)
    have cl: "commit_len (take (Suc k) fs) = (if sz = 0 then commit_len (take k fs) else Suc k)"
      using True by (simp add: take_Suc_conv_app_nth commit_len_snoc fr min_absorb2)
    let ?w1 = "if sz = 0 then w\<lparr>aFrameCksum := ?ck\<rparr>
      else w\<lparr>aFrameCksum := ?ck, mxFrame := Suc k, nPage := sz, hdr_szPage := ucast ((of_nat (szPage w0) :: u32) AND 0xff00 OR drop_bit 16 (of_nat (szPage w0)))\<rparr>"
    let ?ck1 = "if sz = 0 then ck else ?ck"
    have step: "recover_page mp fd (szPage w0) [Suc k..<Suc L] (w, wi, ck) = recover_page mp fd (szPage w0) [Suc (Suc k)..<Suc L] (?w1, wi1, ?ck1)"
      unfolding u using rd dec ap(1) by simp
    have "read_inv w0 fs (Suc k) (?w1, wi1, ?ck1)" using inv wi1 cl True by (auto simp: fr)
    moreover have "aFrameCksum ?w1 = ?ck" by simp
    ultimately show ?thesis unfolding step using Suc.hyps(2) True kL by (intro Suc.hyps(1)) auto
  qed
qed

lemma recover_pages_ok:
  assumes f: "log_file w0 fs h tail fd" and t: "torn (w0\<lparr>aFrameCksum := ck_at (bigEndCksum w0) (aFrameCksum w0) fs\<rparr>) tail"
    and mp: "mp = (\<lambda>_. 0)" and junk: "\<And>i. length (aPgno (junk i)) = cap i" and N: "N = (length (content fd) - 32) div (szPage w0 + 24)"
  shows "\<lbrakk>i \<le> walFramePage N + 1; k = min N (zero i); k \<le> length fs; read_inv w0 fs k (w, wi, ck);
      aFrameCksum w = ck_at (bigEndCksum w0) (aFrameCksum w0) (take k fs)\<rbrakk> \<Longrightarrow>
    \<exists>w' wi' ck'. recover_pages mp junk fd (szPage w0) N [i..<walFramePage N + 1] (w, wi, ck) = Some (0, w', wi', ck') \<and>
      read_inv w0 fs (length fs) (w', wi', ck')"
proof (induction "walFramePage N + 1 - i" arbitrary: i k w wi ck)
  case 0
  have len: "length (content fd) = 32 + length fs * (szPage w0 + 24) + length tail"
    using concat_blocks_length [OF f] f by (simp add: log_file_def)
  then have fN: "length fs \<le> N" by (simp add: N less_eq_div_iff_mult_less_eq)
  have "N \<le> zero i" using 0 zero_next [of "walFramePage N"] walFramePage_range [of N] by (cases "N = 0") auto
  with 0 fN have "k = length fs" by simp
  with 0 show ?case by simp
next
  case (Suc n)
  then have iW: "i \<le> walFramePage N" by simp
  have u: "[i..<walFramePage N + 1] = i # [Suc i..<walFramePage N + 1]" using iW by (simp add: upt_rec)
  have zN: "zero i \<le> N"
  proof (cases "N = 0")
    case True
    then have "walFramePage N = 0" by (simp add: walFramePage_def wal_consts)
    with iW show ?thesis by (simp add: zero_def)
  next
    case False
    then show ?thesis using walFramePage_range [of N] zero_mono [of i "walFramePage N"] iW by (cases "i = walFramePage N") auto
  qed
  then have k: "k = zero i" using Suc.prems(2) by simp
  let ?L = "min N (zero i + cap i)"
  have first: "1 + (if i = 0 then 0 else HASHTABLE_NPAGE_ONE + (i - 1) * HASHTABLE_NPAGE) = Suc k" by (simp add: k zero_def)
  have last: "min N (HASHTABLE_NPAGE_ONE + i * HASHTABLE_NPAGE) + 1 = Suc ?L" using zero_next [of i] by (simp add: zero_def [of "Suc i"])
  have "?L * (szPage w0 + 24) \<le> N * (szPage w0 + 24)" by (intro mult_le_mono1) simp
  moreover have "N * (szPage w0 + 24) \<le> length (content fd) - 32" unfolding N by simp
  moreover have "32 \<le> length (content fd)" using f by (simp add: log_file_def)
  ultimately have NL: "32 + ?L * (szPage w0 + 24) \<le> length (content fd)" by linarith
  have inv: "read_inv w0 fs k (w, wi(i := junk i), ck)"
  proof -
    have "wi_ok (wi(i := junk i)) (map fst (take k fs))"
      using Suc.prems(4) junk k by (auto simp: wi_ok_def)
    with Suc.prems(4) show ?thesis by simp
  qed
  have "k \<le> ?L" using zN k by simp
  from recover_page_ok [OF f t mp NL Suc.prems(3) this inv Suc.prems(5)] obtain b w' wi' ck' where
    r: "recover_page mp fd (szPage w0) [Suc k..<Suc ?L] (w, wi(i := junk i), ck) = Some (0, b, w', wi', ck')" "b \<longleftrightarrow> length fs < ?L"
    "read_inv w0 fs (min ?L (length fs)) (w', wi', ck')" "\<not> b \<longrightarrow> aFrameCksum w' = ck_at (bigEndCksum w0) (aFrameCksum w0) (take ?L fs)"
    by (elim exE conjE) (rule that)
  have step: "recover_pages mp junk fd (szPage w0) N [i..<walFramePage N + 1] (w, wi, ck) =
    (if b then Some (0, w', wi', ck') else recover_pages mp junk fd (szPage w0) N [Suc i..<walFramePage N + 1] (w', wi', ck'))"
    unfolding u recover_pages.simps Let_def first last using mp r(1) by simp
  show ?case
  proof (cases b)
    case True
    with r step show ?thesis by (simp add: min_absorb2)
  next
    case False
    have L: "?L \<le> length fs" using False unfolding r(2) by (simp only: not_less)
    have z: "?L = min N (zero (Suc i))" by (simp add: zero_next)
    have inv2: "read_inv w0 fs ?L (w', wi', ck')" using r(3) unfolding min_absorb1 [OF L] .
    have "\<exists>w2 wi2 ck2. recover_pages mp junk fd (szPage w0) N [Suc i..<walFramePage N + 1] (w', wi', ck') = Some (0, w2, wi2, ck2) \<and>
      read_inv w0 fs (length fs) (w2, wi2, ck2)"
      by (rule Suc.hyps(1) [OF _ _ z L inv2]) (use Suc.hyps(2) iW r(4) False in simp_all)
    with False step show ?thesis by simp
  qed
qed

section \<open>Recovery after a crash\<close>

lemma pgsz_ok_word:
  assumes "pgsz_ok n"
  shows "(of_nat n :: u32) \<noteq> 0x80000000" "(of_nat n :: u32) AND (of_nat n - 1) = 0" "\<not> sint (of_nat n :: u32) > 65536"
    "\<not> sint (of_nat n :: u32) < 512" "unat (of_nat n :: u32) = n"
  using assms by (auto simp: pgsz_ok_def)

definition hdr_bytes :: "wal \<Rightarrow> nat \<Rightarrow> byte list" where
  "hdr_bytes w pgsz = sqlite3Put4byte WAL_MAGIC @ sqlite3Put4byte WAL_MAX_VERSION @ sqlite3Put4byte (of_nat pgsz) @
     sqlite3Put4byte (nCkpt w) @ aSalt w"

lemma write_wal_headerD:
  assumes "write_wal_header w pgsz = Some (h, w1)" "length (aSalt w) = 8"
  obtains c1 c2 where "walChecksumBytes True (hdr_bytes w pgsz) (0, 0) = Some (c1, c2)"
    "h = hdr_bytes w pgsz @ sqlite3Put4byte c1 @ sqlite3Put4byte c2"
    "w1 = w\<lparr>szPage := pgsz, bigEndCksum := False, aFrameCksum := (c1, c2)\<rparr>"
  using assms by (auto simp: write_wal_header_def hdr_bytes_def Let_def bind_eq_Some_conv)

lemma recover_file_header:
  assumes h: "write_wal_header w pgsz = Some (h, w1)" and s: "length (aSalt w) = 8" and pg: "pgsz_ok pgsz"
    and f: "content fd = h @ rest" "rest \<noteq> []" "\<And>x. read_rc fd x = 0"
  shows "recover_file mp junk True fd v wi =
    recover_pages mp junk fd pgsz ((length (content fd) - 32) div (pgsz + 24))
      [0..<walFramePage ((length (content fd) - 32) div (pgsz + 24)) + 1]
      (v\<lparr>bigEndCksum := False, szPage := pgsz, nCkpt := nCkpt w, aSalt := aSalt w, aFrameCksum := aFrameCksum w1\<rparr>, wi, (0, 0))"
proof -
  obtain c1 c2 where ck: "walChecksumBytes True (hdr_bytes w pgsz) (0, 0) = Some (c1, c2)"
    and hb: "h = hdr_bytes w pgsz @ sqlite3Put4byte c1 @ sqlite3Put4byte c2" and w1: "aFrameCksum w1 = (c1, c2)"
    using write_wal_headerD [OF h s] by (metis wal.select_convs(5) wal.surjective wal.update_convs(5))
  have len: "length h = 32" "length (hdr_bytes w pgsz) = 24" by (simp_all add: hb hdr_bytes_def s)
  have rd: "wal_read fd WAL_HDRSIZE 0 = (0, h)" by (simp add: wal_read_def f wal_consts2 len)
  have magic: "sqlite3Get4byte h = Some WAL_MAGIC" "sqlite3Get4byte (drop 4 h) = Some WAL_MAX_VERSION"
    "sqlite3Get4byte (drop 8 h) = Some (of_nat pgsz)" "sqlite3Get4byte (drop 12 h) = Some (nCkpt w)"
    by (simp_all add: hb hdr_bytes_def sqlite3Get4byte_Put4byte)
  have "drop 24 h = sqlite3Put4byte c1 @ sqlite3Put4byte c2 @ []" "drop 28 h = sqlite3Put4byte c2 @ []" using len by (simp_all add: hb)
  then have cs: "sqlite3Get4byte (drop 24 h) = Some c1" "sqlite3Get4byte (drop 28 h) = Some c2" by (simp_all only: sqlite3Get4byte_Put4byte)
  have mr: "mem_read h 16 8 = Some (aSalt w)" "mem_read h 0 24 = Some (hdr_bytes w pgsz)"
    using len s by (simp_all add: mem_read_def hb hdr_bytes_def)
  have m: "WAL_MAGIC AND 0xFFFFFFFE = WAL_MAGIC" "WAL_MAGIC AND 1 = 0" by (simp_all add: WAL_MAGIC_def)
  have "\<not> length (content fd) \<le> WAL_HDRSIZE" using f len by (simp add: wal_consts2)
  then show ?thesis unfolding recover_file_def Let_def
    by (simp only: if_False rd prod.case simp_thms magic cs mr ck m pgsz_ok_word [OF pg] Option.bind.bind_lunit w1 fst_conv snd_conv)
      (simp add: wal_consts2)
qed

lemma set_read_marks_free: "fst (set_read_marks (\<lambda>_. 0) mx xs rm) = 0"
  by (induction xs arbitrary: rm) (auto split: prod.splits)

lemma wi_ok_empty: "(\<And>i. length (aPgno (wi i)) = cap i) \<Longrightarrow> wi_ok wi []"
  by (simp add: wi_ok_def)

definition recovered_state :: "wal \<Rightarrow> wal_frame list \<Rightarrow> wal \<times> wal_index \<times> (u32 \<times> u32) \<Rightarrow> bool" where
  "recovered_state w1 fs r \<longleftrightarrow> (case r of (w', wi', ck) \<Rightarrow>
     mxFrame w' = commit_len fs \<and> wi_ok wi' (map fst fs) \<and>
     (0 < commit_len fs \<longrightarrow> nPage w' = f_size (fs ! (commit_len fs - 1)) \<and>
        ck = ck_at (bigEndCksum w1) (aFrameCksum w1) (take (commit_len fs) fs)))"

lemma recover_file_ok:
  assumes h: "write_wal_header w pgsz = Some (h, w1)" and s: "length (aSalt w) = 8" and pg: "pgsz_ok pgsz"
    and re: "iReCksum w = 0" and fs: "frames_ok pgsz fs" and b: "write_frames w1 fs = Some (b, w2)" and t: "torn w2 tail"
    and fd: "content fd = h @ b @ tail" "\<And>x. read_rc fd x = 0"
    and mp: "mp = (\<lambda>_. 0)" and junk: "\<And>i. length (aPgno (junk i)) = cap i" and wi: "\<And>i. length (aPgno (wi i)) = cap i"
  shows "\<exists>r. recover_file mp junk True fd (zero_hdr v) wi = Some (0, r) \<and> recovered_state w1 fs r"
proof -
  obtain c1 c2 where hb: "h = hdr_bytes w pgsz @ sqlite3Put4byte c1 @ sqlite3Put4byte c2"
    and w1: "w1 = w\<lparr>szPage := pgsz, bigEndCksum := False, aFrameCksum := (c1, c2)\<rparr>"
    using write_wal_headerD [OF h s] by metis
  have len: "length h = 32" by (simp add: hb hdr_bytes_def s)
  have bb: "b = concat (blocks False (aSalt w) (c1, c2) fs)" "w2 = w1\<lparr>aFrameCksum := ck_at False (c1, c2) fs\<rparr>"
    using write_frames_blocks [of w1 fs] b pg fs s re by (simp_all add: w1)
  show ?thesis
  proof (cases "b @ tail = []")
    case True
    then have "fs = []" using bb(1) by (cases fs) (auto simp: frame_hdr_def sqlite3Put4byte_def)
    moreover have "recover_file mp junk True fd (zero_hdr v) wi = Some (0, zero_hdr v, wi, (0, 0))"
      using True fd(1) len by (simp add: recover_file_def wal_consts2)
    ultimately show ?thesis using wi by (simp add: recovered_state_def commit_len_def zero_hdr_def wi_ok_empty)
  next
    case False
    let ?w0 = "(zero_hdr v)\<lparr>bigEndCksum := False, szPage := pgsz, nCkpt := nCkpt w, aSalt := aSalt w, aFrameCksum := aFrameCksum w1\<rparr>"
    let ?N = "(length (content fd) - 32) div (pgsz + 24)"
    have lf: "log_file ?w0 fs h tail fd" using len fd pg fs s by (simp add: log_file_def w1 bb(1))
    have t0: "torn (?w0\<lparr>aFrameCksum := ck_at False (c1, c2) fs\<rparr>) tail"
      using t walDecodeFrame_cong [of w2 _ _ "(0, 0, 0)" _ "?w0\<lparr>aFrameCksum := ck_at False (c1, c2) fs\<rparr>"]
      unfolding torn_def by (fastforce simp: bb(2) w1)
    have inv: "read_inv ?w0 fs 0 (?w0, wi, (0, 0))" using wi by (simp add: zero_hdr_def commit_len_def wi_ok_empty)
    have "\<exists>w' wi' ck'. recover_pages mp junk fd (szPage ?w0) ?N [0..<walFramePage ?N + 1] (?w0, wi, (0, 0)) = Some (0, w', wi', ck') \<and>
        read_inv ?w0 fs (length fs) (w', wi', ck')"
      by (rule recover_pages_ok [OF lf _ mp junk _ _ _ _ inv]) (use t0 in \<open>simp_all add: w1 zero_def ck_at_def\<close>)
    then obtain w' wi' ck' where r: "recover_pages mp junk fd pgsz ?N [0..<walFramePage ?N + 1] (?w0, wi, (0, 0)) = Some (0, w', wi', ck')"
      "read_inv ?w0 fs (length fs) (w', wi', ck')" by auto
    have "recover_file mp junk True fd (zero_hdr v) wi = Some (0, w', wi', ck')"
      using recover_file_header [OF h s pg fd(1) False fd(2)] r(1) by simp
    moreover have "recovered_state w1 fs (w', wi', ck')" using r(2) by (auto simp: recovered_state_def w1)
    ultimately show ?thesis by blast
  qed
qed

text \<open>C19. After a crash, \<open>walIndexRecover\<close> restores exactly the committed transactions of the log.  The file is a header
  as \<open>walFrames\<close> writes it, frames written behind it, and whatever the crash left after them, as long as that is no
  valid next frame.  Recovery succeeds; the log ends at the last frame that commits, frames of an unfinished
  transaction are given up, the size of the database and the running checksum are those of that commit, so that the
  next writer goes on from there; nothing counts as copied into the database; and a reader finds of each page the
  last committed version.\<close>

theorem recovery_restores_commits:
  assumes "write_wal_header w pgsz = Some (h, w1)" "write_frames w1 fs = Some (b, w2)" "torn w2 tail"
    and "length (aSalt w) = 8" "pgsz_ok pgsz" "iReCksum w = 0" "frames_ok pgsz fs"
    and "content fd = h @ b @ tail" "size_rc fd = 0" "read_rc fd = (\<lambda>_. 0)"
    and "\<And>i. length (aPgno (junk i)) = cap i" "\<And>i. length (aPgno (wi i)) = cap i"
  shows "\<exists>w' wi' info'. walIndexRecover (\<lambda>_. 0) junk 0 (\<lambda>_. 0) True fd v wi info = Some (0, w', wi', info') \<and>
    mxFrame w' = commit_len fs \<and> nBackfill info' = 0 \<and>
    (0 < commit_len fs \<longrightarrow> nPage w' = f_size (fs ! (commit_len fs - 1)) \<and>
       (\<exists>b3 w3. write_frames w1 (take (commit_len fs) fs) = Some (b3, w3) \<and> aFrameCksum w' = aFrameCksum w3)) \<and>
    (\<forall>lo p. 0 < lo \<longrightarrow> walFindFrame (\<lambda>_. 0) (w'\<lparr>minFrame := lo, readLock := 1\<rparr>) wi' p =
       (0, last_frame (map fst fs) lo (commit_len fs) p))"
proof -
  obtain w' wi' ck where r: "recover_file (\<lambda>_. 0) junk True fd (zero_hdr v) wi = Some (0, w', wi', ck)" "recovered_state w1 fs (w', wi', ck)"
    using recover_file_ok [OF assms(1,4,5,6,7,2,3,8) _ refl assms(11,12)] assms(10) by fastforce
  let ?w = "w'\<lparr>aFrameCksum := ck\<rparr>"
  obtain rm where "set_read_marks (\<lambda>_. 0) (mxFrame ?w) [1..<5] ((aReadMark info)[0 := 0]) = (0, rm)"
    using set_read_marks_free by (metis prod.collapse)
  then have rec: "walIndexRecover (\<lambda>_. 0) junk 0 (\<lambda>_. 0) True fd v wi info =
      Some (0, ?w, wi', \<lparr>nBackfill = 0, nBackfillAttempted = mxFrame ?w, aReadMark = rm\<rparr>)"
    using r(1) assms(9) by (simp add: walIndexRecover_def Let_def)
  have st: "mxFrame ?w = commit_len fs" "wi_ok wi' (map fst fs)" using r(2) by (auto simp: recovered_state_def)
  obtain c1 c2 where w1: "w1 = w\<lparr>szPage := pgsz, bigEndCksum := False, aFrameCksum := (c1, c2)\<rparr>"
    using write_wal_headerD [OF assms(1,4)] by metis
  have "\<exists>b3. write_frames w1 (take (commit_len fs) fs) = Some (b3, w1\<lparr>aFrameCksum := ck_at (bigEndCksum w1) (aFrameCksum w1) (take (commit_len fs) fs)\<rparr>)"
    using write_frames_blocks [of w1 "take (commit_len fs) fs"] assms(4,5,6,7) by (fastforce simp: w1 frames_ok_def dest: in_set_takeD)
  then have com: "0 < commit_len fs \<longrightarrow> nPage ?w = f_size (fs ! (commit_len fs - 1)) \<and>
       (\<exists>b3 w3. write_frames w1 (take (commit_len fs) fs) = Some (b3, w3) \<and> aFrameCksum ?w = aFrameCksum w3)"
    using r(2) by (auto simp: recovered_state_def)
  have "walFindFrame (\<lambda>_. 0) (?w\<lparr>minFrame := lo, readLock := 1\<rparr>) wi' p = (0, last_frame (map fst fs) lo (commit_len fs) p)" if "0 < lo" for lo p
    using walFindFrame_last [OF st(2), of "\<lambda>_. 0" "?w\<lparr>minFrame := lo, readLock := 1\<rparr>" p] that commit_len_le [of fs] st(1) by simp
  then have find: "\<forall>lo p. 0 < lo \<longrightarrow> walFindFrame (\<lambda>_. 0) (?w\<lparr>minFrame := lo, readLock := 1\<rparr>) wi' p =
      (0, last_frame (map fst fs) lo (commit_len fs) p)" by blast
  show ?thesis by (intro exI conjI, rule rec) (use st(1) com find in \<open>simp_all only: wal_ckpt_info.select_convs simp_thms\<close>)
qed

text \<open>A handle for a new log of pages of 512 bytes; two frames that commit, then one that does not, then a torn write.\<close>

abbreviation log_handle :: wal where
  "log_handle \<equiv> \<lparr>mxFrame = 0, nPage = 0, bigEndCksum = False, hdr_szPage = 512, aFrameCksum = (0, 0), aSalt = [1, 2, 3, 4, 5, 6, 7, 8],
     szPage = 512, minFrame = 1, readLock = 1, bShmUnreliable = False, iReCksum = 0, nCkpt = 3\<rparr>"

abbreviation some_frames :: "wal_frame list" where
  "some_frames \<equiv> [(1, 0, replicate 512 65), (2, 2, replicate 512 66), (3, 0, replicate 512 67)]"

theorem recovery_restores_commits_witness:
  "\<exists>h w1 b w2 w' wi' info'. write_wal_header log_handle 512 = Some (h, w1) \<and> write_frames w1 some_frames = Some (b, w2) \<and>
     walIndexRecover (\<lambda>_. 0) old_index 0 (\<lambda>_. 0) True \<lparr>content = h @ b @ [1, 2, 3], size_rc = 0, read_rc = \<lambda>_. 0\<rparr>
       log_handle old_index \<lparr>nBackfill = 9, nBackfillAttempted = 9, aReadMark = [9, 9, 9, 9, 9]\<rparr> = Some (0, w', wi', info') \<and>
     mxFrame w' = 2 \<and> nPage w' = 2 \<and> nBackfill info' = 0 \<and>
     walFindFrame (\<lambda>_. 0) (w'\<lparr>minFrame := 1, readLock := 1\<rparr>) wi' 1 = (0, 1) \<and>
     walFindFrame (\<lambda>_. 0) (w'\<lparr>minFrame := 1, readLock := 1\<rparr>) wi' 3 = (0, 0)"
proof -
  have "hdr_bytes log_handle 512 \<noteq> []" "length (hdr_bytes log_handle 512) mod 8 = 0" by (simp_all add: hdr_bytes_def)
  from walChecksumBytes_total [OF this, of True "(0, 0)"] obtain h w1 where
    h: "write_wal_header log_handle 512 = Some (h, w1)" and w1: "szPage w1 = 512" "aSalt w1 = [1, 2, 3, 4, 5, 6, 7, 8]" "iReCksum w1 = 0"
    by (auto simp: write_wal_header_def hdr_bytes_def Let_def)
  have fs: "frames_ok 512 some_frames" "pgsz_ok 512" by (simp_all add: frames_ok_def pgsz_ok_def)
  obtain b w2 where b: "write_frames w1 some_frames = Some (b, w2)" "szPage w2 = 512"
    using write_frames_blocks [of w1 some_frames] fs w1 by simp
  have c: "commit_len some_frames = 2" by (simp add: commit_len_def)
  have t: "torn w2 [1, 2, 3]" by (simp add: torn_def b(2))
  let ?fd = "\<lparr>content = h @ b @ [1, 2, 3], size_rc = 0, read_rc = \<lambda>_. 0\<rparr>"
  let ?info = "\<lparr>nBackfill = 9, nBackfillAttempted = 9, aReadMark = [9, 9, 9, 9, 9]\<rparr>"
  obtain w' wi' info' where r: "walIndexRecover (\<lambda>_. 0) old_index 0 (\<lambda>_. 0) True ?fd log_handle old_index ?info = Some (0, w', wi', info')"
    "mxFrame w' = 2" "nBackfill info' = 0" "nPage w' = f_size (some_frames ! (2 - 1))"
    "\<And>p. walFindFrame (\<lambda>_. 0) (w'\<lparr>minFrame := 1, readLock := 1\<rparr>) wi' p = (0, last_frame (map fst some_frames) 1 2 p)"
    using recovery_restores_commits [OF h b(1) t _ fs(2) _ fs(1), of ?fd old_index old_index log_handle ?info] unfolding c by auto
  have "last_frame (map fst some_frames) 1 2 1 = 1" "last_frame (map fst some_frames) 1 2 3 = 0" by (simp_all add: numeral_2_eq_2)
  note find = r(5) [of 1, unfolded this] r(5) [of 3, unfolded this]
  have "nPage w' = 2" using r(4) by simp
  then show ?thesis using h b(1) r(1-3) find by (intro exI conjI)
qed

end
