(* ===== verification/Wal_Checkpoint_Props.thy ===== *)
theory Wal_Checkpoint_Props
  imports Wal_Checkpoint Wal_Iterator_Props Wal_Frames_Props
begin

text \<open>
  Checkpoints: the loop over the iterator is a loop over the list of the last frames of the pages; it writes a page only
  when the log has a newer version between the frames already copied and the limit set by the read marks.  Hence no
  reader's view changes, whatever fails on the way, and a checkpoint that nothing disturbs copies the whole log.
\<close>

section \<open>Copying\<close>

lemma top_pgno: "x \<le> (0xFFFFFFFF :: pgno)"
proof -
  have "unat x < 2 ^ 32" using unsigned_less [of x] by simp
  then show ?thesis by (simp add: word_le_nat_alt)
qed

lemma iter_scan_frame: "\<exists>ss' r g. \<forall>f. iter_scan q f ss = (ss', r, if r = 0xFFFFFFFF then f else g)"
proof (induction ss)
  case (Cons s ss)
  then obtain ss1 r1 g where IH: "\<And>f. iter_scan q f ss = (ss1, r1, if r1 = 0xFFFFFFFF then f else g)" by blast
  let ?n = "seg_skip q s (iNext s)"
  show ?case
  proof (cases "?n < length (aIndex s) \<and> seg_aPgno s ! (aIndex s ! ?n) < r1")
    case True
    then have "seg_aPgno s ! (aIndex s ! ?n) \<noteq> 0xFFFFFFFF" using top_pgno [of r1] by auto
    with True IH show ?thesis
      by (intro exI [of _ "s\<lparr>iNext := ?n\<rparr> # ss1"] exI [of _ "seg_aPgno s ! (aIndex s ! ?n)"] exI [of _ "seg_iZero s + aIndex s ! ?n"]) (simp add: Let_def)
  next
    case False
    with IH show ?thesis by (intro exI [of _ "s\<lparr>iNext := ?n\<rparr> # ss1"] exI [of _ r1] exI [of _ g]) (auto simp: Let_def)
  qed
qed simp

lemma walIteratorNext_frame:
  assumes "walIteratorNext it f = (rc, p, g, it')"
  shows "walIteratorNext it f2 = (rc, p, if rc = 0 then g else f2, it')"
proof -
  obtain ss r g' where "\<And>f. iter_scan (iPrior it) f (segments it) = (ss, r, if r = 0xFFFFFFFF then f else g')"
    using iter_scan_frame [of "iPrior it" "segments it"] by blast
  with assms show ?thesis by (auto simp: walIteratorNext_def split: if_splits)
qed

text \<open>The loop over the list of what the iterator returns.\<close>

fun copy_list :: "ckpt_env \<Rightarrow> wal_file \<Rightarrow> nat \<Rightarrow> nat \<Rightarrow> nat \<Rightarrow> u32 \<Rightarrow> (pgno \<times> nat) list \<Rightarrow> db_file \<Rightarrow> int \<times> db_file" where
  "copy_list e fd n b s x [] db = (0, db)"
| "copy_list e fd n b s x ((p, f) # pfs) db =
     (if ck_interrupt e p \<noteq> 0 then (ck_interrupt e p, db)
      else if f \<le> b \<or> f > s \<or> p > x then copy_list e fd n b s x pfs db
      else (let (rc, d) = wal_read fd n (walFrameOffset f n + WAL_FRAME_HDRSIZE)
            in if rc \<noteq> 0 then (rc, db)
               else if ck_write e p \<noteq> 0 then (ck_write e p, db(p := ck_torn e p))
               else copy_list e fd n b s x pfs (db(p := d))))"

lemma ckpt_copy_list: "length (wal_iterate k it) < k \<Longrightarrow> ckpt_copy e fd n b s x it f db = copy_list e fd n b s x (wal_iterate k it) db"
proof (induction k arbitrary: it f db)
  case (Suc k)
  obtain rc p g it' where n0: "walIteratorNext it 0 = (rc, p, g, it')" by (cases "walIteratorNext it 0")
  note nf = walIteratorNext_frame [OF n0, of f]
  show ?case
  proof (cases "rc = 0")
    case True
    then have "length (wal_iterate k it') < k" using Suc.prems n0 by simp
    note IH = Suc.IH [OF this]
    obtain r d where "wal_read fd n (walFrameOffset g n + WAL_FRAME_HDRSIZE) = (r, d)" by fastforce
    then show ?thesis using True n0 IH by (subst ckpt_copy.simps) (simp add: nf fun_upd_def)
  next
    case False
    then show ?thesis using n0 by (subst ckpt_copy.simps) (simp add: nf)
  qed
qed simp

lemma copy_list_step:
  "copy_list e fd n b s x ((q, f) # pfs) db = (rc, db') \<Longrightarrow> wal_read fd n (walFrameOffset f n + WAL_FRAME_HDRSIZE) = (r, d) \<Longrightarrow>
    ck_interrupt e q \<noteq> 0 \<and> rc = ck_interrupt e q \<and> db' = db \<or>
    (f \<le> b \<or> f > s \<or> q > x) \<and> copy_list e fd n b s x pfs db = (rc, db') \<or>
    b < f \<and> f \<le> s \<and> q \<le> x \<and> (r \<noteq> 0 \<and> rc = r \<and> db' = db \<or> ck_write e q \<noteq> 0 \<and> rc = ck_write e q \<and> db' = db(q := ck_torn e q) \<or>
      copy_list e fd n b s x pfs (db(q := d)) = (rc, db'))"
  by (auto simp: fun_upd_def split: if_splits)

lemma copy_list_changes:
  "copy_list e fd n b s x pfs db = (rc, db') \<Longrightarrow> db' p \<noteq> db p \<Longrightarrow> \<exists>f. (p, f) \<in> set pfs \<and> b < f \<and> f \<le> s \<and> p \<le> x"
proof (induction pfs arbitrary: db)
  case (Cons qf pfs)
  obtain q f where q: "qf = (q, f)" by fastforce
  obtain r d where "wal_read fd n (walFrameOffset f n + WAL_FRAME_HDRSIZE) = (r, d)" by fastforce
  from copy_list_step [OF Cons.prems(1) [unfolded q] this] Cons.prems(2)
  consider "copy_list e fd n b s x pfs db = (rc, db')" | "b < f" "f \<le> s" "q \<le> x" "p = q"
    | "copy_list e fd n b s x pfs (db(q := d)) = (rc, db')" "p \<noteq> q" by (auto split: if_splits)
  then show ?case
  proof cases
    case 1 with Cons.IH [OF 1 Cons.prems(2)] show ?thesis by auto
  next
    case 2 then show ?thesis by (auto simp: q)
  next
    case 3 with Cons.IH [OF 3(1)] Cons.prems(2) show ?thesis by auto
  qed
qed simp

lemma copy_list_copies:
  "\<lbrakk>copy_list e fd n b s x pfs db = (0, db'); distinct (map fst pfs); (p, f) \<in> set pfs; b < f; f \<le> s; p \<le> x\<rbrakk> \<Longrightarrow>
    db' p = snd (wal_read fd n (walFrameOffset f n + WAL_FRAME_HDRSIZE))"
proof (induction pfs arbitrary: db)
  case (Cons qg pfs)
  obtain q g where q: "qg = (q, g)" by fastforce
  obtain r d where rd: "wal_read fd n (walFrameOffset g n + WAL_FRAME_HDRSIZE) = (r, d)" by fastforce
  from copy_list_step [OF Cons.prems(1) [unfolded q] rd]
  consider "g \<le> b \<or> g > s \<or> q > x" "copy_list e fd n b s x pfs db = (0, db')"
    | "copy_list e fd n b s x pfs (db(q := d)) = (0, db')" by auto
  then show ?case
  proof cases
    case 1
    then have "(p, f) \<noteq> (q, g)" using Cons.prems(4-6) by auto
    with Cons.IH [OF 1(2)] Cons.prems(2-6) show ?thesis by (auto simp: q)
  next
    case 2
    show ?thesis
    proof (cases "(p, f) = (q, g)")
      case True
      have "db' p = (db(q := d)) p"
      proof (rule ccontr)
        assume "db' p \<noteq> (db(q := d)) p"
        from copy_list_changes [OF 2 this] have "p \<in> fst ` set pfs" by force
        with Cons.prems(2) True show False by (simp add: q)
      qed
      with rd True show ?thesis by simp
    next
      case False
      with Cons.IH [OF 2] Cons.prems(2-6) show ?thesis by (auto simp: q)
    qed
  qed
qed simp

section \<open>Read marks\<close>

lemma ckpt_marks_ok:
  "\<lbrakk>ckpt_marks lock is (rc, m, rm) = (failed, rc', m', rm'); distinct is; \<forall>i\<in>set is. i < length rm\<rbrakk> \<Longrightarrow>
    m' \<le> m \<and> (\<not> failed \<longrightarrow> (\<forall>i\<in>set is. lock i \<noteq> 0 \<longrightarrow> m' \<le> unat (rm ! i)))"
proof (induction "is" arbitrary: rc m rm)
  case (Cons i "is")
  show ?case
  proof (cases "m > unat (rm ! i)")
    case False
    with Cons.prems have "ckpt_marks lock is (rc, m, rm) = (failed, rc', m', rm')" by simp
    from Cons.IH [OF this] Cons.prems False show ?thesis by auto
  next
    case True
    consider "lock i = 0" | "lock i \<noteq> 0" "lock i = SQLITE_BUSY" | "lock i \<noteq> 0" "lock i \<noteq> SQLITE_BUSY" by blast
    then show ?thesis
    proof cases
      case 1
      with Cons.prems True have "ckpt_marks lock is (0, m, rm[i := if i = 1 then of_nat m else READMARK_NOT_USED]) = (failed, rc', m', rm')" by simp
      note IH = Cons.IH [OF this]
      have "\<forall>j\<in>set is. rm[i := x] ! j = rm ! j" for x
        using Cons.prems(2) by (intro ballI nth_list_update_neq) auto
      with IH Cons.prems(2,3) 1 show ?thesis by simp
    next
      case 2
      with Cons.prems True have "ckpt_marks lock is (SQLITE_BUSY, unat (rm ! i), rm) = (failed, rc', m', rm')" by simp
      from Cons.IH [OF this] Cons.prems True show ?thesis by auto
    next
      case 3
      with Cons.prems True show ?thesis by auto
    qed
  qed
qed simp

section \<open>What a reader sees\<close>

definition frames_at :: "wal_file \<Rightarrow> nat \<Rightarrow> wal_frame list \<Rightarrow> bool" where
  "frames_at fd n fs \<longleftrightarrow> (\<forall>k<length fs. snd (wal_read fd n (walFrameOffset (Suc k) n + WAL_FRAME_HDRSIZE)) = f_data (fs ! k))"

lemma frames_at_file:
  assumes "content fd = h @ concat (blocks big salt ck fs) @ tail" "length h = 32" "length salt = 8" "frames_ok n fs"
  shows "frames_at fd n fs"
  unfolding frames_at_def
proof (intro allI impI)
  fix k assume k: "k < length fs"
  let ?bs = "blocks big salt ck fs"
  have u: "uniform (n + 24) ?bs" using assms by (intro blocks_uniform)
  have dl: "length (f_data (fs ! k)) = n" using assms(4) nth_mem [OF k] by (simp add: frames_ok_def)
  have len: "length (concat ?bs) = length fs * (n + 24)" using uniform_length [OF u] by simp
  have "Suc k * (n + 24) \<le> length fs * (n + 24)" using k by (intro mult_le_mono1) simp
  then have "take (n + 24) (drop (k * (n + 24)) (concat ?bs @ tail)) = take (n + 24) (drop (k * (n + 24)) (concat ?bs))" using len by simp
  also have "\<dots> = ?bs ! k" using k by (intro uniform_nth [OF u]) simp
  finally have b: "take (n + 24) (drop (k * (n + 24)) (concat ?bs @ tail)) =
      frame_hdr salt (f_pg (fs ! k)) (f_size (fs ! k)) (ck_at big ck (take (Suc k) fs)) @ f_data (fs ! k)" using blocks_nth [OF k] by simp
  define X where "X = concat ?bs @ tail"
  have "drop (walFrameOffset (Suc k) n + WAL_FRAME_HDRSIZE) (h @ X) = drop 24 (drop (k * (n + 24)) X)"
    using assms(2) by (simp add: walFrameOffset_def wal_consts2 add.commute)
  then have "drop (walFrameOffset (Suc k) n + WAL_FRAME_HDRSIZE) (content fd) = drop 24 (drop (k * (n + 24)) (concat ?bs @ tail))"
    unfolding assms(1) X_def .
  then have "snd (wal_read fd n (walFrameOffset (Suc k) n + WAL_FRAME_HDRSIZE)) = take n (drop 24 (drop (k * (n + 24)) (concat ?bs @ tail)))"
    by (simp only: wal_read_def snd_conv)
  also have "\<dots> = drop 24 (take (n + 24) (drop (k * (n + 24)) (concat ?bs @ tail)))" by (simp only: drop_take diff_add_inverse2)
  also have "\<dots> = f_data (fs ! k)" unfolding b using length_frame_hdr [OF assms(3)] by simp
  finally show "snd (wal_read fd n (walFrameOffset (Suc k) n + WAL_FRAME_HDRSIZE)) = f_data (fs ! k)" .
qed

lemma last_frame_le: "last_frame lg lo hi p \<le> hi"
  by (induction hi) auto

lemma last_frame_later: "lo \<le> lo' \<Longrightarrow> lo' \<le> last_frame lg lo hi p \<Longrightarrow> 0 < lo' \<Longrightarrow> last_frame lg lo' hi p = last_frame lg lo hi p"
proof (induction hi)
  case (Suc hi)
  then show ?case using last_frame_le [of lg lo hi p] by (auto split: if_splits)
qed simp

lemma last_frame_ge: "last_frame lg lo hi p \<noteq> 0 \<Longrightarrow> lo \<le> last_frame lg lo hi p"
  by (induction hi) (auto split: if_splits)

lemma last_frame_0: "last_frame lg lo hi p = 0 \<longleftrightarrow> (\<forall>k. lo \<le> Suc k \<longrightarrow> Suc k \<le> hi \<longrightarrow> lg ! k \<noteq> p)"
proof (induction hi)
  case (Suc hi)
  show ?case
  proof (cases "Suc hi < lo")
    case True then show ?thesis by auto
  next
    case False
    then have "last_frame lg lo (Suc hi) p = 0 \<longleftrightarrow> lg ! hi \<noteq> p \<and> last_frame lg lo hi p = 0" by simp
    also have "\<dots> \<longleftrightarrow> (\<forall>k. lo \<le> Suc k \<longrightarrow> Suc k \<le> Suc hi \<longrightarrow> lg ! k \<noteq> p)"
    proof -
      have "Suc k \<le> Suc hi \<longleftrightarrow> Suc k \<le> hi \<or> k = hi" for k by auto
      moreover have "lo \<le> Suc hi" using False by simp
      ultimately show ?thesis unfolding Suc by blast
    qed
    finally show ?thesis .
  qed
qed simp

lemma last_frame_page: "last_frame lg lo hi p \<noteq> 0 \<Longrightarrow> lg ! (last_frame lg lo hi p - 1) = p"
  by (induction hi) (auto split: if_splits)

lemma last_frame_earlier: "lo \<le> lo' \<Longrightarrow> last_frame lg lo' hi p \<noteq> 0 \<Longrightarrow> last_frame lg lo hi p = last_frame lg lo' hi p"
  by (induction hi) (auto split: if_splits)

section \<open>The part that copies\<close>

definition ckpt_ok :: "ckpt_env \<Rightarrow> wal_file \<Rightarrow> wal_frame list \<Rightarrow> wal \<Rightarrow> wal_index \<Rightarrow> wal_ckpt_info \<Rightarrow> bool" where
  "ckpt_ok e fd fs w wi info \<longleftrightarrow> ck_map e = (\<lambda>_. 0) \<and> wi_ok wi (map fst fs) \<and> mxFrame w \<le> length fs \<and>
     0xFFFFFFFF \<notin> set (map fst fs) \<and> frames_at fd (walPagesize w) fs \<and> length (aReadMark info) = 5"

text \<open>The frame of a page that a checkpoint has to copy.\<close>

abbreviation newest :: "wal_frame list \<Rightarrow> wal \<Rightarrow> wal_ckpt_info \<Rightarrow> pgno \<Rightarrow> nat" where
  "newest fs w info p \<equiv> last_frame (map fst fs) (nBackfill info + 1) (mxFrame w) p"

lemma walIteratorInit_map: "ck_map e = (\<lambda>_. 0) \<Longrightarrow> walIteratorInit (ck_map e) w wi n al = (rc, Some it) \<Longrightarrow> rc = 0 \<and> al"
  by (auto simp: walIteratorInit_def Let_def split: prod.splits if_splits)

lemma ckpt_copy_ok:
  assumes ok: "ckpt_ok e fd fs w wi info" and nB: "nBackfill info < mxFrame w"
    and it: "walIteratorInit (ck_map e) w wi (nBackfill info) al = (rc0, Some it)"
    and c: "ckpt_copy e fd (walPagesize w) (nBackfill info) s x it f db = (rc, db')"
  shows "db' p \<noteq> db p \<Longrightarrow> nBackfill info < newest fs w info p \<and> newest fs w info p \<le> s \<and> p \<le> x"
    "rc = 0 \<Longrightarrow> newest fs w info p \<noteq> 0 \<Longrightarrow> newest fs w info p \<le> s \<Longrightarrow> p \<le> x \<Longrightarrow> db' p = f_data (fs ! (newest fs w info p - 1))"
proof -
  let ?lg = "map fst fs" and ?m = "mxFrame w" and ?nB = "nBackfill info"
  let ?b = "zero (walFramePage (?nB + 1)) + 1"
  let ?S = "set (drop (?b - 1) (take ?m ?lg))"
  have O: "wi_ok wi ?lg" "?m \<le> length ?lg" "0xFFFFFFFF \<notin> set (take ?m ?lg)" "0 \<notin> set ?lg"
    using ok by (auto simp: ckpt_ok_def wi_ok_def dest: in_set_takeD)
  have "ck_map e = (\<lambda>_. 0)" using ok by (simp add: ckpt_ok_def)
  with walIteratorInit_map [OF this it] it have it0: "walIteratorInit (\<lambda>_. 0) w wi ?nB True = (0, Some it)" by simp
  obtain it1 where "walIteratorInit (\<lambda>_. 0) w wi ?nB True = (0, Some it1)"
    "wal_iterate (?m + 1) it1 = map (\<lambda>p. (p, last_frame ?lg ?b ?m p)) (sorted_list_of_set ?S)"
    using wal_iterator_ok [OF O(1,2) nB O(3)] by blast
  with it0 have L: "wal_iterate (?m + 1) it = map (\<lambda>p. (p, last_frame ?lg ?b ?m p)) (sorted_list_of_set ?S)" by simp
  let ?l = "map (\<lambda>p. (p, last_frame ?lg ?b ?m p)) (sorted_list_of_set ?S)"
  have "card ?S \<le> length (drop (?b - 1) (take ?m ?lg))" by (rule card_length)
  then have "length (wal_iterate (?m + 1) it) < ?m + 1" unfolding L by simp
  from ckpt_copy_list [OF this] c L have C: "copy_list e fd (walPagesize w) ?nB s x ?l db = (rc, db')" by simp
  have b: "?b \<le> ?nB + 1" using walFramePage_range [of "?nB + 1"] by simp
  {
    assume "db' p \<noteq> db p"
    from copy_list_changes [OF C this] have f: "?nB + 1 \<le> last_frame ?lg ?b ?m p" "last_frame ?lg ?b ?m p \<le> s" "p \<le> x" by auto
    then show "?nB < newest fs w info p \<and> newest fs w info p \<le> s \<and> p \<le> x" using last_frame_later [OF b f(1)] by simp
  }
  assume r: "rc = 0" "newest fs w info p \<noteq> 0" "newest fs w info p \<le> s" "p \<le> x"
  let ?f = "newest fs w info p"
  have F: "last_frame ?lg ?b ?m p = ?f" using last_frame_earlier [OF b r(2)] .
  have fm: "?f \<le> ?m" "?nB + 1 \<le> ?f" using last_frame_le last_frame_ge [OF r(2)] by auto
  have "?lg ! (?f - 1) = p" using last_frame_page [OF r(2)] .
  moreover have "?f - 1 < length ?lg" using fm O(2) by simp
  ultimately have "p \<in> set ?lg" using nth_mem [of "?f - 1" ?lg] by metis
  then have "0 < p" using O(4) by (metis word_neq_0_conv)
  moreover have "0 < last_frame ?lg ?b ?m p" unfolding F using r(2) by simp
  moreover have "{p. 0 < p \<and> 0 < last_frame ?lg ?b ?m p} = ?S" by (rule pages_of_log [OF O(4,2)]) simp
  ultimately have "p \<in> ?S" by blast
  then have m: "(p, ?f) \<in> set ?l" using F by auto
  have d: "distinct (map fst ?l)" by (simp add: comp_def)
  have "db' p = snd (wal_read fd (walPagesize w) (walFrameOffset ?f (walPagesize w) + WAL_FRAME_HDRSIZE))"
    using copy_list_copies [OF C [unfolded r(1)] d m _ r(3,4)] fm by simp
  moreover have "snd (wal_read fd (walPagesize w) (walFrameOffset (Suc (?f - 1)) (walPagesize w) + WAL_FRAME_HDRSIZE)) = f_data (fs ! (?f - 1))"
    using ok fm O(2) unfolding ckpt_ok_def frames_at_def by (elim conjE) (drule spec [of _ "?f - 1"], simp)
  ultimately show "db' p = f_data (fs ! (?f - 1))" using fm by simp
qed

lemma ckpt_backfill_ok:
  assumes ok: "ckpt_ok e fd fs w wi info" and nB: "nBackfill info < mxFrame w"
    and b: "ckpt_backfill e fd live w wi info db = (failed, rc, db', info')"
  obtains mxSafe where "mxSafe \<le> mxFrame w"
    "db' = db \<or> ck_lock e 0 = 0 \<and> (\<forall>i\<in>{1, 2, 3, 4}. ck_lock e i \<noteq> 0 \<longrightarrow> mxSafe \<le> unat (aReadMark info ! i))"
    "\<And>p. db' p \<noteq> db p \<Longrightarrow> nPage w < p \<and> mxSafe = live \<or> nBackfill info < newest fs w info p \<and> newest fs w info p \<le> mxSafe"
    "nBackfill info' = nBackfill info \<or> nBackfill info < mxSafe \<and> nBackfill info' = mxSafe \<and>
       (\<forall>p \<le> nPage w. newest fs w info p \<noteq> 0 \<longrightarrow> newest fs w info p \<le> mxSafe \<longrightarrow> db' p = f_data (fs ! (newest fs w info p - 1)))"
proof -
  obtain fl r0 s rm where M: "ckpt_marks (ck_lock e) [1..<5] (0, mxFrame w, aReadMark info) = (fl, r0, s, rm)" by (metis prod_cases4)
  have u: "set [1..<5] = {1, 2, 3, 4::nat}" by auto
  have s: "s \<le> mxFrame w" "\<not> fl \<Longrightarrow> \<forall>i\<in>{1, 2, 3, 4}. ck_lock e i \<noteq> 0 \<longrightarrow> s \<le> unat (aReadMark info ! i)"
    using ckpt_marks_ok [OF M] ok unfolding u by (auto simp: ckpt_ok_def)
  obtain r1 pIter where I: "(if nBackfill info < s then walIteratorInit (ck_map e) w wi (nBackfill info) (ck_alloc e) else (r0, None)) = (r1, pIter)"
    by fastforce
  note B = b [unfolded ckpt_backfill_def Let_def M prod.case I]
  let ?same = "db' = db \<and> nBackfill info' = nBackfill info"
  show thesis
  proof (cases "fl \<or> pIter = None \<or> ck_lock e 0 \<noteq> 0")
    case True
    then have "?same" using B by (auto split: if_splits option.splits)
    then show ?thesis by (intro that [of s]) (simp_all add: s(1))
  next
    case False
    then obtain it where it: "pIter = Some it" "\<not> fl" "ck_lock e 0 = 0" by auto
    then have init: "walIteratorInit (ck_map e) w wi (nBackfill info) (ck_alloc e) = (r1, Some it)" using I by (auto split: if_splits)
    define r2 where "r2 = (if ck_sync_wal e \<noteq> 0 then ck_sync_wal e
      else if fst (ck_size e) = 0 \<and> snd (ck_size e) < unat (nPage w) * walPagesize w \<and>
              snd (ck_size e) + 65536 + mxFrame w * walPagesize w < unat (nPage w) * walPagesize w then SQLITE_CORRUPT
      else fst (ck_size e))"
    obtain r3 db3 where c3: "(if r2 = 0 then ckpt_copy e fd (walPagesize w) (nBackfill info) s (nPage w) it 0 db else (r2, db)) = (r3, db3)"
      by fastforce
    define rd where "rd = (if r3 = 0 \<and> s = live then
        (if ck_truncate e \<noteq> 0 then (ck_truncate e, \<lambda>p. if p \<le> nPage w then db3 p else ck_torn e p)
         else (ck_sync_db e, \<lambda>p. if p \<le> nPage w then db3 p else []))
      else (r3, db3))"
    have res: "db' = snd rd" "nBackfill info' = (if fst rd = 0 then s else nBackfill info)"
    proof -
      obtain r4 db4 where R: "rd = (r4, db4)" by fastforce
      from B have "db' = db4 \<and> info' = (if r4 = 0 then info\<lparr>aReadMark := rm, nBackfillAttempted := s, nBackfill := s\<rparr>
          else info\<lparr>aReadMark := rm, nBackfillAttempted := s\<rparr>)"
        unfolding it(1) option.case r2_def [symmetric] c3 prod.case rd_def [symmetric] R by (simp add: it)
      then show "db' = snd rd" "nBackfill info' = (if fst rd = 0 then s else nBackfill info)" by (simp_all add: R)
    qed
    have rd: "p \<le> nPage w \<or> s \<noteq> live \<Longrightarrow> snd rd p = db3 p" "fst rd = 0 \<Longrightarrow> r3 = 0" for p by (auto simp: rd_def split: if_splits)
    have ch: "nBackfill info < newest fs w info p \<and> newest fs w info p \<le> s" if "db3 p \<noteq> db p" for p
    proof -
      from c3 that have "ckpt_copy e fd (walPagesize w) (nBackfill info) s (nPage w) it 0 db = (r3, db3)" by (auto split: if_splits)
      from ckpt_copy_ok(1) [OF ok nB init this that] show ?thesis by blast
    qed
    have cp: "db' p = f_data (fs ! (newest fs w info p - 1))"
      if "fst rd = 0" "p \<le> nPage w" "newest fs w info p \<noteq> 0" "newest fs w info p \<le> s" for p
    proof -
      have r3: "r3 = 0" using rd(2) that(1) .
      then have "ckpt_copy e fd (walPagesize w) (nBackfill info) s (nPage w) it 0 db = (r3, db3)" using c3 by (auto split: if_splits)
      from ckpt_copy_ok(2) [OF ok nB init this r3 that(3,4,2)] show ?thesis using rd(1) that(2) res(1) by simp
    qed
    show ?thesis
    proof (rule that [OF s(1)])
      show "db' = db \<or> ck_lock e 0 = 0 \<and> (\<forall>i\<in>{1, 2, 3, 4}. ck_lock e i \<noteq> 0 \<longrightarrow> s \<le> unat (aReadMark info ! i))"
        using it s(2) by blast
      show "nPage w < p \<and> s = live \<or> nBackfill info < newest fs w info p \<and> newest fs w info p \<le> s" if "db' p \<noteq> db p" for p
        using that ch [of p] rd(1) [of p] res(1) by (metis not_le)
      have "nBackfill info < s" using I it(1) by (auto split: if_splits)
      then show "nBackfill info' = nBackfill info \<or> nBackfill info < s \<and> nBackfill info' = s \<and>
          (\<forall>p \<le> nPage w. newest fs w info p \<noteq> 0 \<longrightarrow> newest fs w info p \<le> s \<longrightarrow> db' p = f_data (fs ! (newest fs w info p - 1)))"
        using cp res(2) by auto
    qed
  qed
qed

section \<open>Readers\<close>

lemma readDbPage_view:
  assumes wi: "wi_ok wi (map fst fs)" and hi: "mxFrame v \<le> length fs" and lo: "0 < minFrame v" "readLock v \<noteq> 0"
    and fr: "frames_at fd (walPagesize v) fs" and n: "n = walPagesize v"
  shows "snd (readDbPage (\<lambda>_. 0) fd db_rc n v wi db p) =
    (let f = last_frame (map fst fs) (minFrame v) (mxFrame v) p in if f = 0 then db p else f_data (fs ! (f - 1)))"
proof -
  let ?f = "last_frame (map fst fs) (minFrame v) (mxFrame v) p"
  have F: "walFindFrame (\<lambda>_. 0) v wi p = (0, ?f)" using walFindFrame_last [OF wi, of "\<lambda>_. 0" v p] hi lo by simp
  show ?thesis
  proof (cases "?f = 0")
    case True
    then show ?thesis by (simp add: readDbPage_def F)
  next
    case False
    have "?f \<le> mxFrame v" by (rule last_frame_le)
    then have "?f - 1 < length fs" "Suc (?f - 1) = ?f" using hi False by auto
    then have "snd (wal_read fd n (walFrameOffset ?f n + WAL_FRAME_HDRSIZE)) = f_data (fs ! (?f - 1))"
      using fr unfolding frames_at_def n by metis
    with False show ?thesis by (simp add: readDbPage_def F sqlite3WalReadFrame_def n [symmetric] Let_def)
  qed
qed

lemma readDbPage_rc:
  "db' p = db p \<Longrightarrow> readDbPage mp fd db_rc n v wi db' p = readDbPage mp fd db_rc n v wi db p"
  by (simp add: readDbPage_def split: prod.split)

lemma readDbPage_log:
  assumes "wi_ok wi (map fst fs)" "mxFrame v \<le> length fs" "0 < minFrame v" "readLock v \<noteq> 0"
    and "last_frame (map fst fs) (minFrame v) (mxFrame v) p \<noteq> 0"
  shows "readDbPage (\<lambda>_. 0) fd db_rc n v wi db' p = readDbPage (\<lambda>_. 0) fd db_rc n v wi db p"
  using walFindFrame_last [OF assms(1), of "\<lambda>_. 0" v p] assms(2-5) by (simp add: readDbPage_def)

section \<open>No reader's view changes\<close>

text \<open>A connection that reads the log: it holds the lock of a read mark that is not beyond its end of the log, so that
  the checkpoint gets neither that lock nor all of them.\<close>

definition running_reader :: "ckpt_env \<Rightarrow> nat \<Rightarrow> wal \<Rightarrow> wal_ckpt_info \<Rightarrow> wal \<Rightarrow> bool" where
  "running_reader e live w info v \<longleftrightarrow>
     walPagesize v = walPagesize w \<and> 0 < minFrame v \<and> minFrame v \<le> nBackfill info + 1 \<and>
     readLock v \<in> {1, 2, 3, 4} \<and> ck_lock e (nat (readLock v)) \<noteq> 0 \<and> ck_readers e \<noteq> 0 \<and>
     unat (aReadMark info ! nat (readLock v)) \<le> mxFrame v \<and> mxFrame v \<le> live \<and> (mxFrame v = mxFrame w \<longrightarrow> nPage v = nPage w)"

text \<open>A connection that begins to read now.\<close>

definition new_reader :: "wal \<Rightarrow> wal_ckpt_info \<Rightarrow> wal" where
  "new_reader w info = w\<lparr>minFrame := nBackfill info + 1, readLock := 1\<rparr>"

lemma new_reader_simps [simp]:
  "walPagesize (new_reader w info) = walPagesize w" "mxFrame (new_reader w info) = mxFrame w"
  "minFrame (new_reader w info) = nBackfill info + 1" "readLock (new_reader w info) = 1"
  by (simp_all add: new_reader_def walPagesize_def)

lemma new_reader_content:
  assumes "wi_ok wi (map fst fs)" "mxFrame w \<le> length fs" "frames_at fd (walPagesize w) fs" "n = walPagesize w"
  shows "snd (readDbPage (\<lambda>_. 0) fd db_rc n (new_reader w info) wi db p) =
    (if newest fs w info p = 0 then db p else f_data (fs ! (newest fs w info p - 1)))"
proof -
  let ?v = "new_reader w info"
  have "mxFrame ?v \<le> length fs" "0 < minFrame ?v" "readLock ?v \<noteq> 0" "frames_at fd (walPagesize ?v) fs" "n = walPagesize ?v"
    using assms by simp_all
  from readDbPage_view [OF assms(1) this, of db_rc db p] show ?thesis unfolding new_reader_simps Let_def .
qed

lemma walCheckpointD:
  assumes "walCheckpoint e eMode fd live w wi info db = Some (rc, db', info', w', fd')"
  obtains failed rc1 info1 where
    "(if nBackfill info < mxFrame w then ckpt_backfill e fd live w wi info db else (False, 0, db, info)) = (failed, rc1, db', info1)"
    "w' = w \<and> info' = info1 \<and> fd' = fd \<or>
       \<not> nBackfill info1 < mxFrame w \<and> ck_readers e = 0 \<and> mxFrame w' = 0 \<and> walPagesize w' = walPagesize w"
proof -
  obtain failed rc1 db1 info1 where B:
    "(if nBackfill info < mxFrame w then ckpt_backfill e fd live w wi info db else (False, 0, db, info)) = (failed, rc1, db1, info1)"
    by (metis prod_cases4)
  note A = assms [unfolded walCheckpoint_def B Let_def prod.case]
  have "db1 = db'" using A by (auto split: if_splits simp: bind_eq_Some_conv)
  moreover have "w' = w \<and> info' = info1 \<and> fd' = fd \<or>
      \<not> nBackfill info1 < mxFrame w \<and> ck_readers e = 0 \<and> mxFrame w' = 0 \<and> walPagesize w' = walPagesize w"
    using A by (auto split: if_splits simp: bind_eq_Some_conv walRestartHdr_def walPagesize_def)
  ultimately show thesis using that B by blast
qed

text \<open>How far the checkpoint went, what it wrote and what it leaves to the log.\<close>

lemma walCheckpoint_ok:
  assumes ok: "ckpt_ok e fd fs w wi info"
    and ck: "walCheckpoint e eMode fd live w wi info db = Some (rc, db', info', w', fd')"
  obtains s info1 where "s \<le> mxFrame w"
    "w' = w \<and> info' = info1 \<and> fd' = fd \<or>
       \<not> nBackfill info1 < mxFrame w \<and> ck_readers e = 0 \<and> mxFrame w' = 0 \<and> walPagesize w' = walPagesize w"
    "db' = db \<or> ck_lock e 0 = 0 \<and> (\<forall>i\<in>{1, 2, 3, 4}. ck_lock e i \<noteq> 0 \<longrightarrow> s \<le> unat (aReadMark info ! i))"
    "\<And>p. db' p \<noteq> db p \<Longrightarrow> nPage w < p \<and> s = live \<or> nBackfill info < newest fs w info p \<and> newest fs w info p \<le> s"
    "nBackfill info1 = nBackfill info \<or> nBackfill info < s \<and> nBackfill info1 = s \<and>
       (\<forall>p \<le> nPage w. newest fs w info p \<noteq> 0 \<longrightarrow> newest fs w info p \<le> s \<longrightarrow> db' p = f_data (fs ! (newest fs w info p - 1)))"
proof -
  obtain failed rc1 info1 where
    B: "(if nBackfill info < mxFrame w then ckpt_backfill e fd live w wi info db else (False, 0, db, info)) = (failed, rc1, db', info1)"
    and R: "w' = w \<and> info' = info1 \<and> fd' = fd \<or>
       \<not> nBackfill info1 < mxFrame w \<and> ck_readers e = 0 \<and> mxFrame w' = 0 \<and> walPagesize w' = walPagesize w"
    using walCheckpointD [OF ck] by metis
  show thesis
  proof (cases "nBackfill info < mxFrame w")
    case True
    have "ckpt_backfill e fd live w wi info db = (failed, rc1, db', info1)" using B True by simp
    then show thesis by (rule ckpt_backfill_ok [OF ok True]) (rule that [OF _ R])
  next
    case False
    with B R that [of 0 info1] show thesis by auto
  qed
qed

lemma running_reader_view:
  assumes ok: "ckpt_ok e fd fs w wi info" and live: "mxFrame w \<le> live" "live \<le> length fs"
    and ck: "walCheckpoint e eMode fd live w wi info db = Some (rc, db', info', w', fd')"
    and v: "running_reader e live w info v" and p: "p \<le> nPage v"
  shows "fd' = fd \<and> readDbPage (\<lambda>_. 0) fd' db_rc (walPagesize w) v wi db' p = readDbPage (\<lambda>_. 0) fd db_rc (walPagesize w) v wi db p"
proof -
  let ?lg = "map fst fs" and ?f = "newest fs w info p" and ?g = "last_frame (map fst fs) (minFrame v) (mxFrame v) p"
  obtain s info1 where S: "s \<le> mxFrame w" and R: "w' = w \<and> info' = info1 \<and> fd' = fd \<or>
       \<not> nBackfill info1 < mxFrame w \<and> ck_readers e = 0 \<and> mxFrame w' = 0 \<and> walPagesize w' = walPagesize w"
    and M: "db' = db \<or> ck_lock e 0 = 0 \<and> (\<forall>i\<in>{1, 2, 3, 4}. ck_lock e i \<noteq> 0 \<longrightarrow> s \<le> unat (aReadMark info ! i))"
    and D: "\<And>p. db' p \<noteq> db p \<Longrightarrow> nPage w < p \<and> s = live \<or> nBackfill info < newest fs w info p \<and> newest fs w info p \<le> s"
    by (rule walCheckpoint_ok [OF ok ck], rule that)
  have len: "mxFrame v \<le> length fs" "wi_ok wi ?lg" using v live ok by (simp_all add: running_reader_def ckpt_ok_def)
  have "?g \<noteq> 0" if ne: "db' p \<noteq> db p"
  proof -
    have lk: "nat (readLock v) \<in> {1, 2, 3, 4}" "ck_lock e (nat (readLock v)) \<noteq> 0" "unat (aReadMark info ! nat (readLock v)) \<le> mxFrame v"
      using v by (auto simp: running_reader_def)
    have "\<forall>i\<in>{1, 2, 3, 4}. ck_lock e i \<noteq> 0 \<longrightarrow> s \<le> unat (aReadMark info ! i)" using M ne by blast
    with lk have sv: "s \<le> mxFrame v" by (meson le_trans)
    have "\<not> (nPage w < p \<and> s = live)"
    proof
      assume g: "nPage w < p \<and> s = live"
      then have "mxFrame v = mxFrame w" using sv v live(1) S by (simp add: running_reader_def)
      with v p g show False by (auto simp: running_reader_def)
    qed
    with D [OF ne] have f: "nBackfill info < ?f" "?f \<le> s" by auto
    then have "?lg ! (?f - 1) = p" using last_frame_page [of ?lg "nBackfill info + 1" "mxFrame w" p] by simp
    moreover have "minFrame v \<le> Suc (?f - 1)" "Suc (?f - 1) \<le> mxFrame v" using f sv v by (auto simp: running_reader_def)
    ultimately show ?thesis by (auto simp: last_frame_0)
  qed
  then have "readDbPage (\<lambda>_. 0) fd db_rc (walPagesize w) v wi db' p = readDbPage (\<lambda>_. 0) fd db_rc (walPagesize w) v wi db p"
    using readDbPage_rc [of db' p db] readDbPage_log [OF len(2,1), of p] v by (cases "db' p = db p") (auto simp: running_reader_def)
  moreover have "fd' = fd" using R v by (auto simp: running_reader_def)
  ultimately show ?thesis by simp
qed

text \<open>After copying up to frame \<open>s\<close>, a reader that starts behind it sees the same.\<close>

lemma newest_after:
  assumes s: "nBackfill info < s" and c: "newest fs w info p \<noteq> 0 \<Longrightarrow> newest fs w info p \<le> s \<Longrightarrow> db' p = f_data (fs ! (newest fs w info p - 1))"
    and k: "newest fs w info p = 0 \<Longrightarrow> db' p = db p"
  shows "(let f = last_frame (map fst fs) (s + 1) (mxFrame w) p in if f = 0 then db' p else f_data (fs ! (f - 1))) =
    (if newest fs w info p = 0 then db p else f_data (fs ! (newest fs w info p - 1)))"
proof (cases "last_frame (map fst fs) (s + 1) (mxFrame w) p = 0")
  case True
  have "newest fs w info p \<le> s" if "newest fs w info p \<noteq> 0"
  proof (rule ccontr)
    assume "\<not> newest fs w info p \<le> s"
    then have "map fst fs ! (newest fs w info p - 1) = p" "s + 1 \<le> Suc (newest fs w info p - 1)" "Suc (newest fs w info p - 1) \<le> mxFrame w"
      using last_frame_page [OF that] last_frame_le [of "map fst fs" "nBackfill info + 1" "mxFrame w" p] by auto
    with True show False unfolding last_frame_0 by blast
  qed
  with True c k show ?thesis by (auto simp: Let_def)
next
  case False
  have "nBackfill info + 1 \<le> s + 1" using s by simp
  from last_frame_earlier [OF this False] show ?thesis using False by (simp add: Let_def)
qed

lemma new_reader_view:
  assumes ok: "ckpt_ok e fd fs w wi info" and ck: "walCheckpoint e eMode fd live w wi info db = Some (rc, db', info', w', fd')"
    and p: "p \<le> nPage w"
  shows "snd (readDbPage (\<lambda>_. 0) fd' db_rc (walPagesize w) (new_reader w' info') wi db' p) =
    snd (readDbPage (\<lambda>_. 0) fd db_rc (walPagesize w) (new_reader w info) wi db p)"
proof -
  let ?lg = "map fst fs" and ?f = "newest fs w info p"
  have O: "wi_ok wi ?lg" "mxFrame w \<le> length fs" "frames_at fd (walPagesize w) fs" using ok by (simp_all add: ckpt_ok_def)
  obtain s info1 where R: "w' = w \<and> info' = info1 \<and> fd' = fd \<or>
       \<not> nBackfill info1 < mxFrame w \<and> ck_readers e = 0 \<and> mxFrame w' = 0 \<and> walPagesize w' = walPagesize w"
    and D: "\<And>p. db' p \<noteq> db p \<Longrightarrow> nPage w < p \<and> s = live \<or> nBackfill info < newest fs w info p \<and> newest fs w info p \<le> s"
    and C: "nBackfill info1 = nBackfill info \<or> nBackfill info < s \<and> nBackfill info1 = s \<and>
       (\<forall>p \<le> nPage w. newest fs w info p \<noteq> 0 \<longrightarrow> newest fs w info p \<le> s \<longrightarrow> db' p = f_data (fs ! (newest fs w info p - 1)))"
    by (rule walCheckpoint_ok [OF ok ck], rule that)
  have old: "snd (readDbPage (\<lambda>_. 0) fd db_rc (walPagesize w) (new_reader w info) wi db p) = (if ?f = 0 then db p else f_data (fs ! (?f - 1)))"
    by (rule new_reader_content [OF O refl])
  have keep: "?f = 0 \<Longrightarrow> db' p = db p" using D [of p] p by (metis not_less not_less_zero)
  have new: "(let f = last_frame ?lg (nBackfill info1 + 1) (mxFrame w) p in if f = 0 then db' p else f_data (fs ! (f - 1))) =
      (if ?f = 0 then db p else f_data (fs ! (?f - 1)))"
    using C
  proof
    assume "nBackfill info1 = nBackfill info"
    then show ?thesis using keep by (simp add: Let_def)
  next
    assume c: "nBackfill info < s \<and> nBackfill info1 = s \<and>
       (\<forall>p \<le> nPage w. newest fs w info p \<noteq> 0 \<longrightarrow> newest fs w info p \<le> s \<longrightarrow> db' p = f_data (fs ! (newest fs w info p - 1)))"
    then have "nBackfill info < s" "nBackfill info1 = s" by auto
    then show ?thesis using newest_after [of info s fs w p db' db] c p keep by simp
  qed
  have "snd (readDbPage (\<lambda>_. 0) fd' db_rc (walPagesize w) (new_reader w' info') wi db' p) =
      (let f = last_frame ?lg (nBackfill info1 + 1) (mxFrame w) p in if f = 0 then db' p else f_data (fs ! (f - 1)))"
    using R
  proof
    assume a: "w' = w \<and> info' = info1 \<and> fd' = fd"
    then show ?thesis using new_reader_content [OF O refl, of db_rc info1 db' p] by (simp only: Let_def)
  next
    assume a: "\<not> nBackfill info1 < mxFrame w \<and> ck_readers e = 0 \<and> mxFrame w' = 0 \<and> walPagesize w' = walPagesize w"
    then have "walFindFrame (\<lambda>_. 0) (new_reader w' info') wi p = (0, 0)" by (simp add: walFindFrame_def)
    moreover have "last_frame ?lg (nBackfill info1 + 1) (mxFrame w) p = 0" using a last_frame_0 by auto
    ultimately show ?thesis by (simp add: readDbPage_def)
  qed
  then show ?thesis unfolding old new .
qed

section \<open>A checkpoint that nothing disturbs\<close>

lemma ckpt_marks_free: "\<exists>rm'. ckpt_marks (\<lambda>_. 0) is (0, m, rm) = (False, 0, m, rm')"
  by (induction "is" arbitrary: rm) auto

lemma copy_list_free:
  "ck_interrupt e = (\<lambda>_. 0) \<Longrightarrow> ck_write e = (\<lambda>_. 0) \<Longrightarrow> read_rc fd = (\<lambda>_. 0) \<Longrightarrow> \<exists>db'. copy_list e fd n b s x pfs db = (0, db')"
  by (induction pfs arbitrary: db) (auto simp: wal_read_def)

lemma log_frames_at:
  assumes h: "write_wal_header w0 n = Some (h, w1)" "write_frames w1 fs = Some (b, w2)" "content fd = h @ b @ tail"
    and s: "length (aSalt w0) = 8" and pg: "pgsz_ok n" and re: "iReCksum w0 = 0" and fs: "frames_ok n fs"
  shows "frames_at fd n fs"
proof -
  obtain c1 c2 where hb: "h = hdr_bytes w0 n @ sqlite3Put4byte c1 @ sqlite3Put4byte c2"
    and w1: "w1 = w0\<lparr>szPage := n, bigEndCksum := False, aFrameCksum := (c1, c2)\<rparr>"
    using write_wal_headerD [OF h(1) s] by metis
  have "length h = 32" by (simp add: hb hdr_bytes_def s)
  moreover have "b = concat (blocks False (aSalt w0) (c1, c2) fs)"
    using write_frames_blocks [of w1 fs] h(2) pg fs s re by (simp add: w1)
  ultimately show ?thesis using frames_at_file [of fd h False "aSalt w0" "(c1, c2)" fs tail n] h(3) s fs by simp
qed

lemma ckpt_copy_free:
  assumes ok: "ckpt_ok e fd fs w wi info" and nB: "nBackfill info < mxFrame w"
    and e: "ck_interrupt e = (\<lambda>_. 0)" "ck_write e = (\<lambda>_. 0)" "read_rc fd = (\<lambda>_. 0)"
  shows "\<exists>it db'. walIteratorInit (ck_map e) w wi (nBackfill info) True = (0, Some it) \<and>
    ckpt_copy e fd (walPagesize w) (nBackfill info) s x it 0 db = (0, db')"
proof -
  let ?lg = "map fst fs" and ?m = "mxFrame w" and ?nB = "nBackfill info"
  let ?b = "zero (walFramePage (?nB + 1)) + 1"
  let ?S = "set (drop (?b - 1) (take ?m ?lg))"
  have O: "wi_ok wi ?lg" "?m \<le> length ?lg" "0xFFFFFFFF \<notin> set (take ?m ?lg)" "ck_map e = (\<lambda>_. 0)"
    using ok by (auto simp: ckpt_ok_def dest: in_set_takeD)
  obtain it where it: "walIteratorInit (\<lambda>_. 0) w wi ?nB True = (0, Some it)"
    "wal_iterate (?m + 1) it = map (\<lambda>p. (p, last_frame ?lg ?b ?m p)) (sorted_list_of_set ?S)"
    using wal_iterator_ok [OF O(1,2) nB O(3)] by blast
  have "card ?S \<le> length (drop (?b - 1) (take ?m ?lg))" by (rule card_length)
  then have "length (wal_iterate (?m + 1) it) < ?m + 1" unfolding it(2) by simp
  from ckpt_copy_list [OF this] copy_list_free [OF e] it(1) O(4) show ?thesis by metis
qed

lemma ckpt_backfill_free:
  assumes ok: "ckpt_ok e fd fs w wi info" and nB: "nBackfill info < mxFrame w"
    and e: "ck_interrupt e = (\<lambda>_. 0)" "ck_write e = (\<lambda>_. 0)" "read_rc fd = (\<lambda>_. 0)" "ck_lock e = (\<lambda>_. 0)" "ck_alloc e"
      "ck_sync_wal e = 0" "fst (ck_size e) = 0" "ck_truncate e = 0" "ck_sync_db e = 0"
    and sz: "unat (nPage w) * walPagesize w \<le> snd (ck_size e) + 65536 + mxFrame w * walPagesize w"
  shows "\<exists>db' info'. ckpt_backfill e fd (mxFrame w) w wi info db = (False, 0, db', info') \<and> nBackfill info' = mxFrame w \<and>
    (\<forall>p. db' p = (if nPage w < p then [] else if newest fs w info p = 0 then db p else f_data (fs ! (newest fs w info p - 1))))"
proof -
  obtain rm where M: "ckpt_marks (\<lambda>_. 0) [1..<5] (0, mxFrame w, aReadMark info) = (False, 0, mxFrame w, rm)"
    using ckpt_marks_free by blast
  obtain it db3 where it: "walIteratorInit (ck_map e) w wi (nBackfill info) True = (0, Some it)"
    and c: "ckpt_copy e fd (walPagesize w) (nBackfill info) (mxFrame w) (nPage w) it 0 db = (0, db3)"
    using ckpt_copy_free [OF ok nB e(1-3)] by blast
  note C = ckpt_copy_ok [OF ok nB it c]
  have B: "ckpt_backfill e fd (mxFrame w) w wi info db = (False, 0, \<lambda>p. if p \<le> nPage w then db3 p else [],
      info\<lparr>aReadMark := rm, nBackfillAttempted := mxFrame w, nBackfill := mxFrame w\<rparr>)"
    unfolding ckpt_backfill_def Let_def e(4) M prod.case using nB it c e sz by simp
  have "db3 p = (if newest fs w info p = 0 then db p else f_data (fs ! (newest fs w info p - 1)))" if p: "p \<le> nPage w" for p
    using C(1) [of p] C(2) [OF refl _ last_frame_le p] by (cases "db3 p = db p") auto
  then show ?thesis unfolding B by (auto simp: not_le not_less)
qed

section \<open>Properties\<close>


text \<open>C22. Functional.  A checkpoint that nothing disturbs copies the whole log: it returns \<open>SQLITE_OK\<close>, all frames count as
  copied, every page of the database file holds its last committed version and the file ends with the database.\<close>

theorem checkpoint_copies_log:
  assumes "write_wal_header w0 n = Some (h, w1)" "write_frames w1 fs = Some (b, w2)" "content fd = h @ b @ tail"
    and "length (aSalt w0) = 8" "pgsz_ok n" "iReCksum w0 = 0" "frames_ok n fs" "0xFFFFFFFF \<notin> set (map fst fs)"
    and "wi_ok wi (map fst fs)" "mxFrame w \<le> length fs" "walPagesize w = n" "length (aReadMark info) = 5" "ck_map e = (\<lambda>_. 0)"
    and "nBackfill info < mxFrame w" "ck_interrupt e = (\<lambda>_. 0)" "ck_write e = (\<lambda>_. 0)" "read_rc fd = (\<lambda>_. 0)" "ck_lock e = (\<lambda>_. 0)"
      "ck_alloc e" "ck_sync_wal e = 0" "fst (ck_size e) = 0" "ck_truncate e = 0" "ck_sync_db e = 0"
      "unat (nPage w) * n \<le> snd (ck_size e) + 65536 + mxFrame w * n"
  shows "\<exists>db' info'. walCheckpoint e SQLITE_CHECKPOINT_PASSIVE fd (mxFrame w) w wi info db = Some (0, db', info', w, fd) \<and>
    nBackfill info' = mxFrame w \<and>
    (\<forall>p. db' p = (if nPage w < p then [] else snd (readDbPage (\<lambda>_. 0) fd db_rc n (new_reader w info) wi db p)))"
proof -
  have ok: "ckpt_ok e fd fs w wi info"
    using log_frames_at [OF assms(1-7)] assms(8-13) by (simp add: ckpt_ok_def)
  have V: "\<And>p. snd (readDbPage (\<lambda>_. 0) fd db_rc n (new_reader w info) wi db p) =
      (if newest fs w info p = 0 then db p else f_data (fs ! (newest fs w info p - 1)))"
    using new_reader_content [OF assms(9,10)] log_frames_at [OF assms(1-7)] assms(11) by metis
  obtain db' info' where B: "ckpt_backfill e fd (mxFrame w) w wi info db = (False, 0, db', info')" "nBackfill info' = mxFrame w"
    "\<forall>p. db' p = (if nPage w < p then [] else if newest fs w info p = 0 then db p else f_data (fs ! (newest fs w info p - 1)))"
    using ckpt_backfill_free [OF ok assms(14-23)] assms(11,24) by blast
  have "walCheckpoint e SQLITE_CHECKPOINT_PASSIVE fd (mxFrame w) w wi info db = Some (0, db', info', w, fd)"
    using assms(14) by (simp add: walCheckpoint_def SQLITE_CHECKPOINT_PASSIVE_def B(1))
  moreover have "\<forall>p. db' p = (if nPage w < p then [] else snd (readDbPage (\<lambda>_. 0) fd db_rc n (new_reader w info) wi db p))"
    unfolding V by (rule B(3))
  ultimately show ?thesis using B(2) by blast
qed

section \<open>An instance\<close>

abbreviation ckpt_wal :: wal where
  "ckpt_wal \<equiv> log_handle\<lparr>mxFrame := 3, nPage := 3\<rparr>"

abbreviation ckpt_marks0 :: wal_ckpt_info where
  "ckpt_marks0 \<equiv> \<lparr>nBackfill = 0, nBackfillAttempted = 0, aReadMark = [0, 3, 1, 0xffffffff, 0xffffffff]\<rparr>"

text \<open>Read mark 2, at frame 1, is held by a reader; the write of page 2 fails.\<close>

abbreviation busy_env :: ckpt_env where
  "busy_env \<equiv> \<lparr>ck_map = \<lambda>_. 0, ck_lock = (\<lambda>i. if i = 2 then SQLITE_BUSY else 0), ck_readers = SQLITE_BUSY, ck_alloc = True, ck_sync_wal = 0,
     ck_size = (0, 1536), ck_interrupt = \<lambda>_. 0, ck_write = (\<lambda>p. if p = 2 then 10 else 0), ck_torn = \<lambda>_. [1, 2, 3], ck_truncate = 0, ck_sync_db = 0,
     ck_cut = 0, ck_salt = [9, 9, 9, 9]\<rparr>"

abbreviation free_env :: ckpt_env where
  "free_env \<equiv> busy_env\<lparr>ck_lock := \<lambda>_. 0, ck_readers := 0, ck_write := \<lambda>_. 0\<rparr>"

lemma walCheckpoint_passive: "\<exists>rc db' info' w' fd'. walCheckpoint e 0 fd live w wi info db = Some (rc, db', info', w', fd')"
  by (cases "if nBackfill info < mxFrame w then ckpt_backfill e fd live w wi info db else (False, 0, db, info)")
    (simp add: walCheckpoint_def SQLITE_CHECKPOINT_PASSIVE_def)

lemma wi_ok_snoc: "wi_ok wi lg \<Longrightarrow> p \<noteq> 0 \<Longrightarrow> \<exists>wi'. wi_ok wi' (lg @ [p])"
  using walIndexAppend_ok [of wi lg p "length lg" undefined "\<lambda>_. 0"] by auto

lemma newest_some: "newest some_frames ckpt_wal ckpt_marks0 2 = 2" "newest some_frames ckpt_wal ckpt_marks0 3 = 3"
  by (simp_all add: numeral_2_eq_2 numeral_3_eq_3)

lemma some_log:
  obtains h w1 b w2 wi where "write_wal_header log_handle 512 = Some (h, w1)" "write_frames w1 some_frames = Some (b, w2)"
    "wi_ok wi (map fst some_frames)"
proof -
  have "hdr_bytes log_handle 512 \<noteq> []" "length (hdr_bytes log_handle 512) mod 8 = 0" by (simp_all add: hdr_bytes_def)
  from walChecksumBytes_total [OF this, of True "(0, 0)"] obtain h w1 where
    h: "write_wal_header log_handle 512 = Some (h, w1)" and w1: "szPage w1 = 512" "aSalt w1 = [1, 2, 3, 4, 5, 6, 7, 8]" "iReCksum w1 = 0"
    by (auto simp: write_wal_header_def hdr_bytes_def Let_def)
  have fs: "frames_ok 512 some_frames" "pgsz_ok 512" by (simp_all add: frames_ok_def pgsz_ok_def)
  obtain b w2 where "write_frames w1 some_frames = Some (b, w2)" using write_frames_blocks [of w1 some_frames] fs w1 by simp
  moreover have "\<exists>wi. wi_ok wi (map fst some_frames)"
  proof -
    have "wi_ok old_index []" by (rule wi_ok_empty) simp
    then have "\<exists>wi. wi_ok wi [1]" using wi_ok_snoc [of old_index "[]" 1] by simp
    then have "\<exists>wi. wi_ok wi [1, 2]" using wi_ok_snoc [of _ "[1]" 2] by auto
    then show ?thesis using wi_ok_snoc [of _ "[1, 2]" 3] by auto
  qed
  ultimately show thesis using h that by blast
qed


theorem checkpoint_copies_log_witness:
  "\<exists>fd wi db' info'. walCheckpoint free_env 0 fd 3 ckpt_wal wi ckpt_marks0 (\<lambda>_. [7]) = Some (0, db', info', ckpt_wal, fd) \<and>
     nBackfill info' = 3 \<and> db' 3 = replicate 512 67 \<and> db' 4 = []"
proof -
  obtain h w1 b w2 wi where L: "write_wal_header log_handle 512 = Some (h, w1)" "write_frames w1 some_frames = Some (b, w2)"
    "wi_ok wi (map fst some_frames)" by (rule some_log)
  let ?fd = "\<lparr>content = h @ b @ [], size_rc = 0, read_rc = \<lambda>_. 0\<rparr>"
  have fs: "frames_ok 512 some_frames" "pgsz_ok 512" "length (aSalt log_handle) = 8" "iReCksum log_handle = 0" "0xFFFFFFFF \<notin> set (map fst some_frames)"
    by (simp_all add: frames_ok_def pgsz_ok_def)
  have pg: "walPagesize ckpt_wal = 512" and len: "mxFrame ckpt_wal \<le> length some_frames" by (simp_all add: walPagesize_def)
  have FA: "frames_at ?fd (walPagesize ckpt_wal) some_frames" unfolding pg by (rule log_frames_at [OF L(1,2) _ fs(3,2,4,1)]) simp
  obtain db' info' where T: "walCheckpoint free_env 0 ?fd 3 ckpt_wal wi ckpt_marks0 (\<lambda>_. [7]) = Some (0, db', info', ckpt_wal, ?fd)"
    "nBackfill info' = 3" "\<And>p. db' p = (if 3 < p then [] else snd (readDbPage (\<lambda>_. 0) ?fd (\<lambda>_. 0) 512 (new_reader ckpt_wal ckpt_marks0) wi (\<lambda>_. [7]) p))"
    using checkpoint_copies_log [OF L(1,2) _ fs(3,2,4,1,5) L(3), of ?fd "[]" ckpt_wal ckpt_marks0 free_env "\<lambda>_. [7]" "\<lambda>_. 0"] pg
    by (auto simp: SQLITE_CHECKPOINT_PASSIVE_def)
  have "snd (readDbPage (\<lambda>_. 0) ?fd (\<lambda>_. 0) 512 (new_reader ckpt_wal ckpt_marks0) wi (\<lambda>_. [7]) 3) = replicate 512 67"
    using new_reader_content [OF L(3) len FA pg [symmetric], of "\<lambda>_. 0" ckpt_marks0 "\<lambda>_. [7]" 3, unfolded newest_some] by simp
  then have "db' 3 = replicate 512 67" "db' 4 = []" using T(3) [of 3] T(3) [of 4] by simp_all
  with T(1,2) show ?thesis by (intro exI conjI)
qed

end
