(* ===== verification/Cipher_Util.thy ===== *)
theory Cipher_Util
  imports Util_Text
begin

text \<open>
  The low-level helpers of SQLCipher: hexadecimal conversion (\<open>crypto.h\<close>), the wiping and
  constant-time memory routines of \<open>crypto_impl.c\<close> and the allocator wrapper.
\<close>

section \<open>Hexadecimal conversion\<close>

definition cipher_hex2int :: "byte \<Rightarrow> byte" where
  "cipher_hex2int c =
     (if 48 \<le> c \<and> c \<le> 57 then c - 48
      else if 65 \<le> c \<and> c \<le> 70 then c - 65 + 10
      else if 97 \<le> c \<and> c \<le> 102 then c - 97 + 10 else 0)"

function hex2bin_loop :: "byte list \<Rightarrow> int \<Rightarrow> int \<Rightarrow> byte list \<Rightarrow> byte list option" where
  "hex2bin_loop hex i sz out =
     (if i < sz then do {
        h \<leftarrow> nth_opt hex i;
        l \<leftarrow> nth_opt hex (i + 1);
        out' \<leftarrow> mem_write out (i div 2) [push_bit 4 (cipher_hex2int h) OR cipher_hex2int l];
        hex2bin_loop hex (i + 2) sz out'
      } else Some out)"
  by pat_completeness auto
termination
  by (relation "measure (\<lambda>(hex, i, sz, out). nat (sz - i))") auto

declare hex2bin_loop.simps [simp del]

definition cipher_hex2bin :: "byte list \<Rightarrow> int \<Rightarrow> byte list \<Rightarrow> byte list option" where
  "cipher_hex2bin hex sz out = hex2bin_loop hex 0 sz out"

text \<open>The digit \<open>sqlite3_snprintf\<close> prints for a value below 16 under \<open>%x\<close>.\<close>

definition hex_digit :: "byte \<Rightarrow> byte" where
  "hex_digit d = (if d < 10 then d + 48 else d - 10 + 97)"

text \<open>
  \<open>sqlite3_snprintf(3, p, "%02x ", b)\<close> stores at most two characters and a terminator: the two
  digits and 0.
\<close>

fun bin2hex_loop :: "byte list \<Rightarrow> byte list \<Rightarrow> int \<Rightarrow> byte list option" where
  "bin2hex_loop [] out off = Some out"
| "bin2hex_loop (b # bs) out off = do {
     out' \<leftarrow> mem_write out off [hex_digit (drop_bit 4 b), hex_digit (b AND 0xf), 0];
     bin2hex_loop bs out' (off + 2)
   }"

definition cipher_bin2hex :: "byte list \<Rightarrow> int \<Rightarrow> byte list \<Rightarrow> int \<Rightarrow> byte list option" where
  "cipher_bin2hex inp sz out off =
     (if sz \<le> 0 then Some out else do { bs \<leftarrow> mem_read inp 0 sz; bin2hex_loop bs out off })"

definition is_hex_char :: "byte \<Rightarrow> bool" where
  "is_hex_char c \<longleftrightarrow>
     \<not> ((c < 48 \<or> c > 57) \<and> (c < 65 \<or> c > 70) \<and> (c < 97 \<or> c > 102))"

fun isHex_loop :: "byte list \<Rightarrow> bool" where
  "isHex_loop [] = True"
| "isHex_loop (c # cs) = (if is_hex_char c then isHex_loop cs else False)"

definition cipher_isHex :: "byte list \<Rightarrow> int \<Rightarrow> int \<Rightarrow> bool option" where
  "cipher_isHex hex off sz =
     (if sz \<le> 0 then Some True else map_option isHex_loop (mem_read hex off sz))"

section \<open>Wiping and constant-time comparison\<close>

text \<open>A byte count of C type \<open>int\<close> passed as an unsigned 64-bit length: negative is huge.\<close>

definition sqlcipher_memset :: "byte list \<Rightarrow> int \<Rightarrow> byte \<Rightarrow> int \<Rightarrow> byte list option" where
  "sqlcipher_memset v off val len =
     (if len < 0 then None else mem_write v off (replicate (nat len) val))"

fun ismemset_loop :: "byte list \<Rightarrow> byte \<Rightarrow> u64 \<Rightarrow> u64" where
  "ismemset_loop [] val res = res"
| "ismemset_loop (a # as) val res = ismemset_loop as val (res OR ucast (a XOR val))"

definition sqlcipher_ismemset :: "byte list \<Rightarrow> int \<Rightarrow> byte \<Rightarrow> int \<Rightarrow> int option" where
  "sqlcipher_ismemset v off val len = do {
     a \<leftarrow> mem_read v off len;
     Some (if ismemset_loop a val 0 \<noteq> 0 then 1 else 0)
   }"

fun memcmp_loop :: "byte list \<Rightarrow> byte list \<Rightarrow> u32 \<Rightarrow> u32" where
  "memcmp_loop (a # as) (b # bs) res = memcmp_loop as bs (res OR ucast (a XOR b))"
| "memcmp_loop _ _ res = res"

definition sqlcipher_memcmp :: "byte list \<Rightarrow> int \<Rightarrow> byte list \<Rightarrow> int \<Rightarrow> int \<Rightarrow> int option" where
  "sqlcipher_memcmp v0 off0 v1 off1 len =
     (if len \<le> 0 then Some 0 else do {
        a0 \<leftarrow> mem_read v0 off0 len;
        a1 \<leftarrow> mem_read v1 off1 len;
        Some (if memcmp_loop a0 a1 0 \<noteq> 0 then 1 else 0)
      })"

section \<open>Allocation\<close>

text \<open>
  The environment decides which allocations fail: \<open>allocs\<close> lists the outcomes of the calls to
  come, and calls after its end succeed.  \<open>sqlcipher_malloc\<close> returns zeroed memory; a size of 0,
  above \<open>SQLITE_MAX_ALLOCATION_SIZE\<close> or negative (an enormous unsigned size) yields NULL.
\<close>

type_synonym allocs = "bool list"

definition SQLITE_MAX_ALLOCATION_SIZE :: int where
  "SQLITE_MAX_ALLOCATION_SIZE = 2147483391"

definition sqlcipher_malloc :: "int \<Rightarrow> allocs \<Rightarrow> byte list option \<times> allocs" where
  "sqlcipher_malloc sz al =
     (if sz \<le> 0 \<or> sz > SQLITE_MAX_ALLOCATION_SIZE then (None, al)
      else case al of
          [] \<Rightarrow> (Some (replicate (nat sz) 0), [])
        | ok # al' \<Rightarrow> (if ok then Some (replicate (nat sz) 0) else None, al'))"

section \<open>Correctness of the helpers\<close>

lemma ismemset_loop_zero: "ismemset_loop as val res = 0 \<longleftrightarrow> res = 0 \<and> (\<forall>a \<in> set as. a = val)"
  by (induction as arbitrary: res) (auto simp: or_eq_0_iff)

lemma memcmp_loop_zero:
  "length as = length bs \<Longrightarrow> memcmp_loop as bs res = 0 \<longleftrightarrow> res = 0 \<and> as = bs"
  by (induction as bs res rule: memcmp_loop.induct) (auto simp: or_eq_0_iff)

lemma sqlcipher_memcmp_iff:
  assumes "mem_read v0 off0 len = Some a" and "mem_read v1 off1 len = Some b"
  shows "sqlcipher_memcmp v0 off0 v1 off1 len = Some (if a = b then 0 else 1)"
proof -
  have len: "length a = length b" using assms by (metis mem_read_length of_nat_eq_iff)
  show ?thesis
  proof (cases "len \<le> 0")
    case True
    then have "a = []" "b = []" using assms by (auto dest: mem_read_length)
    with True show ?thesis by (simp add: sqlcipher_memcmp_def)
  next
    case False
    with assms len show ?thesis by (simp add: sqlcipher_memcmp_def memcmp_loop_zero)
  qed
qed

lemma sqlcipher_ismemset_iff:
  assumes "mem_read v off len = Some a"
  shows "sqlcipher_ismemset v off val len = Some (if a = replicate (length a) val then 0 else 1)"
proof -
  have "(\<forall>x \<in> set a. x = val) \<longleftrightarrow> a = replicate (length a) val"
    by (metis in_set_replicate replicate_length_same)
  with assms show ?thesis by (auto simp: sqlcipher_ismemset_def ismemset_loop_zero)
qed

lemma isHex_loop_iff: "isHex_loop cs \<longleftrightarrow> (\<forall>c \<in> set cs. is_hex_char c)"
  by (induction cs) auto

text \<open>The text \<open>cipher_bin2hex\<close> produces, and its inverse.\<close>

definition hex_text :: "byte list \<Rightarrow> byte list" where
  "hex_text bs = concat (map (\<lambda>b. [hex_digit (drop_bit 4 b), hex_digit (b AND 0xf)]) bs)"

lemma hex_text_simps [simp]:
  "hex_text [] = []"
  "hex_text (b # bs) = hex_digit (drop_bit 4 b) # hex_digit (b AND 0xf) # hex_text bs"
  by (simp_all add: hex_text_def)

lemma length_hex_text [simp]: "length (hex_text bs) = 2 * length bs"
  by (induction bs) simp_all

lemma hex_digit_nibble: "d < 16 \<Longrightarrow> cipher_hex2int (hex_digit d) = d"
  by (rule nibble_forall [of _ d]) (simp add: upt_rec cipher_hex2int_def hex_digit_def)

lemma hex_digit_is_hex: "d < 16 \<Longrightarrow> is_hex_char (hex_digit d)"
  by (rule nibble_forall [of _ d]) (simp add: upt_rec is_hex_char_def hex_digit_def)

lemma hex_digit_byte:
  "push_bit 4 (cipher_hex2int (hex_digit (drop_bit 4 b))) OR cipher_hex2int (hex_digit (b AND 0xf)) = b"
  using nibbles_of_byte [of b] by (simp add: hex_digit_nibble)

lemma hex_text_is_hex: "isHex_loop (hex_text bs)"
  by (induction bs) (auto simp: hex_digit_is_hex nibbles_of_byte)

text \<open>The bytes a run of hexadecimal digit pairs stands for.\<close>

fun hex_bytes :: "byte list \<Rightarrow> byte list" where
  "hex_bytes (h # l # z) = (push_bit 4 (cipher_hex2int h) OR cipher_hex2int l) # hex_bytes z"
| "hex_bytes _ = []"

lemma hex_bytes_hex_text [simp]: "hex_bytes (hex_text bs) = bs"
  by (induction bs) (simp_all add: hex_digit_byte)

lemma length_hex_bytes [simp]: "length (hex_bytes hs) = length hs div 2"
  by (induction hs rule: hex_bytes.induct) simp_all

lemma bin2hex_loop_eq:
  "bs \<noteq> [] \<Longrightarrow> bin2hex_loop bs out off = mem_write out off (hex_text bs @ [0])"
proof (induction bs arbitrary: out off)
  case Nil
  then show ?case by simp
next
  case (Cons b bs)
  show ?case
  proof (cases "bs = []")
    case True
    then show ?thesis by (simp add: bind_eq_None_conv split: bind_split)
  next
    case False
    let ?d = "[hex_digit (drop_bit 4 b), hex_digit (b AND 0xf)]"
    have "bin2hex_loop (b # bs) out off
          = do { out' \<leftarrow> mem_write out off (?d @ [0]); mem_write out' (off + int (length ?d)) (hex_text bs @ [0]) }"
      using Cons.IH [OF False] by simp
    also have "\<dots> = mem_write out off (?d @ hex_text bs @ [0])"
      by (rule mem_write_overwrite) simp
    finally show ?thesis by simp
  qed
qed

lemma hex2bin_loop_eq:
  assumes "mem_read hex (2 * k) (2 * int n) = Some hs"
  shows "hex2bin_loop hex (2 * k) (2 * k + 2 * int n) out
         = (if n = 0 then Some out else mem_write out k (hex_bytes hs))"
  using assms
proof (induction n arbitrary: k hs out)
  case 0
  then show ?case by (simp add: hex2bin_loop.simps)
next
  case (Suc n)
  have rd: "mem_read hex (2 * k) (2 * int (Suc n)) = Some hs" by (rule Suc.prems)
  then have b: "0 \<le> k" "2 * k + 2 * int (Suc n) \<le> int (length hex)"
    and hs: "hs = take (nat (2 * int (Suc n))) (drop (nat (2 * k)) hex)"
    by (auto simp: mem_read_def split: if_splits)
  obtain h l hs' where hs': "hs = h # l # hs'" and len: "length hs' = 2 * n"
    using mem_read_length [OF rd] by (cases hs; cases "tl hs") auto
  have rest: "mem_read hex (2 * (k + 1)) (2 * int n) = Some hs'"
    using mem_read_sub [OF rd, of 2 "2 * int n"] len hs' by (simp add: algebra_simps nat_mult_distrib)
  have "hex ! nat (2 * k) = hs ! 0" "hex ! nat (2 * k + 1) = hs ! 1"
    using b by (auto simp: hs nat_add_distrib nth_append)
  then have hl: "nth_opt hex (2 * k) = Some h" "nth_opt hex (2 * k + 1) = Some l"
    using b hs' by (simp_all add: nth_opt_def)
  let ?v = "push_bit 4 (cipher_hex2int h) OR cipher_hex2int l"
  have step: "hex2bin_loop hex (2 * k + 2) (2 * k + (2 + 2 * int n))
              = (\<lambda>o1. if n = 0 then Some o1 else mem_write o1 (k + 1) (hex_bytes hs'))"
    using Suc.IH [OF rest] by (auto simp: algebra_simps)
  have "hex2bin_loop hex (2 * k) (2 * k + 2 * int (Suc n)) out
        = do { o1 \<leftarrow> mem_write out k [?v];
               if n = 0 then Some o1 else mem_write o1 (k + 1) (hex_bytes hs') }"
    by (subst hex2bin_loop.simps) (simp add: hl step)
  also have "\<dots> = mem_write out k (?v # hex_bytes hs')"
    using mem_write_overwrite [of "[]" "hex_bytes hs'" out k "[?v]"] len
    by (cases "mem_write out k [?v]") auto
  finally show ?case by (simp add: hs')
qed


text \<open>Hexadecimal round trip: the text \<open>cipher_bin2hex\<close> stores for a non-empty block of bytes
  consists of hexadecimal digits for \<open>cipher_isHex\<close>, and \<open>cipher_hex2bin\<close> turns it back into the
  very same bytes; both calls stay inside their buffers as long as the text buffer has room for two
  digits a byte and the terminator.
\<close>

theorem cipher_hex_roundtrip:
  assumes "bs \<noteq> []" and "0 \<le> off" and "off + 2 * int (length bs) + 1 \<le> int (length buf)"
  shows "\<exists>t. cipher_bin2hex bs (int (length bs)) buf off = Some t \<and>
           cipher_isHex t off (2 * int (length bs)) = Some True \<and>
           cipher_hex2bin (drop (nat off) t) (2 * int (length bs)) (replicate (length bs) 0) = Some bs"
proof -
  let ?n = "int (length bs)"
  obtain t where t: "mem_write buf off (hex_text bs @ [0]) = Some t"
    using assms mem_write_defined [of buf off "hex_text bs @ [0]"] by auto
  then have enc: "cipher_bin2hex bs ?n buf off = Some t"
    using assms(1) by (simp add: cipher_bin2hex_def mem_read_all bin2hex_loop_eq)
  have rd: "mem_read t off (2 * ?n) = Some (hex_text bs)"
    using mem_read_sub [OF mem_read_write_same [OF t], of 0 "2 * ?n"] by (simp add: nat_mult_distrib)
  have "mem_read (drop (nat off) t) (2 * 0) (2 * ?n) = Some (hex_text bs)"
    using rd assms(2) by (auto simp: mem_read_def split: if_splits)
  from hex2bin_loop_eq [OF this]
  have "cipher_hex2bin (drop (nat off) t) (2 * ?n) (replicate (length bs) 0) = Some bs"
    using assms(1) by (simp add: cipher_hex2bin_def mem_write_def)
  with enc rd show ?thesis by (simp add: cipher_isHex_def hex_text_is_hex)
qed

theorem cipher_hex_roundtrip_witness:
  "\<exists>t. cipher_bin2hex [0x1f, 0xa0] 2 (replicate 9 0) 2 = Some t \<and>
     cipher_isHex t 2 4 = Some True \<and> cipher_hex2bin (drop 2 t) 4 [0, 0] = Some [0x1f, 0xa0]"
  using cipher_hex_roundtrip [of "[0x1f, 0xa0]" 2 "replicate 9 0"] by (simp add: numeral_2_eq_2)

end
