(* ===== verification/Provider.thy ===== *)
theory Provider
  imports Cipher_Util
begin

text \<open>
  The cryptographic provider interface of SQLCipher (\<open>sqlcipher_provider\<close> in \<open>sqlcipher.h\<close>) and
  its CommonCrypto implementation (\<open>crypto_cc.c\<close>), the one the iOS and macOS build selects with
  \<open>SQLCIPHER_CRYPTO_CC\<close>.

  CommonCrypto and the Security framework are not part of the repository: the record
  \<open>commoncrypto\<close> holds the functions \<open>crypto_cc.c\<close> calls, and \<open>commoncrypto_ok\<close> states the
  documented behaviour the code relies on.  \<open>'r\<close> is the state of the system's random source,
  \<open>'h\<close> an HMAC context, \<open>'c\<close> a cryptor reference.
\<close>

section \<open>The system library, a parameter\<close>

datatype cc_alg = AlgSHA1 | AlgSHA256 | AlgSHA512
datatype cc_op = kCCEncrypt | kCCDecrypt

record ('r, 'h, 'c) commoncrypto =
  SecRandomCopyBytes :: "'r \<Rightarrow> int \<Rightarrow> byte list option \<times> 'r"
  CCHmacInit :: "cc_alg \<Rightarrow> byte list \<Rightarrow> 'h"
  CCHmacUpdate :: "'h \<Rightarrow> byte list \<Rightarrow> 'h"
  CCHmacFinal :: "'h \<Rightarrow> byte list"
  CCKeyDerivationPBKDF :: "byte list \<Rightarrow> byte list \<Rightarrow> cc_alg \<Rightarrow> int \<Rightarrow> int \<Rightarrow> byte list option"
  CCCryptorCreate :: "cc_op \<Rightarrow> byte list \<Rightarrow> byte list \<Rightarrow> 'c option"
  CCCryptorUpdate :: "'c \<Rightarrow> byte list \<Rightarrow> (byte list \<times> 'c) option"
  CCCryptorFinal :: "'c \<Rightarrow> (byte list \<times> 'c) option"
  CCCryptorRelease :: "'c \<Rightarrow> bool"

section \<open>The provider interface\<close>

text \<open>
  A provider function that fails returns \<open>None\<close>, one that succeeds the bytes it stored.
\<close>

record 'r sqlcipher_provider =
  pr_name :: string
  pr_add_random :: "byte list \<Rightarrow> int"
  pr_random :: "'r \<Rightarrow> int \<Rightarrow> byte list option \<times> 'r"
  pr_hmac :: "int \<Rightarrow> byte list \<Rightarrow> byte list \<Rightarrow> byte list \<Rightarrow> byte list option"
  pr_kdf :: "int \<Rightarrow> byte list \<Rightarrow> byte list \<Rightarrow> int \<Rightarrow> int \<Rightarrow> byte list option"
  pr_cipher :: "int \<Rightarrow> byte list \<Rightarrow> byte list \<Rightarrow> byte list \<Rightarrow> byte list option"
  pr_get_cipher :: string
  pr_get_key_sz :: int
  pr_get_iv_sz :: int
  pr_get_block_sz :: int
  pr_get_hmac_sz :: "int \<Rightarrow> int"
  pr_ctx_init :: int
  pr_fips_status :: int

abbreviation (input) CIPHER_DECRYPT :: int where "CIPHER_DECRYPT \<equiv> 0"
abbreviation (input) CIPHER_ENCRYPT :: int where "CIPHER_ENCRYPT \<equiv> 1"
abbreviation (input) SQLCIPHER_HMAC_SHA1 :: int where "SQLCIPHER_HMAC_SHA1 \<equiv> 0"
abbreviation (input) SQLCIPHER_HMAC_SHA256 :: int where "SQLCIPHER_HMAC_SHA256 \<equiv> 1"
abbreviation (input) SQLCIPHER_HMAC_SHA512 :: int where "SQLCIPHER_HMAC_SHA512 \<equiv> 2"

section \<open>The CommonCrypto provider\<close>

definition sqlcipher_cc_random ::
    "('r, 'h, 'c) commoncrypto \<Rightarrow> 'r \<Rightarrow> int \<Rightarrow> byte list option \<times> 'r" where
  "sqlcipher_cc_random cc r len = SecRandomCopyBytes cc r len"

definition cc_hmac_alg :: "int \<Rightarrow> cc_alg option" where
  "cc_hmac_alg algorithm =
     (if algorithm = SQLCIPHER_HMAC_SHA1 then Some AlgSHA1
      else if algorithm = SQLCIPHER_HMAC_SHA256 then Some AlgSHA256
      else if algorithm = SQLCIPHER_HMAC_SHA512 then Some AlgSHA512 else None)"

definition sqlcipher_cc_hmac ::
    "('r, 'h, 'c) commoncrypto \<Rightarrow> int \<Rightarrow> byte list \<Rightarrow> byte list \<Rightarrow> byte list \<Rightarrow> byte list option" where
  "sqlcipher_cc_hmac cc algorithm hmac_key inp in2 = do {
     alg \<leftarrow> cc_hmac_alg algorithm;
     let h0 = CCHmacInit cc alg hmac_key;
     let h1 = CCHmacUpdate cc h0 inp;
     let h2 = CCHmacUpdate cc h1 in2;
     Some (CCHmacFinal cc h2)
   }"

definition sqlcipher_cc_kdf ::
    "('r, 'h, 'c) commoncrypto \<Rightarrow> int \<Rightarrow> byte list \<Rightarrow> byte list \<Rightarrow> int \<Rightarrow> int \<Rightarrow> byte list option" where
  "sqlcipher_cc_kdf cc algorithm pass salt workfactor key_sz = do {
     prf \<leftarrow> cc_hmac_alg algorithm;
     CCKeyDerivationPBKDF cc pass salt prf workfactor key_sz
   }"

definition sqlcipher_cc_cipher ::
    "('r, 'h, 'c) commoncrypto \<Rightarrow> int \<Rightarrow> byte list \<Rightarrow> byte list \<Rightarrow> byte list \<Rightarrow> byte list option" where
  "sqlcipher_cc_cipher cc mode key iv inp = do {
     let oper = (if mode = CIPHER_ENCRYPT then kCCEncrypt else kCCDecrypt);
     c0 \<leftarrow> CCCryptorCreate cc oper key iv;
     (out1, c1) \<leftarrow> CCCryptorUpdate cc c0 inp;
     (out2, c2) \<leftarrow> CCCryptorFinal cc c1;
     if CCCryptorRelease cc c2 then Some (out1 @ out2) else None
   }"

definition sqlcipher_cc_get_hmac_sz :: "int \<Rightarrow> int" where
  "sqlcipher_cc_get_hmac_sz algorithm =
     (if algorithm = SQLCIPHER_HMAC_SHA1 then 20
      else if algorithm = SQLCIPHER_HMAC_SHA256 then 32
      else if algorithm = SQLCIPHER_HMAC_SHA512 then 64 else 0)"

definition sqlcipher_cc_setup :: "('r, 'h, 'c) commoncrypto \<Rightarrow> 'r sqlcipher_provider" where
  "sqlcipher_cc_setup cc =
     \<lparr> pr_name = ''commoncrypto'',
       pr_add_random = (\<lambda>_. SQLITE_OK),
       pr_random = sqlcipher_cc_random cc,
       pr_hmac = sqlcipher_cc_hmac cc,
       pr_kdf = sqlcipher_cc_kdf cc,
       pr_cipher = sqlcipher_cc_cipher cc,
       pr_get_cipher = ''aes-256-cbc'',
       pr_get_key_sz = 32,
       pr_get_iv_sz = 16,
       pr_get_block_sz = 16,
       pr_get_hmac_sz = sqlcipher_cc_get_hmac_sz,
       pr_ctx_init = SQLITE_OK,
       pr_fips_status = 0 \<rparr>"

section \<open>What the code relies on\<close>

definition cc_digest_length :: "cc_alg \<Rightarrow> nat" where
  "cc_digest_length a = (case a of AlgSHA1 \<Rightarrow> 20 | AlgSHA256 \<Rightarrow> 32 | AlgSHA512 \<Rightarrow> 64)"

text \<open>
  The documented behaviour of the system library: a digest has the length of its algorithm, derived
  keys and random blocks have the length asked for, and AES-256-CBC without padding maps a whole
  number of blocks to as many bytes, is produced entirely by the update call, and decryption under
  the same key and vector restores the plaintext.
\<close>

definition cc_one_shot ::
    "('r, 'h, 'c) commoncrypto \<Rightarrow> cc_op \<Rightarrow> byte list \<Rightarrow> byte list \<Rightarrow> byte list \<Rightarrow> byte list \<Rightarrow> bool" where
  "cc_one_shot cc oper key iv x y \<longleftrightarrow>
     (\<exists>c0 c1 c2. CCCryptorCreate cc oper key iv = Some c0 \<and> CCCryptorUpdate cc c0 x = Some (y, c1) \<and>
        CCCryptorFinal cc c1 = Some ([], c2) \<and> CCCryptorRelease cc c2)"

definition commoncrypto_ok :: "('r, 'h, 'c) commoncrypto \<Rightarrow> bool" where
  "commoncrypto_ok cc \<longleftrightarrow>
     (\<forall>r n bs r'. SecRandomCopyBytes cc r n = (Some bs, r') \<longrightarrow> int (length bs) = n) \<and>
     (\<forall>a k x y. length (CCHmacFinal cc (CCHmacUpdate cc (CCHmacUpdate cc (CCHmacInit cc a k) x) y))
                  = cc_digest_length a) \<and>
     (\<forall>p s a w n k. CCKeyDerivationPBKDF cc p s a w n = Some k \<longrightarrow> int (length k) = n) \<and>
     (\<forall>oper key iv x. length key = 32 \<longrightarrow> length iv = 16 \<longrightarrow> 16 dvd length x \<longrightarrow>
        (\<exists>y. length y = length x \<and> cc_one_shot cc oper key iv x y \<and>
             (oper = kCCEncrypt \<longrightarrow> cc_one_shot cc kCCDecrypt key iv y x)))"

text \<open>
  What the page codec relies on, for any provider: sizes that fit together, and the same three facts
  at the level of the provider's functions.
\<close>

definition provider_ok :: "'r sqlcipher_provider \<Rightarrow> bool" where
  "provider_ok p \<longleftrightarrow>
     0 < pr_get_key_sz p \<and> pr_get_key_sz p \<le> 64 \<and> pr_get_iv_sz p = pr_get_block_sz p \<and> 0 < pr_get_block_sz p \<and>
     pr_get_block_sz p dvd 16 \<and>
     (\<forall>a. 0 \<le> pr_get_hmac_sz p a \<and> pr_get_hmac_sz p a \<le> 64) \<and>
     (\<forall>r n bs r'. pr_random p r n = (Some bs, r') \<longrightarrow> int (length bs) = n) \<and>
     (\<forall>a k x y m. pr_hmac p a k x y = Some m \<longrightarrow> int (length m) = pr_get_hmac_sz p a) \<and>
     (\<forall>a pw s w n k. pr_kdf p a pw s w n = Some k \<longrightarrow> int (length k) = n) \<and>
     (\<forall>mode key iv x. int (length key) = pr_get_key_sz p \<longrightarrow> int (length iv) = pr_get_iv_sz p \<longrightarrow>
        pr_get_block_sz p dvd int (length x) \<longrightarrow>
        (\<exists>y. pr_cipher p mode key iv x = Some y \<and> length y = length x \<and>
             (mode = CIPHER_ENCRYPT \<longrightarrow> pr_cipher p CIPHER_DECRYPT key iv y = Some x)))"

lemma commoncrypto_hmac_length:
  "commoncrypto_ok cc \<Longrightarrow>
     length (CCHmacFinal cc (CCHmacUpdate cc (CCHmacUpdate cc (CCHmacInit cc a k) x) y))
       = cc_digest_length a"
  by (simp add: commoncrypto_ok_def)

lemma commoncrypto_kdf_length:
  "commoncrypto_ok cc \<Longrightarrow> CCKeyDerivationPBKDF cc p s a w n = Some k \<Longrightarrow> int (length k) = n"
  by (simp add: commoncrypto_ok_def)

lemma cc_digest_length_hmac_sz:
  "cc_hmac_alg a = Some alg \<Longrightarrow> int (cc_digest_length alg) = sqlcipher_cc_get_hmac_sz a"
  by (auto simp: cc_hmac_alg_def cc_digest_length_def sqlcipher_cc_get_hmac_sz_def split: if_splits)

lemma sqlcipher_cc_cipher_ok:
  assumes ok: "commoncrypto_ok cc" and "length key = 32" "length iv = 16" "16 dvd length x"
  shows "\<exists>y. sqlcipher_cc_cipher cc mode key iv x = Some y \<and> length y = length x \<and>
             (mode = CIPHER_ENCRYPT \<longrightarrow> sqlcipher_cc_cipher cc CIPHER_DECRYPT key iv y = Some x)"
proof -
  define oper where "oper = (if mode = 1 then kCCEncrypt else kCCDecrypt)"
  have "\<exists>y. length y = length x \<and> cc_one_shot cc oper key iv x y \<and>
            (oper = kCCEncrypt \<longrightarrow> cc_one_shot cc kCCDecrypt key iv y x)"
    using ok assms(2-4) by (simp add: commoncrypto_ok_def)
  then obtain y where y: "length y = length x" "cc_one_shot cc oper key iv x y"
    and dec: "oper = kCCEncrypt \<Longrightarrow> cc_one_shot cc kCCDecrypt key iv y x" by blast
  have enc: "sqlcipher_cc_cipher cc mode key iv x = Some y"
    using y(2) by (auto simp: sqlcipher_cc_cipher_def cc_one_shot_def oper_def)
  have "sqlcipher_cc_cipher cc 0 key iv y = Some x" if "mode = 1"
    using dec that by (auto simp: sqlcipher_cc_cipher_def cc_one_shot_def oper_def)
  with enc y(1) show ?thesis by auto
qed

text \<open>The provider \<open>sqlcipher_cc_setup\<close> builds keeps the contract of the interface.\<close>

lemma sqlcipher_cc_setup_ok:
  assumes ok: "commoncrypto_ok cc"
  shows "provider_ok (sqlcipher_cc_setup cc)"
proof -
  have "\<exists>y. sqlcipher_cc_cipher cc mode key iv x = Some y \<and> length y = length x \<and>
            (mode = 1 \<longrightarrow> sqlcipher_cc_cipher cc 0 key iv y = Some x)"
    if "int (length key) = 32" "int (length iv) = 16" "16 dvd int (length x)" for mode key iv x
  proof (rule sqlcipher_cc_cipher_ok [OF ok])
    show "length key = 32" using that(1) by linarith
    show "length iv = 16" using that(2) by linarith
    show "16 dvd length x" using that(3) of_nat_dvd_iff [of 16 "length x", where ?'a = int] by simp
  qed
  moreover have "int (length m) = sqlcipher_cc_get_hmac_sz a"
    if "sqlcipher_cc_hmac cc a k x y = Some m" for a k x y m
    using that cc_digest_length_hmac_sz [of a]
    by (auto simp: sqlcipher_cc_hmac_def commoncrypto_hmac_length [OF ok] split: bind_splits)
  moreover have "0 \<le> sqlcipher_cc_get_hmac_sz a \<and> sqlcipher_cc_get_hmac_sz a \<le> 64" for a
    by (simp add: sqlcipher_cc_get_hmac_sz_def)
  moreover have "int (length k) = n" if "sqlcipher_cc_kdf cc a pw s w n = Some k" for a pw s w n k
    using that by (auto simp: sqlcipher_cc_kdf_def dest: commoncrypto_kdf_length [OF ok] split: bind_splits)
  moreover have "int (length bs) = n" if "sqlcipher_cc_random cc r n = (Some bs, r')" for r n bs r'
    using that ok by (auto simp: sqlcipher_cc_random_def commoncrypto_ok_def)
  ultimately show ?thesis
    unfolding provider_ok_def sqlcipher_cc_setup_def by simp
qed

end
