(* ===== verification/Codec_Ctx.thy ===== *)
theory Codec_Ctx
  imports Provider
begin

text \<open>
  The codec context of \<open>crypto_impl.c\<close>: the read and write \<open>cipher_ctx\<close>, the settings of one
  database, the process-wide defaults, and the operations that create a context, change a setting,
  set the key material and derive the keys.

  An operation that dereferences a NULL pointer or accesses a buffer out of bounds yields \<open>None\<close>.
  What a context reaches through \<open>ctx->pBt\<close> (the database file, the auto-vacuum mode, the error
  state of pager and connection), the allocator and the random source form the record \<open>world\<close>.
\<close>

section \<open>State\<close>

record cipher_ctx =
  c_derive_key :: int
  c_pass_sz :: int
  c_key :: "byte list"
  c_hmac_key :: "byte list"
  c_pass :: "byte list option"
  c_keyspec :: "byte list option"

record 'r codec_ctx =
  store_pass :: int
  kdf_iter :: int
  fast_kdf_iter :: int
  kdf_salt_sz :: int
  key_sz :: int
  iv_sz :: int
  block_sz :: int
  page_sz :: int
  keyspec_sz :: int
  reserve_sz :: int
  hmac_sz :: int
  plaintext_header_sz :: int
  hmac_algorithm :: int
  kdf_algorithm :: int
  cflags :: u32
  kdf_salt :: "byte list"
  hmac_kdf_salt :: "byte list"
  cbuffer :: "byte list option"
  read_ctx :: "cipher_ctx option"
  write_ctx :: "cipher_ctx option"
  cprovider :: "'r sqlcipher_provider"

record 'r world =
  w_allocs :: allocs
  w_rand :: 'r
  w_fd_open :: bool
  w_read :: "int \<Rightarrow> int \<Rightarrow> byte list option"
  w_file_size :: "int option"
  w_autovacuum :: int
  w_sj_pgno :: pgno
  w_pager_error :: int
  w_db_error :: int

record 'r cipher_globals =
  g_flags :: u32
  g_hmac_salt_mask :: byte
  g_kdf_iter :: int
  g_page_size :: int
  g_plaintext_header_sz :: int
  g_hmac_algorithm :: int
  g_kdf_algorithm :: int
  g_mem_security_on :: int
  g_mem_executed :: int
  g_activate_count :: u32
  g_provider :: "'r sqlcipher_provider option"

definition FILE_HEADER_SZ :: int where "FILE_HEADER_SZ = 16"
definition FAST_PBKDF2_ITER :: int where "FAST_PBKDF2_ITER = 2"
definition PBKDF2_ITER :: int where "PBKDF2_ITER = 256000"
definition HMAC_SALT_MASK :: byte where "HMAC_SALT_MASK = 0x3a"

definition CIPHER_FLAG_HMAC :: u32 where "CIPHER_FLAG_HMAC = 1"
definition CIPHER_FLAG_LE_PGNO :: u32 where "CIPHER_FLAG_LE_PGNO = 2"
definition CIPHER_FLAG_BE_PGNO :: u32 where "CIPHER_FLAG_BE_PGNO = 4"
definition CIPHER_FLAG_KEY_USED :: u32 where "CIPHER_FLAG_KEY_USED = 8"
definition CIPHER_FLAG_HAS_KDF_SALT :: u32 where "CIPHER_FLAG_HAS_KDF_SALT = 16"

lemmas cipher_flag_defs = CIPHER_FLAG_HMAC_def CIPHER_FLAG_LE_PGNO_def CIPHER_FLAG_BE_PGNO_def
  CIPHER_FLAG_KEY_USED_def CIPHER_FLAG_HAS_KDF_SALT_def

definition flag_get :: "u32 \<Rightarrow> u32 \<Rightarrow> bool" where "flag_get fl bt \<longleftrightarrow> fl AND bt \<noteq> 0"
definition flag_set :: "u32 \<Rightarrow> u32 \<Rightarrow> u32" where "flag_set fl bt = fl OR bt"
definition flag_unset :: "u32 \<Rightarrow> u32 \<Rightarrow> u32" where "flag_unset fl bt = fl AND NOT bt"

text \<open>The sizes of the structures on a 64-bit target.\<close>

definition sizeof_codec_ctx :: int where "sizeof_codec_ctx = 128"
definition sizeof_cipher_ctx :: int where "sizeof_cipher_ctx = 40"
definition sizeof_provider :: int where "sizeof_provider = 136"

definition initial_globals :: "'r cipher_globals" where
  "initial_globals =
     \<lparr> g_flags = CIPHER_FLAG_HMAC OR CIPHER_FLAG_LE_PGNO, g_hmac_salt_mask = HMAC_SALT_MASK,
       g_kdf_iter = PBKDF2_ITER, g_page_size = 4096, g_plaintext_header_sz = 0,
       g_hmac_algorithm = SQLCIPHER_HMAC_SHA512, g_kdf_algorithm = SQLCIPHER_HMAC_SHA512,
       g_mem_security_on = 0, g_mem_executed = 0, g_activate_count = 0, g_provider = None \<rparr>"

section \<open>Memory\<close>

definition malloc_w :: "int \<Rightarrow> 'r world \<Rightarrow> byte list option \<times> 'r world" where
  "malloc_w sz w = (case sqlcipher_malloc sz (w_allocs w) of (p, al) \<Rightarrow> (p, w\<lparr>w_allocs := al\<rparr>))"

text \<open>Wiping and freeing: the block must be at least as large as the size it is wiped with.\<close>

definition sqlcipher_free :: "byte list option \<Rightarrow> int \<Rightarrow> unit option" where
  "sqlcipher_free p sz =
     (case p of None \<Rightarrow> Some () | Some b \<Rightarrow> map_option (\<lambda>_. ()) (sqlcipher_memset b 0 0 sz))"

definition memcpy :: "byte list \<Rightarrow> int \<Rightarrow> byte list \<Rightarrow> int \<Rightarrow> int \<Rightarrow> byte list option" where
  "memcpy dst doff src soff n = do { bs \<leftarrow> mem_read src soff n; mem_write dst doff bs }"

section \<open>Cipher contexts\<close>

definition sqlcipher_cipher_ctx_init ::
    "'r codec_ctx \<Rightarrow> 'r world \<Rightarrow> (int + cipher_ctx) \<times> 'r world" where
  "sqlcipher_cipher_ctx_init ctx w0 =
     (case malloc_w sizeof_cipher_ctx w0 of
        (None, w1) \<Rightarrow> (Inl SQLITE_NOMEM, w1)
      | (Some _, w1) \<Rightarrow>
          (case malloc_w (key_sz ctx) w1 of (k, w2) \<Rightarrow>
           (case malloc_w (key_sz ctx) w2 of (hk, w3) \<Rightarrow>
              (case (k, hk) of
                 (Some key, Some hkey) \<Rightarrow>
                   (Inr \<lparr> c_derive_key = 0, c_pass_sz = 0, c_key = key, c_hmac_key = hkey,
                          c_pass = None, c_keyspec = None \<rparr>, w3)
               | _ \<Rightarrow> (Inl SQLITE_NOMEM, w3)))))"

definition sqlcipher_cipher_ctx_free :: "'r codec_ctx \<Rightarrow> cipher_ctx \<Rightarrow> unit option" where
  "sqlcipher_cipher_ctx_free ctx c = do {
     _ \<leftarrow> sqlcipher_free (Some (c_key c)) (key_sz ctx);
     _ \<leftarrow> sqlcipher_free (Some (c_hmac_key c)) (key_sz ctx);
     _ \<leftarrow> sqlcipher_free (c_pass c) (c_pass_sz c);
     sqlcipher_free (c_keyspec c) (keyspec_sz ctx)
   }"

text \<open>
  Besides the comparison itself, the arguments of the log call are evaluated: they compare the two
  passphrases over the length of the first one even when the lengths differ.
\<close>

definition sqlcipher_cipher_ctx_cmp :: "cipher_ctx \<Rightarrow> cipher_ctx \<Rightarrow> int option" where
  "sqlcipher_cipher_ctx_cmp c1 c2 = do {
     are_equal \<leftarrow>
       (if c_pass_sz c1 = c_pass_sz c2 then
          (case (c_pass c1, c_pass c2) of
             (None, None) \<Rightarrow> Some True
           | (Some p1, Some p2) \<Rightarrow> map_option (\<lambda>r. r = 0) (sqlcipher_memcmp p1 0 p2 0 (c_pass_sz c1))
           | _ \<Rightarrow> if c_pass_sz c1 \<le> 0 then Some True else None)
        else Some False);
     _ \<leftarrow>
       (case (c_pass c1, c_pass c2) of
          (Some p1, Some p2) \<Rightarrow> sqlcipher_memcmp p1 0 p2 0 (c_pass_sz c1)
        | _ \<Rightarrow> Some (-1));
     Some (if are_equal then 0 else 1)
   }"

definition copy_pass :: "cipher_ctx \<Rightarrow> 'r world \<Rightarrow> (int \<times> byte list option \<times> 'r world) option" where
  "copy_pass src w =
     (case c_pass src of
        None \<Rightarrow> Some (SQLITE_OK, None, w)
      | Some p \<Rightarrow>
          if c_pass_sz src = 0 then Some (SQLITE_OK, Some p, w)
          else (case malloc_w (c_pass_sz src) w of
                  (None, w') \<Rightarrow> Some (SQLITE_NOMEM, None, w')
                | (Some b, w') \<Rightarrow>
                    do { b' \<leftarrow> memcpy b 0 p 0 (c_pass_sz src); Some (SQLITE_OK, Some b', w') }))"

definition copy_keyspec ::
    "'r codec_ctx \<Rightarrow> cipher_ctx \<Rightarrow> 'r world \<Rightarrow> (int \<times> byte list option \<times> 'r world) option" where
  "copy_keyspec ctx src w =
     (case c_keyspec src of
        None \<Rightarrow> Some (SQLITE_OK, None, w)
      | Some p \<Rightarrow>
          (case malloc_w (keyspec_sz ctx) w of
             (None, w') \<Rightarrow> Some (SQLITE_NOMEM, None, w')
           | (Some b, w') \<Rightarrow>
               do { b' \<leftarrow> memcpy b 0 p 0 (keyspec_sz ctx); Some (SQLITE_OK, Some b', w') }))"

definition sqlcipher_cipher_ctx_copy ::
    "'r codec_ctx \<Rightarrow> cipher_ctx \<Rightarrow> cipher_ctx \<Rightarrow> 'r world \<Rightarrow> (int \<times> cipher_ctx \<times> 'r world) option" where
  "sqlcipher_cipher_ctx_copy ctx target src w = do {
     _ \<leftarrow> sqlcipher_free (c_pass target) (c_pass_sz target);
     _ \<leftarrow> sqlcipher_free (c_keyspec target) (keyspec_sz ctx);
     key \<leftarrow> memcpy (c_key target) 0 (c_key src) 0 (key_sz ctx);
     hkey \<leftarrow> memcpy (c_hmac_key target) 0 (c_hmac_key src) 0 (key_sz ctx);
     let t1 = src\<lparr>c_key := key, c_hmac_key := hkey\<rparr>;
     (rc, pass, w1) \<leftarrow> copy_pass src w;
     let t2 = t1\<lparr>c_pass := pass\<rparr>;
     if rc \<noteq> SQLITE_OK then Some (rc, t2, w1)
     else do {
       (rc2, ks, w2) \<leftarrow> copy_keyspec ctx src w1;
       Some (rc2, t2\<lparr>c_keyspec := ks\<rparr>, w2)
     }
   }"

definition sqlcipher_cipher_ctx_set_keyspec ::
    "'r codec_ctx \<Rightarrow> cipher_ctx \<Rightarrow> byte list \<Rightarrow> 'r world \<Rightarrow> (int \<times> cipher_ctx \<times> 'r world) option" where
  "sqlcipher_cipher_ctx_set_keyspec ctx c key w = do {
     _ \<leftarrow> sqlcipher_free (c_keyspec c) (keyspec_sz ctx);
     (case malloc_w (keyspec_sz ctx) w of
        (None, w1) \<Rightarrow> Some (SQLITE_NOMEM, c\<lparr>c_keyspec := None\<rparr>, w1)
      | (Some k0, w1) \<Rightarrow> do {
          k1 \<leftarrow> mem_write k0 0 (str ''x'');
          k2 \<leftarrow> mem_write k1 1 [39];
          k3 \<leftarrow> cipher_bin2hex key (key_sz ctx) k2 2;
          k4 \<leftarrow> cipher_bin2hex (kdf_salt ctx) (kdf_salt_sz ctx) k3 (key_sz ctx * 2 + 2);
          k5 \<leftarrow> mem_write k4 (keyspec_sz ctx - 1) [39];
          Some (SQLITE_OK, c\<lparr>c_keyspec := Some k5\<rparr>, w1)
        })
   }"

definition sqlcipher_cipher_ctx_set_pass ::
    "cipher_ctx \<Rightarrow> byte list option \<Rightarrow> int \<Rightarrow> 'r world \<Rightarrow> (int \<times> cipher_ctx \<times> 'r world) option" where
  "sqlcipher_cipher_ctx_set_pass c zKey nKey w = do {
     _ \<leftarrow> sqlcipher_free (c_pass c) (c_pass_sz c);
     let c1 = c\<lparr>c_pass := None, c_pass_sz := 0\<rparr>;
     (case zKey of
        None \<Rightarrow> Some (SQLITE_OK, c1, w)
      | Some z \<Rightarrow>
          if nKey = 0 then Some (SQLITE_OK, c1, w)
          else let c2 = c1\<lparr>c_pass_sz := nKey\<rparr> in
            (case malloc_w nKey w of
               (None, w1) \<Rightarrow> Some (SQLITE_NOMEM, c2, w1)
             | (Some p, w1) \<Rightarrow>
                 do { p' \<leftarrow> memcpy p 0 z 0 nKey; Some (SQLITE_OK, c2\<lparr>c_pass := Some p'\<rparr>, w1) }))
   }"

section \<open>Settings of a context\<close>

definition sqlcipher_codec_ctx_get_use_hmac :: "'r codec_ctx \<Rightarrow> bool" where
  "sqlcipher_codec_ctx_get_use_hmac ctx = flag_get (cflags ctx) CIPHER_FLAG_HMAC"

text \<open>C's \<open>%\<close> and \<open>/\<close> on the non-negative sizes used here agree with \<open>mod\<close> and \<open>div\<close>.\<close>

definition sqlcipher_codec_ctx_reserve_setup :: "'r codec_ctx \<Rightarrow> 'r codec_ctx" where
  "sqlcipher_codec_ctx_reserve_setup ctx =
     (let hsz = pr_get_hmac_sz (cprovider ctx) (hmac_algorithm ctx);
          reserve = iv_sz ctx + (if sqlcipher_codec_ctx_get_use_hmac ctx then hsz else 0);
          rounded = (if block_sz ctx > 0
                     then (if reserve mod block_sz ctx = 0 then reserve
                           else (reserve div block_sz ctx + 1) * block_sz ctx)
                     else reserve)
      in ctx\<lparr>hmac_sz := hsz, reserve_sz := rounded\<rparr>)"

definition sqlcipher_set_derive_key :: "'r codec_ctx \<Rightarrow> int \<Rightarrow> 'r codec_ctx" where
  "sqlcipher_set_derive_key ctx derive =
     ctx\<lparr>read_ctx := map_option (\<lambda>c. c\<lparr>c_derive_key := derive\<rparr>) (read_ctx ctx),
         write_ctx := map_option (\<lambda>c. c\<lparr>c_derive_key := derive\<rparr>) (write_ctx ctx)\<rparr>"

definition sqlcipher_codec_set_store_pass :: "'r codec_ctx \<Rightarrow> int \<Rightarrow> 'r codec_ctx" where
  "sqlcipher_codec_set_store_pass ctx v = ctx\<lparr>store_pass := v\<rparr>"

definition sqlcipher_codec_ctx_set_kdf_iter :: "'r codec_ctx \<Rightarrow> int \<Rightarrow> 'r codec_ctx" where
  "sqlcipher_codec_ctx_set_kdf_iter ctx n = sqlcipher_set_derive_key (ctx\<lparr>kdf_iter := n\<rparr>) 1"

definition sqlcipher_codec_ctx_set_fast_kdf_iter :: "'r codec_ctx \<Rightarrow> int \<Rightarrow> 'r codec_ctx" where
  "sqlcipher_codec_ctx_set_fast_kdf_iter ctx n = sqlcipher_set_derive_key (ctx\<lparr>fast_kdf_iter := n\<rparr>) 1"

definition sqlcipher_codec_ctx_set_use_hmac :: "'r codec_ctx \<Rightarrow> bool \<Rightarrow> 'r codec_ctx" where
  "sqlcipher_codec_ctx_set_use_hmac ctx use =
     sqlcipher_codec_ctx_reserve_setup
       (ctx\<lparr>cflags := (if use then flag_set (cflags ctx) CIPHER_FLAG_HMAC
                       else flag_unset (cflags ctx) CIPHER_FLAG_HMAC)\<rparr>)"

definition sqlcipher_codec_ctx_set_hmac_algorithm :: "'r codec_ctx \<Rightarrow> int \<Rightarrow> 'r codec_ctx" where
  "sqlcipher_codec_ctx_set_hmac_algorithm ctx algorithm =
     sqlcipher_codec_ctx_reserve_setup (ctx\<lparr>hmac_algorithm := algorithm\<rparr>)"

definition sqlcipher_codec_ctx_set_kdf_algorithm :: "'r codec_ctx \<Rightarrow> int \<Rightarrow> 'r codec_ctx" where
  "sqlcipher_codec_ctx_set_kdf_algorithm ctx algorithm = ctx\<lparr>kdf_algorithm := algorithm\<rparr>"

definition sqlcipher_codec_ctx_set_plaintext_header_size ::
    "'r codec_ctx \<Rightarrow> int \<Rightarrow> int \<times> 'r codec_ctx" where
  "sqlcipher_codec_ctx_set_plaintext_header_size ctx sz =
     (if sz \<ge> 0 \<and> block_sz ctx > 0 \<and> sz mod block_sz ctx = 0 \<and> sz < page_sz ctx - reserve_sz ctx
      then (SQLITE_OK, ctx\<lparr>plaintext_header_sz := sz\<rparr>)
      else (SQLITE_ERROR, ctx\<lparr>plaintext_header_sz := -1\<rparr>))"

definition sqlcipher_codec_ctx_set_pagesize ::
    "'r codec_ctx \<Rightarrow> int \<Rightarrow> 'r world \<Rightarrow> (int \<times> 'r codec_ctx \<times> 'r world) option" where
  "sqlcipher_codec_ctx_set_pagesize ctx sz w =
     (if \<not> (sz \<noteq> 0 \<and> sz AND (sz - 1) = 0) \<or> sz < 512 \<or> sz > 65536
      then Some (SQLITE_ERROR, ctx, w)
      else do {
        _ \<leftarrow> sqlcipher_free (cbuffer ctx) (page_sz ctx);
        (case malloc_w sz w of (b, w') \<Rightarrow>
           Some (if b = None then SQLITE_NOMEM else SQLITE_OK,
                 ctx\<lparr>page_sz := sz, cbuffer := b\<rparr>, w'))
      })"

definition sqlcipher_codec_ctx_set_error :: "int \<Rightarrow> 'r world \<Rightarrow> 'r world" where
  "sqlcipher_codec_ctx_set_error err w = w\<lparr>w_pager_error := err, w_db_error := err\<rparr>"

section \<open>Salt\<close>

definition sqlcipher_codec_ctx_init_kdf_salt ::
    "'r codec_ctx \<Rightarrow> 'r world \<Rightarrow> (int \<times> 'r codec_ctx \<times> 'r world) option" where
  "sqlcipher_codec_ctx_init_kdf_salt ctx w =
     (if flag_get (cflags ctx) CIPHER_FLAG_HAS_KDF_SALT then Some (SQLITE_OK, ctx, w)
      else
        let have_salt = (\<lambda>salt w'. do {
              s \<leftarrow> mem_write (kdf_salt ctx) 0 salt;
              Some (SQLITE_OK,
                    ctx\<lparr>kdf_salt := s, cflags := flag_set (cflags ctx) CIPHER_FLAG_HAS_KDF_SALT\<rparr>, w')
            });
            from_file = (if w_fd_open w then w_read w (kdf_salt_sz ctx) 0 else None)
        in case from_file of
             Some bs \<Rightarrow> have_salt bs w
           | None \<Rightarrow>
               (case pr_random (cprovider ctx) (w_rand w) (kdf_salt_sz ctx) of
                  (None, r') \<Rightarrow> Some (SQLITE_ERROR, ctx, w\<lparr>w_rand := r'\<rparr>)
                | (Some bs, r') \<Rightarrow> have_salt bs (w\<lparr>w_rand := r'\<rparr>)))"

definition sqlcipher_codec_ctx_set_kdf_salt ::
    "'r codec_ctx \<Rightarrow> byte list \<Rightarrow> int \<Rightarrow> (int \<times> 'r codec_ctx) option" where
  "sqlcipher_codec_ctx_set_kdf_salt ctx salt sz =
     (if sz \<ge> kdf_salt_sz ctx then do {
        s \<leftarrow> memcpy (kdf_salt ctx) 0 salt 0 (kdf_salt_sz ctx);
        Some (SQLITE_OK, ctx\<lparr>kdf_salt := s, cflags := flag_set (cflags ctx) CIPHER_FLAG_HAS_KDF_SALT\<rparr>)
      } else Some (SQLITE_ERROR, ctx))"

definition sqlcipher_codec_ctx_get_kdf_salt ::
    "'r codec_ctx \<Rightarrow> 'r world \<Rightarrow> (int \<times> byte list \<times> 'r codec_ctx \<times> 'r world) option" where
  "sqlcipher_codec_ctx_get_kdf_salt ctx w =
     (if flag_get (cflags ctx) CIPHER_FLAG_HAS_KDF_SALT then Some (SQLITE_OK, kdf_salt ctx, ctx, w)
      else do {
        (rc, ctx', w') \<leftarrow> sqlcipher_codec_ctx_init_kdf_salt ctx w;
        Some (rc, kdf_salt ctx', ctx', w')
      })"

section \<open>Setting the key material\<close>

definition sqlcipher_codec_ctx_set_pass ::
    "'r codec_ctx \<Rightarrow> byte list option \<Rightarrow> int \<Rightarrow> int \<Rightarrow> 'r world \<Rightarrow> (int \<times> 'r codec_ctx \<times> 'r world) option" where
  "sqlcipher_codec_ctx_set_pass ctx zKey nKey for_ctx w = do {
     c \<leftarrow> (if for_ctx \<noteq> 0 then write_ctx ctx else read_ctx ctx);
     (rc, c1, w1) \<leftarrow> sqlcipher_cipher_ctx_set_pass c zKey nKey w;
     let put = (\<lambda>d. if for_ctx \<noteq> 0 then ctx\<lparr>write_ctx := Some d\<rparr> else ctx\<lparr>read_ctx := Some d\<rparr>);
     if rc \<noteq> SQLITE_OK then Some (rc, put c1, w1)
     else
       let c2 = c1\<lparr>c_derive_key := 1\<rparr>; ctx2 = put c2 in
       if for_ctx = 2 then do {
         r \<leftarrow> read_ctx ctx2;
         (rc2, r', w2) \<leftarrow> sqlcipher_cipher_ctx_copy ctx2 r c2 w1;
         Some (rc2, ctx2\<lparr>read_ctx := Some r'\<rparr>, w2)
       } else Some (SQLITE_OK, ctx2, w1)
   }"

section \<open>Creating and destroying a context\<close>

definition zero_codec_ctx :: "'r sqlcipher_provider \<Rightarrow> 'r codec_ctx" where
  "zero_codec_ctx p =
     \<lparr> store_pass = 0, kdf_iter = 0, fast_kdf_iter = 0, kdf_salt_sz = 0, key_sz = 0, iv_sz = 0,
       block_sz = 0, page_sz = 0, keyspec_sz = 0, reserve_sz = 0, hmac_sz = 0,
       plaintext_header_sz = 0, hmac_algorithm = 0, kdf_algorithm = 0, cflags = 0, kdf_salt = [],
       hmac_kdf_salt = [], cbuffer = None, read_ctx = None, write_ctx = None, cprovider = p \<rparr>"

text \<open>
  The part of \<open>sqlcipher_codec_ctx_init\<close> up to the page buffer: salts, flags, provider, sizes.
  \<open>memcpy\<close> from an absent default provider is undefined.
\<close>

definition codec_ctx_alloc ::
    "'r cipher_globals \<Rightarrow> 'r world \<Rightarrow> ((int + 'r codec_ctx) \<times> 'r world) option" where
  "codec_ctx_alloc g w0 =
     (case malloc_w sizeof_codec_ctx w0 of (None, w1) \<Rightarrow> Some (Inl SQLITE_NOMEM, w1)
      | (Some _, w1) \<Rightarrow>
     (case malloc_w FILE_HEADER_SZ w1 of (None, w2) \<Rightarrow> Some (Inl SQLITE_NOMEM, w2)
      | (Some salt, w2) \<Rightarrow>
     (case malloc_w FILE_HEADER_SZ w2 of (None, w3) \<Rightarrow> Some (Inl SQLITE_NOMEM, w3)
      | (Some hsalt, w3) \<Rightarrow>
     (case malloc_w sizeof_provider w3 of (None, w4) \<Rightarrow> Some (Inl SQLITE_NOMEM, w4)
      | (Some _, w4) \<Rightarrow>
     (case g_provider g of None \<Rightarrow> None
      | Some p \<Rightarrow>
          if pr_ctx_init p \<noteq> SQLITE_OK then Some (Inl (pr_ctx_init p), w4)
          else Some (Inr ((zero_codec_ctx p)
                 \<lparr>kdf_salt_sz := FILE_HEADER_SZ, kdf_salt := salt, hmac_kdf_salt := hsalt,
                  cflags := g_flags g, key_sz := pr_get_key_sz p, iv_sz := pr_get_iv_sz p,
                  block_sz := pr_get_block_sz p,
                  keyspec_sz := (pr_get_key_sz p + FILE_HEADER_SZ) * 2 + 3\<rparr>), w4))))))"

definition codec_ctx_defaults :: "'r cipher_globals \<Rightarrow> 'r codec_ctx \<Rightarrow> int \<times> 'r codec_ctx" where
  "codec_ctx_defaults g ctx =
     (let c1 = sqlcipher_codec_ctx_set_kdf_iter ctx (g_kdf_iter g);
          c2 = sqlcipher_codec_ctx_set_fast_kdf_iter c1 FAST_PBKDF2_ITER;
          c3 = sqlcipher_codec_ctx_set_hmac_algorithm c2 (g_hmac_algorithm g);
          c4 = sqlcipher_codec_ctx_set_use_hmac c3 (flag_get (g_flags g) CIPHER_FLAG_HMAC);
          c5 = sqlcipher_codec_ctx_set_kdf_algorithm c4 (g_kdf_algorithm g)
      in sqlcipher_codec_ctx_set_plaintext_header_size c5 (g_plaintext_header_sz g))"

definition codec_ctx_keys ::
    "'r codec_ctx \<Rightarrow> byte list option \<Rightarrow> int \<Rightarrow> 'r world \<Rightarrow> ((int + 'r codec_ctx) \<times> 'r world) option" where
  "codec_ctx_keys ctx zKey nKey w0 =
     (case sqlcipher_cipher_ctx_init ctx w0 of (Inl rc, w1) \<Rightarrow> Some (Inl rc, w1)
      | (Inr r, w1) \<Rightarrow>
     (case sqlcipher_cipher_ctx_init ctx w1 of (Inl rc, w2) \<Rightarrow> Some (Inl rc, w2)
      | (Inr wr, w2) \<Rightarrow> do {
        (rc, ctx1, w3) \<leftarrow> sqlcipher_codec_ctx_set_pass
                           (ctx\<lparr>read_ctx := Some r, write_ctx := Some wr\<rparr>) zKey nKey 0 w2;
        if rc \<noteq> SQLITE_OK then Some (Inl rc, w3)
        else do {
          r1 \<leftarrow> read_ctx ctx1;
          (rc2, wr1, w4) \<leftarrow> sqlcipher_cipher_ctx_copy ctx1 wr r1 w3;
          Some (if rc2 \<noteq> SQLITE_OK then Inl rc2 else Inr (ctx1\<lparr>write_ctx := Some wr1\<rparr>), w4)
        }
      }))"

definition sqlcipher_codec_ctx_init ::
    "'r cipher_globals \<Rightarrow> byte list option \<Rightarrow> int \<Rightarrow> 'r world \<Rightarrow> ((int + 'r codec_ctx) \<times> 'r world) option" where
  "sqlcipher_codec_ctx_init g zKey nKey w0 = do {
     (r, w1) \<leftarrow> codec_ctx_alloc g w0;
     (case r of
        Inl rc \<Rightarrow> Some (Inl rc, w1)
      | Inr ctx0 \<Rightarrow> do {
          (rc, ctx1, w2) \<leftarrow> sqlcipher_codec_ctx_set_pagesize ctx0 (g_page_size g) w1;
          if rc \<noteq> SQLITE_OK then Some (Inl rc, w2)
          else (case codec_ctx_defaults g ctx1 of (rc2, ctx2) \<Rightarrow>
                  if rc2 \<noteq> SQLITE_OK then Some (Inl rc2, w2)
                  else codec_ctx_keys ctx2 zKey nKey w2)
        })
   }"

definition sqlcipher_codec_ctx_free :: "'r codec_ctx \<Rightarrow> unit option" where
  "sqlcipher_codec_ctx_free ctx = do {
     _ \<leftarrow> sqlcipher_free (Some (kdf_salt ctx)) (kdf_salt_sz ctx);
     _ \<leftarrow> sqlcipher_free (Some (hmac_kdf_salt ctx)) (kdf_salt_sz ctx);
     _ \<leftarrow> sqlcipher_free (cbuffer ctx) (page_sz ctx);
     r \<leftarrow> read_ctx ctx;
     _ \<leftarrow> sqlcipher_cipher_ctx_free ctx r;
     wr \<leftarrow> write_ctx ctx;
     sqlcipher_cipher_ctx_free ctx wr
   }"

section \<open>Deriving the keys\<close>

text \<open>
  The first three branches of \<open>sqlcipher_cipher_ctx_key_derive\<close>: a raw key, a raw key with salt, or
  PBKDF2.  The result is the return code with the new key and salt.
\<close>

definition is_keyspec_of :: "byte list \<Rightarrow> int \<Rightarrow> int \<Rightarrow> bool option" where
  "is_keyspec_of pass psz n =
     (if psz = n * 2 + 3 \<and> sqlite3StrNICmp pass (str ''x'' @ [39]) 2 = 0
      then cipher_isHex pass 2 (n * 2) else Some False)"

definition derive_cipher_key ::
    "'r codec_ctx \<Rightarrow> cipher_ctx \<Rightarrow> byte list \<Rightarrow> (int \<times> byte list \<times> byte list) option" where
  "derive_cipher_key ctx c pass = do {
     raw \<leftarrow> is_keyspec_of pass (c_pass_sz c) (key_sz ctx);
     if raw then do {
       k \<leftarrow> cipher_hex2bin (drop 2 pass) (c_pass_sz c - 3) (c_key c);
       Some (SQLITE_OK, k, kdf_salt ctx)
     } else do {
       raw2 \<leftarrow> is_keyspec_of pass (c_pass_sz c) (key_sz ctx + kdf_salt_sz ctx);
       if raw2 then do {
         k \<leftarrow> cipher_hex2bin (drop 2 pass) (key_sz ctx * 2) (c_key c);
         s \<leftarrow> cipher_hex2bin (drop (nat (2 + key_sz ctx * 2)) pass) (kdf_salt_sz ctx * 2) (kdf_salt ctx);
         Some (SQLITE_OK, k, s)
       } else do {
         p \<leftarrow> mem_read pass 0 (c_pass_sz c);
         s \<leftarrow> mem_read (kdf_salt ctx) 0 (kdf_salt_sz ctx);
         (case pr_kdf (cprovider ctx) (kdf_algorithm ctx) p s (kdf_iter ctx) (key_sz ctx) of
            None \<Rightarrow> Some (SQLITE_ERROR, c_key c, kdf_salt ctx)
          | Some kb \<Rightarrow> do { k \<leftarrow> mem_write (c_key c) 0 kb; Some (SQLITE_OK, k, kdf_salt ctx) })
       }
     }
   }"

text \<open>The HMAC key: PBKDF2 of the encryption key under the masked salt.\<close>

definition derive_hmac_key ::
    "'r cipher_globals \<Rightarrow> 'r codec_ctx \<Rightarrow> cipher_ctx \<Rightarrow> (int \<times> 'r codec_ctx \<times> cipher_ctx) option" where
  "derive_hmac_key g ctx c = do {
     s0 \<leftarrow> mem_read (kdf_salt ctx) 0 (kdf_salt_sz ctx);
     hs \<leftarrow> mem_write (hmac_kdf_salt ctx) 0 (map (\<lambda>b. b XOR g_hmac_salt_mask g) s0);
     let ctx1 = ctx\<lparr>hmac_kdf_salt := hs\<rparr>;
     k \<leftarrow> mem_read (c_key c) 0 (key_sz ctx);
     s \<leftarrow> mem_read hs 0 (kdf_salt_sz ctx);
     (case pr_kdf (cprovider ctx) (kdf_algorithm ctx) k s (fast_kdf_iter ctx) (key_sz ctx) of
        None \<Rightarrow> Some (SQLITE_ERROR, ctx1, c)
      | Some hb \<Rightarrow> do {
          hk \<leftarrow> mem_write (c_hmac_key c) 0 hb;
          Some (SQLITE_OK, ctx1, c\<lparr>c_hmac_key := hk\<rparr>) })
   }"

definition sqlcipher_cipher_ctx_key_derive ::
    "'r cipher_globals \<Rightarrow> 'r codec_ctx \<Rightarrow> cipher_ctx \<Rightarrow> 'r world
       \<Rightarrow> (int \<times> 'r codec_ctx \<times> cipher_ctx \<times> 'r world) option" where
  "sqlcipher_cipher_ctx_key_derive g ctx0 c0 w0 =
     (case c_pass c0 of
        None \<Rightarrow> Some (SQLITE_ERROR, ctx0, c0, w0)
      | Some pass \<Rightarrow>
          if c_pass_sz c0 = 0 then Some (SQLITE_ERROR, ctx0, c0, w0)
          else do {
            (rc, ctx1, w1) \<leftarrow>
              (if flag_get (cflags ctx0) CIPHER_FLAG_HAS_KDF_SALT then Some (SQLITE_OK, ctx0, w0)
               else sqlcipher_codec_ctx_init_kdf_salt ctx0 w0);
            if rc \<noteq> SQLITE_OK then Some (rc, ctx1, c0, w1)
            else do {
              (rc2, k, salt) \<leftarrow> derive_cipher_key ctx1 c0 pass;
              let ctx2 = ctx1\<lparr>kdf_salt := salt\<rparr>;
              let c1 = c0\<lparr>c_key := k\<rparr>;
              if rc2 \<noteq> SQLITE_OK then Some (SQLITE_ERROR, ctx2, c1, w1)
              else do {
                (rc3, c2, w2) \<leftarrow> sqlcipher_cipher_ctx_set_keyspec ctx2 c1 (c_key c1) w1;
                if rc3 \<noteq> SQLITE_OK then Some (rc3, ctx2, c2, w2)
                else do {
                  (rc4, ctx3, c3) \<leftarrow>
                    (if cflags ctx2 AND CIPHER_FLAG_HMAC \<noteq> 0 then derive_hmac_key g ctx2 c2
                     else Some (SQLITE_OK, ctx2, c2));
                  if rc4 \<noteq> SQLITE_OK then Some (SQLITE_ERROR, ctx3, c3, w2)
                  else Some (SQLITE_OK, ctx3, c3\<lparr>c_derive_key := 0\<rparr>, w2)
                }
              }
            }
          })"

definition derive_read_ctx ::
    "'r cipher_globals \<Rightarrow> 'r codec_ctx \<Rightarrow> 'r world \<Rightarrow> (int \<times> 'r codec_ctx \<times> 'r world) option" where
  "derive_read_ctx g ctx w = do {
     r \<leftarrow> read_ctx ctx;
     if c_derive_key r \<noteq> 0 then do {
       (rc, ctx1, r1, w1) \<leftarrow> sqlcipher_cipher_ctx_key_derive g ctx r w;
       Some (if rc \<noteq> SQLITE_OK then SQLITE_ERROR else SQLITE_OK, ctx1\<lparr>read_ctx := Some r1\<rparr>, w1)
     } else Some (SQLITE_OK, ctx, w)
   }"

definition derive_write_ctx ::
    "'r cipher_globals \<Rightarrow> 'r codec_ctx \<Rightarrow> 'r world \<Rightarrow> (int \<times> 'r codec_ctx \<times> 'r world) option" where
  "derive_write_ctx g ctx w = do {
     wr \<leftarrow> write_ctx ctx;
     r \<leftarrow> read_ctx ctx;
     if c_derive_key wr \<noteq> 0 then do {
       cmp \<leftarrow> sqlcipher_cipher_ctx_cmp wr r;
       if cmp = 0 then do {
         (rc, wr1, w1) \<leftarrow> sqlcipher_cipher_ctx_copy ctx wr r w;
         Some (if rc \<noteq> SQLITE_OK then SQLITE_ERROR else SQLITE_OK, ctx\<lparr>write_ctx := Some wr1\<rparr>, w1)
       } else do {
         (rc, ctx1, wr1, w1) \<leftarrow> sqlcipher_cipher_ctx_key_derive g ctx wr w;
         Some (if rc \<noteq> SQLITE_OK then SQLITE_ERROR else SQLITE_OK, ctx1\<lparr>write_ctx := Some wr1\<rparr>, w1)
       }
     } else Some (SQLITE_OK, ctx, w)
   }"

definition wipe_pass :: "'r codec_ctx \<Rightarrow> 'r world \<Rightarrow> ('r codec_ctx \<times> 'r world) option" where
  "wipe_pass ctx w =
     (if store_pass ctx \<noteq> 1 then do {
        r \<leftarrow> read_ctx ctx;
        (_, r1, w1) \<leftarrow> sqlcipher_cipher_ctx_set_pass r None 0 w;
        wr \<leftarrow> write_ctx ctx;
        (_, wr1, w2) \<leftarrow> sqlcipher_cipher_ctx_set_pass wr None 0 w1;
        Some (ctx\<lparr>read_ctx := Some r1, write_ctx := Some wr1\<rparr>, w2)
      } else Some (ctx, w))"

definition sqlcipher_codec_key_derive ::
    "'r cipher_globals \<Rightarrow> 'r codec_ctx \<Rightarrow> 'r world \<Rightarrow> (int \<times> 'r codec_ctx \<times> 'r world) option" where
  "sqlcipher_codec_key_derive g ctx w = do {
     (rc1, ctx1, w1) \<leftarrow> derive_read_ctx g ctx w;
     if rc1 \<noteq> SQLITE_OK then Some (SQLITE_ERROR, ctx1, w1)
     else do {
       (rc2, ctx2, w2) \<leftarrow> derive_write_ctx g ctx1 w1;
       if rc2 \<noteq> SQLITE_OK then Some (SQLITE_ERROR, ctx2, w2)
       else do { (ctx3, w3) \<leftarrow> wipe_pass ctx2 w2; Some (SQLITE_OK, ctx3, w3) }
     }
   }"

definition sqlcipher_codec_key_copy ::
    "'r codec_ctx \<Rightarrow> int \<Rightarrow> 'r world \<Rightarrow> (int \<times> 'r codec_ctx \<times> 'r world) option" where
  "sqlcipher_codec_key_copy ctx src w = do {
     r \<leftarrow> read_ctx ctx;
     wr \<leftarrow> write_ctx ctx;
     if src = 0 then do {
       (rc, wr1, w1) \<leftarrow> sqlcipher_cipher_ctx_copy ctx wr r w;
       Some (rc, ctx\<lparr>write_ctx := Some wr1\<rparr>, w1)
     } else do {
       (rc, r1, w1) \<leftarrow> sqlcipher_cipher_ctx_copy ctx r wr w;
       Some (rc, ctx\<lparr>read_ctx := Some r1\<rparr>, w1)
     }
   }"

end
