(* ===== verification/Codec_Wf.thy ===== *)
theory Codec_Wf
  imports Codec_Ctx
begin

text \<open>
  Well-formedness of codec contexts: the sizes and buffers that \<open>sqlcipher_codec_ctx_init\<close> sets up
  and that every setting, key change and key derivation keeps.
\<close>

section \<open>The invariant\<close>

text \<open>
  A cipher context owns key buffers of the provider's key size, a passphrase block of the recorded
  length (or none) and a keyspec block of the recorded size (or none).
\<close>

definition opt_len :: "byte list option \<Rightarrow> int \<Rightarrow> bool" where
  "opt_len b n \<longleftrightarrow> (\<forall>x. b = Some x \<longrightarrow> int (length x) = n)"

lemma opt_len_simps [simp]: "opt_len None n" "opt_len (Some x) n \<longleftrightarrow> int (length x) = n"
  by (simp_all add: opt_len_def)

definition cipher_ok :: "'r codec_ctx \<Rightarrow> cipher_ctx \<Rightarrow> bool" where
  "cipher_ok ctx c \<longleftrightarrow>
     int (length (c_key c)) = key_sz ctx \<and> int (length (c_hmac_key c)) = key_sz ctx \<and>
     opt_len (c_pass c) (c_pass_sz c) \<and> opt_len (c_keyspec c) (keyspec_sz ctx)"

definition reserve_of :: "'r codec_ctx \<Rightarrow> int" where
  "reserve_of ctx = reserve_sz (sqlcipher_codec_ctx_reserve_setup ctx)"

text \<open>The page sizes \<open>sqlcipher_codec_ctx_set_pagesize\<close> accepts.\<close>

definition pagesize_ok :: "int \<Rightarrow> bool" where
  "pagesize_ok n \<longleftrightarrow> 512 \<le> n \<and> n \<le> 65536 \<and> n AND (n - 1) = 0"

text \<open>
  The sizes and buffers of the context itself; with its two cipher contexts; and with the two fields
  \<open>sqlcipher_codec_ctx_reserve_setup\<close> computes.
\<close>

definition codec_frame_ok :: "'r codec_ctx \<Rightarrow> bool" where
  "codec_frame_ok ctx \<longleftrightarrow>
     provider_ok (cprovider ctx) \<and>
     key_sz ctx = pr_get_key_sz (cprovider ctx) \<and> iv_sz ctx = pr_get_iv_sz (cprovider ctx) \<and>
     block_sz ctx = pr_get_block_sz (cprovider ctx) \<and>
     kdf_salt_sz ctx = FILE_HEADER_SZ \<and> keyspec_sz ctx = (key_sz ctx + FILE_HEADER_SZ) * 2 + 3 \<and>
     int (length (kdf_salt ctx)) = FILE_HEADER_SZ \<and> int (length (hmac_kdf_salt ctx)) = FILE_HEADER_SZ \<and>
     pagesize_ok (page_sz ctx) \<and> opt_len (cbuffer ctx) (page_sz ctx)"

definition codec_base_ok :: "'r codec_ctx \<Rightarrow> bool" where
  "codec_base_ok ctx \<longleftrightarrow> codec_frame_ok ctx \<and>
     (\<exists>r wr. read_ctx ctx = Some r \<and> write_ctx ctx = Some wr \<and> cipher_ok ctx r \<and> cipher_ok ctx wr)"

definition codec_ok :: "'r codec_ctx \<Rightarrow> bool" where
  "codec_ok ctx \<longleftrightarrow> codec_base_ok ctx \<and>
     hmac_sz ctx = pr_get_hmac_sz (cprovider ctx) (hmac_algorithm ctx) \<and> reserve_sz ctx = reserve_of ctx"

text \<open>The plaintext header leaves room for at least one encrypted block, or is marked invalid.\<close>

definition header_ok :: "'r codec_ctx \<Rightarrow> bool" where
  "header_ok ctx \<longleftrightarrow> plaintext_header_sz ctx = -1 \<or>
     0 \<le> plaintext_header_sz ctx \<and> block_sz ctx dvd plaintext_header_sz ctx \<and>
     plaintext_header_sz ctx < page_sz ctx - reserve_sz ctx"

section \<open>Reserve and page size\<close>

lemma provider_okD:
  assumes "provider_ok p"
  shows "0 < pr_get_key_sz p" "pr_get_key_sz p \<le> 64" "pr_get_iv_sz p = pr_get_block_sz p"
    "0 < pr_get_block_sz p" "pr_get_block_sz p dvd 16" "pr_get_block_sz p \<le> 16"
    "0 \<le> pr_get_hmac_sz p a" "pr_get_hmac_sz p a \<le> 64"
proof -
  show d: "pr_get_block_sz p dvd 16" using assms by (simp add: provider_ok_def)
  show "pr_get_block_sz p \<le> 16" by (rule zdvd_imp_le [OF d]) simp
qed (use assms in \<open>simp_all add: provider_ok_def\<close>)

lemma provider_ok_random: "provider_ok p \<Longrightarrow> pr_random p r n = (Some bs, r') \<Longrightarrow> int (length bs) = n"
  unfolding provider_ok_def by blast

lemma provider_ok_hmac: "provider_ok p \<Longrightarrow> pr_hmac p a k x y = Some m \<Longrightarrow> int (length m) = pr_get_hmac_sz p a"
  by (simp add: provider_ok_def)

lemma provider_ok_kdf: "provider_ok p \<Longrightarrow> pr_kdf p a pw s w n = Some k \<Longrightarrow> int (length k) = n"
  by (simp add: provider_ok_def)

lemma provider_ok_cipher:
  assumes "provider_ok p" "int (length key) = pr_get_key_sz p" "int (length iv) = pr_get_iv_sz p"
    "pr_get_block_sz p dvd int (length x)"
  obtains y where "pr_cipher p mode key iv x = Some y" "length y = length x"
    "mode = CIPHER_ENCRYPT \<Longrightarrow> pr_cipher p CIPHER_DECRYPT key iv y = Some x"
proof -
  have "\<exists>y. pr_cipher p mode key iv x = Some y \<and> length y = length x \<and>
             (mode = CIPHER_ENCRYPT \<longrightarrow> pr_cipher p CIPHER_DECRYPT key iv y = Some x)"
    using assms by (simp add: provider_ok_def)
  with that show ?thesis by blast
qed

lemma round_up:
  fixes r b :: int
  assumes "0 < b" "0 \<le> r"
  defines "s \<equiv> (if r mod b = 0 then r else (r div b + 1) * b)"
  shows "r \<le> s" "s < r + b" "b dvd s"
proof -
  define q m where "q = r div b" and "m = r mod b"
  then have s: "s = (if m = 0 then r else (q + 1) * b)" and r: "r = b * q + m"
    and m: "0 \<le> m" "m < b"
    using assms by (simp_all add: s_def)
  show "r \<le> s" "s < r + b" "b dvd s"
    using m assms(1) by (auto simp: s r algebra_simps)
qed

lemma reserve_of_bounds:
  assumes "provider_ok (cprovider ctx)" "block_sz ctx = pr_get_block_sz (cprovider ctx)"
    "iv_sz ctx = pr_get_iv_sz (cprovider ctx)"
  shows "block_sz ctx dvd reserve_of ctx"
    "iv_sz ctx + (if flag_get (cflags ctx) CIPHER_FLAG_HMAC
                  then pr_get_hmac_sz (cprovider ctx) (hmac_algorithm ctx) else 0) \<le> reserve_of ctx"
    "0 < reserve_of ctx" "reserve_of ctx < 96"
proof -
  note p = provider_okD(1-6) [OF assms(1)]
  have h: "0 \<le> pr_get_hmac_sz (cprovider ctx) (hmac_algorithm ctx)"
    "pr_get_hmac_sz (cprovider ctx) (hmac_algorithm ctx) \<le> 64"
    using provider_okD(7,8) [OF assms(1)] by blast+
  let ?r = "iv_sz ctx + (if flag_get (cflags ctx) CIPHER_FLAG_HMAC
                  then pr_get_hmac_sz (cprovider ctx) (hmac_algorithm ctx) else 0)"
  let ?b = "block_sz ctx"
  have b: "0 < ?b" "?b \<le> 16" and r: "0 \<le> ?r" "?r \<le> 80" "0 < ?r" using p h assms(2,3) by auto
  have e: "reserve_of ctx = (if ?r mod ?b = 0 then ?r else (?r div ?b + 1) * ?b)"
    using b by (simp add: reserve_of_def sqlcipher_codec_ctx_reserve_setup_def
        sqlcipher_codec_ctx_get_use_hmac_def Let_def)
  show "?b dvd reserve_of ctx" "?r \<le> reserve_of ctx" "0 < reserve_of ctx" "reserve_of ctx < 96"
    unfolding e using round_up [OF b(1) r(1)] b r by linarith+
qed

text \<open>A power of two of at least 512 is a multiple of 16: otherwise \<open>n\<close> and \<open>n - 1\<close> share the high bits.\<close>

lemma pagesize_block: "pagesize_ok n \<Longrightarrow> 16 dvd n"
proof (rule ccontr)
  assume ok: "pagesize_ok n" and "\<not> 16 dvd n"
  then have "0 < n mod 16" "n mod 16 < 16" by (simp_all add: dvd_eq_mod_eq_0 order_less_le [of 0])
  then have "(n - 1) div 16 = n div 16"
    by (intro int_div_pos_eq [of _ _ _ "n mod 16 - 1"]) (simp_all add: algebra_simps)
  then have "drop_bit 4 (n - 1) = drop_bit 4 n" by (simp add: drop_bit_eq_div)
  moreover have "drop_bit 4 (n AND (n - 1)) = drop_bit 4 n AND drop_bit 4 (n - 1)" by (rule drop_bit_and)
  ultimately have "drop_bit 4 n = 0" using ok by (simp only: pagesize_ok_def) simp
  with ok show False by (auto simp: pagesize_ok_def drop_bit_eq_div zdiv_eq_0_iff)
qed

lemma pagesize_ok_if:
  "\<not> (\<not> (sz \<noteq> 0 \<and> sz AND (sz - 1) = 0) \<or> sz < 512 \<or> sz > 65536) \<longleftrightarrow> pagesize_ok sz"
  by (auto simp: pagesize_ok_def)

lemma codec_okD:
  assumes "codec_ok ctx"
  shows "provider_ok (cprovider ctx)" "key_sz ctx = pr_get_key_sz (cprovider ctx)"
    "iv_sz ctx = pr_get_iv_sz (cprovider ctx)" "block_sz ctx = pr_get_block_sz (cprovider ctx)"
    "kdf_salt_sz ctx = 16" "keyspec_sz ctx = key_sz ctx * 2 + 35"
    "length (kdf_salt ctx) = 16" "length (hmac_kdf_salt ctx) = 16" "pagesize_ok (page_sz ctx)"
    "hmac_sz ctx = pr_get_hmac_sz (cprovider ctx) (hmac_algorithm ctx)" "reserve_sz ctx = reserve_of ctx"
  using assms by (auto simp: codec_ok_def codec_base_ok_def codec_frame_ok_def FILE_HEADER_SZ_def)

lemma codec_ok_sizes:
  assumes "codec_ok ctx"
  shows "0 < key_sz ctx" "key_sz ctx \<le> 64" "iv_sz ctx = block_sz ctx" "0 < block_sz ctx"
    "block_sz ctx dvd 16" "0 \<le> hmac_sz ctx" "hmac_sz ctx \<le> 64"
    "block_sz ctx dvd reserve_sz ctx" "0 < reserve_sz ctx" "reserve_sz ctx < 96"
    "iv_sz ctx + (if flag_get (cflags ctx) CIPHER_FLAG_HMAC then hmac_sz ctx else 0) \<le> reserve_sz ctx"
    "block_sz ctx dvd page_sz ctx" "512 \<le> page_sz ctx" "page_sz ctx \<le> 65536"
proof -
  note c = codec_okD [OF assms]
  note p = provider_okD [OF c(1)]
  note r = reserve_of_bounds [OF c(1) c(4) c(3)]
  show "block_sz ctx dvd page_sz ctx"
    using p(5) c(4) pagesize_block [OF c(9)] by (metis dvd_trans)
  show "512 \<le> page_sz ctx" "page_sz ctx \<le> 65536" using c(9) by (simp_all add: pagesize_ok_def)
qed (use codec_okD [OF assms] provider_okD [OF codec_okD(1) [OF assms]]
      reserve_of_bounds [OF codec_okD(1) [OF assms] codec_okD(4) [OF assms] codec_okD(3) [OF assms]]
      in \<open>auto split: if_splits\<close>)

section \<open>Settings keep the invariant\<close>

lemma cipher_ok_cong:
  "key_sz ctx' = key_sz ctx \<Longrightarrow> keyspec_sz ctx' = keyspec_sz ctx \<Longrightarrow> cipher_ok ctx' = cipher_ok ctx"
  by (rule ext) (simp add: cipher_ok_def)

lemma cipher_ok_derive [simp]: "cipher_ok ctx (c\<lparr>c_derive_key := d\<rparr>) = cipher_ok ctx c"
  by (simp add: cipher_ok_def)

lemma reserve_of_cong:
  "cprovider ctx' = cprovider ctx \<Longrightarrow> hmac_algorithm ctx' = hmac_algorithm ctx \<Longrightarrow> iv_sz ctx' = iv_sz ctx \<Longrightarrow>
   block_sz ctx' = block_sz ctx \<Longrightarrow> flag_get (cflags ctx') CIPHER_FLAG_HMAC = flag_get (cflags ctx) CIPHER_FLAG_HMAC \<Longrightarrow>
   reserve_of ctx' = reserve_of ctx"
  by (simp add: reserve_of_def sqlcipher_codec_ctx_reserve_setup_def sqlcipher_codec_ctx_get_use_hmac_def Let_def)

text \<open>Fields the invariant does not mention, or mentions only through \<open>reserve_of\<close>.\<close>

lemma codec_base_ok_frame [simp]:
  "codec_base_ok (ctx\<lparr>kdf_iter := n\<rparr>) = codec_base_ok ctx"
  "codec_base_ok (ctx\<lparr>fast_kdf_iter := n\<rparr>) = codec_base_ok ctx"
  "codec_base_ok (ctx\<lparr>store_pass := n\<rparr>) = codec_base_ok ctx"
  "codec_base_ok (ctx\<lparr>kdf_algorithm := n\<rparr>) = codec_base_ok ctx"
  "codec_base_ok (ctx\<lparr>hmac_algorithm := n\<rparr>) = codec_base_ok ctx"
  "codec_base_ok (ctx\<lparr>plaintext_header_sz := n\<rparr>) = codec_base_ok ctx"
  "codec_base_ok (ctx\<lparr>cflags := fl\<rparr>) = codec_base_ok ctx"
  "codec_base_ok (ctx\<lparr>hmac_sz := n, reserve_sz := k\<rparr>) = codec_base_ok ctx"
  "codec_base_ok (sqlcipher_set_derive_key ctx d) = codec_base_ok ctx"
  by (auto simp: codec_base_ok_def codec_frame_ok_def sqlcipher_set_derive_key_def cipher_ok_def)

lemma reserve_of_frame [simp]:
  "reserve_of (ctx\<lparr>kdf_iter := n\<rparr>) = reserve_of ctx"
  "reserve_of (ctx\<lparr>fast_kdf_iter := n\<rparr>) = reserve_of ctx"
  "reserve_of (ctx\<lparr>store_pass := n\<rparr>) = reserve_of ctx"
  "reserve_of (ctx\<lparr>kdf_algorithm := n\<rparr>) = reserve_of ctx"
  "reserve_of (ctx\<lparr>plaintext_header_sz := n\<rparr>) = reserve_of ctx"
  "reserve_of (ctx\<lparr>hmac_sz := n, reserve_sz := k\<rparr>) = reserve_of ctx"
  "reserve_of (ctx\<lparr>page_sz := n, cbuffer := b\<rparr>) = reserve_of ctx"
  "reserve_of (ctx\<lparr>kdf_salt := x\<rparr>) = reserve_of ctx"
  "reserve_of (ctx\<lparr>hmac_kdf_salt := x\<rparr>) = reserve_of ctx"
  "reserve_of (ctx\<lparr>read_ctx := c\<rparr>) = reserve_of ctx"
  "reserve_of (ctx\<lparr>write_ctx := c\<rparr>) = reserve_of ctx"
  "reserve_of (sqlcipher_set_derive_key ctx d) = reserve_of ctx"
  by (rule reserve_of_cong; simp add: sqlcipher_set_derive_key_def)+

lemma set_derive_key_frame [simp]:
  "cprovider (sqlcipher_set_derive_key ctx d) = cprovider ctx"
  "hmac_algorithm (sqlcipher_set_derive_key ctx d) = hmac_algorithm ctx"
  "hmac_sz (sqlcipher_set_derive_key ctx d) = hmac_sz ctx"
  "reserve_sz (sqlcipher_set_derive_key ctx d) = reserve_sz ctx"
  by (simp_all add: sqlcipher_set_derive_key_def)

lemma codec_ok_reserve_setup: "codec_ok (sqlcipher_codec_ctx_reserve_setup ctx) = codec_base_ok ctx"
proof -
  let ?c = "sqlcipher_codec_ctx_reserve_setup ctx"
  have c: "?c = ctx\<lparr>hmac_sz := pr_get_hmac_sz (cprovider ctx) (hmac_algorithm ctx), reserve_sz := reserve_of ctx\<rparr>"
    by (simp add: reserve_of_def sqlcipher_codec_ctx_reserve_setup_def Let_def)
  show ?thesis unfolding c codec_ok_def by simp
qed

lemma codec_ok_settings [wf_intros]:
  assumes "codec_ok ctx"
  shows "codec_ok (sqlcipher_codec_ctx_set_kdf_iter ctx n)"
    "codec_ok (sqlcipher_codec_ctx_set_fast_kdf_iter ctx n)"
    "codec_ok (sqlcipher_codec_ctx_set_use_hmac ctx b)"
    "codec_ok (sqlcipher_codec_ctx_set_hmac_algorithm ctx n)"
    "codec_ok (sqlcipher_codec_ctx_set_kdf_algorithm ctx n)"
    "codec_ok (sqlcipher_codec_set_store_pass ctx n)"
    "codec_ok (snd (sqlcipher_codec_ctx_set_plaintext_header_size ctx n))"
proof -
  have base: "codec_base_ok ctx" using assms by (simp add: codec_ok_def)
  show "codec_ok (sqlcipher_codec_ctx_set_use_hmac ctx b)" "codec_ok (sqlcipher_codec_ctx_set_hmac_algorithm ctx n)"
    by (simp_all add: sqlcipher_codec_ctx_set_use_hmac_def sqlcipher_codec_ctx_set_hmac_algorithm_def
        codec_ok_reserve_setup base)
qed (use assms in \<open>simp_all add: sqlcipher_codec_ctx_set_kdf_iter_def
      sqlcipher_codec_ctx_set_fast_kdf_iter_def sqlcipher_codec_ctx_set_kdf_algorithm_def
      sqlcipher_codec_set_store_pass_def sqlcipher_codec_ctx_set_plaintext_header_size_def codec_ok_def\<close>)

lemma codec_ok_flags [wf_intros]:
  assumes "codec_ok ctx" "flag_get fl CIPHER_FLAG_HMAC = flag_get (cflags ctx) CIPHER_FLAG_HMAC"
  shows "codec_ok (ctx\<lparr>cflags := fl\<rparr>)"
proof -
  have "reserve_of (ctx\<lparr>cflags := fl\<rparr>) = reserve_of ctx" using assms(2) by (intro reserve_of_cong) simp_all
  with assms(1) show ?thesis by (simp add: codec_ok_def)
qed

text \<open>A new page size: the old buffer is wiped in full, the new one has the new size.\<close>

lemma malloc_w_length: "malloc_w n w = (Some b, w') \<Longrightarrow> int (length b) = n"
  by (auto simp: malloc_w_def sqlcipher_malloc_def split: if_splits list.splits prod.splits)

lemma free_ok [mem_simps]: "opt_len p n \<Longrightarrow> sqlcipher_free p n = Some ()"
  by (cases p) (auto simp: sqlcipher_free_def sqlcipher_memset_def mem_write_def)

lemma sqlcipher_codec_ctx_set_pagesize_eq:
  "sqlcipher_codec_ctx_set_pagesize ctx sz w =
     (if \<not> pagesize_ok sz then Some (SQLITE_ERROR, ctx, w)
      else do {
        _ \<leftarrow> sqlcipher_free (cbuffer ctx) (page_sz ctx);
        (case malloc_w sz w of (b, w') \<Rightarrow>
           Some (if b = None then SQLITE_NOMEM else SQLITE_OK, ctx\<lparr>page_sz := sz, cbuffer := b\<rparr>, w'))
      })"
  unfolding sqlcipher_codec_ctx_set_pagesize_def pagesize_ok_if [symmetric] by (simp only: not_not)

lemma set_pagesize_keeps:
  assumes ok: "codec_ok ctx"
  obtains rc ctx' w' where "sqlcipher_codec_ctx_set_pagesize ctx sz w = Some (rc, ctx', w')" "codec_ok ctx'"
    "rc = SQLITE_OK \<Longrightarrow> page_sz ctx' = sz \<and> cbuffer ctx' \<noteq> None" "rc \<in> {SQLITE_OK, SQLITE_ERROR, SQLITE_NOMEM}"
    "rc = SQLITE_ERROR \<Longrightarrow> ctx' = ctx"
proof (cases "pagesize_ok sz")
  case False
  then have "sqlcipher_codec_ctx_set_pagesize ctx sz w = Some (1, ctx, w)"
    by (simp add: sqlcipher_codec_ctx_set_pagesize_eq)
  then show ?thesis using ok by (rule that) simp_all
next
  case True
  have "opt_len (cbuffer ctx) (page_sz ctx)" using ok by (simp add: codec_ok_def codec_base_ok_def codec_frame_ok_def)
  then have f: "sqlcipher_free (cbuffer ctx) (page_sz ctx) = Some ()"
    by (rule free_ok)
  obtain b w' where m: "malloc_w sz w = (b, w')" by fastforce
  have e: "sqlcipher_codec_ctx_set_pagesize ctx sz w =
     Some (if b = None then 7 else 0, ctx\<lparr>page_sz := sz, cbuffer := b\<rparr>, w')"
    using True f m by (simp add: sqlcipher_codec_ctx_set_pagesize_eq)
  have "opt_len b sz" using m malloc_w_length by (cases b) auto
  then have "codec_ok (ctx\<lparr>page_sz := sz, cbuffer := b\<rparr>)"
    using ok True by (auto simp: codec_ok_def codec_base_ok_def codec_frame_ok_def cipher_ok_def)
  with e show ?thesis by (rule that) (auto split: if_splits)
qed

section \<open>Passphrase, copies and keyspec\<close>

lemma memcpy_full: "int (length dst) = n \<Longrightarrow> n \<le> int (length src) \<Longrightarrow> memcpy dst 0 src 0 n = Some (take (nat n) src)"
  by (auto simp: memcpy_def mem_simps)

lemma malloc_w_some: "malloc_w n w = (Some b, w') \<Longrightarrow> 0 < n \<and> b = replicate (nat n) 0"
  by (auto simp: malloc_w_def sqlcipher_malloc_def split: if_splits list.splits prod.splits)

text \<open>What setting a passphrase of \<open>nKey\<close> bytes leaves, when it succeeds.\<close>

definition pass_of :: "byte list option \<Rightarrow> int \<Rightarrow> byte list option" where
  "pass_of zKey nKey = (if nKey = 0 then None else map_option (take (nat nKey)) zKey)"

lemma set_pass_keeps:
  assumes c: "cipher_ok ctx c" and z: "\<And>z. zKey = Some z \<Longrightarrow> nKey \<le> int (length z)"
  shows "\<exists>rc c' w'. sqlcipher_cipher_ctx_set_pass c zKey nKey w = Some (rc, c', w') \<and> cipher_ok ctx c' \<and>
           c_key c' = c_key c \<and> c_hmac_key c' = c_hmac_key c \<and> c_keyspec c' = c_keyspec c \<and>
           c_derive_key c' = c_derive_key c \<and> rc \<in> {SQLITE_OK, SQLITE_NOMEM} \<and>
           (rc = SQLITE_OK \<longrightarrow> c_pass c' = pass_of zKey nKey \<and>
              c_pass_sz c' = (if zKey = None then 0 else nKey))"
proof -
  have f: "sqlcipher_free (c_pass c) (c_pass_sz c) = Some ()" using c by (auto simp: cipher_ok_def intro: free_ok)
  show ?thesis
  proof (cases "zKey = None \<or> nKey = 0")
    case True
    then show ?thesis using c f
      by (auto simp: sqlcipher_cipher_ctx_set_pass_def cipher_ok_def pass_of_def)
  next
    case False
    then obtain z where zK: "zKey = Some z" and n0: "nKey \<noteq> 0" by auto
    obtain p w' where m: "malloc_w nKey w = (p, w')" by fastforce
    show ?thesis
    proof (cases p)
      case None
      then show ?thesis using c f m zK n0
        by (auto simp: sqlcipher_cipher_ctx_set_pass_def cipher_ok_def)
    next
      case (Some b)
      have b: "int (length b) = nKey" "0 < nKey" using malloc_w_some [of nKey w b w'] m Some by auto
      have "memcpy b 0 z 0 nKey = Some (take (nat nKey) z)" using b z [OF zK] by (simp add: memcpy_full)
      then show ?thesis using c f m zK n0 Some b z [OF zK]
        by (auto simp: sqlcipher_cipher_ctx_set_pass_def cipher_ok_def pass_of_def)
    qed
  qed
qed

lemma copy_block:
  assumes "int (length p) = n"
  shows "\<exists>rc r w'. (case malloc_w n w of (None, w') \<Rightarrow> Some (SQLITE_NOMEM, None, w')
            | (Some b, w') \<Rightarrow> do { b' \<leftarrow> memcpy b 0 p 0 n; Some (SQLITE_OK, Some b', w') }) = Some (rc, r, w') \<and>
          opt_len r n \<and> (rc = SQLITE_OK \<and> r = Some p \<or> rc = SQLITE_NOMEM \<and> r = None)"
proof -
  obtain b w' where m: "malloc_w n w = (b, w')" by fastforce
  show ?thesis
  proof (cases b)
    case None
    then show ?thesis using m by simp
  next
    case (Some x)
    then have "int (length x) = n" using m malloc_w_some [of n w x w'] by auto
    then have "memcpy x 0 p 0 n = Some p" using assms by (simp add: memcpy_full)
    then show ?thesis using m Some assms by simp
  qed
qed

lemma copy_pass_keeps:
  assumes "cipher_ok ctx s"
  shows "\<exists>rc p w1. copy_pass s w = Some (rc, p, w1) \<and> opt_len p (c_pass_sz s) \<and>
           (rc = SQLITE_OK \<and> p = c_pass s \<or> rc = SQLITE_NOMEM \<and> p = None)"
proof (cases "c_pass s")
  case (Some p)
  then have "int (length p) = c_pass_sz s" using assms by (simp add: cipher_ok_def)
  from copy_block [OF this, of w] this Some show ?thesis by (simp add: copy_pass_def)
qed (simp add: copy_pass_def)

lemma copy_keyspec_keeps:
  assumes "cipher_ok ctx s"
  shows "\<exists>rc p w1. copy_keyspec ctx s w = Some (rc, p, w1) \<and> opt_len p (keyspec_sz ctx) \<and>
           (rc = SQLITE_OK \<and> p = c_keyspec s \<or> rc = SQLITE_NOMEM \<and> p = None)"
proof (cases "c_keyspec s")
  case (Some p)
  then have "int (length p) = keyspec_sz ctx" using assms by (simp add: cipher_ok_def)
  from copy_block [OF this, of w] Some show ?thesis by (simp add: copy_keyspec_def)
qed (simp add: copy_keyspec_def)

lemma copy_keeps:
  assumes t: "cipher_ok ctx t" and s: "cipher_ok ctx s"
  shows "\<exists>rc t' w'. sqlcipher_cipher_ctx_copy ctx t s w = Some (rc, t', w') \<and> cipher_ok ctx t' \<and>
           rc \<in> {SQLITE_OK, SQLITE_NOMEM} \<and> c_key t' = c_key s \<and> c_hmac_key t' = c_hmac_key s \<and>
           (rc = SQLITE_OK \<longrightarrow> t' = s)"
proof -
  have f: "sqlcipher_free (c_pass t) (c_pass_sz t) = Some ()" "sqlcipher_free (c_keyspec t) (keyspec_sz ctx) = Some ()"
    using t by (auto simp: cipher_ok_def intro: free_ok)
  have k: "memcpy (c_key t) 0 (c_key s) 0 (key_sz ctx) = Some (c_key s)"
    "memcpy (c_hmac_key t) 0 (c_hmac_key s) 0 (key_sz ctx) = Some (c_hmac_key s)"
    using t s by (auto simp: cipher_ok_def memcpy_full)
  obtain rc p w1 where cp: "copy_pass s w = Some (rc, p, w1)" "opt_len p (c_pass_sz s)"
    "rc = 0 \<and> p = c_pass s \<or> rc = 7 \<and> p = None"
    using copy_pass_keeps [OF s] by blast
  obtain rc2 ks w2 where ck: "copy_keyspec ctx s w1 = Some (rc2, ks, w2)" "opt_len ks (keyspec_sz ctx)"
    "rc2 = 0 \<and> ks = c_keyspec s \<or> rc2 = 7 \<and> ks = None"
    using copy_keyspec_keeps [OF s] by blast
  show ?thesis using cp ck s by (auto simp: sqlcipher_cipher_ctx_copy_def f k cipher_ok_def)
qed

definition keyspec_text :: "'r codec_ctx \<Rightarrow> byte list \<Rightarrow> byte list" where
  "keyspec_text ctx key = str ''x'' @ [39] @ hex_text key @ hex_text (kdf_salt ctx) @ [39]"

lemma bin2hex_write:
  "bs \<noteq> [] \<Longrightarrow> int (length bs) = n \<Longrightarrow> cipher_bin2hex bs n out off = mem_write out off (hex_text bs @ [0])"
  using mem_read_all [of bs] by (auto simp: cipher_bin2hex_def bin2hex_loop_eq)

lemma mem_write_chain:
  "mem_write b 0 (a @ x) = Some b1 \<Longrightarrow> length x \<le> length c \<Longrightarrow> p = int (length a) \<Longrightarrow>
     mem_write b1 p c = mem_write b 0 (a @ c)"
  using mem_write_overwrite [of x c b 0 a] by simp

lemma mem_write_fits: "length xs \<le> length b \<Longrightarrow> mem_write b 0 xs = Some (xs @ drop (length xs) b)"
  by (simp add: mem_write_def)

lemma set_keyspec_keeps:
  assumes ok: "codec_ok ctx" and c: "cipher_ok ctx c" and key: "int (length key) = key_sz ctx"
  shows "\<exists>rc c' w'. sqlcipher_cipher_ctx_set_keyspec ctx c key w = Some (rc, c', w') \<and> cipher_ok ctx c' \<and>
           rc \<in> {SQLITE_OK, SQLITE_NOMEM} \<and> c' = c\<lparr>c_keyspec := c_keyspec c'\<rparr> \<and>
           (rc = SQLITE_OK \<longrightarrow> c_keyspec c' = Some (keyspec_text ctx key))"
proof -
  note d = codec_okD [OF ok] and sz = codec_ok_sizes [OF ok]
  have f: "sqlcipher_free (c_keyspec c) (keyspec_sz ctx) = Some ()"
    using c by (auto simp: cipher_ok_def intro: free_ok)
  obtain b w' where m: "malloc_w (keyspec_sz ctx) w = (b, w')" by fastforce
  show ?thesis
  proof (cases b)
    case None
    then show ?thesis using m f c by (auto simp: sqlcipher_cipher_ctx_set_keyspec_def cipher_ok_def)
  next
    case (Some k0)
    let ?h = "hex_text key" and ?s = "hex_text (kdf_salt ctx)" and ?x = "str ''x''"
    have len: "int (length k0) = keyspec_sz ctx" using malloc_w_some [of "keyspec_sz ctx" w k0 w'] m Some by auto
    have ne: "key \<noteq> []" "kdf_salt ctx \<noteq> []" using key sz(1) d(7) by auto
    have L: "length k0 = length ?h + length ?s + 3" using len d(6,7) key by simp
    have 1: "mem_write k0 0 ?x = Some (?x @ drop 1 k0)" (is "_ = Some ?k1")
      using L by (simp add: mem_write_fits)
    have 2: "mem_write ?k1 1 [39] = mem_write k0 0 (?x @ [39])"
      using 1 by (intro mem_write_chain [of _ _ "[]"]) simp_all
    obtain k2 where k2: "mem_write k0 0 (?x @ [39]) = Some k2" using L by (simp add: mem_write_fits)
    have 3: "mem_write k2 2 (?h @ [0]) = mem_write k0 0 ((?x @ [39]) @ ?h @ [0])"
      using k2 by (intro mem_write_chain [of _ _ "[]"]) simp_all
    obtain k3 where k3: "mem_write k0 0 ((?x @ [39] @ ?h) @ [0]) = Some k3" using L by (simp add: mem_write_fits)
    have 4: "mem_write k3 (key_sz ctx * 2 + 2) (?s @ [0]) = mem_write k0 0 ((?x @ [39] @ ?h) @ ?s @ [0])"
      by (rule mem_write_chain [OF k3]) (use key in simp_all)
    obtain k4 where k4: "mem_write k0 0 ((?x @ [39] @ ?h @ ?s) @ [0]) = Some k4" using L by (simp add: mem_write_fits)
    have 5: "mem_write k4 (keyspec_sz ctx - 1) [39] = mem_write k0 0 ((?x @ [39] @ ?h @ ?s) @ [39])"
      by (rule mem_write_chain [OF k4]) (use L len in simp_all)
    have 6: "mem_write k0 0 (?x @ [39] @ ?h @ ?s @ [39]) = Some (keyspec_text ctx key)"
      using L by (simp add: mem_write_fits keyspec_text_def)
    have "sqlcipher_cipher_ctx_set_keyspec ctx c key w = Some (0, c\<lparr>c_keyspec := Some (keyspec_text ctx key)\<rparr>, w')"
      using f m Some 1 2 k2 3 k3 4 k4 5 6 ne key d(5,7)
      by (simp add: sqlcipher_cipher_ctx_set_keyspec_def bin2hex_write)
    moreover have "int (length (keyspec_text ctx key)) = keyspec_sz ctx"
      using L len by (simp add: keyspec_text_def)
    ultimately show ?thesis using c by (simp add: cipher_ok_def)
  qed
qed

section \<open>Key derivation\<close>

text \<open>A successful read of the database file returns as many bytes as were asked for.\<close>

definition world_ok :: "'r world \<Rightarrow> bool" where
  "world_ok w \<longleftrightarrow> (\<forall>n off bs. w_read w n off = Some bs \<longrightarrow> int (length bs) = n)"

text \<open>
  What key derivation leaves alone: everything of a codec context but the salts, the flags other
  than \<open>CIPHER_FLAG_HMAC\<close> and the two cipher contexts; everything of the world but the allocator
  and the random source.
\<close>

definition same_settings :: "'r codec_ctx \<Rightarrow> 'r codec_ctx \<Rightarrow> bool" where
  "same_settings ctx ctx' \<longleftrightarrow>
     key_sz ctx' = key_sz ctx \<and> keyspec_sz ctx' = keyspec_sz ctx \<and> page_sz ctx' = page_sz ctx \<and>
     reserve_sz ctx' = reserve_sz ctx \<and> iv_sz ctx' = iv_sz ctx \<and> block_sz ctx' = block_sz ctx \<and>
     hmac_sz ctx' = hmac_sz ctx \<and> plaintext_header_sz ctx' = plaintext_header_sz ctx \<and>
     hmac_algorithm ctx' = hmac_algorithm ctx \<and> kdf_algorithm ctx' = kdf_algorithm ctx \<and>
     cprovider ctx' = cprovider ctx \<and> cbuffer ctx' = cbuffer ctx \<and> kdf_salt_sz ctx' = kdf_salt_sz ctx \<and>
     store_pass ctx' = store_pass ctx \<and> kdf_iter ctx' = kdf_iter ctx \<and> fast_kdf_iter ctx' = fast_kdf_iter ctx \<and>
     flag_get (cflags ctx') CIPHER_FLAG_HMAC = flag_get (cflags ctx) CIPHER_FLAG_HMAC"

definition same_world :: "'r world \<Rightarrow> 'r world \<Rightarrow> bool" where
  "same_world w w' \<longleftrightarrow>
     w_fd_open w' = w_fd_open w \<and> w_read w' = w_read w \<and> w_file_size w' = w_file_size w \<and>
     w_autovacuum w' = w_autovacuum w \<and> w_sj_pgno w' = w_sj_pgno w \<and>
     w_pager_error w' = w_pager_error w \<and> w_db_error w' = w_db_error w"

lemma same_settings_refl [simp]: "same_settings ctx ctx"
  by (simp add: same_settings_def)

lemma same_settings_trans [trans]: "same_settings a b \<Longrightarrow> same_settings b c \<Longrightarrow> same_settings a c"
  by (simp add: same_settings_def)

lemma same_world_refl [simp]: "same_world w w"
  by (simp add: same_world_def)

lemma same_world_trans [trans]: "same_world a b \<Longrightarrow> same_world b c \<Longrightarrow> same_world a c"
  by (simp add: same_world_def)

lemma same_world_ok: "same_world w w' \<Longrightarrow> world_ok w \<Longrightarrow> world_ok w'"
  by (simp add: same_world_def world_ok_def)

lemma malloc_w_world: "malloc_w n w = (b, w') \<Longrightarrow> same_world w w'"
  by (auto simp: malloc_w_def same_world_def split: prod.splits)

lemma set_pass_world: "sqlcipher_cipher_ctx_set_pass c z n w = Some (rc, c', w') \<Longrightarrow> same_world w w'"
  by (auto simp: sqlcipher_cipher_ctx_set_pass_def Let_def dest: malloc_w_world
      split: bind_splits option.splits if_splits prod.splits)

lemma set_keyspec_world: "sqlcipher_cipher_ctx_set_keyspec ctx c k w = Some (rc, c', w') \<Longrightarrow> same_world w w'"
  by (auto simp: sqlcipher_cipher_ctx_set_keyspec_def dest: malloc_w_world
      split: bind_splits option.splits prod.splits)

lemma copy_world: "sqlcipher_cipher_ctx_copy ctx t s w = Some (rc, c', w') \<Longrightarrow> same_world w w'"
  by (auto simp: sqlcipher_cipher_ctx_copy_def copy_pass_def copy_keyspec_def Let_def
      dest: malloc_w_world intro: same_world_trans
      split: bind_splits option.splits if_splits prod.splits)

text \<open>A context with the same settings, salts of the right size and well-formed cipher contexts is well formed.\<close>

lemma codec_ok_same:
  assumes "codec_ok ctx" "same_settings ctx ctx'" "length (kdf_salt ctx') = 16" "length (hmac_kdf_salt ctx') = 16"
    "read_ctx ctx' = Some r" "write_ctx ctx' = Some wr" "cipher_ok ctx r" "cipher_ok ctx wr"
  shows "codec_ok ctx'"
proof -
  have "reserve_of ctx' = reserve_of ctx" using assms(2) by (intro reserve_of_cong) (auto simp: same_settings_def)
  moreover have "cipher_ok ctx' = cipher_ok ctx" using assms(2) by (intro cipher_ok_cong) (auto simp: same_settings_def)
  ultimately show ?thesis using assms by (auto simp: codec_ok_def codec_base_ok_def codec_frame_ok_def same_settings_def FILE_HEADER_SZ_def)
qed

lemma codec_ok_ctxs:
  assumes "codec_ok ctx"
  obtains r wr where "read_ctx ctx = Some r" "write_ctx ctx = Some wr" "cipher_ok ctx r" "cipher_ok ctx wr"
  using assms by (auto simp: codec_ok_def codec_base_ok_def codec_frame_ok_def)

lemma flag_set_salt_hmac [simp]:
  "flag_get (flag_set fl CIPHER_FLAG_HAS_KDF_SALT) CIPHER_FLAG_HMAC = flag_get fl CIPHER_FLAG_HMAC"
  "flag_get (flag_set fl CIPHER_FLAG_KEY_USED) CIPHER_FLAG_HMAC = flag_get fl CIPHER_FLAG_HMAC"
  "flag_get (flag_set fl CIPHER_FLAG_HAS_KDF_SALT) CIPHER_FLAG_HAS_KDF_SALT"
  by (simp_all add: flag_get_def flag_set_def cipher_flag_defs bit.conj_disj_distrib2)

lemma init_kdf_salt_keeps:
  assumes ok: "codec_ok ctx" and w: "world_ok w"
  shows "\<exists>rc ctx' w'. sqlcipher_codec_ctx_init_kdf_salt ctx w = Some (rc, ctx', w') \<and> codec_ok ctx' \<and>
           same_settings ctx ctx' \<and> same_world w w' \<and> rc \<in> {SQLITE_OK, SQLITE_ERROR} \<and>
           read_ctx ctx' = read_ctx ctx \<and> write_ctx ctx' = write_ctx ctx \<and>
           (rc = SQLITE_OK \<longrightarrow> flag_get (cflags ctx') CIPHER_FLAG_HAS_KDF_SALT)"
proof (cases "flag_get (cflags ctx) CIPHER_FLAG_HAS_KDF_SALT")
  case True
  then show ?thesis using ok by (simp add: sqlcipher_codec_ctx_init_kdf_salt_def)
next
  case False
  note d = codec_okD [OF ok]
  obtain r wr where rw: "read_ctx ctx = Some r" "write_ctx ctx = Some wr" "cipher_ok ctx r" "cipher_ok ctx wr"
    using codec_ok_ctxs [OF ok] .
  let ?c = "\<lambda>s. ctx\<lparr>kdf_salt := s, cflags := flag_set (cflags ctx) CIPHER_FLAG_HAS_KDF_SALT\<rparr>"
  have have_salt: "mem_write (kdf_salt ctx) 0 s = Some s \<and> codec_ok (?c s) \<and> same_settings ctx (?c s)"
    if "int (length s) = 16" for s
  proof -
    have ss: "same_settings ctx (?c s)" by (simp add: same_settings_def)
    have "codec_ok (?c s)" by (rule codec_ok_same [OF ok ss, of r wr]) (use that d rw in simp_all)
    with ss show ?thesis using that d(7) by (simp add: mem_write_def)
  qed
  have rd: "int (length s) = 16" if "w_read w 16 0 = Some s" for s using w that by (simp add: world_ok_def)
  have rn: "int (length s) = 16" if "pr_random (cprovider ctx) (w_rand w) 16 = (Some s, r')" for s r'
    using provider_ok_random [OF d(1) that] .
  show ?thesis
  proof (cases "if w_fd_open w then w_read w 16 0 else None")
    case (Some s)
    then have fd: "w_fd_open w" "w_read w 16 0 = Some s" by (simp_all split: if_splits)
    from fd rd [OF fd(2)] have_salt [of s] False show ?thesis
      by (simp add: sqlcipher_codec_ctx_init_kdf_salt_def Let_def d(5))
  next
    case None
    then have noread: "w_fd_open w \<Longrightarrow> w_read w 16 0 = None" by simp
    obtain s r' where R: "pr_random (cprovider ctx) (w_rand w) 16 = (s, r')" by fastforce
    have sw: "same_world w (w\<lparr>w_rand := r'\<rparr>)" by (simp add: same_world_def)
    show ?thesis
    proof (cases s)
      case None
      then show ?thesis using R False ok sw
        by (simp add: sqlcipher_codec_ctx_init_kdf_salt_def Let_def d(5) noread)
    next
      case (Some b)
      then show ?thesis using R rn [of b r'] False have_salt [of b] sw
        by (simp add: sqlcipher_codec_ctx_init_kdf_salt_def Let_def d(5) noread)
    qed
  qed
qed

text \<open>The raw key of a keyspec: the hexadecimal digits between the quotes.\<close>

lemma isHex_in_bounds: "n \<le> 0 \<or> 0 \<le> off \<and> off + n \<le> int (length b) \<Longrightarrow> \<exists>r. cipher_isHex b off n = Some r"
  by (auto simp: cipher_isHex_def mem_read_def)

lemma is_keyspec_of_some: "int (length pass) = psz \<Longrightarrow> 0 \<le> n \<Longrightarrow> \<exists>b. is_keyspec_of pass psz n = Some b"
  using isHex_in_bounds [of "n * 2" 2 pass] by (auto simp: is_keyspec_of_def)

lemma is_keyspec_of_true: "is_keyspec_of pass psz n = Some True \<Longrightarrow> psz = n * 2 + 3"
  by (auto simp: is_keyspec_of_def split: if_splits)

lemma hex2bin_exact:
  assumes "int (length out) = n" "0 < n" "2 * n \<le> int (length hex)"
  shows "cipher_hex2bin hex (n * 2) out = Some (hex_bytes (take (nat (2 * n)) hex))"
proof -
  have n: "int (nat n) = n" using assms by simp
  have "mem_read hex (2 * 0) (2 * int (nat n)) = Some (take (nat (2 * n)) hex)"
    using assms by (simp add: mem_read_def)
  from hex2bin_loop_eq [OF this, of out] assms
  have "cipher_hex2bin hex (n * 2) out = mem_write out 0 (hex_bytes (take (nat (2 * n)) hex))"
    by (simp add: cipher_hex2bin_def mult.commute)
  also have "\<dots> = Some (hex_bytes (take (nat (2 * n)) hex))"
    using assms by (simp add: mem_write_def nat_mult_distrib)
  finally show ?thesis .
qed

lemma derive_cipher_key_keeps:
  assumes ok: "codec_ok ctx" and c: "cipher_ok ctx c" and pass: "c_pass c = Some pass"
  shows "\<exists>rc k s. derive_cipher_key ctx c pass = Some (rc, k, s) \<and> int (length k) = key_sz ctx \<and>
           length s = 16 \<and> rc \<in> {SQLITE_OK, SQLITE_ERROR}"
proof -
  note d = codec_okD [OF ok] and sz = codec_ok_sizes [OF ok]
  have len: "int (length pass) = c_pass_sz c" and k: "int (length (c_key c)) = key_sz ctx"
    using c pass by (auto simp: cipher_ok_def)
  obtain b1 where b1: "is_keyspec_of pass (c_pass_sz c) (key_sz ctx) = Some b1"
    using is_keyspec_of_some [OF len, of "key_sz ctx"] sz(1) by auto
  obtain b2 where b2: "is_keyspec_of pass (c_pass_sz c) (key_sz ctx + 16) = Some b2"
    using is_keyspec_of_some [OF len, of "key_sz ctx + 16"] sz(1) by auto
  have rd: "mem_read pass 0 (c_pass_sz c) = Some pass" "mem_read (kdf_salt ctx) 0 16 = Some (kdf_salt ctx)"
    using mem_read_all [of pass] mem_read_all [of "kdf_salt ctx"] len d(7) by simp_all
  consider "b1" | "\<not> b1" "b2" | "\<not> b1" "\<not> b2" by blast
  then show ?thesis
  proof cases
    case 1
    then have "c_pass_sz c = key_sz ctx * 2 + 3" using b1 is_keyspec_of_true by auto
    moreover from this have "cipher_hex2bin (drop 2 pass) (key_sz ctx * 2) (c_key c)
        = Some (hex_bytes (take (nat (2 * key_sz ctx)) (drop 2 pass)))"
      using len k sz(1) by (intro hex2bin_exact) auto
    ultimately show ?thesis using b1 1 len d(5,7) sz(1)
      by (simp add: derive_cipher_key_def nat_mult_distrib)
  next
    case 2
    then have p: "c_pass_sz c = (key_sz ctx + 16) * 2 + 3" using b2 is_keyspec_of_true [of pass "c_pass_sz c" "key_sz ctx + 16"] by simp
    have "cipher_hex2bin (drop 2 pass) (key_sz ctx * 2) (c_key c)
        = Some (hex_bytes (take (nat (2 * key_sz ctx)) (drop 2 pass)))"
      using len k sz(1) p by (intro hex2bin_exact) auto
    moreover have "cipher_hex2bin (drop (nat (2 + key_sz ctx * 2)) pass) (16 * 2) (kdf_salt ctx)
        = Some (hex_bytes (take (nat (2 * 16)) (drop (nat (2 + key_sz ctx * 2)) pass)))"
      using len d(7) sz(1) p by (intro hex2bin_exact) auto
    ultimately show ?thesis using b1 b2 2 len d(5,7) sz(1) p
      by (simp add: derive_cipher_key_def nat_mult_distrib nat_add_distrib)
  next
    case 3
    show ?thesis
    proof (cases "pr_kdf (cprovider ctx) (kdf_algorithm ctx) pass (kdf_salt ctx) (kdf_iter ctx) (key_sz ctx)")
      case None
      then show ?thesis using b1 b2 3 k d(5,7) rd by (simp add: derive_cipher_key_def)
    next
      case (Some kb)
      from provider_ok_kdf [OF d(1) Some] have "int (length kb) = key_sz ctx" .
      then show ?thesis using b1 b2 3 k d(5,7) rd Some by (simp add: derive_cipher_key_def mem_write_def)
    qed
  qed
qed

lemma derive_hmac_key_keeps:
  assumes ok: "codec_ok ctx" and c: "cipher_ok ctx c"
  shows "\<exists>rc hs hk. derive_hmac_key g ctx c = Some (rc, ctx\<lparr>hmac_kdf_salt := hs\<rparr>, c\<lparr>c_hmac_key := hk\<rparr>) \<and>
           length hs = 16 \<and> int (length hk) = key_sz ctx \<and> rc \<in> {SQLITE_OK, SQLITE_ERROR}"
proof -
  note d = codec_okD [OF ok]
  let ?hs = "map (\<lambda>b. b XOR g_hmac_salt_mask g) (kdf_salt ctx)"
  have k: "int (length (c_key c)) = key_sz ctx" "int (length (c_hmac_key c)) = key_sz ctx"
    using c by (auto simp: cipher_ok_def)
  have rd: "mem_read (kdf_salt ctx) 0 16 = Some (kdf_salt ctx)" "mem_read (c_key c) 0 (key_sz ctx) = Some (c_key c)"
    "mem_write (hmac_kdf_salt ctx) 0 ?hs = Some ?hs" "mem_read ?hs 0 16 = Some ?hs"
    using mem_read_all [of "kdf_salt ctx"] mem_read_all [of ?hs] mem_read_all [of "c_key c"] d(7,8) k
    by (simp_all add: mem_write_def)
  show ?thesis
  proof (cases "pr_kdf (cprovider ctx) (kdf_algorithm ctx) (c_key c) ?hs (fast_kdf_iter ctx) (key_sz ctx)")
    case None
    then have "derive_hmac_key g ctx c = Some (1, ctx\<lparr>hmac_kdf_salt := ?hs\<rparr>, c\<lparr>c_hmac_key := c_hmac_key c\<rparr>)"
      using rd d(5) by (simp add: derive_hmac_key_def Let_def)
    then show ?thesis using k d(7) by (metis insertCI length_map)
  next
    case (Some hb)
    then have "int (length hb) = key_sz ctx" by (rule provider_ok_kdf [OF d(1)])
    then have "derive_hmac_key g ctx c = Some (0, ctx\<lparr>hmac_kdf_salt := ?hs\<rparr>, c\<lparr>c_hmac_key := hb\<rparr>)"
      using rd d(5) Some k by (simp add: derive_hmac_key_def Let_def mem_write_def)
    then show ?thesis using \<open>int (length hb) = key_sz ctx\<close> d(7) by (metis insertCI length_map)
  qed
qed

lemma cipher_ok_same: "same_settings ctx ctx' \<Longrightarrow> cipher_ok ctx' = cipher_ok ctx"
  by (rule cipher_ok_cong) (simp_all add: same_settings_def)

lemma codec_ok_salts:
  assumes "codec_ok ctx" "length s = 16" "length h = 16"
  shows "codec_ok (ctx\<lparr>kdf_salt := s\<rparr>)" "codec_ok (ctx\<lparr>hmac_kdf_salt := h\<rparr>)"
    "same_settings ctx (ctx\<lparr>kdf_salt := s\<rparr>)" "same_settings ctx (ctx\<lparr>hmac_kdf_salt := h\<rparr>)"
  using assms by (auto simp: codec_ok_def codec_base_ok_def codec_frame_ok_def same_settings_def cipher_ok_def FILE_HEADER_SZ_def)

lemma key_derive_keeps:
  assumes ok: "codec_ok ctx" and c: "cipher_ok ctx c" and w: "world_ok w"
  shows "\<exists>rc ctx' c' w'. sqlcipher_cipher_ctx_key_derive g ctx c w = Some (rc, ctx', c', w') \<and>
           codec_ok ctx' \<and> cipher_ok ctx' c' \<and> same_settings ctx ctx' \<and> same_world w w' \<and>
           read_ctx ctx' = read_ctx ctx \<and> write_ctx ctx' = write_ctx ctx \<and>
           c_pass c' = c_pass c \<and> c_pass_sz c' = c_pass_sz c \<and>
           (rc = SQLITE_OK \<longrightarrow> c_derive_key c' = 0)"
proof (cases "c_pass c = None \<or> c_pass_sz c = 0")
  case True
  then show ?thesis using ok c
    by (auto simp: sqlcipher_cipher_ctx_key_derive_def split: option.splits)
next
  case False
  then obtain pass where pass: "c_pass c = Some pass" and nz: "c_pass_sz c \<noteq> 0" by auto
  define st where "st = (if flag_get (cflags ctx) CIPHER_FLAG_HAS_KDF_SALT then Some (0 :: int, ctx, w)
                         else sqlcipher_codec_ctx_init_kdf_salt ctx w)"
  obtain rc ctx1 w1 where a: "st = Some (rc, ctx1, w1)" "codec_ok ctx1" "same_settings ctx ctx1" "same_world w w1"
    "read_ctx ctx1 = read_ctx ctx" "write_ctx ctx1 = write_ctx ctx"
    using init_kdf_salt_keeps [OF ok w] ok unfolding st_def by (cases "flag_get (cflags ctx) CIPHER_FLAG_HAS_KDF_SALT") auto
  have c1: "cipher_ok ctx1 c" using c cipher_ok_same [OF a(3)] by simp
  obtain rc2 k s where b: "derive_cipher_key ctx1 c pass = Some (rc2, k, s)" "int (length k) = key_sz ctx1" "length s = 16"
    using derive_cipher_key_keeps [OF a(2) c1 pass] by blast
  let ?ctx2 = "ctx1\<lparr>kdf_salt := s\<rparr>" and ?c1 = "c\<lparr>c_key := k\<rparr>"
  have ok2: "codec_ok ?ctx2" "same_settings ctx1 ?ctx2" using codec_ok_salts [OF a(2) b(3) b(3)] by simp_all
  have c2: "cipher_ok ?ctx2 ?c1" using c1 b(2) by (simp add: cipher_ok_def)
  obtain rc3 c3 w2 where e: "sqlcipher_cipher_ctx_set_keyspec ?ctx2 ?c1 k w1 = Some (rc3, c3, w2)"
      "cipher_ok ?ctx2 c3" "c3 = ?c1\<lparr>c_keyspec := c_keyspec c3\<rparr>"
    using set_keyspec_keeps [OF ok2(1) c2, of k w1] b(2) by auto
  have w2: "same_world w w2" using set_keyspec_world [OF e(1)] a(4) same_world_trans by blast
  have ss: "same_settings ctx ?ctx2" using a(3) ok2(2) same_settings_trans by blast
  have p3: "c_pass c3 = c_pass c" "c_pass_sz c3 = c_pass_sz c" by (subst e(3), simp)+
  obtain rc4 hs hk where h: "derive_hmac_key g ?ctx2 c3 = Some (rc4, ?ctx2\<lparr>hmac_kdf_salt := hs\<rparr>, c3\<lparr>c_hmac_key := hk\<rparr>)"
     "length hs = 16" "int (length hk) = key_sz ?ctx2"
    using derive_hmac_key_keeps [OF ok2(1) e(2)] by blast
  let ?ctx3 = "?ctx2\<lparr>hmac_kdf_salt := hs\<rparr>"
  have ok3: "codec_ok ?ctx3" "same_settings ctx ?ctx3" 
    using codec_ok_salts [OF ok2(1) h(2) h(2)] ss same_settings_trans by blast+
  have c4: "cipher_ok ?ctx3 (c3\<lparr>c_hmac_key := hk\<rparr>)" using e(2) h(3) by (simp add: cipher_ok_def)
  have hm: "(cflags ?ctx2 AND CIPHER_FLAG_HMAC \<noteq> 0) = flag_get (cflags ctx1) CIPHER_FLAG_HMAC" by (simp add: flag_get_def)
  note run = sqlcipher_cipher_ctx_key_derive_def pass nz st_def [symmetric] a(1) b(1) e(1) h(1) hm Let_def
  consider "rc \<noteq> 0" | "rc = 0" "rc2 \<noteq> 0" | "rc = 0" "rc2 = 0" "rc3 \<noteq> 0"
    | "rc = 0" "rc2 = 0" "rc3 = 0" "\<not> flag_get (cflags ctx1) CIPHER_FLAG_HMAC"
    | "rc = 0" "rc2 = 0" "rc3 = 0" "flag_get (cflags ctx1) CIPHER_FLAG_HMAC" by blast
  then show ?thesis
    by cases (use a(2-) c1 ok2(1) c2 ss e(2) w2 p3 ok3 c4 in \<open>auto simp: run\<close>)
qed

section \<open>Comparing passphrases\<close>

text \<open>When the comparison, with the arguments of its log call, stays inside both passphrases.\<close>

definition passes_comparable :: "cipher_ctx \<Rightarrow> cipher_ctx \<Rightarrow> bool" where
  "passes_comparable c1 c2 \<longleftrightarrow>
     (if c_pass c1 = None \<longleftrightarrow> c_pass c2 = None
      then c_pass c1 = None \<or> c_pass_sz c1 \<le> c_pass_sz c2
      else c_pass_sz c1 = c_pass_sz c2 \<longrightarrow> c_pass_sz c1 \<le> 0)"

lemma memcmp_prefix_defined:
  "int (length b) = n \<Longrightarrow> int (length a) = m \<Longrightarrow> (\<exists>r. sqlcipher_memcmp a 0 b 0 m = Some r) \<longleftrightarrow> m \<le> n"
  by (auto simp: sqlcipher_memcmp_def mem_read_def)

lemma cmp_defined_iff:
  assumes "cipher_ok ctx c1" "cipher_ok ctx c2"
  shows "(\<exists>r. sqlcipher_cipher_ctx_cmp c1 c2 = Some r) \<longleftrightarrow> passes_comparable c1 c2"
proof (cases "c_pass c1"; cases "c_pass c2")
  fix p1 p2
  assume p: "c_pass c1 = Some p1" "c_pass c2 = Some p2"
  then have "(\<exists>r. sqlcipher_memcmp p1 0 p2 0 (c_pass_sz c1) = Some r) \<longleftrightarrow> c_pass_sz c1 \<le> c_pass_sz c2"
    using assms by (intro memcmp_prefix_defined) (auto simp: cipher_ok_def)
  then show ?thesis using p
    by (auto simp: sqlcipher_cipher_ctx_cmp_def passes_comparable_def split: bind_splits)
qed (auto simp: sqlcipher_cipher_ctx_cmp_def passes_comparable_def split: bind_splits)

section \<open>Operations on the whole codec context\<close>

lemma put_ctx_keeps:
  assumes "codec_ok ctx" "cipher_ok ctx c"
  shows "codec_ok (ctx\<lparr>read_ctx := Some c\<rparr>)" "codec_ok (ctx\<lparr>write_ctx := Some c\<rparr>)"
    "same_settings ctx (ctx\<lparr>read_ctx := r\<rparr>)" "same_settings ctx (ctx\<lparr>write_ctx := r\<rparr>)"
  using assms by (auto simp: codec_ok_def codec_base_ok_def codec_frame_ok_def same_settings_def cipher_ok_def)

lemma derive_read_ctx_keeps:
  assumes ok: "codec_ok ctx" and w: "world_ok w" and r: "read_ctx ctx = Some r"
  shows "\<exists>rc ctx' r' w'. derive_read_ctx g ctx w = Some (rc, ctx', w') \<and> codec_ok ctx' \<and> same_settings ctx ctx' \<and>
           same_world w w' \<and> read_ctx ctx' = Some r' \<and> write_ctx ctx' = write_ctx ctx \<and>
           c_pass r' = c_pass r \<and> c_pass_sz r' = c_pass_sz r \<and> rc \<in> {SQLITE_OK, SQLITE_ERROR} \<and>
           (rc = SQLITE_OK \<longrightarrow> c_derive_key r' = 0)"
proof (cases "c_derive_key r = 0")
  case True
  then show ?thesis using ok r by (simp add: derive_read_ctx_def)
next
  case False
  have cr: "cipher_ok ctx r" using ok r by (auto elim: codec_ok_ctxs)
  obtain rc ctx' r' w' where e: "sqlcipher_cipher_ctx_key_derive g ctx r w = Some (rc, ctx', r', w')"
      "codec_ok ctx'" "cipher_ok ctx' r'" "same_settings ctx ctx'" "same_world w w'" "write_ctx ctx' = write_ctx ctx"
      "c_pass r' = c_pass r" "c_pass_sz r' = c_pass_sz r" "rc = 0 \<longrightarrow> c_derive_key r' = 0"
    using key_derive_keeps [OF ok cr w] by blast
  have "codec_ok (ctx'\<lparr>read_ctx := Some r'\<rparr>)" "same_settings ctx (ctx'\<lparr>read_ctx := Some r'\<rparr>)"
    using put_ctx_keeps [OF e(2,3)] e(4) same_settings_trans by blast+
  with e r False show ?thesis by (simp add: derive_read_ctx_def)
qed

lemma derive_write_ctx_keeps:
  assumes ok: "codec_ok ctx" and w: "world_ok w" and r: "read_ctx ctx = Some r" "write_ctx ctx = Some wr"
    and cmp: "c_derive_key wr = 0 \<or> passes_comparable wr r"
  shows "\<exists>rc ctx' wr' w'. derive_write_ctx g ctx w = Some (rc, ctx', w') \<and> codec_ok ctx' \<and> same_settings ctx ctx' \<and>
           same_world w w' \<and> write_ctx ctx' = Some wr' \<and> read_ctx ctx' = read_ctx ctx \<and>
           rc \<in> {SQLITE_OK, SQLITE_ERROR} \<and>
           (rc = SQLITE_OK \<longrightarrow> c_derive_key wr' = 0 \<or> wr' = r)"
proof (cases "c_derive_key wr = 0")
  case True
  then show ?thesis using ok r by (simp add: derive_write_ctx_def)
next
  case False
  have cr: "cipher_ok ctx r" "cipher_ok ctx wr" using ok r by (auto elim: codec_ok_ctxs)
  obtain cv where cv: "sqlcipher_cipher_ctx_cmp wr r = Some cv" using cmp_defined_iff [OF cr(2,1)] cmp False by blast
  obtain rc t w1 where cp: "sqlcipher_cipher_ctx_copy ctx wr r w = Some (rc, t, w1)" "cipher_ok ctx t"
      "rc = 0 \<longrightarrow> t = r" using copy_keeps [OF cr(2,1)] by blast
  obtain rc2 ctx' wr' w' where e: "sqlcipher_cipher_ctx_key_derive g ctx wr w = Some (rc2, ctx', wr', w')"
      "codec_ok ctx'" "cipher_ok ctx' wr'" "same_settings ctx ctx'" "same_world w w'" "read_ctx ctx' = read_ctx ctx"
      "rc2 = 0 \<longrightarrow> c_derive_key wr' = 0"
    using key_derive_keeps [OF ok cr(2) w] by blast
  have a: "codec_ok (ctx'\<lparr>write_ctx := Some wr'\<rparr>)" "same_settings ctx (ctx'\<lparr>write_ctx := Some wr'\<rparr>)"
    using put_ctx_keeps [OF e(2,3)] e(4) same_settings_trans by blast+
  note b = put_ctx_keeps(2,4) [OF ok cp(2)] copy_world [OF cp(1)]
  show ?thesis using cv cp e a b r False by (cases "cv = 0") (simp_all add: derive_write_ctx_def)
qed

lemma wipe_pass_keeps:
  assumes ok: "codec_ok ctx"
  shows "\<exists>ctx' w'. wipe_pass ctx w = Some (ctx', w') \<and> codec_ok ctx' \<and> same_settings ctx ctx' \<and> same_world w w' \<and>
           map_option c_derive_key (read_ctx ctx') = map_option c_derive_key (read_ctx ctx) \<and>
           map_option c_derive_key (write_ctx ctx') = map_option c_derive_key (write_ctx ctx) \<and>
           map_option c_key (read_ctx ctx') = map_option c_key (read_ctx ctx) \<and>
           map_option c_key (write_ctx ctx') = map_option c_key (write_ctx ctx) \<and>
           (store_pass ctx \<noteq> 1 \<longrightarrow> map_option c_pass (read_ctx ctx') = Some None \<and>
              map_option c_pass (write_ctx ctx') = Some None)"
proof -
  obtain r wr where rw: "read_ctx ctx = Some r" "write_ctx ctx = Some wr" "cipher_ok ctx r" "cipher_ok ctx wr"
    using codec_ok_ctxs [OF ok] .
  have f: "sqlcipher_free (c_pass r) (c_pass_sz r) = Some ()" "sqlcipher_free (c_pass wr) (c_pass_sz wr) = Some ()"
    using rw by (auto simp: cipher_ok_def intro: free_ok)
  let ?z = "\<lambda>c. c\<lparr>c_pass := None, c_pass_sz := 0\<rparr>"
  have "cipher_ok ctx (?z r)" "cipher_ok ctx (?z wr)" using rw by (simp_all add: cipher_ok_def)
  moreover have "cipher_ok (ctx\<lparr>read_ctx := Some (?z r)\<rparr>) (?z wr)" using rw by (simp add: cipher_ok_def)
  ultimately have "codec_ok (ctx\<lparr>read_ctx := Some (?z r), write_ctx := Some (?z wr)\<rparr>)"
    "same_settings ctx (ctx\<lparr>read_ctx := Some (?z r), write_ctx := Some (?z wr)\<rparr>)"
    using put_ctx_keeps ok same_settings_trans by blast+
  then show ?thesis using rw f ok
    by (auto simp: wipe_pass_def sqlcipher_cipher_ctx_set_pass_def Let_def)
qed

lemma codec_key_derive_keeps:
  assumes ok: "codec_ok ctx" and w: "world_ok w" and rw: "read_ctx ctx = Some r" "write_ctx ctx = Some wr"
    and cmp: "c_derive_key wr = 0 \<or> passes_comparable wr r"
  shows "\<exists>rc ctx' w'. sqlcipher_codec_key_derive g ctx w = Some (rc, ctx', w') \<and> codec_ok ctx' \<and>
           same_settings ctx ctx' \<and> same_world w w' \<and> rc \<in> {SQLITE_OK, SQLITE_ERROR} \<and>
           (rc = SQLITE_OK \<longrightarrow> map_option c_derive_key (read_ctx ctx') = Some 0 \<and>
              map_option c_derive_key (write_ctx ctx') = Some 0 \<and>
              (store_pass ctx \<noteq> 1 \<longrightarrow> map_option c_pass (read_ctx ctx') = Some None \<and>
                 map_option c_pass (write_ctx ctx') = Some None))"
proof -
  obtain rc1 ctx1 r1 w1 where a: "derive_read_ctx g ctx w = Some (rc1, ctx1, w1)" "codec_ok ctx1" "same_settings ctx ctx1"
      "same_world w w1" "read_ctx ctx1 = Some r1" "write_ctx ctx1 = Some wr" "c_pass r1 = c_pass r"
      "c_pass_sz r1 = c_pass_sz r" "rc1 = 0 \<longrightarrow> c_derive_key r1 = 0" "rc1 \<in> {0, 1}"
    using derive_read_ctx_keeps [OF ok w rw(1)] rw(2) by metis
  have cmp1: "c_derive_key wr = 0 \<or> passes_comparable wr r1" using cmp unfolding passes_comparable_def a(7,8) .
  obtain rc2 ctx2 wr2 w2 where b: "derive_write_ctx g ctx1 w1 = Some (rc2, ctx2, w2)" "codec_ok ctx2" "same_settings ctx1 ctx2"
      "same_world w1 w2" "write_ctx ctx2 = Some wr2" "read_ctx ctx2 = Some r1" "rc2 \<in> {0, 1}"
      "rc2 = 0 \<longrightarrow> c_derive_key wr2 = 0 \<or> wr2 = r1"
    using derive_write_ctx_keeps [OF a(2) same_world_ok [OF a(4) w] a(5,6) cmp1] a(5) by metis
  obtain ctx3 w3 where c: "wipe_pass ctx2 w2 = Some (ctx3, w3)" "codec_ok ctx3" "same_settings ctx2 ctx3" "same_world w2 w3"
      "map_option c_derive_key (read_ctx ctx3) = Some (c_derive_key r1)"
      "map_option c_derive_key (write_ctx ctx3) = Some (c_derive_key wr2)"
      "store_pass ctx2 \<noteq> 1 \<longrightarrow> map_option c_pass (read_ctx ctx3) = Some None \<and> map_option c_pass (write_ctx ctx3) = Some None"
    using wipe_pass_keeps [OF b(2), of w2] b(5,6) by auto
  have s2: "same_settings ctx ctx2" "same_world w w2" using a(3,4) b(3,4) same_settings_trans same_world_trans by blast+
  then have s3: "same_settings ctx ctx3" "same_world w w3" using c(3,4) same_settings_trans same_world_trans by blast+
  have sp: "store_pass ctx2 = store_pass ctx" using s2 by (simp add: same_settings_def)
  note run = sqlcipher_codec_key_derive_def a(1) b(1) c(1)
  consider "rc1 = 1" | "rc1 = 0" "rc2 = 1" | "rc1 = 0" "rc2 = 0" using a(10) b(7) by auto
  then show ?thesis
    by cases (use a b c s2 s3 sp in \<open>auto simp: run\<close>)
qed

lemma codec_set_pass_keeps:
  assumes ok: "codec_ok ctx" and z: "\<And>z. zKey = Some z \<Longrightarrow> nKey \<le> int (length z)"
  shows "\<exists>rc ctx' w'. sqlcipher_codec_ctx_set_pass ctx zKey nKey for_ctx w = Some (rc, ctx', w') \<and> codec_ok ctx' \<and>
           same_settings ctx ctx' \<and> same_world w w' \<and> rc \<in> {SQLITE_OK, SQLITE_NOMEM}"
proof -
  obtain r wr where rw: "read_ctx ctx = Some r" "write_ctx ctx = Some wr" "cipher_ok ctx r" "cipher_ok ctx wr"
    using codec_ok_ctxs [OF ok] .
  define c where "c = (if for_ctx \<noteq> 0 then wr else r)"
  have c: "cipher_ok ctx c" "(if for_ctx \<noteq> 0 then write_ctx ctx else read_ctx ctx) = Some c"
    using rw by (auto simp: c_def)
  obtain rc c1 w1 where a: "sqlcipher_cipher_ctx_set_pass c zKey nKey w = Some (rc, c1, w1)" "cipher_ok ctx c1"
      "rc \<in> {0, 7}" using set_pass_keeps [OF c(1) z] by blast
  let ?put = "\<lambda>d. if for_ctx \<noteq> 0 then ctx\<lparr>write_ctx := Some d\<rparr> else ctx\<lparr>read_ctx := Some d\<rparr>"
  have put: "codec_ok (?put d) \<and> same_settings ctx (?put d)" if "cipher_ok ctx d" for d
    using put_ctx_keeps [OF ok that] by simp
  have c2: "cipher_ok ctx (c1\<lparr>c_derive_key := 1\<rparr>)" using a(2) by simp
  note w1 = set_pass_world [OF a(1)]
  show ?thesis
  proof (cases "rc = 0 \<and> for_ctx = 2")
    case False
    then show ?thesis using a put [OF a(2)] put [OF c2] w1 c(2)
      by (auto simp: sqlcipher_codec_ctx_set_pass_def Let_def)
  next
    case True
    let ?ctx2 = "ctx\<lparr>write_ctx := Some (c1\<lparr>c_derive_key := 1\<rparr>)\<rparr>"
    have ok2: "codec_ok ?ctx2" "same_settings ctx ?ctx2" using put [OF c2] True by simp_all
    have cr: "cipher_ok ?ctx2 r" "cipher_ok ?ctx2 (c1\<lparr>c_derive_key := 1\<rparr>)"
      using rw(3) c2 by (simp_all add: cipher_ok_same [OF ok2(2)])
    obtain rc2 r' w2 where b: "sqlcipher_cipher_ctx_copy ?ctx2 r (c1\<lparr>c_derive_key := 1\<rparr>) w1 = Some (rc2, r', w2)"
        "cipher_ok ?ctx2 r'" "rc2 \<in> {0, 7}" using copy_keeps [OF cr] by blast
    have "codec_ok (?ctx2\<lparr>read_ctx := Some r'\<rparr>)" "same_settings ctx (?ctx2\<lparr>read_ctx := Some r'\<rparr>)"
      using put_ctx_keeps [OF ok2(1) b(2)] ok2(2) same_settings_trans by blast+
    moreover have "same_world w w2" using w1 copy_world [OF b(1)] same_world_trans by blast
    ultimately show ?thesis using True a b c(2) rw
      by (auto simp: sqlcipher_codec_ctx_set_pass_def Let_def)
  qed
qed

lemma codec_key_copy_keeps:
  assumes ok: "codec_ok ctx"
  shows "\<exists>rc ctx' w'. sqlcipher_codec_key_copy ctx src w = Some (rc, ctx', w') \<and> codec_ok ctx' \<and>
           same_settings ctx ctx' \<and> same_world w w' \<and> rc \<in> {SQLITE_OK, SQLITE_NOMEM} \<and>
           (rc = SQLITE_OK \<longrightarrow> read_ctx ctx' = write_ctx ctx')"
proof -
  obtain r wr where rw: "read_ctx ctx = Some r" "write_ctx ctx = Some wr" "cipher_ok ctx r" "cipher_ok ctx wr"
    using codec_ok_ctxs [OF ok] .
  obtain rc t w1 where a: "sqlcipher_cipher_ctx_copy ctx wr r w = Some (rc, t, w1)" "cipher_ok ctx t" "rc \<in> {0, 7}"
      "rc = 0 \<longrightarrow> t = r" using copy_keeps [OF rw(4,3)] by blast
  obtain rc2 t2 w2 where b: "sqlcipher_cipher_ctx_copy ctx r wr w = Some (rc2, t2, w2)" "cipher_ok ctx t2" "rc2 \<in> {0, 7}"
      "rc2 = 0 \<longrightarrow> t2 = wr" using copy_keeps [OF rw(3,4)] by blast
  show ?thesis using rw a b put_ctx_keeps [OF ok a(2)] put_ctx_keeps [OF ok b(2)]
      copy_world [OF a(1)] copy_world [OF b(1)]
    by (cases "src = 0") (auto simp: sqlcipher_codec_key_copy_def)
qed

lemma set_kdf_salt_keeps:
  assumes ok: "codec_ok ctx" and "sz \<le> int (length salt)"
  shows "\<exists>rc ctx'. sqlcipher_codec_ctx_set_kdf_salt ctx salt sz = Some (rc, ctx') \<and> codec_ok ctx' \<and>
           same_settings ctx ctx' \<and> rc = (if sz \<ge> FILE_HEADER_SZ then SQLITE_OK else SQLITE_ERROR) \<and>
           (rc = SQLITE_OK \<longrightarrow> kdf_salt ctx' = take 16 salt \<and> flag_get (cflags ctx') CIPHER_FLAG_HAS_KDF_SALT)"
proof (cases "sz \<ge> 16")
  case True
  note d = codec_okD [OF ok]
  obtain r wr where rw: "read_ctx ctx = Some r" "write_ctx ctx = Some wr" "cipher_ok ctx r" "cipher_ok ctx wr"
    using codec_ok_ctxs [OF ok] .
  let ?c = "ctx\<lparr>kdf_salt := take 16 salt, cflags := flag_set (cflags ctx) CIPHER_FLAG_HAS_KDF_SALT\<rparr>"
  have "memcpy (kdf_salt ctx) 0 salt 0 16 = Some (take 16 salt)" using True assms(2) d(7) by (simp add: memcpy_full)
  moreover have ss: "same_settings ctx ?c" by (simp add: same_settings_def)
  moreover have "codec_ok ?c" by (rule codec_ok_same [OF ok ss, of r wr]) (use True assms(2) d rw in simp_all)
  ultimately show ?thesis using True d(5) by (simp add: sqlcipher_codec_ctx_set_kdf_salt_def FILE_HEADER_SZ_def)
next
  case False
  then show ?thesis using ok codec_okD(5) [OF ok]
    by (simp add: sqlcipher_codec_ctx_set_kdf_salt_def FILE_HEADER_SZ_def)
qed

lemma codec_free_safe: "codec_ok ctx \<Longrightarrow> sqlcipher_codec_ctx_free ctx = Some ()"
proof -
  assume ok: "codec_ok ctx"
  obtain r wr where rw: "read_ctx ctx = Some r" "write_ctx ctx = Some wr" "cipher_ok ctx r" "cipher_ok ctx wr"
    using codec_ok_ctxs [OF ok] .
  have cf: "sqlcipher_cipher_ctx_free ctx c = Some ()" if "cipher_ok ctx c" for c
    using that by (simp add: sqlcipher_cipher_ctx_free_def cipher_ok_def free_ok)
  have "opt_len (cbuffer ctx) (page_sz ctx)" using ok by (simp add: codec_ok_def codec_base_ok_def codec_frame_ok_def)
  then show ?thesis using codec_okD [OF ok] rw cf by (simp add: sqlcipher_codec_ctx_free_def free_ok)
qed

section \<open>Creation of a context\<close>

lemma codec_frame_ok_settings:
  assumes "codec_frame_ok ctx"
  shows "codec_frame_ok (sqlcipher_codec_ctx_set_kdf_iter ctx n)"
    "codec_frame_ok (sqlcipher_codec_ctx_set_fast_kdf_iter ctx n)"
    "codec_frame_ok (sqlcipher_codec_ctx_set_use_hmac ctx b)"
    "codec_frame_ok (sqlcipher_codec_ctx_set_hmac_algorithm ctx n)"
    "codec_frame_ok (sqlcipher_codec_ctx_set_kdf_algorithm ctx n)"
    "codec_frame_ok (ctx\<lparr>plaintext_header_sz := n\<rparr>)"
  using assms
  by (simp_all add: sqlcipher_codec_ctx_set_kdf_iter_def sqlcipher_codec_ctx_set_fast_kdf_iter_def
      sqlcipher_codec_ctx_set_use_hmac_def sqlcipher_codec_ctx_set_hmac_algorithm_def
      sqlcipher_codec_ctx_set_kdf_algorithm_def sqlcipher_set_derive_key_def
      sqlcipher_codec_ctx_reserve_setup_def codec_frame_ok_def Let_def)

lemma codec_ctx_alloc_keeps:
  assumes p: "g_provider g = Some p" "provider_ok p"
  shows "\<exists>res w'. codec_ctx_alloc g w = Some (res, w') \<and> same_world w w' \<and>
           (\<forall>ctx. res = Inr ctx \<longrightarrow> cbuffer ctx = None \<and>
              (\<forall>sz b. pagesize_ok sz \<longrightarrow> opt_len b sz \<longrightarrow> codec_frame_ok (ctx\<lparr>page_sz := sz, cbuffer := b\<rparr>)))"
proof -
  obtain a1 w1 where m1: "malloc_w sizeof_codec_ctx w = (a1, w1)" by fastforce
  obtain a2 w2 where m2: "malloc_w FILE_HEADER_SZ w1 = (a2, w2)" by fastforce
  obtain a3 w3 where m3: "malloc_w FILE_HEADER_SZ w2 = (a3, w3)" by fastforce
  obtain a4 w4 where m4: "malloc_w sizeof_provider w3 = (a4, w4)" by fastforce
  have s: "same_world w w1" "same_world w w2" "same_world w w3" "same_world w w4"
    using malloc_w_world [OF m1] malloc_w_world [OF m2] malloc_w_world [OF m3] malloc_w_world [OF m4]
    by (simp_all add: same_world_def)
  have l: "int (length b) = FILE_HEADER_SZ" if "a2 = Some b \<or> a3 = Some b" for b
    using that malloc_w_length m2 m3 by blast
  show ?thesis using s l p
    by (cases a1; cases a2; cases a3; cases a4)
      (auto simp: codec_ctx_alloc_def m1 m2 m3 m4 zero_codec_ctx_def codec_frame_ok_def)
qed

lemma codec_ctx_defaults_keeps:
  assumes "codec_frame_ok ctx" "codec_ctx_defaults g ctx = (rc, ctx')"
  shows "codec_frame_ok ctx' \<and> hmac_sz ctx' = pr_get_hmac_sz (cprovider ctx') (hmac_algorithm ctx') \<and>
         reserve_sz ctx' = reserve_of ctx' \<and> header_ok ctx' \<and> page_sz ctx' = page_sz ctx \<and> cbuffer ctx' = cbuffer ctx"
proof -
  let ?a = "sqlcipher_codec_ctx_set_hmac_algorithm (sqlcipher_codec_ctx_set_fast_kdf_iter
              (sqlcipher_codec_ctx_set_kdf_iter ctx (g_kdf_iter g)) FAST_PBKDF2_ITER) (g_hmac_algorithm g)"
  let ?b = "sqlcipher_codec_ctx_set_use_hmac ?a (flag_get (g_flags g) CIPHER_FLAG_HMAC)"
  let ?c = "sqlcipher_codec_ctx_set_kdf_algorithm ?b (g_kdf_algorithm g)"
  have f: "codec_frame_ok ?c" by (intro codec_frame_ok_settings assms(1))
  have c: "sqlcipher_codec_ctx_set_plaintext_header_size ?c (g_plaintext_header_sz g) = (rc, ctx')"
    using assms(2) by (simp add: codec_ctx_defaults_def Let_def)
  obtain h where h: "ctx' = ?c\<lparr>plaintext_header_sz := h\<rparr>" "header_ok ctx'"
    using c by (auto simp: sqlcipher_codec_ctx_set_plaintext_header_size_def header_ok_def dvd_eq_mod_eq_0 split: if_splits)
  have b: "hmac_sz ?b = pr_get_hmac_sz (cprovider ?b) (hmac_algorithm ?b) \<and> reserve_sz ?b = reserve_of ?b"
    unfolding sqlcipher_codec_ctx_set_use_hmac_def
    by (auto simp: sqlcipher_codec_ctx_reserve_setup_def reserve_of_def sqlcipher_codec_ctx_get_use_hmac_def Let_def)
  have "page_sz ?c = page_sz ctx" "cbuffer ?c = cbuffer ctx"
    by (simp_all add: sqlcipher_codec_ctx_set_kdf_iter_def sqlcipher_codec_ctx_set_fast_kdf_iter_def
      sqlcipher_codec_ctx_set_use_hmac_def sqlcipher_codec_ctx_set_hmac_algorithm_def
      sqlcipher_codec_ctx_set_kdf_algorithm_def sqlcipher_set_derive_key_def
      sqlcipher_codec_ctx_reserve_setup_def Let_def)
  moreover have "hmac_sz ?c = pr_get_hmac_sz (cprovider ?c) (hmac_algorithm ?c) \<and> reserve_sz ?c = reserve_of ?c"
    using b by (simp add: sqlcipher_codec_ctx_set_kdf_algorithm_def)
  ultimately show ?thesis using h f codec_frame_ok_settings(6) [OF f] by simp
qed

lemma cipher_ctx_init_keeps: "sqlcipher_cipher_ctx_init ctx w = (Inr c, w') \<Longrightarrow> cipher_ok ctx c"
  by (auto simp: sqlcipher_cipher_ctx_init_def cipher_ok_def dest: malloc_w_length
      split: prod.splits option.splits)

lemma codec_ctx_keys_keeps:
  assumes f: "codec_frame_ok ctx" "hmac_sz ctx = pr_get_hmac_sz (cprovider ctx) (hmac_algorithm ctx)"
      "reserve_sz ctx = reserve_of ctx" and h: "header_ok ctx"
    and z: "\<And>z. zKey = Some z \<Longrightarrow> nKey \<le> int (length z)"
  shows "\<exists>res w'. codec_ctx_keys ctx zKey nKey w = Some (res, w') \<and>
           (\<forall>ctx'. res = Inr ctx' \<longrightarrow> codec_ok ctx' \<and> header_ok ctx' \<and> page_sz ctx' = page_sz ctx \<and>
              cbuffer ctx' = cbuffer ctx \<and> read_ctx ctx' = write_ctx ctx')"
proof -
  obtain r w1 where a: "sqlcipher_cipher_ctx_init ctx w = (r, w1)" by fastforce
  obtain r2 w2 where b: "sqlcipher_cipher_ctx_init ctx w1 = (r2, w2)" by fastforce
  show ?thesis
  proof (cases "\<exists>x y. r = Inr x \<and> r2 = Inr y")
    case False
    then show ?thesis using a b by (auto simp: codec_ctx_keys_def split: sum.splits)
  next
    case True
    then obtain x y where xy: "r = Inr x" "r2 = Inr y" by blast
    let ?c = "ctx\<lparr>read_ctx := Some x, write_ctx := Some y\<rparr>"
    have xyok: "cipher_ok ctx x" "cipher_ok ctx y" using cipher_ctx_init_keeps a b xy by blast+
    then have ok: "codec_ok ?c" using f by (auto simp: codec_ok_def codec_base_ok_def codec_frame_ok_def cipher_ok_def)
    have ss: "same_settings ctx ?c" by (simp add: same_settings_def)
    obtain rc ctx1 w3 where s: "sqlcipher_codec_ctx_set_pass ?c zKey nKey 0 w2 = Some (rc, ctx1, w3)" "codec_ok ctx1"
        "same_settings ?c ctx1" using codec_set_pass_keeps [OF ok z] by blast
    obtain r1 wr1 where r1: "read_ctx ctx1 = Some r1" "cipher_ok ctx1 r1" using codec_ok_ctxs [OF s(2)] .
    have "cipher_ok ctx1 y" using xyok(2) cipher_ok_same [OF same_settings_trans [OF ss s(3)]] by simp
    from copy_keeps [OF this r1(2), of w3]
    obtain rc2 t w4 where t: "sqlcipher_cipher_ctx_copy ctx1 y r1 w3 = Some (rc2, t, w4)" "cipher_ok ctx1 t"
        "rc2 = 0 \<longrightarrow> t = r1" by blast
    have fin: "codec_ok (ctx1\<lparr>write_ctx := Some t\<rparr>)" "same_settings ctx (ctx1\<lparr>write_ctx := Some t\<rparr>)"
      using put_ctx_keeps [OF s(2) t(2)] ss s(3) same_settings_trans by blast+
    then have "header_ok (ctx1\<lparr>write_ctx := Some t\<rparr>)" "page_sz ctx1 = page_sz ctx" "cbuffer ctx1 = cbuffer ctx"
      using h by (auto simp: header_ok_def same_settings_def)
    with fin(1) a b xy s(1) r1(1) t show ?thesis by (auto simp: codec_ctx_keys_def)
  qed
qed

lemma codec_ctx_init_keeps:
  assumes p: "g_provider g = Some p" "provider_ok p" and z: "\<And>z. zKey = Some z \<Longrightarrow> nKey \<le> int (length z)"
  shows "\<exists>res w'. sqlcipher_codec_ctx_init g zKey nKey w = Some (res, w') \<and>
           (\<forall>ctx. res = Inr ctx \<longrightarrow> codec_ok ctx \<and> header_ok ctx \<and> page_sz ctx = g_page_size g \<and>
              cbuffer ctx \<noteq> None \<and> read_ctx ctx = write_ctx ctx)"
proof -
  obtain res w1 where a: "codec_ctx_alloc g w = Some (res, w1)"
    "\<And>ctx. res = Inr ctx \<Longrightarrow> cbuffer ctx = None"
    "\<And>ctx sz b. res = Inr ctx \<Longrightarrow> pagesize_ok sz \<Longrightarrow> opt_len b sz \<Longrightarrow> codec_frame_ok (ctx\<lparr>page_sz := sz, cbuffer := b\<rparr>)"
    using codec_ctx_alloc_keeps [OF p, of w] by blast
  show ?thesis
  proof (cases res)
    case (Inl e)
    then show ?thesis using a by (simp add: sqlcipher_codec_ctx_init_def)
  next
    case (Inr ctx0)
    obtain b w2 where m: "malloc_w (g_page_size g) w1 = (b, w2)" by fastforce
    let ?c1 = "ctx0\<lparr>page_sz := g_page_size g, cbuffer := b\<rparr>"
    obtain rc2 ctx2 where d: "codec_ctx_defaults g ?c1 = (rc2, ctx2)" by fastforce
    have buf: "sqlcipher_free (cbuffer ctx0) (page_sz ctx0) = Some ()" using a(2) [OF Inr] by (simp add: free_ok)
    note run = sqlcipher_codec_ctx_init_def a(1) Inr sqlcipher_codec_ctx_set_pagesize_eq m d buf
    show ?thesis
    proof (cases "pagesize_ok (g_page_size g) \<and> b \<noteq> None \<and> rc2 = 0")
      case False
      then show ?thesis by (auto simp: run)
    next
      case True
      have "opt_len b (g_page_size g)" using m malloc_w_length by (cases b) auto
      then have "codec_frame_ok ?c1" using a(3) [OF Inr] True by blast
      from codec_ctx_defaults_keeps [OF this d]
      have k: "codec_frame_ok ctx2" "hmac_sz ctx2 = pr_get_hmac_sz (cprovider ctx2) (hmac_algorithm ctx2)"
        "reserve_sz ctx2 = reserve_of ctx2" "header_ok ctx2" "page_sz ctx2 = g_page_size g" "cbuffer ctx2 = b" by auto
      obtain res' w' where e: "codec_ctx_keys ctx2 zKey nKey w2 = Some (res', w')"
          "\<And>ctx'. res' = Inr ctx' \<Longrightarrow> codec_ok ctx' \<and> header_ok ctx' \<and> page_sz ctx' = page_sz ctx2 \<and>
             cbuffer ctx' = cbuffer ctx2 \<and> read_ctx ctx' = write_ctx ctx'"
        using codec_ctx_keys_keeps [OF k(1-4), of zKey nKey w2] z by blast
      then have "sqlcipher_codec_ctx_init g zKey nKey w = Some (res', w')" using True by (auto simp: run)
      then show ?thesis using e(2) k(5,6) True by auto
    qed
  qed
qed

end
