(* ===== verification/Demo_Provider.thy ===== *)
theory Demo_Provider
  imports Codec_Wf
begin

text \<open>
  A small executable instance of the system library, and a codec context built on it.  It shows that
  the hypotheses \<open>commoncrypto_ok\<close>, \<open>provider_ok\<close> and \<open>codec_ok\<close> can hold and gives the
  witnesses of the properties their concrete inputs.  The toy digest adds up its input, the toy
  cipher is an exclusive or with a byte of key and vector; neither models the real algorithm.
\<close>

definition byte_sum :: "byte list \<Rightarrow> byte" where
  "byte_sum bs = foldr (+) bs 0"

definition demo_cc :: "(nat, cc_alg \<times> byte, byte) commoncrypto" where
  "demo_cc =
     \<lparr> SecRandomCopyBytes = (\<lambda>r n. if n < 0 then (None, r) else (Some (replicate (nat n) (of_nat r)), r + 1)),
       CCHmacInit = (\<lambda>a k. (a, byte_sum k)),
       CCHmacUpdate = (\<lambda>(a, h) x. (a, 3 * h + byte_sum x)),
       CCHmacFinal = (\<lambda>(a, h). replicate (cc_digest_length a) h),
       CCKeyDerivationPBKDF = (\<lambda>p s a w n. if n < 0 then None
          else Some (replicate (nat n) (byte_sum p + byte_sum s))),
       CCCryptorCreate = (\<lambda>_ k iv. Some (byte_sum k + byte_sum iv)),
       CCCryptorUpdate = (\<lambda>c x. Some (map (\<lambda>b. b XOR c) x, c)),
       CCCryptorFinal = (\<lambda>c. Some ([], c)),
       CCCryptorRelease = (\<lambda>_. True) \<rparr>"

lemma xor_twice: "((b :: byte) XOR c) XOR c = b"
  by (simp add: xor.assoc)

lemma demo_cc_ok: "commoncrypto_ok demo_cc"
proof -
  have "map ((\<lambda>b. b XOR c) \<circ> (\<lambda>b. b XOR c)) x = (x :: byte list)" for c x
    by (induction x) (simp_all add: xor_twice)
  then show ?thesis
    unfolding commoncrypto_ok_def demo_cc_def cc_one_shot_def
    by (auto split: if_splits)
qed

definition demo_provider :: "nat sqlcipher_provider" where
  "demo_provider = sqlcipher_cc_setup demo_cc"

lemma demo_provider_ok: "provider_ok demo_provider"
  unfolding demo_provider_def by (rule sqlcipher_cc_setup_ok) (rule demo_cc_ok)

definition demo_cipher_ctx :: cipher_ctx where
  "demo_cipher_ctx =
     \<lparr> c_derive_key = 0, c_pass_sz = 0, c_key = replicate 32 7, c_hmac_key = replicate 32 9,
       c_pass = None, c_keyspec = None \<rparr>"

definition demo_ctx :: "nat codec_ctx" where
  "demo_ctx =
     \<lparr> store_pass = 0, kdf_iter = 256000, fast_kdf_iter = 2, kdf_salt_sz = 16, key_sz = 32, iv_sz = 16,
       block_sz = 16, page_sz = 512, keyspec_sz = 99, reserve_sz = 80, hmac_sz = 64,
       plaintext_header_sz = 0, hmac_algorithm = 2, kdf_algorithm = 2, cflags = 3,
       kdf_salt = replicate 16 1, hmac_kdf_salt = replicate 16 0, cbuffer = Some (replicate 512 0),
       read_ctx = Some demo_cipher_ctx, write_ctx = Some demo_cipher_ctx, cprovider = demo_provider \<rparr>"

lemma demo_provider_sizes [simp]:
  "pr_get_key_sz demo_provider = 32" "pr_get_iv_sz demo_provider = 16" "pr_get_block_sz demo_provider = 16"
  "pr_get_hmac_sz demo_provider 2 = 64" "pr_get_hmac_sz demo_provider 0 = 20" "pr_ctx_init demo_provider = 0"
  by (simp_all add: demo_provider_def sqlcipher_cc_setup_def sqlcipher_cc_get_hmac_sz_def)

lemma demo_provider_functions [simp]:
  "pr_cipher demo_provider mode k iv x = Some (map (\<lambda>b. b XOR (byte_sum k + byte_sum iv)) x)"
  "pr_hmac demo_provider 2 k x y = Some (replicate 64 (3 * (3 * byte_sum k + byte_sum x) + byte_sum y))"
  "pr_kdf demo_provider 2 p s w 32 = Some (replicate 32 (byte_sum p + byte_sum s))"
  "pr_random demo_provider r 80 = (Some (replicate 80 (of_nat r)), r + 1)"
  "pr_random demo_provider r 16 = (Some (replicate 16 (of_nat r)), r + 1)"
  by (simp_all add: demo_provider_def sqlcipher_cc_setup_def sqlcipher_cc_cipher_def sqlcipher_cc_hmac_def
      sqlcipher_cc_kdf_def sqlcipher_cc_random_def cc_hmac_alg_def cc_digest_length_def demo_cc_def Let_def)

lemma demo_ctx_fields [simp]:
  "cprovider demo_ctx = demo_provider" "hmac_algorithm demo_ctx = 2" "iv_sz demo_ctx = 16"
  "reserve_sz demo_ctx = 80" "block_sz demo_ctx = 16" "page_sz demo_ctx = 512" "key_sz demo_ctx = 32"
  "read_ctx demo_ctx = Some demo_cipher_ctx" "write_ctx demo_ctx = Some demo_cipher_ctx"
  "plaintext_header_sz demo_ctx = 0" "store_pass demo_ctx = 0"
  "flag_get (cflags demo_ctx) CIPHER_FLAG_HMAC"
  by (simp_all add: demo_ctx_def flag_get_def CIPHER_FLAG_HMAC_def)

lemma demo_ctx_ok: "codec_ok demo_ctx" "header_ok demo_ctx"
  by (simp_all add: demo_ctx_def codec_ok_def codec_base_ok_def codec_frame_ok_def demo_provider_ok
      FILE_HEADER_SZ_def pagesize_ok_def cipher_ok_def demo_cipher_ctx_def reserve_of_def header_ok_def
      sqlcipher_codec_ctx_reserve_setup_def sqlcipher_codec_ctx_get_use_hmac_def flag_get_def
      CIPHER_FLAG_HMAC_def Let_def)

definition demo_world :: "nat world" where
  "demo_world =
     \<lparr> w_allocs = [], w_rand = 5, w_fd_open = False, w_read = (\<lambda>_ _. None), w_file_size = Some 0,
       w_autovacuum = 0, w_sj_pgno = 0, w_pager_error = 0, w_db_error = 0 \<rparr>"

lemma demo_world_ok: "world_ok demo_world"
  by (simp add: demo_world_def world_ok_def)

definition demo_globals :: "nat cipher_globals" where
  "demo_globals = initial_globals\<lparr>g_provider := Some demo_provider\<rparr>"

end
