(* ===== verification/Page_Cipher.thy ===== *)
theory Page_Cipher
  imports Demo_Provider Bytes4
begin

text \<open>
  The page cipher of \<open>crypto_impl.c\<close>: the authenticated encryption of one page and its reversal.

  A page buffer \<open>in\<close> (or \<open>out\<close>) is a block of memory with the offset at which the page starts, as
  \<open>sqlite3Codec\<close> passes \<open>pData + offset\<close>.  Layout of the encrypted page, after the offset:
  ciphertext, initialization vector, HMAC, random filler up to the reserve size.
\<close>

section \<open>Operations\<close>

definition sqlcipher_put4byte_le :: "u32 \<Rightarrow> byte list" where
  "sqlcipher_put4byte_le v =
     [ucast v, ucast (drop_bit 8 v), ucast (drop_bit 16 v), ucast (drop_bit 24 v)]"

text \<open>
  The representation of the page number under the HMAC.  Without either flag the native bytes are
  used, which on the little-endian targets of the build are those of \<open>sqlcipher_put4byte_le\<close>.
\<close>

definition pgno_raw :: "'r codec_ctx \<Rightarrow> pgno \<Rightarrow> byte list" where
  "pgno_raw ctx pgno =
     (if flag_get (cflags ctx) CIPHER_FLAG_LE_PGNO then sqlcipher_put4byte_le pgno
      else if flag_get (cflags ctx) CIPHER_FLAG_BE_PGNO then sqlite3Put4byte pgno
      else sqlcipher_put4byte_le pgno)"

text \<open>\<open>None\<close> is an access out of bounds, \<open>Some None\<close> a failure of the provider.\<close>

definition sqlcipher_page_hmac ::
    "'r codec_ctx \<Rightarrow> cipher_ctx \<Rightarrow> pgno \<Rightarrow> byte list \<Rightarrow> int \<Rightarrow> int \<Rightarrow> byte list option option" where
  "sqlcipher_page_hmac ctx c_ctx pgno inp off in_sz = do {
     key \<leftarrow> mem_read (c_hmac_key c_ctx) 0 (key_sz ctx);
     data \<leftarrow> mem_read inp off in_sz;
     Some (pr_hmac (cprovider ctx) (hmac_algorithm ctx) key data (pgno_raw ctx pgno))
   }"

abbreviation (input) BTREE_AUTOVACUUM_NONE :: int where "BTREE_AUTOVACUUM_NONE \<equiv> 0"

text \<open>The label \<open>error\<close>: wipe the page in the output buffer.\<close>

definition page_cipher_error ::
    "int \<Rightarrow> byte list \<Rightarrow> int \<Rightarrow> 'r world \<Rightarrow> (int \<times> byte list \<times> 'r world) option" where
  "page_cipher_error pg_sz out ooff w = do {
     out' \<leftarrow> sqlcipher_memset out ooff 0 pg_sz;
     Some (SQLITE_ERROR, out', w)
   }"

definition page_encrypt ::
    "'r codec_ctx \<Rightarrow> cipher_ctx \<Rightarrow> pgno \<Rightarrow> int \<Rightarrow> byte list \<Rightarrow> int \<Rightarrow> byte list \<Rightarrow> int \<Rightarrow> 'r world
       \<Rightarrow> (int \<times> byte list \<times> 'r world) option" where
  "page_encrypt ctx c_ctx pgno pg_sz inp ioff out ooff w = do {
     let sz = pg_sz - reserve_sz ctx;
     (case pr_random (cprovider ctx) (w_rand w) (reserve_sz ctx) of
        (None, r') \<Rightarrow> page_cipher_error pg_sz out ooff (w\<lparr>w_rand := r'\<rparr>)
      | (Some rnd, r') \<Rightarrow> do {
          let w1 = w\<lparr>w_rand := r'\<rparr>;
          out1 \<leftarrow> mem_write out (ooff + sz) rnd;
          key \<leftarrow> mem_read (c_key c_ctx) 0 (key_sz ctx);
          iv \<leftarrow> mem_read out1 (ooff + sz) (iv_sz ctx);
          plain \<leftarrow> mem_read inp ioff sz;
          (case pr_cipher (cprovider ctx) CIPHER_ENCRYPT key iv plain of
             None \<Rightarrow> page_cipher_error pg_sz out1 ooff w1
           | Some enc \<Rightarrow> do {
               out2 \<leftarrow> mem_write out1 ooff enc;
               if flag_get (cflags ctx) CIPHER_FLAG_HMAC then do {
                 mac \<leftarrow> sqlcipher_page_hmac ctx c_ctx pgno out2 ooff (sz + iv_sz ctx);
                 (case mac of
                    None \<Rightarrow> page_cipher_error pg_sz out2 ooff w1
                  | Some m \<Rightarrow> do {
                      out3 \<leftarrow> mem_write out2 (ooff + sz + iv_sz ctx) m;
                      Some (SQLITE_OK, out3, w1) })
               } else Some (SQLITE_OK, out2, w1) })
        })
   }"

definition page_decrypt_block ::
    "'r codec_ctx \<Rightarrow> cipher_ctx \<Rightarrow> int \<Rightarrow> byte list \<Rightarrow> int \<Rightarrow> byte list \<Rightarrow> int \<Rightarrow> 'r world
       \<Rightarrow> (int \<times> byte list \<times> 'r world) option" where
  "page_decrypt_block ctx c_ctx pg_sz inp ioff out ooff w = do {
     let sz = pg_sz - reserve_sz ctx;
     key \<leftarrow> mem_read (c_key c_ctx) 0 (key_sz ctx);
     iv \<leftarrow> mem_read out (ooff + sz) (iv_sz ctx);
     enc \<leftarrow> mem_read inp ioff sz;
     (case pr_cipher (cprovider ctx) CIPHER_DECRYPT key iv enc of
        None \<Rightarrow> page_cipher_error pg_sz out ooff w
      | Some plain \<Rightarrow> do { out' \<leftarrow> mem_write out ooff plain; Some (SQLITE_OK, out', w) })
   }"

definition page_decrypt ::
    "'r codec_ctx \<Rightarrow> cipher_ctx \<Rightarrow> pgno \<Rightarrow> int \<Rightarrow> byte list \<Rightarrow> int \<Rightarrow> byte list \<Rightarrow> int \<Rightarrow> 'r world
       \<Rightarrow> (int \<times> byte list \<times> 'r world) option" where
  "page_decrypt ctx c_ctx pgno pg_sz inp ioff out ooff w = do {
     let sz = pg_sz - reserve_sz ctx;
     out1 \<leftarrow> memcpy out (ooff + sz) inp (ioff + sz) (iv_sz ctx);
     if flag_get (cflags ctx) CIPHER_FLAG_HMAC then do {
       mac \<leftarrow> sqlcipher_page_hmac ctx c_ctx pgno inp ioff (sz + iv_sz ctx);
       (case mac of
          None \<Rightarrow> page_cipher_error pg_sz out1 ooff w
        | Some m \<Rightarrow> do {
            out2 \<leftarrow> mem_write out1 (ooff + sz + iv_sz ctx) m;
            differ \<leftarrow> sqlcipher_memcmp inp (ioff + sz + iv_sz ctx) out2 (ooff + sz + iv_sz ctx) (hmac_sz ctx);
            if differ \<noteq> 0 then do {
              notzero \<leftarrow> (if w_autovacuum w \<noteq> BTREE_AUTOVACUUM_NONE
                         then sqlcipher_ismemset inp ioff 0 pg_sz else Some 1);
              if notzero = 0 then do {
                out3 \<leftarrow> sqlcipher_memset out2 ooff 0 pg_sz;
                Some (SQLITE_OK, out3, w)
              } else page_cipher_error pg_sz out2 ooff w
            } else page_decrypt_block ctx c_ctx pg_sz inp ioff out2 ooff w
          })
     } else page_decrypt_block ctx c_ctx pg_sz inp ioff out1 ooff w
   }"

definition sqlcipher_page_cipher ::
    "'r codec_ctx \<Rightarrow> int \<Rightarrow> pgno \<Rightarrow> int \<Rightarrow> int \<Rightarrow> byte list \<Rightarrow> int \<Rightarrow> byte list \<Rightarrow> int \<Rightarrow> 'r world
       \<Rightarrow> (int \<times> byte list \<times> 'r world) option" where
  "sqlcipher_page_cipher ctx for_ctx pgno mode pg_sz inp ioff out ooff w =
     (if key_sz ctx = 0 then page_cipher_error pg_sz out ooff w
      else do {
        c_ctx \<leftarrow> (if for_ctx \<noteq> 0 then write_ctx ctx else read_ctx ctx);
        if mode = CIPHER_ENCRYPT then page_encrypt ctx c_ctx pgno pg_sz inp ioff out ooff w
        else page_decrypt ctx c_ctx pgno pg_sz inp ioff out ooff w
      })"

section \<open>What a page cipher promises\<close>

text \<open>
  The specification on byte strings: sealing a plaintext under a vector and filler taken from
  \<open>rnd\<close>, and opening a page, which fails unless the stored HMAC is the computed one.
\<close>

definition seal_page :: "'r codec_ctx \<Rightarrow> cipher_ctx \<Rightarrow> pgno \<Rightarrow> byte list \<Rightarrow> byte list \<Rightarrow> byte list option" where
  "seal_page ctx c pgno plain rnd = do {
     let iv = take (nat (iv_sz ctx)) rnd;
     enc \<leftarrow> pr_cipher (cprovider ctx) CIPHER_ENCRYPT (c_key c) iv plain;
     if flag_get (cflags ctx) CIPHER_FLAG_HMAC then do {
       m \<leftarrow> pr_hmac (cprovider ctx) (hmac_algorithm ctx) (c_hmac_key c) (enc @ iv) (pgno_raw ctx pgno);
       Some (enc @ iv @ m @ drop (length m) (drop (nat (iv_sz ctx)) rnd))
     } else Some (enc @ rnd)
   }"

definition page_mac :: "'r codec_ctx \<Rightarrow> cipher_ctx \<Rightarrow> pgno \<Rightarrow> byte list \<Rightarrow> byte list option" where
  "page_mac ctx c pgno page =
     pr_hmac (cprovider ctx) (hmac_algorithm ctx) (c_hmac_key c)
       (take (length page - nat (reserve_sz ctx) + nat (iv_sz ctx)) page) (pgno_raw ctx pgno)"

definition stored_mac :: "'r codec_ctx \<Rightarrow> byte list \<Rightarrow> byte list" where
  "stored_mac ctx page =
     take (nat (hmac_sz ctx)) (drop (length page - nat (reserve_sz ctx) + nat (iv_sz ctx)) page)"

definition page_iv :: "'r codec_ctx \<Rightarrow> byte list \<Rightarrow> byte list" where
  "page_iv ctx page = take (nat (iv_sz ctx)) (drop (length page - nat (reserve_sz ctx)) page)"

definition open_page :: "'r codec_ctx \<Rightarrow> cipher_ctx \<Rightarrow> pgno \<Rightarrow> byte list \<Rightarrow> byte list option" where
  "open_page ctx c pgno page =
     (if flag_get (cflags ctx) CIPHER_FLAG_HMAC \<and> page_mac ctx c pgno page \<noteq> Some (stored_mac ctx page) then None
      else pr_cipher (cprovider ctx) CIPHER_DECRYPT (c_key c) (page_iv ctx page)
             (take (length page - nat (reserve_sz ctx)) page))"

text \<open>A page of \<open>psz\<close> bytes inside its two buffers, with a whole number of cipher blocks.\<close>

definition page_geom :: "'r codec_ctx \<Rightarrow> int \<Rightarrow> byte list \<Rightarrow> int \<Rightarrow> byte list \<Rightarrow> int \<Rightarrow> bool" where
  "page_geom ctx psz inp ioff out ooff \<longleftrightarrow>
     0 \<le> ioff \<and> ioff + psz \<le> int (length inp) \<and> 0 \<le> ooff \<and> ooff + psz \<le> int (length out) \<and>
     reserve_sz ctx \<le> psz \<and> block_sz ctx dvd psz"

definition page_at :: "byte list \<Rightarrow> int \<Rightarrow> int \<Rightarrow> byte list" where
  "page_at b off n = take (nat n) (drop (nat off) b)"

lemma page_at_read: "0 \<le> off \<Longrightarrow> 0 \<le> n \<Longrightarrow> off + n \<le> int (length b) \<Longrightarrow> mem_read b off n = Some (page_at b off n)"
  by (simp add: mem_read_def page_at_def)

lemma length_page_at: "0 \<le> off \<Longrightarrow> 0 \<le> n \<Longrightarrow> off + n \<le> int (length b) \<Longrightarrow> length (page_at b off n) = nat n"
  by (simp add: page_at_def)

lemma page_at_sub:
  "0 \<le> off \<Longrightarrow> 0 \<le> q \<Longrightarrow> 0 \<le> m \<Longrightarrow> q + m \<le> n \<Longrightarrow> off + n \<le> int (length b) \<Longrightarrow>
     mem_read b (off + q) m = Some (take (nat m) (drop (nat q) (page_at b off n)))"
  using mem_read_sub [OF page_at_read] by simp

section \<open>The operations implement it\<close>

lemma seal_page_ok:
  assumes ok: "codec_ok ctx" and c: "cipher_ok ctx c"
    and p: "block_sz ctx dvd int (length plain)" and r: "int (length rnd) = reserve_sz ctx"
  obtains enc where "pr_cipher (cprovider ctx) CIPHER_ENCRYPT (c_key c) (take (nat (iv_sz ctx)) rnd) plain = Some enc"
    "length enc = length plain"
    "pr_cipher (cprovider ctx) CIPHER_DECRYPT (c_key c) (take (nat (iv_sz ctx)) rnd) enc = Some plain"
proof -
  note d = codec_okD [OF ok] and sz = codec_ok_sizes [OF ok]
  have iv: "int (length (take (nat (iv_sz ctx)) rnd)) = pr_get_iv_sz (cprovider ctx)"
    using r sz(3,4,6,11) d(3) by (auto split: if_splits)
  have k: "int (length (c_key c)) = pr_get_key_sz (cprovider ctx)" using c d(2) by (simp add: cipher_ok_def)
  show ?thesis
    by (rule provider_ok_cipher [OF d(1) k iv, of plain 1]) (use p d(4) that in auto)
qed

text \<open>Opening what was sealed gives the plaintext back, whatever the random filler was.\<close>

lemma open_seal:
  assumes ok: "codec_ok ctx" and c: "cipher_ok ctx c"
    and p: "block_sz ctx dvd int (length plain)" and r: "int (length rnd) = reserve_sz ctx"
    and s: "seal_page ctx c pgno plain rnd = Some page"
  shows "open_page ctx c pgno page = Some plain" "int (length page) = int (length plain) + reserve_sz ctx"
proof -
  note d = codec_okD [OF ok] and sz = codec_ok_sizes [OF ok]
  obtain enc where e: "pr_cipher (cprovider ctx) 1 (c_key c) (take (nat (iv_sz ctx)) rnd) plain = Some enc"
    "length enc = length plain" "pr_cipher (cprovider ctx) 0 (c_key c) (take (nat (iv_sz ctx)) rnd) enc = Some plain"
    using seal_page_ok [OF ok c p r] .
  let ?iv = "take (nat (iv_sz ctx)) rnd"
  have n: "length rnd = nat (reserve_sz ctx)" "nat (iv_sz ctx) \<le> length rnd"
    using r sz(3,4,6,11) by (auto split: if_splits)
  have "open_page ctx c pgno page = Some plain \<and> int (length page) = int (length plain) + reserve_sz ctx"
  proof (cases "flag_get (cflags ctx) CIPHER_FLAG_HMAC")
    case False
    then have "page = enc @ rnd" using s e by (simp add: seal_page_def Let_def)
    then show ?thesis using False e n r by (simp add: open_page_def page_iv_def)
  next
    case True
    with s e obtain m where
      m: "pr_hmac (cprovider ctx) (hmac_algorithm ctx) (c_hmac_key c) (enc @ ?iv) (pgno_raw ctx pgno) = Some m"
      and pg: "page = enc @ ?iv @ m @ drop (length m) (drop (nat (iv_sz ctx)) rnd)"
      by (auto simp: seal_page_def Let_def split: bind_splits)
    have lm: "length m = nat (hmac_sz ctx)" using provider_ok_hmac [OF d(1) m] d(10) by simp
    have le: "nat (iv_sz ctx) + length m \<le> length rnd" using True sz(3,4,6,11) n lm by simp
    have lp: "length page = length enc + length rnd" using le by (simp add: pg)
    have "page_mac ctx c pgno page = Some m" using m n lp by (simp add: page_mac_def pg)
    moreover have "stored_mac ctx page = m" using n lp lm le by (simp add: stored_mac_def pg)
    moreover have "page_iv ctx page = ?iv" using n lp by (simp add: page_iv_def pg)
    moreover have "take (length page - nat (reserve_sz ctx)) page = enc" using n lp by (simp add: pg)
    ultimately show ?thesis using e lp r by (simp add: open_page_def)
  qed
  then show "open_page ctx c pgno page = Some plain" "int (length page) = int (length plain) + reserve_sz ctx" by auto
qed
lemma page_cipher_error_eq:
  assumes "0 \<le> ooff" "0 \<le> psz" "ooff + psz \<le> int (length out)" "mem_write out p xs = Some out1"
    "ooff \<le> p" "p + int (length xs) \<le> ooff + psz"
  shows "page_cipher_error psz out1 ooff w = page_cipher_error psz out ooff w"
proof -
  have "mem_write out1 ooff (replicate (nat psz) 0) = mem_write out ooff (replicate (nat psz) 0)"
    using assms by (intro mem_write_cover [OF assms(4)]) simp_all
  then show ?thesis using assms(2) by (simp add: page_cipher_error_def sqlcipher_memset_def)
qed

lemma page_encrypt_refines:
  assumes ok: "codec_ok ctx" and c: "cipher_ok ctx c" and g: "page_geom ctx psz inp ioff out ooff"
  defines "plain \<equiv> page_at inp ioff (psz - reserve_sz ctx)"
  shows "page_encrypt ctx c pgno psz inp ioff out ooff w =
    (case pr_random (cprovider ctx) (w_rand w) (reserve_sz ctx) of
       (None, r') \<Rightarrow> page_cipher_error psz out ooff (w\<lparr>w_rand := r'\<rparr>)
     | (Some rnd, r') \<Rightarrow>
         (case seal_page ctx c pgno plain rnd of
            None \<Rightarrow> page_cipher_error psz out ooff (w\<lparr>w_rand := r'\<rparr>)
          | Some page \<Rightarrow> do { out' \<leftarrow> mem_write out ooff page; Some (SQLITE_OK, out', w\<lparr>w_rand := r'\<rparr>) }))"
proof -
  note d = codec_okD [OF ok] and sz = codec_ok_sizes [OF ok]
  obtain rnd r' where R: "pr_random (cprovider ctx) (w_rand w) (reserve_sz ctx) = (rnd, r')" by fastforce
  show ?thesis
  proof (cases rnd)
    case None
    then show ?thesis using R by (simp add: page_encrypt_def Let_def)
  next
    case (Some rn)
    let ?sz = "psz - reserve_sz ctx" and ?w = "w\<lparr>w_rand := r'\<rparr>"
    have lr: "int (length rn) = reserve_sz ctx" using provider_ok_random [OF d(1)] R Some by blast
    have b: "0 \<le> ?sz" "0 \<le> ioff" "ioff + psz \<le> int (length inp)" "0 \<le> ooff" "ooff + psz \<le> int (length out)"
      using g by (auto simp: page_geom_def)
    have lp: "int (length plain) = ?sz" using b sz(9) by (simp add: plain_def length_page_at)
    then have nl: "nat ?sz = length plain" by simp
    have bd: "block_sz ctx dvd int (length plain)" using g sz(8) lp by (simp add: page_geom_def)
    have rd: "mem_read inp ioff ?sz = Some plain" using b sz(9) by (simp add: plain_def page_at_read)
    obtain enc where e: "pr_cipher (cprovider ctx) 1 (c_key c) (take (nat (iv_sz ctx)) rn) plain = Some enc"
      "length enc = length plain" using seal_page_ok [OF ok c bd lr] .
    let ?iv = "take (nat (iv_sz ctx)) rn"
    have ivl: "0 \<le> iv_sz ctx" "iv_sz ctx \<le> reserve_sz ctx" using sz(3,4,6,11) by (auto split: if_splits)
    obtain out1 where o1: "mem_write out (ooff + ?sz) rn = Some out1"
      using mem_write_defined [of out "ooff + ?sz" rn] b lr by auto
    have iv: "mem_read out1 (ooff + ?sz) (iv_sz ctx) = Some ?iv"
      using mem_read_sub [OF mem_read_write_same [OF o1], of 0 "iv_sz ctx"] ivl lr by simp
    have key: "mem_read (c_key c) 0 (key_sz ctx) = Some (c_key c)" "mem_read (c_hmac_key c) 0 (key_sz ctx) = Some (c_hmac_key c)"
      using mem_read_all [of "c_key c"] mem_read_all [of "c_hmac_key c"] c by (simp_all add: cipher_ok_def)
    have w2: "mem_write out1 ooff enc = mem_write out ooff (enc @ rn)"
      using mem_write_prepend [OF b(4), of out enc rn] o1 e(2) lp by simp
    obtain out2 where o2: "mem_write out ooff (enc @ rn) = Some out2"
      using mem_write_defined [of out ooff "enc @ rn"] b lr e(2) lp by auto
    have mrd: "mem_read out2 ooff (?sz + iv_sz ctx) = Some (enc @ ?iv)"
      using mem_read_sub [OF mem_read_write_same [OF o2], of 0 "?sz + iv_sz ctx"] ivl lr e(2) lp b
      by (simp add: nat_add_distrib nl)
    have err: "page_cipher_error psz out2 ooff ?w = page_cipher_error psz out ooff ?w"
      using page_cipher_error_eq [OF b(4) _ b(5) o2] b sz(9) lr e(2) lp by simp
    note run = page_encrypt_def seal_page_def Let_def R Some o1 key iv rd e(1) w2 o2 sqlcipher_page_hmac_def mrd
    show ?thesis
    proof (cases "flag_get (cflags ctx) CIPHER_FLAG_HMAC")
      case False
      then show ?thesis by (simp add: run)
    next
      case True
      show ?thesis
      proof (cases "pr_hmac (cprovider ctx) (hmac_algorithm ctx) (c_hmac_key c) (enc @ ?iv) (pgno_raw ctx pgno)")
        case None
        then show ?thesis using True err by (simp add: run)
      next
        case (Some m)
        have lm: "length m = nat (hmac_sz ctx)" using provider_ok_hmac [OF d(1) Some] d(10) by simp
        have w3: "mem_write out2 (ooff + ?sz + iv_sz ctx) m = mem_write out ooff ((enc @ ?iv) @ m @ drop (length m) (drop (nat (iv_sz ctx)) rn))"
          using mem_write_inside [OF b(4), of m "drop (nat (iv_sz ctx)) rn" out "enc @ ?iv"] True sz(11,6) lm lr ivl o2 e(2) lp
          by (simp add: add.assoc)
        then show ?thesis using True Some by (simp add: run)
      qed
    qed
  qed
qed

lemma page_parts:
  assumes ok: "codec_ok ctx" and g: "page_geom ctx psz inp ioff out ooff"
  defines "page \<equiv> page_at inp ioff psz" and "sz \<equiv> psz - reserve_sz ctx"
  shows "mem_read inp ioff sz = Some (take (length page - nat (reserve_sz ctx)) page)"
    "mem_read inp (ioff + sz) (iv_sz ctx) = Some (page_iv ctx page)"
    "mem_read inp ioff (sz + iv_sz ctx) = Some (take (length page - nat (reserve_sz ctx) + nat (iv_sz ctx)) page)"
    "mem_read inp ioff psz = Some page"
    "flag_get (cflags ctx) CIPHER_FLAG_HMAC \<Longrightarrow>
       mem_read inp (ioff + sz + iv_sz ctx) (hmac_sz ctx) = Some (stored_mac ctx page)"
    "int (length page) = psz" "int (length (page_iv ctx page)) = iv_sz ctx"
    "int (length (take (length page - nat (reserve_sz ctx)) page)) = sz" "0 \<le> sz"
proof -
  note s = codec_ok_sizes [OF ok]
  have b: "0 \<le> sz" "0 \<le> ioff" "ioff + psz \<le> int (length inp)" "0 < psz" "psz = sz + reserve_sz ctx"
    using g s(9) by (auto simp: page_geom_def sz_def)
  have iv: "0 \<le> iv_sz ctx" "iv_sz ctx \<le> reserve_sz ctx" using s(3,4,6,11) by (auto split: if_splits)
  have lp: "length page = nat psz" using b by (simp add: page_def length_page_at)
  have n: "length page - nat (reserve_sz ctx) = nat sz" using b lp s(9) by (simp add: nat_diff_distrib [symmetric])
  have le: "sz \<le> psz" "sz + iv_sz ctx \<le> psz" using b(5) iv s(9) by simp_all
  have hle: "sz + iv_sz ctx + hmac_sz ctx \<le> psz" if "flag_get (cflags ctx) CIPHER_FLAG_HMAC"
    using b(5) s(11) that by simp
  show "0 \<le> sz" by (rule b)
  show "int (length page) = psz" using lp b by simp
  show "mem_read inp ioff psz = Some page" using b by (simp add: page_def page_at_read)
  show "mem_read inp ioff sz = Some (take (length page - nat (reserve_sz ctx)) page)"
    using page_at_sub [of ioff 0 sz psz inp] b(1-3) le by (simp add: n flip: page_def)
  show "mem_read inp (ioff + sz) (iv_sz ctx) = Some (page_iv ctx page)"
    using page_at_sub [of ioff sz "iv_sz ctx" psz inp] b(1-3) le iv by (simp add: n page_iv_def flip: page_def)
  show "mem_read inp ioff (sz + iv_sz ctx) = Some (take (length page - nat (reserve_sz ctx) + nat (iv_sz ctx)) page)"
    using page_at_sub [of ioff 0 "sz + iv_sz ctx" psz inp] b(1-3) le iv by (simp add: n nat_add_distrib flip: page_def)
  show "mem_read inp (ioff + sz + iv_sz ctx) (hmac_sz ctx) = Some (stored_mac ctx page)"
    if "flag_get (cflags ctx) CIPHER_FLAG_HMAC"
    using page_at_sub [of ioff "sz + iv_sz ctx" "hmac_sz ctx" psz inp] b(1-3) hle [OF that] iv s(6)
    by (simp add: n stored_mac_def nat_add_distrib add.assoc flip: page_def)
  show "int (length (page_iv ctx page)) = iv_sz ctx" using b iv n lp by (simp add: page_iv_def)
  show "int (length (take (length page - nat (reserve_sz ctx)) page)) = sz" using b n lp s(9) by simp
qed

text \<open>
  The pages a decryption accepts although their HMAC does not match: all zero, in an auto-vacuum
  database (a read past the end of the file).
\<close>

definition short_read_page :: "'r codec_ctx \<Rightarrow> cipher_ctx \<Rightarrow> pgno \<Rightarrow> byte list \<Rightarrow> 'r world \<Rightarrow> bool" where
  "short_read_page ctx c pgno page w \<longleftrightarrow>
     flag_get (cflags ctx) CIPHER_FLAG_HMAC \<and> page_mac ctx c pgno page \<noteq> None \<and>
     page_mac ctx c pgno page \<noteq> Some (stored_mac ctx page) \<and>
     w_autovacuum w \<noteq> BTREE_AUTOVACUUM_NONE \<and> page = replicate (length page) 0"

lemma page_decrypt_block_eq:
  assumes ok: "codec_ok ctx" and c: "cipher_ok ctx c" and g: "page_geom ctx psz inp ioff out ooff"
    and w: "mem_write out (ooff + (psz - reserve_sz ctx)) (page_iv ctx (page_at inp ioff psz) @ m) = Some out1"
  shows "\<exists>plain. pr_cipher (cprovider ctx) CIPHER_DECRYPT (c_key c) (page_iv ctx (page_at inp ioff psz))
             (take (length (page_at inp ioff psz) - nat (reserve_sz ctx)) (page_at inp ioff psz)) = Some plain \<and>
           int (length plain) = psz - reserve_sz ctx \<and>
           page_decrypt_block ctx c psz inp ioff out1 ooff wo = do {
             out' \<leftarrow> mem_write out ooff (plain @ page_iv ctx (page_at inp ioff psz) @ m);
             Some (SQLITE_OK, out', wo) }"
proof -
  note d = codec_okD [OF ok] and s = codec_ok_sizes [OF ok] and p = page_parts [OF ok g]
  let ?page = "page_at inp ioff psz" and ?sz = "psz - reserve_sz ctx"
  let ?enc = "take (length ?page - nat (reserve_sz ctx)) ?page"
  have k: "int (length (c_key c)) = pr_get_key_sz (cprovider ctx)" using c d(2) by (simp add: cipher_ok_def)
  have iv: "int (length (page_iv ctx ?page)) = pr_get_iv_sz (cprovider ctx)" using p(7) d(3) by simp
  have "pr_get_block_sz (cprovider ctx) dvd int (length ?enc)"
    using p(8) g s(8) d(4) by (simp add: page_geom_def)
  from provider_ok_cipher [OF d(1) k iv this, of 0]
  obtain plain where pl: "pr_cipher (cprovider ctx) 0 (c_key c) (page_iv ctx ?page) ?enc = Some plain"
    "length plain = length ?enc" by blast
  have key: "mem_read (c_key c) 0 (key_sz ctx) = Some (c_key c)"
    using mem_read_all [of "c_key c"] c by (simp add: cipher_ok_def)
  have iv1: "mem_read out1 (ooff + ?sz) (iv_sz ctx) = Some (page_iv ctx ?page)"
    using mem_read_sub [OF mem_read_write_same [OF w], of 0 "int (length (page_iv ctx ?page))"]
    unfolding p(7) [symmetric] by simp
  have o0: "0 \<le> ooff" using g by (simp add: page_geom_def)
  have "mem_write out1 ooff plain = mem_write out ooff (plain @ page_iv ctx ?page @ m)"
    using mem_write_prepend [OF o0, of out plain "page_iv ctx ?page @ m"] w pl(2) p(8) by simp
  with pl key iv1 p(1,8) show ?thesis by (simp add: page_decrypt_block_def Let_def)
qed

lemma page_decrypt_refines:
  assumes ok: "codec_ok ctx" and c: "cipher_ok ctx c" and g: "page_geom ctx psz inp ioff out ooff"
  defines "page \<equiv> page_at inp ioff psz"
  shows "page_decrypt ctx c pgno psz inp ioff out ooff w =
    (case open_page ctx c pgno page of
       Some plain \<Rightarrow> do {
         out' \<leftarrow> mem_write out ooff (plain @ page_iv ctx page @
                   (if flag_get (cflags ctx) CIPHER_FLAG_HMAC then stored_mac ctx page else []));
         Some (SQLITE_OK, out', w) }
     | None \<Rightarrow>
         if short_read_page ctx c pgno page w
         then do { out' \<leftarrow> sqlcipher_memset out ooff 0 psz; Some (SQLITE_OK, out', w) }
         else page_cipher_error psz out ooff w)"
proof -
  note d = codec_okD [OF ok] and s = codec_ok_sizes [OF ok] and p = page_parts [OF ok g, folded page_def]
  let ?sz = "psz - reserve_sz ctx" and ?iv = "page_iv ctx page" and ?st = "stored_mac ctx page"
  have b: "0 \<le> ooff" "ooff + psz \<le> int (length out)" "0 \<le> psz" using g s(9) p(9) by (auto simp: page_geom_def)
  have ivl: "iv_sz ctx \<le> reserve_sz ctx" using s(6,11) by (auto split: if_splits)
  obtain out1 where o1: "mem_write out (ooff + ?sz) ?iv = Some out1"
    using mem_write_defined [of out "ooff + ?sz" ?iv] b p(7,9) ivl by auto
  have cp: "memcpy out (ooff + ?sz) inp (ioff + ?sz) (iv_sz ctx) = Some out1" using p(2) o1 by (simp add: memcpy_def)
  have hk: "mem_read (c_hmac_key c) 0 (key_sz ctx) = Some (c_hmac_key c)"
    using mem_read_all [of "c_hmac_key c"] c by (simp add: cipher_ok_def)
  note run = page_decrypt_def Let_def cp sqlcipher_page_hmac_def hk p(3)
  show ?thesis
  proof (cases "flag_get (cflags ctx) CIPHER_FLAG_HMAC")
    case False
    have "mem_write out (ooff + ?sz) (page_iv ctx (page_at inp ioff psz) @ []) = Some out1" using o1 by (simp add: page_def)
    from page_decrypt_block_eq [OF ok c g this, of w, folded page_def] False
    show ?thesis by (auto simp: run open_page_def)
  next
    case True
    show ?thesis
    proof (cases "page_mac ctx c pgno page")
      case None
      have "page_cipher_error psz out1 ooff w = page_cipher_error psz out ooff w"
        by (rule page_cipher_error_eq [OF b(1,3,2) o1]) (use p(7,9) ivl in simp_all)
      with None True show ?thesis by (simp add: run open_page_def short_read_page_def page_mac_def)
    next
      case (Some m)
      then have lm: "int (length m) = hmac_sz ctx" using provider_ok_hmac [OF d(1)] d(10) by (simp add: page_mac_def)
      have hl: "iv_sz ctx + hmac_sz ctx \<le> reserve_sz ctx" using s(11) True by simp
      have w2: "mem_write out1 (ooff + ?sz + iv_sz ctx) m = mem_write out (ooff + ?sz) (?iv @ m)"
        using mem_write_overwrite [of "[]" m out "ooff + ?sz" ?iv] o1 p(7) by simp
      obtain out2 where o2: "mem_write out (ooff + ?sz) (?iv @ m) = Some out2"
        using mem_write_defined [of out "ooff + ?sz" "?iv @ m"] b p(7,9) hl lm by auto
      have "mem_read out2 (ooff + ?sz + iv_sz ctx) (hmac_sz ctx) = Some m"
        using mem_read_sub [OF mem_read_write_same [OF o2], of "int (length ?iv)" "int (length m)"]
        unfolding p(7) lm by (simp add: p(7) lm flip: p(7) lm)
      with p(5) [OF True] have cmp: "sqlcipher_memcmp inp (ioff + ?sz + iv_sz ctx) out2 (ooff + ?sz + iv_sz ctx) (hmac_sz ctx)
          = Some (if ?st = m then 0 else 1)" by (rule sqlcipher_memcmp_iff)
      have z: "sqlcipher_ismemset inp ioff 0 psz = Some (if page = replicate (length page) 0 then 0 else 1)"
        using p(4) by (rule sqlcipher_ismemset_iff)
      have rng: "ooff \<le> ooff + ?sz" "ooff + ?sz + int (length (?iv @ m)) \<le> ooff + psz" using p(7,9) hl lm by simp_all
      have err: "page_cipher_error psz out2 ooff w = page_cipher_error psz out ooff w"
        by (rule page_cipher_error_eq [OF b(1,3,2) o2 rng])
      have mz: "sqlcipher_memset out2 ooff 0 psz = sqlcipher_memset out ooff 0 psz"
        using mem_write_cover [OF o2 rng(1)] rng(2) b by (simp add: sqlcipher_memset_def)
      have blk: "page_decrypt_block ctx c psz inp ioff out2 ooff w = (case open_page ctx c pgno page of
            Some plain \<Rightarrow> do { out' \<leftarrow> mem_write out ooff (plain @ ?iv @ ?st); Some (0, out', w) } | None \<Rightarrow> None)" if "?st = m"
        using page_decrypt_block_eq [OF ok c g o2 [unfolded page_def], of w, folded page_def] that Some True
        by (auto simp: open_page_def)
      have op: "(open_page ctx c pgno page = None) = (?st \<noteq> m)"
        using page_decrypt_block_eq [OF ok c g o2 [unfolded page_def], of w, folded page_def] Some True
        by (auto simp: open_page_def)
      have mac: "pr_hmac (cprovider ctx) (hmac_algorithm ctx) (c_hmac_key c)
          (take (length page - nat (reserve_sz ctx) + nat (iv_sz ctx)) page) (pgno_raw ctx pgno) = Some m"
        using Some by (simp add: page_mac_def)
      show ?thesis
      proof (cases "?st = m")
        case True
        then obtain plain where "open_page ctx c pgno page = Some plain" using op by auto
        then show ?thesis using True \<open>flag_get _ _\<close> blk [OF True] by (simp add: run mac w2 o2 cmp)
      next
        case False
        then show ?thesis using op \<open>flag_get _ _\<close> Some err mz
          by (auto simp: run mac w2 o2 cmp z short_read_page_def)
      qed
    qed
  qed
qed

section \<open>Properties\<close>

lemma mem_write_frame:
  assumes "mem_write b off xs = Some b'"
  shows "length b' = length b" "take (nat off) b' = take (nat off) b"
    "drop (nat (off + int (length xs))) b' = drop (nat (off + int (length xs))) b"
    "page_at b' off (int (length xs)) = xs"
  using assms by (auto simp: mem_write_def page_at_def nat_add_distrib split: if_splits)

text \<open>Only the page is written: everything before and after it in the output buffer stays.\<close>

definition only_page :: "byte list \<Rightarrow> byte list \<Rightarrow> int \<Rightarrow> int \<Rightarrow> bool" where
  "only_page out out' off n \<longleftrightarrow>
     length out' = length out \<and> take (nat off) out' = take (nat off) out \<and>
     drop (nat (off + n)) out' = drop (nat (off + n)) out"

lemma only_page_write:
  assumes "mem_write b off xs = Some b'" "int (length xs) \<le> n" "0 \<le> off" "off + n \<le> int (length b)"
  shows "only_page b b' off n"
proof -
  note f = mem_write_frame [OF assms(1)]
  have "drop (nat (off + n)) b' = drop (nat (n - int (length xs))) (drop (nat (off + int (length xs))) b')"
    using assms by (simp add: nat_add_distrib [symmetric] add.commute)
  also have "\<dots> = drop (nat (off + n)) b" unfolding f(3) using assms by (simp add: nat_add_distrib [symmetric] add.commute)
  finally show ?thesis using f by (simp add: only_page_def)
qed

lemma page_cipher_error_some:
  assumes "0 \<le> off" "0 \<le> n" "off + n \<le> int (length out)"
  shows "\<exists>out'. page_cipher_error n out off w = Some (SQLITE_ERROR, out', w) \<and>
           sqlcipher_memset out off 0 n = Some out' \<and> only_page out out' off n \<and> page_at out' off n = replicate (nat n) 0"
proof -
  obtain out' where o: "mem_write out off (replicate (nat n) 0) = Some out'"
    using mem_write_defined [of out off "replicate (nat n) 0"] assms by auto
  from mem_write_frame(4) [OF o] only_page_write [OF o _ assms(1,3)] o assms show ?thesis
    by (simp add: page_cipher_error_def sqlcipher_memset_def)
qed

lemma page_cipher_total:
  assumes ok: "codec_ok ctx" and g: "page_geom ctx psz inp ioff out ooff"
  shows "\<exists>rc out' w'. sqlcipher_page_cipher ctx for_ctx pgno mode psz inp ioff out ooff w = Some (rc, out', w') \<and>
           rc \<in> {SQLITE_OK, SQLITE_ERROR} \<and> only_page out out' ooff psz \<and>
           (rc = SQLITE_ERROR \<longrightarrow> page_at out' ooff psz = replicate (nat psz) 0)"
proof -
  note sz = codec_ok_sizes [OF ok] and p = page_parts [OF ok g]
  have b: "0 \<le> ooff" "0 \<le> psz" "ooff + psz \<le> int (length out)" using g sz(9) by (auto simp: page_geom_def)
  obtain r wr where rw: "read_ctx ctx = Some r" "write_ctx ctx = Some wr" "cipher_ok ctx r" "cipher_ok ctx wr"
    using codec_ok_ctxs [OF ok] .
  obtain c where c: "(if for_ctx \<noteq> 0 then write_ctx ctx else read_ctx ctx) = Some c" "cipher_ok ctx c"
    using rw by (cases "for_ctx = 0") auto
  note err = page_cipher_error_some [OF b]
  have wr: "\<exists>ob. mem_write out ooff xs = Some ob \<and> only_page out ob ooff psz" if "int (length xs) \<le> psz" for xs
    using mem_write_defined [of out ooff xs] only_page_write [of out ooff xs _ psz] that b by fastforce
  show ?thesis
  proof (cases "mode = 1")
    case True
    let ?plain = "page_at inp ioff (psz - reserve_sz ctx)"
    have lp: "int (length ?plain) = psz - reserve_sz ctx" using g sz(9) by (simp add: length_page_at page_geom_def)
    have bd: "block_sz ctx dvd int (length ?plain)" using g sz(8) lp by (simp add: page_geom_def)
    obtain rnd r' where R: "pr_random (cprovider ctx) (w_rand w) (reserve_sz ctx) = (rnd, r')" by fastforce
    have len: "int (length page) = psz" if "rnd = Some rn" "seal_page ctx c pgno ?plain rn = Some page" for rn page
      using open_seal(2) [OF ok c(2) bd _ that(2)] provider_ok_random [OF codec_okD(1) [OF ok]] R that(1) lp by fastforce
    have sealed: "\<exists>ob. mem_write out ooff page = Some ob \<and> only_page out ob ooff psz"
      if "rnd = Some rn" "seal_page ctx c pgno ?plain rn = Some page" for rn page
      using wr len [OF that] by simp
    show ?thesis using c True sz(1) R err [of "w\<lparr>w_rand := r'\<rparr>"]
      by (auto simp: sqlcipher_page_cipher_def page_encrypt_refines [OF ok c(2) g] dest: sealed split: option.split)
  next
    case False
    let ?page = "page_at inp ioff psz"
    have len: "int (length plain) = psz - reserve_sz ctx" if "open_page ctx c pgno ?page = Some plain" for plain
    proof -
      have "\<exists>o1. mem_write out (ooff + (psz - reserve_sz ctx)) (page_iv ctx ?page @ []) = Some o1"
        using mem_write_defined [of out "ooff + (psz - reserve_sz ctx)" "page_iv ctx ?page"] b p(7,9) sz(6,11)
        by (auto split: if_splits)
      then obtain o1 where "mem_write out (ooff + (psz - reserve_sz ctx)) (page_iv ctx ?page @ []) = Some o1" ..
      from page_decrypt_block_eq [OF ok c(2) g this, of w] that show ?thesis by (auto simp: open_page_def split: if_splits)
    qed
    have ml: "int (length (stored_mac ctx ?page)) \<le> hmac_sz ctx" using sz(6) by (simp add: stored_mac_def)
    have fit: "int (length (plain @ page_iv ctx ?page @ (if flag_get (cflags ctx) CIPHER_FLAG_HMAC then stored_mac ctx ?page else []))) \<le> psz"
      if "open_page ctx c pgno ?page = Some plain" for plain
      using len [OF that] ml p(7) sz(11) by (auto split: if_splits)
    show ?thesis using c False sz(1) err [of w]
      by (auto simp: sqlcipher_page_cipher_def page_decrypt_refines [OF ok c(2) g] dest!: wr [OF fit] split: option.split)
  qed
qed

text \<open>C4. Memory safety of the page cipher: for a well-formed context and a page of whole cipher blocks
  that lies inside its two buffers, encryption and decryption never access memory out of bounds
  (whatever the page contains and whatever the provider returns), write only the page in the output
  buffer, return \<open>SQLITE_OK\<close> or \<open>SQLITE_ERROR\<close>, and on \<open>SQLITE_ERROR\<close> the page in the output
  buffer is all zero, so that no unauthenticated plaintext is left there.
\<close>

theorem page_cipher_safe:
  assumes ok: "codec_ok ctx" and g: "page_geom ctx psz inp ioff out ooff"
  shows "\<exists>rc out' w'. sqlcipher_page_cipher ctx for_ctx pgno mode psz inp ioff out ooff w = Some (rc, out', w') \<and>
           rc \<in> {SQLITE_OK, SQLITE_ERROR} \<and> only_page out out' ooff psz \<and>
           (rc = SQLITE_ERROR \<longrightarrow> page_at out' ooff psz = replicate (nat psz) 0)"
  using assms by (rule page_cipher_total)

lemma page_at_write_prefix: "mem_write b off (xs @ ys) = Some b' \<Longrightarrow> page_at b' off (int (length xs)) = xs"
  by (auto simp: mem_write_def page_at_def split: if_splits)

lemma demo_geom: "page_geom demo_ctx 512 (replicate 512 x) 0 (replicate 512 y) 0"
  by (simp add: page_geom_def demo_ctx_def)

theorem page_cipher_safe_witness:
  "\<exists>rc out' w'. sqlcipher_page_cipher demo_ctx 0 2 0 512 (replicate 512 1) 0 (replicate 512 0) 0 demo_world
       = Some (rc, out', w') \<and> rc \<in> {SQLITE_OK, SQLITE_ERROR} \<and> only_page (replicate 512 0) out' 0 512 \<and>
     (rc = SQLITE_ERROR \<longrightarrow> page_at out' 0 512 = replicate (nat 512) 0)"
  by (rule page_cipher_safe [OF demo_ctx_ok(1) demo_geom])

lemma encrypt_result:
  assumes ok: "codec_ok ctx" and c: "write_ctx ctx = Some wr" and g: "page_geom ctx psz inp ioff out ooff"
    and enc: "sqlcipher_page_cipher ctx 1 pgno CIPHER_ENCRYPT psz inp ioff out ooff w = Some (SQLITE_OK, out', w')"
  obtains rnd where "int (length rnd) = reserve_sz ctx"
    "seal_page ctx wr pgno (page_at inp ioff (psz - reserve_sz ctx)) rnd = Some (page_at out' ooff psz)"
    "open_page ctx wr pgno (page_at out' ooff psz) = Some (page_at inp ioff (psz - reserve_sz ctx))"
    "length out' = length out"
proof -
  note sz = codec_ok_sizes [OF ok]
  have cw: "cipher_ok ctx wr" using ok c by (auto elim: codec_ok_ctxs)
  let ?plain = "page_at inp ioff (psz - reserve_sz ctx)"
  have b: "0 \<le> ooff" "0 \<le> psz" "ooff + psz \<le> int (length out)" using g sz(9) by (auto simp: page_geom_def)
  have lp: "int (length ?plain) = psz - reserve_sz ctx" using g sz(9) by (simp add: length_page_at page_geom_def)
  have bd: "block_sz ctx dvd int (length ?plain)" using g sz(8) lp by (simp add: page_geom_def)
  have ne: "page_cipher_error psz out ooff x \<noteq> Some (0, out', y)" for x y
    by (auto simp: page_cipher_error_def split: bind_splits)
  obtain rnd r' page where R: "pr_random (cprovider ctx) (w_rand w) (reserve_sz ctx) = (Some rnd, r')"
      and s: "seal_page ctx wr pgno ?plain rnd = Some page" and m: "mem_write out ooff page = Some out'"
    using enc c sz(1) ne
    by (auto simp: sqlcipher_page_cipher_def page_encrypt_refines [OF ok cw g] split: prod.splits option.splits bind_splits)
  have lr: "int (length rnd) = reserve_sz ctx" using provider_ok_random [OF codec_okD(1) [OF ok] R] .
  note o = open_seal [OF ok cw bd lr s]
  have pg: "page_at out' ooff psz = page" using mem_write_frame(4) [OF m] o(2) lp by simp
  show ?thesis by (rule that [OF lr]) (use s o pg mem_write_frame(1) [OF m] in simp_all)
qed

text \<open>
  Page round trip: a page encrypted with the write context decrypts, with a read context that
  holds the same keys and under the same page number, to \<open>SQLITE_OK\<close> and the original plaintext,
  into any output buffer and whatever random vector and filler the encryption used.
\<close>

theorem page_cipher_roundtrip:
  assumes ok: "codec_ok ctx" and rw: "read_ctx ctx = Some r" "write_ctx ctx = Some wr"
    and keys: "c_key r = c_key wr" "c_hmac_key r = c_hmac_key wr"
    and g: "page_geom ctx psz inp ioff out ooff" and dst: "0 \<le> doff" "doff + psz \<le> int (length dst)"
    and enc: "sqlcipher_page_cipher ctx 1 pgno CIPHER_ENCRYPT psz inp ioff out ooff w = Some (SQLITE_OK, out', w')"
  shows "\<exists>dst'. sqlcipher_page_cipher ctx 0 pgno CIPHER_DECRYPT psz out' ooff dst doff w'' = Some (SQLITE_OK, dst', w'') \<and>
           page_at dst' doff (psz - reserve_sz ctx) = page_at inp ioff (psz - reserve_sz ctx)"
proof -
  note sz = codec_ok_sizes [OF ok]
  let ?plain = "page_at inp ioff (psz - reserve_sz ctx)" and ?page = "page_at out' ooff psz"
  obtain rnd where e: "open_page ctx wr pgno ?page = Some ?plain" "length out' = length out"
    using encrypt_result [OF ok rw(2) g enc] by blast
  have o: "open_page ctx r pgno ?page = Some ?plain"
    using e(1) unfolding open_page_def page_mac_def keys .
  have cr: "cipher_ok ctx r" using ok rw by (auto elim: codec_ok_ctxs)
  have g2: "page_geom ctx psz out' ooff dst doff" using g dst e(2) by (simp add: page_geom_def)
  obtain dst' w3 where s: "sqlcipher_page_cipher ctx 0 pgno 0 psz out' ooff dst doff w'' = Some (0, dst', w3)"
    using page_cipher_total [OF ok g2, of 0 pgno 0 w''] o cr rw sz(1)
    by (auto simp: sqlcipher_page_cipher_def page_decrypt_refines [OF ok cr g2] split: bind_splits)
  then obtain rest where m: "mem_write dst doff (?plain @ rest) = Some dst'" and w3: "w3 = w''"
    using o rw(1) sz(1) by (auto simp: sqlcipher_page_cipher_def page_decrypt_refines [OF ok cr g2] split: bind_splits)
  have lp: "int (length ?plain) = psz - reserve_sz ctx" using g sz(9) by (simp add: length_page_at page_geom_def)
  have "page_at dst' doff (psz - reserve_sz ctx) = ?plain"
    using page_at_write_prefix [OF m] by (simp only: lp)
  with s w3 show ?thesis by blast
qed

lemma page_decrypt_ok_iff:
  assumes ok: "codec_ok ctx" and r: "read_ctx ctx = Some r" and h: "flag_get (cflags ctx) CIPHER_FLAG_HMAC"
    and g: "page_geom ctx psz inp ioff out ooff"
    and dec: "sqlcipher_page_cipher ctx 0 pgno CIPHER_DECRYPT psz inp ioff out ooff w = Some (rc, out', w')"
  shows "(rc = SQLITE_OK \<longleftrightarrow>
           page_mac ctx r pgno (page_at inp ioff psz) = Some (stored_mac ctx (page_at inp ioff psz)) \<or>
           short_read_page ctx r pgno (page_at inp ioff psz) w) \<and>
         (short_read_page ctx r pgno (page_at inp ioff psz) w \<longrightarrow> page_at out' ooff psz = replicate (nat psz) 0)"
proof -
  note sz = codec_ok_sizes [OF ok] and p = page_parts [OF ok g]
  let ?page = "page_at inp ioff psz"
  have cr: "cipher_ok ctx r" using ok r by (auto elim: codec_ok_ctxs)
  have b: "0 \<le> ooff" "0 \<le> psz" "ooff + psz \<le> int (length out)" using g sz(9) by (auto simp: page_geom_def)
  have op: "open_page ctx r pgno ?page \<noteq> None" if "page_mac ctx r pgno ?page = Some (stored_mac ctx ?page)"
  proof -
    obtain o1 where "mem_write out (ooff + (psz - reserve_sz ctx)) (page_iv ctx ?page @ []) = Some o1"
      using mem_write_defined [of out "ooff + (psz - reserve_sz ctx)" "page_iv ctx ?page"] b p(7,9) sz(6,11)
      by (auto split: if_splits)
    from page_decrypt_block_eq [OF ok cr g this, of w] that show ?thesis by (auto simp: open_page_def)
  qed
  have op2: "open_page ctx r pgno ?page = None" if "page_mac ctx r pgno ?page \<noteq> Some (stored_mac ctx ?page)"
    using that h by (simp add: open_page_def)
  have e: "page_decrypt ctx r pgno psz inp ioff out ooff w = Some (rc, out', w')"
    using dec r sz(1) by (simp add: sqlcipher_page_cipher_def)
  note err = page_cipher_error_some [OF b, of w]
  have "rc = 0 \<longleftrightarrow> page_mac ctx r pgno ?page = Some (stored_mac ctx ?page) \<or> short_read_page ctx r pgno ?page w"
    using e op op2 err unfolding page_decrypt_refines [OF ok cr g]
    by (cases "page_mac ctx r pgno ?page = Some (stored_mac ctx ?page)")
      (auto split: option.splits bind_splits if_splits)
  moreover have "page_at out' ooff psz = replicate (nat psz) 0" if s: "short_read_page ctx r pgno ?page w"
  proof -
    have "open_page ctx r pgno ?page = None" using s op2 by (simp add: short_read_page_def)
    with e err s show ?thesis unfolding page_decrypt_refines [OF ok cr g] by (auto split: bind_splits)
  qed
  ultimately show ?thesis by blast
qed

text \<open>
  C2.  Authenticity: with the HMAC enabled, decryption of a page succeeds exactly when the HMAC
  stored in the page equals the one computed over ciphertext, vector and page number, or when the
  database is in auto-vacuum mode and the page is entirely zero (a read past the end of the file),
  in which case the output page is zero as well.
\<close>

theorem page_cipher_authentic:
  assumes ok: "codec_ok ctx" and r: "read_ctx ctx = Some r" and h: "flag_get (cflags ctx) CIPHER_FLAG_HMAC"
    and g: "page_geom ctx psz inp ioff out ooff"
    and dec: "sqlcipher_page_cipher ctx 0 pgno CIPHER_DECRYPT psz inp ioff out ooff w = Some (rc, out', w')"
  shows "(rc = SQLITE_OK \<longleftrightarrow>
           page_mac ctx r pgno (page_at inp ioff psz) = Some (stored_mac ctx (page_at inp ioff psz)) \<or>
           short_read_page ctx r pgno (page_at inp ioff psz) w) \<and>
         (short_read_page ctx r pgno (page_at inp ioff psz) w \<longrightarrow> page_at out' ooff psz = replicate (nat psz) 0)"
  using assms by (rule page_decrypt_ok_iff)

lemma demo_encrypt:
  "\<exists>out' w'. sqlcipher_page_cipher demo_ctx 1 pgno CIPHER_ENCRYPT 512 (replicate 512 65) 0 (replicate 512 0) 0 demo_world
     = Some (SQLITE_OK, out', w')"
proof -
  let ?plain = "page_at (replicate 512 65) 0 432"
  have wr: "write_ctx demo_ctx = Some demo_cipher_ctx" "reserve_sz demo_ctx = 80" by (simp_all add: demo_ctx_def)
  have cw: "cipher_ok demo_ctx demo_cipher_ctx" using demo_ctx_ok(1) by (auto elim: codec_ok_ctxs)
  have R: "pr_random (cprovider demo_ctx) (w_rand demo_world) 80 = (Some (replicate 80 5), 6)"
    by (simp add: demo_world_def)
  obtain page where s: "seal_page demo_ctx demo_cipher_ctx pgno ?plain (replicate 80 5) = Some page"
    by (simp add: seal_page_def Let_def)
  have "int (length page) = 512"
    using open_seal(2) [OF demo_ctx_ok(1) cw _ _ s] by (simp add: page_at_def)
  then obtain out' where "mem_write (replicate 512 0) 0 page = Some out'"
    using mem_write_defined [of "replicate 512 0" 0 page] by auto
  with R s wr show ?thesis
    by (simp add: sqlcipher_page_cipher_def page_encrypt_refines [OF demo_ctx_ok(1) cw demo_geom])
qed

theorem page_cipher_roundtrip_witness:
  "\<exists>out' w' dst'.
     sqlcipher_page_cipher demo_ctx 1 2 CIPHER_ENCRYPT 512 (replicate 512 65) 0 (replicate 512 0) 0 demo_world
       = Some (SQLITE_OK, out', w') \<and>
     sqlcipher_page_cipher demo_ctx 0 2 CIPHER_DECRYPT 512 out' 0 (replicate 512 1) 0 demo_world
       = Some (SQLITE_OK, dst', demo_world) \<and>
     page_at dst' 0 (512 - reserve_sz demo_ctx) = page_at (replicate 512 65) 0 (512 - reserve_sz demo_ctx)"
proof -
  have rw: "read_ctx demo_ctx = Some demo_cipher_ctx" "write_ctx demo_ctx = Some demo_cipher_ctx"
    by (simp_all add: demo_ctx_def)
  obtain out' w' where "sqlcipher_page_cipher demo_ctx 1 2 1 512 (replicate 512 65) 0 (replicate 512 0) 0 demo_world
     = Some (0, out', w')" using demo_encrypt by blast
  from page_cipher_roundtrip [OF demo_ctx_ok(1) rw refl refl demo_geom _ _ this, of 0 "replicate 512 1" demo_world] this
  show ?thesis by auto
qed

theorem page_cipher_authentic_witness:
  "\<exists>rc out' w'. sqlcipher_page_cipher demo_ctx 0 2 CIPHER_DECRYPT 512 (replicate 512 1) 0 (replicate 512 0) 0 demo_world
       = Some (rc, out', w') \<and>
     (rc = SQLITE_OK \<longleftrightarrow>
        page_mac demo_ctx demo_cipher_ctx 2 (page_at (replicate 512 1) 0 512)
          = Some (stored_mac demo_ctx (page_at (replicate 512 1) 0 512)) \<or>
        short_read_page demo_ctx demo_cipher_ctx 2 (page_at (replicate 512 1) 0 512) demo_world)"
proof -
  have r: "read_ctx demo_ctx = Some demo_cipher_ctx" "flag_get (cflags demo_ctx) CIPHER_FLAG_HMAC"
    by (simp_all add: demo_ctx_def flag_get_def CIPHER_FLAG_HMAC_def)
  obtain rc out' w' where e: "sqlcipher_page_cipher demo_ctx 0 2 0 512 (replicate 512 1) 0 (replicate 512 0) 0 demo_world
       = Some (rc, out', w')" using page_cipher_total [OF demo_ctx_ok(1) demo_geom] by blast
  from page_cipher_authentic [OF demo_ctx_ok(1) r demo_geom e] e show ?thesis by blast
qed

lemma put4byte_inject:
  "sqlcipher_put4byte_le a = sqlcipher_put4byte_le b \<longleftrightarrow> a = b"
proof
  assume "sqlcipher_put4byte_le a = sqlcipher_put4byte_le b"
  then have "rev (sqlcipher_put4byte_le a) = rev (sqlcipher_put4byte_le b)" by simp
  then have "sqlite3Put4byte a = sqlite3Put4byte b" by (simp add: sqlcipher_put4byte_le_def sqlite3Put4byte_def)
  then show "a = b" by (simp add: be4.enc_inject)
qed simp

lemma pgno_raw_inject: "pgno_raw ctx a = pgno_raw ctx b \<longleftrightarrow> a = b"
  by (simp add: pgno_raw_def put4byte_inject be4.enc_inject)

text \<open>
  C5.  Pages cannot be moved: if a page that was encrypted as page \<open>a\<close> is accepted when it is
  decrypted as another page \<open>b\<close> (outside auto-vacuum mode, with the same keys), then the provider's
  HMAC collides on two different messages, the same page data with the two page numbers.
\<close>

theorem page_reorder_detected:
  assumes ok: "codec_ok ctx" and rw: "read_ctx ctx = Some r" "write_ctx ctx = Some wr"
    and keys: "c_key r = c_key wr" "c_hmac_key r = c_hmac_key wr"
    and h: "flag_get (cflags ctx) CIPHER_FLAG_HMAC" and av: "w_autovacuum w2 = BTREE_AUTOVACUUM_NONE"
    and g: "page_geom ctx psz inp ioff out ooff" and dst: "0 \<le> doff" "doff + psz \<le> int (length dst)"
    and enc: "sqlcipher_page_cipher ctx 1 a CIPHER_ENCRYPT psz inp ioff out ooff w = Some (SQLITE_OK, out', w')"
    and dec: "sqlcipher_page_cipher ctx 0 b CIPHER_DECRYPT psz out' ooff dst doff w2 = Some (SQLITE_OK, dst', w3)"
    and ab: "a \<noteq> b"
  shows "\<exists>x m. pr_hmac (cprovider ctx) (hmac_algorithm ctx) (c_hmac_key r) x (pgno_raw ctx a) = Some m \<and>
             pr_hmac (cprovider ctx) (hmac_algorithm ctx) (c_hmac_key r) x (pgno_raw ctx b) = Some m \<and>
             pgno_raw ctx a \<noteq> pgno_raw ctx b"
proof -
  let ?page = "page_at out' ooff psz"
  obtain rnd where e: "open_page ctx wr a ?page = Some (page_at inp ioff (psz - reserve_sz ctx))" "length out' = length out"
    using encrypt_result [OF ok rw(2) g enc] by blast
  have ma: "page_mac ctx wr a ?page = Some (stored_mac ctx ?page)"
    using e(1) h by (auto simp: open_page_def split: if_splits)
  have g2: "page_geom ctx psz out' ooff dst doff" using g dst e(2) by (simp add: page_geom_def)
  have "page_mac ctx r b ?page = Some (stored_mac ctx ?page)"
    using page_decrypt_ok_iff [OF ok rw(1) h g2 dec] av by (simp add: short_read_page_def)
  with ma ab keys(2) show ?thesis unfolding page_mac_def pgno_raw_inject by metis
qed

lemma demo_mac_sum: "page_mac demo_ctx demo_cipher_ctx 1 p = page_mac demo_ctx demo_cipher_ctx 0x100 p"
proof -
  have "byte_sum (pgno_raw demo_ctx 1) = byte_sum (pgno_raw demo_ctx 0x100)"
    by (simp add: pgno_raw_def demo_ctx_def flag_get_def cipher_flag_defs sqlcipher_put4byte_le_def byte_sum_def
        drop_bit_eq_div)
  then show ?thesis by (simp add: page_mac_def)
qed

theorem page_reorder_detected_witness:
  "\<exists>x m. pr_hmac demo_provider 2 (c_hmac_key demo_cipher_ctx) x (pgno_raw demo_ctx 1) = Some m \<and>
     pr_hmac demo_provider 2 (c_hmac_key demo_cipher_ctx) x (pgno_raw demo_ctx 0x100) = Some m \<and>
     pgno_raw demo_ctx 1 \<noteq> pgno_raw demo_ctx 0x100"
proof -
  note ok = demo_ctx_ok(1) and f = demo_ctx_fields
  obtain out' w' where e: "sqlcipher_page_cipher demo_ctx 1 1 1 512 (replicate 512 65) 0 (replicate 512 0) 0 demo_world
     = Some (0, out', w')" using demo_encrypt by blast
  obtain rnd where p: "open_page demo_ctx demo_cipher_ctx 1 (page_at out' 0 512) \<noteq> None" "length out' = 512"
    using encrypt_result [OF ok f(9) demo_geom e] by auto
  have g2: "page_geom demo_ctx 512 out' 0 (replicate 512 0) 0" using p(2) by (simp add: page_geom_def)
  obtain rc dst' w3 where d: "sqlcipher_page_cipher demo_ctx 0 0x100 0 512 out' 0 (replicate 512 0) 0 demo_world
     = Some (rc, dst', w3)" using page_cipher_total [OF ok g2] by blast
  have "rc = 0" using page_decrypt_ok_iff [OF ok f(8) f(12) g2 d] p(1)
    by (simp add: demo_mac_sum [symmetric] open_page_def split: if_splits)
  note d0 = d [unfolded this]
  have "\<exists>x m. pr_hmac (cprovider demo_ctx) (hmac_algorithm demo_ctx) (c_hmac_key demo_cipher_ctx) x (pgno_raw demo_ctx 1) = Some m \<and>
     pr_hmac (cprovider demo_ctx) (hmac_algorithm demo_ctx) (c_hmac_key demo_cipher_ctx) x (pgno_raw demo_ctx 0x100) = Some m \<and>
     pgno_raw demo_ctx 1 \<noteq> pgno_raw demo_ctx 0x100"
    by (rule page_reorder_detected [OF ok f(8) f(9) refl refl f(12) _ demo_geom _ _ e d0]) (simp_all add: demo_world_def)
  then show ?thesis by (simp only: f)
qed

end
