(* ===== verification/Codec.thy ===== *)
theory Codec
  imports Page_Cipher
begin

text \<open>
  The pager's codec callback \<open>sqlite3Codec\<close> of \<open>crypto.c\<close>: key derivation, the treatment of page 1
  (salt or plaintext header in front of the encrypted part), encryption into the context's buffer and
  decryption in place.
\<close>

section \<open>The callback\<close>

abbreviation (input) CODEC_READ_OP :: int where "CODEC_READ_OP \<equiv> 3"
abbreviation (input) CODEC_WRITE_OP :: int where "CODEC_WRITE_OP \<equiv> 6"
abbreviation (input) CODEC_JOURNAL_OP :: int where "CODEC_JOURNAL_OP \<equiv> 7"

text \<open>The 16 bytes of \<open>SQLITE_FILE_HEADER\<close>, the terminator included.\<close>

definition SQLITE_FILE_HEADER :: "byte list" where
  "SQLITE_FILE_HEADER = str ''SQLite format 3'' @ [0]"

text \<open>What the callback returns: NULL, the page it was given, or the context's buffer.\<close>

datatype codec_ret = RetNull | RetData | RetBuffer

definition codec_offset :: "pgno \<Rightarrow> int \<Rightarrow> int" where
  "codec_offset pgno hdr = (if pgno = 1 then (if hdr \<noteq> 0 then hdr else FILE_HEADER_SZ) else 0)"

definition codec_read ::
    "'r codec_ctx \<Rightarrow> byte list \<Rightarrow> byte list \<Rightarrow> pgno \<Rightarrow> int \<Rightarrow> int \<Rightarrow> int \<Rightarrow> 'r world
       \<Rightarrow> (codec_ret \<times> byte list \<times> 'r codec_ctx \<times> 'r world) option" where
  "codec_read ctx buffer pData pgno pg_sz hdr offset w = do {
     b1 \<leftarrow> (if pgno = 1 then memcpy buffer 0 (if hdr \<noteq> 0 then pData else SQLITE_FILE_HEADER) 0 offset
            else Some buffer);
     (rc, b2, w1) \<leftarrow> sqlcipher_page_cipher ctx 0 pgno CIPHER_DECRYPT (pg_sz - offset) pData offset b1 offset w;
     (b3, ctx1, w2) \<leftarrow>
       (if rc \<noteq> SQLITE_OK then do {
          b3 \<leftarrow> sqlcipher_memset b2 offset 0 (pg_sz - offset);
          Some (b3, ctx, sqlcipher_codec_ctx_set_error rc w1)
        } else Some (b2, ctx\<lparr>cflags := flag_set (cflags ctx) CIPHER_FLAG_KEY_USED\<rparr>, w1));
     d1 \<leftarrow> memcpy pData 0 b3 0 pg_sz;
     Some (RetData, d1, ctx1\<lparr>cbuffer := Some b3\<rparr>, w2)
   }"

definition codec_write ::
    "'r codec_ctx \<Rightarrow> int \<Rightarrow> byte list \<Rightarrow> byte list \<Rightarrow> pgno \<Rightarrow> int \<Rightarrow> int \<Rightarrow> int \<Rightarrow> 'r world
       \<Rightarrow> (codec_ret \<times> byte list \<times> 'r codec_ctx \<times> 'r world) option" where
  "codec_write ctx cctx buffer pData pgno pg_sz hdr offset w = do {
     (rc0, salt, ctx1, w1) \<leftarrow>
       (if pgno = 1 then sqlcipher_codec_ctx_get_kdf_salt ctx w else Some (SQLITE_OK, [], ctx, w));
     if rc0 \<noteq> SQLITE_OK then Some (RetNull, pData, ctx1, sqlcipher_codec_ctx_set_error rc0 w1)
     else do {
       b1 \<leftarrow> (if pgno = 1 then memcpy buffer 0 (if hdr \<noteq> 0 then pData else salt) 0 offset else Some buffer);
       (rc, b2, w2) \<leftarrow> sqlcipher_page_cipher ctx1 cctx pgno CIPHER_ENCRYPT (pg_sz - offset) pData offset b1 offset w1;
       if rc \<noteq> SQLITE_OK then do {
         b3 \<leftarrow> sqlcipher_memset b2 offset 0 (pg_sz - offset);
         Some (RetNull, pData, ctx1\<lparr>cbuffer := Some b3\<rparr>, sqlcipher_codec_ctx_set_error rc w2)
       } else
         Some (RetBuffer, pData,
               ctx1\<lparr>cbuffer := Some b2, cflags := flag_set (cflags ctx1) CIPHER_FLAG_KEY_USED\<rparr>, w2)
     }
   }"

definition sqlite3Codec ::
    "'r cipher_globals \<Rightarrow> 'r codec_ctx \<Rightarrow> byte list \<Rightarrow> pgno \<Rightarrow> int \<Rightarrow> 'r world
       \<Rightarrow> (codec_ret \<times> byte list \<times> 'r codec_ctx \<times> 'r world) option" where
  "sqlite3Codec g ctx0 pData pgno mode w0 = do {
     let pg_sz = page_sz ctx0;
     let hdr = plaintext_header_sz ctx0;
     (rc, ctx, w) \<leftarrow> sqlcipher_codec_key_derive g ctx0 w0;
     if rc \<noteq> SQLITE_OK then Some (RetNull, pData, ctx, sqlcipher_codec_ctx_set_error rc w)
     else if hdr < 0 then Some (RetNull, pData, ctx, sqlcipher_codec_ctx_set_error SQLITE_ERROR w)
     else
       let offset = codec_offset pgno hdr in
       if mode = CODEC_READ_OP then do {
         buffer \<leftarrow> cbuffer ctx0;
         codec_read ctx buffer pData pgno pg_sz hdr offset w
       } else if mode = CODEC_WRITE_OP \<or> mode = CODEC_JOURNAL_OP then do {
         buffer \<leftarrow> cbuffer ctx0;
         codec_write ctx (if mode = CODEC_WRITE_OP then 1 else 0) buffer pData pgno pg_sz hdr offset w
       } else Some (RetData, pData, ctx, sqlcipher_codec_ctx_set_error SQLITE_ERROR w)
   }"

section \<open>Geometry of the encrypted part\<close>

lemma codec_geom:
  fixes pgno :: pgno
  assumes ok: "codec_ok ctx" and h: "header_ok ctx" and p: "0 \<le> plaintext_header_sz ctx"
    and d: "int (length pData) = page_sz ctx" and b: "int (length b) = page_sz ctx"
  defines "offset \<equiv> codec_offset pgno (plaintext_header_sz ctx)"
  shows "page_geom ctx (page_sz ctx - offset) pData offset b offset" "0 \<le> offset" "offset < page_sz ctx"
proof -
  note s = codec_ok_sizes [OF ok]
  have o: "0 \<le> offset" "block_sz ctx dvd offset" "offset + reserve_sz ctx < page_sz ctx"
    using h p s(4,5,9,10,13) by (auto simp: offset_def codec_offset_def header_ok_def FILE_HEADER_SZ_def)
  then show "page_geom ctx (page_sz ctx - offset) pData offset b offset" "0 \<le> offset" "offset < page_sz ctx"
    using d b s(9,12) by (auto simp: page_geom_def)
qed

lemma memcpy_in: "0 \<le> n \<Longrightarrow> n \<le> int (length src) \<Longrightarrow> n \<le> int (length dst) \<Longrightarrow>
  \<exists>b. memcpy dst 0 src 0 n = Some b \<and> length b = length dst \<and> take (nat n) b = take (nat n) src \<and> drop (nat n) b = drop (nat n) dst"
  by (auto simp: memcpy_def mem_read_def mem_write_def)

lemma only_page_length: "only_page b b' off n \<Longrightarrow> length b' = length b"
  by (simp add: only_page_def)

lemma codec_ok_buffer:
  assumes "codec_ok ctx" "int (length b) = page_sz ctx"
  shows "codec_ok (ctx\<lparr>cbuffer := Some b\<rparr>)"
proof -
  have "reserve_of (ctx\<lparr>cbuffer := Some b\<rparr>) = reserve_of ctx" by (rule reserve_of_cong) simp_all
  with assms show ?thesis by (auto simp: codec_ok_def codec_base_ok_def codec_frame_ok_def cipher_ok_def)
qed

lemma set_error_world [simp]: "world_ok (sqlcipher_codec_ctx_set_error e w) = world_ok w"
  by (simp add: sqlcipher_codec_ctx_set_error_def world_ok_def)

lemma page_cipher_world:
  assumes ok: "codec_ok ctx" and g: "page_geom ctx psz inp ioff out ooff"
    and e: "sqlcipher_page_cipher ctx for_ctx pgno mode psz inp ioff out ooff w = Some (rc, out', w')"
  shows "same_world w w'"
  using e unfolding sqlcipher_page_cipher_def
  by (auto simp: page_cipher_error_def page_encrypt_def page_decrypt_def page_decrypt_block_def Let_def same_world_def
      split: bind_splits if_splits option.splits prod.splits)

section \<open>The callback is safe\<close>

text \<open>A context the pager may use, with a page of the context's size.\<close>

definition codec_ready :: "'r codec_ctx \<Rightarrow> 'r world \<Rightarrow> bool" where
  "codec_ready ctx w \<longleftrightarrow> codec_ok ctx \<and> header_ok ctx \<and> cbuffer ctx \<noteq> None \<and> world_ok w"

lemma codec_readyI [wf_intros]:
  "codec_ok ctx \<Longrightarrow> header_ok ctx \<Longrightarrow> cbuffer ctx \<noteq> None \<Longrightarrow> world_ok w \<Longrightarrow> codec_ready ctx w"
  by (simp add: codec_ready_def)

lemma header_ok_same: "same_settings ctx ctx' \<Longrightarrow> header_ok ctx' = header_ok ctx"
  by (simp add: same_settings_def header_ok_def)

lemma header_ok_frame [simp]:
  "header_ok (ctx\<lparr>cbuffer := b\<rparr>) = header_ok ctx" "header_ok (ctx\<lparr>cflags := f\<rparr>) = header_ok ctx"
  "header_ok (ctx\<lparr>cbuffer := b, cflags := f\<rparr>) = header_ok ctx"
  by (simp_all add: header_ok_def)

lemma codec_read_safe:
  assumes ok: "codec_ok ctx" and h: "header_ok ctx" and p: "0 \<le> plaintext_header_sz ctx" and w: "world_ok w"
    and d: "int (length pData) = page_sz ctx" and b: "int (length b) = page_sz ctx"
  shows "\<exists>data' ctx' w'. codec_read ctx b pData pgno (page_sz ctx) (plaintext_header_sz ctx)
             (codec_offset pgno (plaintext_header_sz ctx)) w = Some (RetData, data', ctx', w') \<and>
           codec_ready ctx' w' \<and> length data' = length pData"
proof -
  note s = codec_ok_sizes [OF ok]
  let ?o = "codec_offset pgno (plaintext_header_sz ctx)" and ?n = "page_sz ctx"
  note geo = codec_geom [OF ok h p d, where pgno = pgno]
  have hl: "length SQLITE_FILE_HEADER = 16" by (simp add: SQLITE_FILE_HEADER_def)
  obtain b1 where b1: "(if pgno = 1 then memcpy b 0 (if plaintext_header_sz ctx \<noteq> 0 then pData else SQLITE_FILE_HEADER) 0 ?o
      else Some b) = Some b1" "length b1 = length b"
    using memcpy_in [of ?o pData b] memcpy_in [of ?o SQLITE_FILE_HEADER b] geo [OF b] d b hl s(13)
    by (cases "pgno = 1"; cases "plaintext_header_sz ctx = 0") (auto simp: codec_offset_def FILE_HEADER_SZ_def)
  have g1: "page_geom ctx (?n - ?o) pData ?o b1 ?o" using geo(1) [of b1] b b1(2) by simp
  obtain rc b2 w1 where c: "sqlcipher_page_cipher ctx 0 pgno 0 (?n - ?o) pData ?o b1 ?o w = Some (rc, b2, w1)"
      "only_page b1 b2 ?o (?n - ?o)" using page_cipher_total [OF ok g1] by blast
  have l2: "int (length b2) = ?n" using only_page_length [OF c(2)] b1(2) b by simp
  have w1: "world_ok w1" using same_world_ok [OF page_cipher_world [OF ok g1 c(1)] w] .
  obtain b3 where b3: "sqlcipher_memset b2 ?o 0 (?n - ?o) = Some b3" "length b3 = length b2"
    using page_cipher_error_some [of ?o "?n - ?o" b2 w] geo(2,3) [OF b] l2 by (auto simp: only_page_def)
  have fin: "codec_ready (ctx1\<lparr>cbuffer := Some x\<rparr>) w2" if "codec_ok ctx1" "header_ok ctx1" "int (length x) = page_sz ctx1" "world_ok w2"
    for ctx1 and x and w2 :: "'a world"
    using that codec_ok_buffer by (auto simp: codec_ready_def)
  have ok': "codec_ok (ctx\<lparr>cflags := flag_set (cflags ctx) CIPHER_FLAG_KEY_USED\<rparr>)" by (rule codec_ok_flags [OF ok]) simp
  have cp: "\<exists>d1. memcpy pData 0 x 0 ?n = Some d1 \<and> length d1 = length pData" if "int (length x) = ?n" for x
    using memcpy_in [of ?n x pData] that d s(13) by auto
  show ?thesis
  proof (cases "rc = 0")
    case True
    then show ?thesis using b1 c(1) cp [OF l2] fin [OF ok' _ _ w1, of b2] h l2 by (auto simp: codec_read_def)
  next
    case False
    then show ?thesis using b1 c(1) b3 cp [of b3] fin [OF ok h, of b3] l2 w1 by (auto simp: codec_read_def)
  qed
qed

lemma get_kdf_salt_keeps:
  assumes ok: "codec_ok ctx" and w: "world_ok w"
  shows "\<exists>rc ctx' w'. sqlcipher_codec_ctx_get_kdf_salt ctx w = Some (rc, kdf_salt ctx', ctx', w') \<and> codec_ok ctx' \<and>
           same_settings ctx ctx' \<and> same_world w w' \<and> read_ctx ctx' = read_ctx ctx \<and> write_ctx ctx' = write_ctx ctx"
  using init_kdf_salt_keeps [OF ok w] ok
  by (cases "flag_get (cflags ctx) CIPHER_FLAG_HAS_KDF_SALT") (auto simp: sqlcipher_codec_ctx_get_kdf_salt_def)

lemma codec_write_safe:
  assumes ok: "codec_ok ctx" and h: "header_ok ctx" and p: "0 \<le> plaintext_header_sz ctx" and w: "world_ok w"
    and d: "int (length pData) = page_sz ctx" and b: "cbuffer ctx = Some b"
  shows "\<exists>ret ctx' w'. codec_write ctx cctx b pData pgno (page_sz ctx) (plaintext_header_sz ctx)
             (codec_offset pgno (plaintext_header_sz ctx)) w = Some (ret, pData, ctx', w') \<and>
           codec_ready ctx' w' \<and> ret \<in> {RetNull, RetBuffer}"
proof -
  note s = codec_ok_sizes [OF ok]
  let ?h = "plaintext_header_sz ctx" and ?n = "page_sz ctx"
  let ?o = "codec_offset pgno ?h"
  obtain rc0 salt ctx1 w1 where a: "(if pgno = 1 then sqlcipher_codec_ctx_get_kdf_salt ctx w else Some (0, [], ctx, w)) = Some (rc0, salt, ctx1, w1)"
    "codec_ok ctx1" "same_settings ctx ctx1" "same_world w w1" "pgno = 1 \<longrightarrow> salt = kdf_salt ctx1"
    using get_kdf_salt_keeps [OF ok w] ok by (cases "pgno = 1") auto
  have f1: "page_sz ctx1 = ?n" "plaintext_header_sz ctx1 = ?h" "header_ok ctx1" "cbuffer ctx1 = Some b"
    using a(3) h b header_ok_same [OF a(3)] by (simp_all add: same_settings_def)
  have w1: "world_ok w1" using same_world_ok [OF a(4) w] .
  have lb: "int (length b) = ?n" using ok b by (simp add: codec_ok_def codec_base_ok_def codec_frame_ok_def)
  have sl: "length (kdf_salt ctx1) = 16" using codec_okD(7) [OF a(2)] .
  have geo: "page_geom ctx1 (?n - ?o) pData ?o x ?o" "0 \<le> ?o" "?o < ?n" if "int (length x) = ?n" for x
    using codec_geom [OF a(2) f1(3), of pData x pgno] f1 p d that by simp_all
  obtain b1 where b1: "(if pgno = 1 then memcpy b 0 (if ?h \<noteq> 0 then pData else salt) 0 ?o else Some b) = Some b1" "length b1 = length b"
    using memcpy_in [of ?o pData b] memcpy_in [of ?o "kdf_salt ctx1" b] geo [OF lb] d lb sl s(13) a(5)
    by (cases "pgno = 1"; cases "?h = 0") (auto simp: codec_offset_def FILE_HEADER_SZ_def)
  have g1: "page_geom ctx1 (?n - ?o) pData ?o b1 ?o" using geo(1) [of b1] lb b1(2) by simp
  obtain rc b2 w2 where c: "sqlcipher_page_cipher ctx1 cctx pgno 1 (?n - ?o) pData ?o b1 ?o w1 = Some (rc, b2, w2)"
      "only_page b1 b2 ?o (?n - ?o)" using page_cipher_total [OF a(2) g1] by blast
  have l2: "int (length b2) = ?n" using only_page_length [OF c(2)] b1(2) lb by simp
  have w2: "world_ok w2" using same_world_ok [OF page_cipher_world [OF a(2) g1 c(1)] w1] .
  obtain b3 where b3: "sqlcipher_memset b2 ?o 0 (?n - ?o) = Some b3" "length b3 = length b2"
    using page_cipher_error_some [of ?o "?n - ?o" b2 w] geo(2,3) [OF lb] l2 by (auto simp: only_page_def)
  have k: "codec_ok (ctx1\<lparr>cbuffer := Some x\<rparr>)" if "int (length x) = ?n" for x
    using codec_ok_buffer [OF a(2)] that f1(1) by simp
  have ku: "codec_ok (ctx1\<lparr>cbuffer := Some b2, cflags := flag_set (cflags ctx1) CIPHER_FLAG_KEY_USED\<rparr>)"
    using codec_ok_flags [OF k [OF l2], of "flag_set (cflags ctx1) CIPHER_FLAG_KEY_USED"] by simp
  consider "rc0 \<noteq> 0" | "rc0 = 0" "rc \<noteq> 0" | "rc0 = 0" "rc = 0" by blast
  then show ?thesis
    by cases (use a b1 c(1) b3 f1 w1 w2 k [of b3] ku l2 in \<open>auto simp: codec_write_def codec_ready_def\<close>)
qed

lemma sqlite3Codec_keeps:
  assumes r: "codec_ready ctx w" and rw: "read_ctx ctx = Some rd" "write_ctx ctx = Some wr"
    and cmp: "c_derive_key wr = 0 \<or> passes_comparable wr rd" and d: "int (length pData) = page_sz ctx"
  shows "\<exists>ret data' ctx' w'. sqlite3Codec g ctx pData pgno mode w = Some (ret, data', ctx', w') \<and>
           codec_ready ctx' w' \<and> length data' = length pData \<and> (mode \<noteq> CODEC_READ_OP \<longrightarrow> data' = pData)"
proof -
  have ok: "codec_ok ctx" and h: "header_ok ctx" and w: "world_ok w" and "cbuffer ctx \<noteq> None"
    using r by (auto simp: codec_ready_def)
  then obtain b where b: "cbuffer ctx = Some b" by auto
  obtain rc ctx1 w1 where a: "sqlcipher_codec_key_derive g ctx w = Some (rc, ctx1, w1)" "codec_ok ctx1"
      "same_settings ctx ctx1" "same_world w w1" using codec_key_derive_keeps [OF ok w rw cmp] by blast
  have f: "page_sz ctx1 = page_sz ctx" "plaintext_header_sz ctx1 = plaintext_header_sz ctx" "header_ok ctx1" "cbuffer ctx1 = Some b"
    using a(3) h b header_ok_same [OF a(3)] by (simp_all add: same_settings_def)
  have w1: "world_ok w1" using same_world_ok [OF a(4) w] .
  have lb: "int (length b) = page_sz ctx1" using ok b f(1) by (simp add: codec_ok_def codec_base_ok_def codec_frame_ok_def)
  have rdy: "codec_ready ctx1 (sqlcipher_codec_ctx_set_error e w1)" for e
    using a(2) f w1 by (simp add: codec_ready_def)
  show ?thesis
  proof (cases "rc = 0 \<and> 0 \<le> plaintext_header_sz ctx1")
    case False
    then show ?thesis using a(1) rdy f(2) by (auto simp: sqlite3Codec_def Let_def)
  next
    case True
    note rs = codec_read_safe [OF a(2) f(3) _ w1 _ lb, of pData pgno] and ws = codec_write_safe [OF a(2) f(3) _ w1 _ f(4), of pData _ pgno]
    show ?thesis using True a(1) rdy f(1,2) d b rs ws [of 0] ws [of 1]
      by (cases "mode = 3"; cases "mode = 6"; cases "mode = 7") (auto simp: sqlite3Codec_def Let_def)
  qed
qed

section \<open>Round trip through the callback\<close>

text \<open>Keys derived, the same for reading and writing.\<close>

definition keys_settled :: "'r codec_ctx \<Rightarrow> bool" where
  "keys_settled ctx \<longleftrightarrow>
     (\<exists>r wr. read_ctx ctx = Some r \<and> write_ctx ctx = Some wr \<and> c_derive_key r = 0 \<and> c_derive_key wr = 0 \<and>
        c_key r = c_key wr \<and> c_hmac_key r = c_hmac_key wr)"

lemma derive_settled:
  assumes ok: "codec_ok ctx" and k: "keys_settled ctx"
  obtains ctx' where "sqlcipher_codec_key_derive g ctx w = Some (SQLITE_OK, ctx', w)" "codec_ok ctx'"
    "same_settings ctx ctx'" "keys_settled ctx'" "cflags ctx' = cflags ctx"
    "map_option c_key (read_ctx ctx') = map_option c_key (read_ctx ctx)"
    "map_option c_hmac_key (read_ctx ctx') = map_option c_hmac_key (read_ctx ctx)"
proof -
  obtain r wr where rw: "read_ctx ctx = Some r" "write_ctx ctx = Some wr" "c_derive_key r = 0" "c_derive_key wr = 0"
      "c_key r = c_key wr" "c_hmac_key r = c_hmac_key wr" using k by (auto simp: keys_settled_def)
  have c: "cipher_ok ctx r" "cipher_ok ctx wr" using ok rw by (auto elim: codec_ok_ctxs)
  have f: "sqlcipher_free (c_pass r) (c_pass_sz r) = Some ()" "sqlcipher_free (c_pass wr) (c_pass_sz wr) = Some ()"
    using c by (auto simp: cipher_ok_def intro: free_ok)
  obtain ctx' w' where e: "wipe_pass ctx w = Some (ctx', w')" "codec_ok ctx'" "same_settings ctx ctx'"
    using wipe_pass_keeps [OF ok] by blast
  then have "w' = w" "keys_settled ctx'" "cflags ctx' = cflags ctx"
      "map_option c_key (read_ctx ctx') = map_option c_key (read_ctx ctx)"
      "map_option c_hmac_key (read_ctx ctx') = map_option c_hmac_key (read_ctx ctx)" using rw f k
    by (auto simp: wipe_pass_def sqlcipher_cipher_ctx_set_pass_def keys_settled_def Let_def split: if_splits)
  with e rw that show ?thesis
    by (simp add: sqlcipher_codec_key_derive_def derive_read_ctx_def derive_write_ctx_def)
qed

text \<open>What a successful write leaves in the buffer.\<close>

lemma codec_write_result:
  assumes ok: "codec_ok ctx" and h: "header_ok ctx" and p: "0 \<le> plaintext_header_sz ctx" and w: "world_ok w"
    and d: "int (length pData) = page_sz ctx" and b: "cbuffer ctx = Some b"
    and e: "codec_write ctx 1 b pData pgno (page_sz ctx) (plaintext_header_sz ctx)
              (codec_offset pgno (plaintext_header_sz ctx)) w = Some (RetBuffer, pData', ctx', w')"
  obtains ctx1 b1 b2 w1 where "codec_ok ctx1" "same_settings ctx ctx1" "read_ctx ctx1 = read_ctx ctx" "write_ctx ctx1 = write_ctx ctx"
    "int (length b1) = page_sz ctx" "pgno = 1 \<and> plaintext_header_sz ctx \<noteq> 0 \<longrightarrow> take (nat (plaintext_header_sz ctx)) b1 = take (nat (plaintext_header_sz ctx)) pData"
    "sqlcipher_page_cipher ctx1 1 pgno CIPHER_ENCRYPT (page_sz ctx - codec_offset pgno (plaintext_header_sz ctx)) pData
       (codec_offset pgno (plaintext_header_sz ctx)) b1 (codec_offset pgno (plaintext_header_sz ctx)) w1 = Some (SQLITE_OK, b2, w')"
    "ctx' = ctx1\<lparr>cbuffer := Some b2, cflags := flag_set (cflags ctx1) CIPHER_FLAG_KEY_USED\<rparr>" "world_ok w'"
    "pgno_raw ctx' = pgno_raw ctx1"
proof -
  let ?h = "plaintext_header_sz ctx" and ?n = "page_sz ctx"
  let ?o = "codec_offset pgno ?h"
  obtain rc0 salt ctx1 w1 where a: "(if pgno = 1 then sqlcipher_codec_ctx_get_kdf_salt ctx w else Some (0, [], ctx, w)) = Some (rc0, salt, ctx1, w1)"
    "codec_ok ctx1" "same_settings ctx ctx1" "same_world w w1" "read_ctx ctx1 = read_ctx ctx" "write_ctx ctx1 = write_ctx ctx"
    using get_kdf_salt_keeps [OF ok w] ok by (cases "pgno = 1") auto
  have lb: "int (length b) = ?n" using ok b by (simp add: codec_ok_def codec_base_ok_def codec_frame_ok_def)
  obtain b1 b2 where b1: "(if pgno = 1 then memcpy b 0 (if ?h \<noteq> 0 then pData else salt) 0 ?o else Some b) = Some b1"
    and c: "sqlcipher_page_cipher ctx1 1 pgno 1 (?n - ?o) pData ?o b1 ?o w1 = Some (0, b2, w')"
    and ctx': "ctx' = ctx1\<lparr>cbuffer := Some b2, cflags := flag_set (cflags ctx1) CIPHER_FLAG_KEY_USED\<rparr>"
    using e a(1) by (auto simp: codec_write_def split: bind_splits if_splits)
  have lb1: "int (length b1) = ?n" using b1 lb by (auto simp: memcpy_def dest: mem_write_length split: if_splits bind_splits)
  have "take (nat ?h) b1 = take (nat ?h) pData" if "pgno = 1 \<and> ?h \<noteq> 0"
    using memcpy_in [of ?h pData b] b1 that p d lb codec_geom(3) [OF ok h p d lb, of pgno]
    by (auto simp: codec_offset_def)
  moreover have "world_ok w'"
  proof -
    have g: "page_geom ctx1 (?n - ?o) pData ?o b1 ?o"
      using codec_geom(1) [OF a(2), of pData b1 pgno] header_ok_same [OF a(3)] h p d lb1 a(3) by (simp add: same_settings_def)
    show ?thesis using same_world_ok [OF page_cipher_world [OF a(2) g c] same_world_ok [OF a(4) w]] .
  qed
  moreover have "pgno_raw ctx' = pgno_raw ctx1"
    by (rule ext) (simp add: ctx' pgno_raw_def flag_get_def flag_set_def cipher_flag_defs bit.conj_disj_distrib2)
  ultimately show ?thesis using that [OF a(2,3,5,6) lb1 _ c ctx'] by blast
qed

lemma open_page_cong:
  assumes "cprovider ctx' = cprovider ctx" "hmac_algorithm ctx' = hmac_algorithm ctx" "reserve_sz ctx' = reserve_sz ctx"
    "iv_sz ctx' = iv_sz ctx" "hmac_sz ctx' = hmac_sz ctx"
    "flag_get (cflags ctx') CIPHER_FLAG_HMAC = flag_get (cflags ctx) CIPHER_FLAG_HMAC"
    "pgno_raw ctx' = pgno_raw ctx" "c_key c' = c_key c" "c_hmac_key c' = c_hmac_key c"
  shows "open_page ctx' c' pgno page = open_page ctx c pgno page"
  unfolding open_page_def page_mac_def stored_mac_def page_iv_def assms ..

lemma take_split_at: "0 \<le> o1 \<Longrightarrow> o1 \<le> n \<Longrightarrow> take (nat n) xs = take (nat o1) xs @ page_at xs o1 (n - o1)"
  by (simp add: page_at_def take_add [symmetric] nat_diff_distrib)

text \<open>Reading back a page whose encrypted part opens to \<open>plain\<close>.\<close>

lemma codec_read_result:
  fixes pgno :: pgno
  assumes ok: "codec_ok ctx" and h: "header_ok ctx" and p: "0 \<le> plaintext_header_sz ctx"
    and d: "int (length enc) = page_sz ctx" and b: "int (length b) = page_sz ctx" and r: "read_ctx ctx = Some r"
  defines "o1 \<equiv> codec_offset pgno (plaintext_header_sz ctx)"
  assumes op: "open_page ctx r pgno (page_at enc o1 (page_sz ctx - o1)) = Some plain"
    and lp: "int (length plain) = page_sz ctx - o1 - reserve_sz ctx"
  shows "\<exists>data' ctx' w'. codec_read ctx b enc pgno (page_sz ctx) (plaintext_header_sz ctx) o1 w = Some (RetData, data', ctx', w') \<and>
           take (nat (page_sz ctx - reserve_sz ctx)) data' =
             (if pgno = 1 then (if plaintext_header_sz ctx \<noteq> 0 then take (nat o1) enc else SQLITE_FILE_HEADER) else []) @ plain \<and>
           w' = w"
proof -
  note s = codec_ok_sizes [OF ok]
  let ?h = "plaintext_header_sz ctx" and ?n = "page_sz ctx"
  have geo: "page_geom ctx (?n - o1) enc o1 x o1" "0 \<le> o1" "o1 < ?n" if "int (length x) = ?n" for x
    using codec_geom [OF ok h p d that, of pgno] by (simp_all add: o1_def)
  have hl: "length SQLITE_FILE_HEADER = 16" by (simp add: SQLITE_FILE_HEADER_def)
  let ?pre = "if pgno = 1 then (if ?h \<noteq> 0 then take (nat o1) enc else SQLITE_FILE_HEADER) else []"
  obtain b1 where b1: "(if pgno = 1 then memcpy b 0 (if ?h \<noteq> 0 then enc else SQLITE_FILE_HEADER) 0 o1 else Some b) = Some b1"
      "length b1 = length b" "take (nat o1) b1 = ?pre"
    using memcpy_in [of o1 enc b] memcpy_in [of o1 SQLITE_FILE_HEADER b] geo [OF b] d b hl s(13)
    by (cases "pgno = 1"; cases "?h = 0") (auto simp: codec_offset_def FILE_HEADER_SZ_def o1_def)
  have g1: "page_geom ctx (?n - o1) enc o1 b1 o1" using geo(1) [of b1] b b1(2) by simp
  have cr: "cipher_ok ctx r" using ok r by (auto elim: codec_ok_ctxs)
  obtain b2 w1 rest where c: "sqlcipher_page_cipher ctx 0 pgno 0 (?n - o1) enc o1 b1 o1 w = Some (0, b2, w)"
      "mem_write b1 o1 (plain @ rest) = Some b2"
    using page_cipher_total [OF ok g1, of 0 pgno 0 w] op r s(1)
    by (auto simp: sqlcipher_page_cipher_def page_decrypt_refines [OF ok cr g1] split: bind_splits)
  have l2: "int (length b2) = ?n" using mem_write_frame(1) [OF c(2)] b1(2) b by simp
  have cp: "memcpy enc 0 b2 0 ?n = Some b2" using d l2 by (simp add: memcpy_full)
  have "take (nat (?n - reserve_sz ctx)) b2 = take (nat o1) b2 @ page_at b2 o1 (?n - reserve_sz ctx - o1)"
    using geo(2) [OF b] lp by (intro take_split_at) simp_all
  also have "?n - reserve_sz ctx - o1 = int (length plain)" using lp by simp
  also have "page_at b2 o1 (int (length plain)) = plain" by (rule page_at_write_prefix [OF c(2)])
  also have "take (nat o1) b2 = ?pre" using mem_write_frame(2) [OF c(2)] b1(3) by simp
  finally show ?thesis using b1 c(1) cp by (simp add: codec_read_def)
qed

text \<open>
  C1.  End-to-end page round trip: for a context with settled keys, a page handed to \<open>sqlite3Codec\<close>
  for writing and the bytes it produced handed back for reading yield the page again, in all of its
  usable bytes: the decryption succeeds and sets no error.  This covers page 1, where the salt replaces the
  16-byte file header (restored as the SQLite magic) or a plaintext header is kept as it is.
\<close>

theorem sqlite3Codec_roundtrip:
  assumes rdy: "codec_ready ctx w" and k: "keys_settled ctx" and d: "int (length pData) = page_sz ctx"
    and magic: "pgno = 1 \<and> plaintext_header_sz ctx = 0 \<longrightarrow> take 16 pData = SQLITE_FILE_HEADER"
    and wrote: "sqlite3Codec g ctx pData pgno CODEC_WRITE_OP w = Some (RetBuffer, pData', ctx1, w1)"
    and enc: "cbuffer ctx1 = Some enc"
  shows "\<exists>data' ctx2 w2. sqlite3Codec g ctx1 enc pgno CODEC_READ_OP w1 = Some (RetData, data', ctx2, w2) \<and>
           take (nat (page_sz ctx - reserve_sz ctx)) data' = take (nat (page_sz ctx - reserve_sz ctx)) pData \<and>
           w_pager_error w2 = w_pager_error w1"
proof -
  have ok: "codec_ok ctx" and h: "header_ok ctx" and w: "world_ok w" using rdy by (auto simp: codec_ready_def)
  obtain b where b: "cbuffer ctx = Some b" using rdy by (auto simp: codec_ready_def)
  obtain ctxa where a: "sqlcipher_codec_key_derive g ctx w = Some (0, ctxa, w)" "codec_ok ctxa" "same_settings ctx ctxa" "keys_settled ctxa"
    using derive_settled [OF ok k] .
  let ?h = "plaintext_header_sz ctx" and ?n = "page_sz ctx" and ?r = "reserve_sz ctx"
  let ?o = "codec_offset pgno ?h"
  have fa: "page_sz ctxa = ?n" "plaintext_header_sz ctxa = ?h" "header_ok ctxa" "cbuffer ctxa = Some b" "reserve_sz ctxa = ?r"
    using a(3) h b header_ok_same [OF a(3)] by (simp_all add: same_settings_def)
  have hp: "0 \<le> ?h" using wrote a(1) by (auto simp: sqlite3Codec_def Let_def split: if_splits)
  have cw: "codec_write ctxa 1 b pData pgno (page_sz ctxa) (plaintext_header_sz ctxa) (codec_offset pgno (plaintext_header_sz ctxa)) w
     = Some (RetBuffer, pData', ctx1, w1)"
    using wrote a(1) b hp fa by (simp add: sqlite3Codec_def Let_def)
  have hpa: "0 \<le> plaintext_header_sz ctxa" and da: "int (length pData) = page_sz ctxa" using hp d fa by simp_all
  obtain ctxb b1 b2 w0 where c0: "codec_ok ctxb" "same_settings ctxa ctxb" "read_ctx ctxb = read_ctx ctxa" "write_ctx ctxb = write_ctx ctxa"
      "int (length b1) = page_sz ctxa" "pgno = 1 \<and> plaintext_header_sz ctxa \<noteq> 0 \<longrightarrow>
         take (nat (plaintext_header_sz ctxa)) b1 = take (nat (plaintext_header_sz ctxa)) pData"
      "sqlcipher_page_cipher ctxb 1 pgno 1 (page_sz ctxa - codec_offset pgno (plaintext_header_sz ctxa)) pData
         (codec_offset pgno (plaintext_header_sz ctxa)) b1 (codec_offset pgno (plaintext_header_sz ctxa)) w0 = Some (0, b2, w1)"
      "ctx1 = ctxb\<lparr>cbuffer := Some b2, cflags := flag_set (cflags ctxb) CIPHER_FLAG_KEY_USED\<rparr>" "world_ok w1" "pgno_raw ctx1 = pgno_raw ctxb"
    using codec_write_result [OF a(2) fa(3) hpa w da fa(4) cw] .
  have "b2 = enc" using c0(8) enc by simp
  note c = c0(1-8,10) [unfolded this fa(1,2)]
  have sb: "same_settings ctx ctxb" using a(3) c(2) same_settings_trans by blast
  have fb: "page_sz ctxb = ?n" "plaintext_header_sz ctxb = ?h" "header_ok ctxb" "reserve_sz ctxb = ?r"
    using sb h header_ok_same [OF sb] by (simp_all add: same_settings_def)
  have g1: "page_geom ctxb (?n - ?o) pData ?o b1 ?o" "0 \<le> ?o" 
    using codec_geom [OF c(1) fb(3), of pData b1 pgno] fb hp d c(5) by simp_all
  obtain r wr where rw: "read_ctx ctxb = Some r" "write_ctx ctxb = Some wr" "c_key r = c_key wr" "c_hmac_key r = c_hmac_key wr"
    using a(4) c(3,4) by (auto simp: keys_settled_def)
  let ?plain = "page_at pData ?o (?n - ?o - ?r)"
  obtain rnd where e: "open_page ctxb wr pgno (page_at enc ?o (?n - ?o)) = Some ?plain" "length enc = length b1" "only_page b1 enc ?o (?n - ?o)"
    using encrypt_result [OF c(1) rw(2) g1(1) c(7)] page_cipher_total [OF c(1) g1(1), of 1 pgno 1 w0] c(7) fb(4) by auto
  have ok1: "codec_ok ctx1" "keys_settled ctx1"
  proof -
    have "codec_ok (ctxb\<lparr>cbuffer := Some enc\<rparr>)" using codec_ok_buffer [OF c(1), of enc] e(2) c(5) fb(1) by simp
    from codec_ok_flags [OF this, of "flag_set (cflags ctxb) CIPHER_FLAG_KEY_USED"] show "codec_ok ctx1" by (simp add: c(8))
    show "keys_settled ctx1" using a(4) c(3,4) by (simp add: keys_settled_def c(8))
  qed
  obtain ctxc where dc: "sqlcipher_codec_key_derive g ctx1 w1 = Some (0, ctxc, w1)" "codec_ok ctxc" "same_settings ctx1 ctxc" "keys_settled ctxc"
      "cflags ctxc = cflags ctx1" "map_option c_key (read_ctx ctxc) = map_option c_key (read_ctx ctx1)"
      "map_option c_hmac_key (read_ctx ctxc) = map_option c_hmac_key (read_ctx ctx1)"
    using derive_settled [OF ok1] .
  obtain rc where rc: "read_ctx ctxc = Some rc" "c_key rc = c_key wr" "c_hmac_key rc = c_hmac_key wr"
    using dc(6,7) rw by (auto simp: c(8))
  have f1: "page_sz ctx1 = ?n" "plaintext_header_sz ctx1 = ?h" "header_ok ctx1" using fb by (simp_all add: c(8))
  have fc: "page_sz ctxc = ?n" "plaintext_header_sz ctxc = ?h" "header_ok ctxc" "reserve_sz ctxc = ?r"
    using dc(3) f1 fb(4) header_ok_same [OF dc(3)] by (simp_all add: same_settings_def c(8))
  have raw: "pgno_raw ctxc = pgno_raw ctxb"
    using dc(5) c(9) by (metis (no_types, opaque_lifting) ext pgno_raw_def)
  have "open_page ctxc rc pgno (page_at enc ?o (?n - ?o)) = open_page ctxb wr pgno (page_at enc ?o (?n - ?o))"
    using dc(3) rc raw by (intro open_page_cong) (auto simp: same_settings_def c(8))
  with e(1) have op: "open_page ctxc rc pgno (page_at enc (codec_offset pgno (plaintext_header_sz ctxc)) (page_sz ctxc - codec_offset pgno (plaintext_header_sz ctxc))) = Some ?plain"
    using fc by simp
  have lo: "?o + ?r \<le> ?n" using g1(1) fb(4) by (simp add: page_geom_def)
  have lp: "int (length ?plain) = page_sz ctxc - codec_offset pgno (plaintext_header_sz ctxc) - reserve_sz ctxc"
    using g1(2) lo d fc codec_ok_sizes(9) [OF ok] by (simp add: length_page_at)
  have le: "int (length enc) = page_sz ctxc" using e(2) c(5) fc(1) by simp
  obtain data' ctx2 where R: "codec_read ctxc enc enc pgno ?n ?h ?o w1 = Some (RetData, data', ctx2, w1)"
      "take (nat (?n - ?r)) data' = (if pgno = 1 then (if ?h \<noteq> 0 then take (nat ?o) enc else SQLITE_FILE_HEADER) else []) @ ?plain"
    using codec_read_result [OF dc(2) fc(3) _ le le rc(1) op lp, of w1] fc hp by auto
  have "take (nat (?n - ?r)) pData = take (nat ?o) pData @ ?plain"
    using take_split_at [of ?o "?n - ?r" pData] g1(2) lo by (simp add: algebra_simps)
  moreover have "take (nat ?o) pData = (if pgno = 1 then (if ?h \<noteq> 0 then take (nat ?o) enc else SQLITE_FILE_HEADER) else [])"
  proof -
    have "take (nat ?o) enc = take (nat ?o) b1" using e(3) by (simp add: only_page_def)
    then show ?thesis using magic c(6) by (cases "pgno = 1"; cases "?h = 0") (simp_all add: codec_offset_def FILE_HEADER_SZ_def)
  qed
  moreover have "sqlite3Codec g ctx1 enc pgno 3 w1 = Some (RetData, data', ctx2, w1)"
    using dc(1) R(1) f1 hp enc by (simp add: sqlite3Codec_def Let_def)
  ultimately show ?thesis using R(2) by simp
qed

lemma demo_derive: "sqlcipher_codec_key_derive g demo_ctx demo_world = Some (SQLITE_OK, demo_ctx, demo_world)"
proof -
  have "c_derive_key demo_cipher_ctx = 0" "c_pass demo_cipher_ctx = None"
    "demo_cipher_ctx\<lparr>c_pass := None, c_pass_sz := 0\<rparr> = demo_cipher_ctx" by (simp_all add: demo_cipher_ctx_def)
  moreover have "demo_ctx\<lparr>read_ctx := Some demo_cipher_ctx, write_ctx := Some demo_cipher_ctx\<rparr> = demo_ctx"
    by (simp add: demo_ctx_def)
  ultimately show ?thesis
    by (simp add: sqlcipher_codec_key_derive_def derive_read_ctx_def derive_write_ctx_def wipe_pass_def
        sqlcipher_cipher_ctx_set_pass_def sqlcipher_free_def Let_def)
qed

lemma demo_ready: "codec_ready demo_ctx demo_world" "keys_settled demo_ctx"
  using demo_ctx_ok demo_world_ok by (auto simp: codec_ready_def keys_settled_def demo_cipher_ctx_def) (simp add: demo_ctx_def)

theorem sqlite3Codec_roundtrip_witness:
  "\<exists>ctx1 w1 enc data' ctx2 w2.
     sqlite3Codec demo_globals demo_ctx (replicate 512 65) 2 CODEC_WRITE_OP demo_world = Some (RetBuffer, replicate 512 65, ctx1, w1) \<and>
     cbuffer ctx1 = Some enc \<and>
     sqlite3Codec demo_globals ctx1 enc 2 CODEC_READ_OP w1 = Some (RetData, data', ctx2, w2) \<and>
     take 432 data' = replicate 432 65"
proof -
  obtain enc w1 where e: "sqlcipher_page_cipher demo_ctx 1 2 1 512 (replicate 512 65) 0 (replicate 512 0) 0 demo_world = Some (0, enc, w1)"
    using demo_encrypt by blast
  let ?ctx1 = "demo_ctx\<lparr>cbuffer := Some enc, cflags := flag_set (cflags demo_ctx) CIPHER_FLAG_KEY_USED\<rparr>"
  have b: "cbuffer demo_ctx = Some (replicate 512 0)" by (simp add: demo_ctx_def)
  have wr: "sqlite3Codec demo_globals demo_ctx (replicate 512 65) 2 6 demo_world = Some (RetBuffer, replicate 512 65, ?ctx1, w1)"
    using e b by (simp add: sqlite3Codec_def codec_write_def codec_offset_def demo_derive Let_def)
  have "\<exists>data' ctx2 w2. sqlite3Codec demo_globals ?ctx1 enc 2 3 w1 = Some (RetData, data', ctx2, w2) \<and>
           take (nat (page_sz demo_ctx - reserve_sz demo_ctx)) data' = take (nat (page_sz demo_ctx - reserve_sz demo_ctx)) (replicate 512 65) \<and>
           w_pager_error w2 = w_pager_error w1"
    by (rule sqlite3Codec_roundtrip [OF demo_ready _ _ wr]) simp_all
  then obtain data' ctx2 w2 where "sqlite3Codec demo_globals ?ctx1 enc 2 3 w1 = Some (RetData, data', ctx2, w2)"
      "take 432 data' = replicate 432 65" by (auto simp: take_replicate)
  moreover have "cbuffer ?ctx1 = Some enc" by simp
  ultimately show ?thesis using wr by blast
qed




definition demo_header_ctx :: "nat codec_ctx" where
  "demo_header_ctx = demo_ctx\<lparr>page_sz := 4096, cbuffer := Some (replicate 4096 0), plaintext_header_sz := 3200\<rparr>"


end
