(* ===== verification/Codec_Props.thy ===== *)
theory Codec_Props
  imports Demo_Provider
begin

text \<open>
  Properties of codec contexts: creation, key derivation, the keyspec round trip, the comparison of
  passphrases and the reserve size; each on the definitions of \<open>Codec_Ctx\<close>, from the lemmas of
  \<open>Codec_Wf\<close>.
\<close>

section \<open>The keyspec\<close>

lemma strnicmp_loop_0: "strnicmp_loop z b 0 = (-1, z, b)"
  by (cases z) simp_all

lemma stricmp_prefix: "sqlite3StrNICmp (str ''x'' @ [39] @ z) (str ''x'' @ [39]) 2 = 0"
  by (simp add: sqlite3_strnicmp_def str_def chr_def strnicmp_loop_0)

lemma keyspec_is_keyspec:
  assumes "codec_ok ctx" "int (length key) = key_sz ctx"
  shows "is_keyspec_of (keyspec_text ctx key) (keyspec_sz ctx) (key_sz ctx + 16) = Some True"
    "is_keyspec_of (keyspec_text ctx key) (keyspec_sz ctx) (key_sz ctx) = Some False"
proof -
  note d = codec_okD [OF assms(1)] and sz = codec_ok_sizes [OF assms(1)]
  have k: "keyspec_text ctx key = str ''x'' @ [39] @ hex_text (key @ kdf_salt ctx) @ [39]"
    by (simp add: keyspec_text_def hex_text_def)
  have "mem_read (keyspec_text ctx key) 2 (key_sz ctx * 2 + 32) = Some (hex_text (key @ kdf_salt ctx))"
    using assms(2) d(7) by (simp add: k mem_read_def nat_add_distrib nat_mult_distrib)
  then have "cipher_isHex (keyspec_text ctx key) 2 (key_sz ctx * 2 + 32) = Some True"
    using sz(1) by (simp add: cipher_isHex_def hex_text_is_hex)
  then show "is_keyspec_of (keyspec_text ctx key) (keyspec_sz ctx) (key_sz ctx + 16) = Some True"
    using d(6) stricmp_prefix by (simp add: is_keyspec_of_def k)
  show "is_keyspec_of (keyspec_text ctx key) (keyspec_sz ctx) (key_sz ctx) = Some False"
    using d(6) by (simp add: is_keyspec_of_def)
qed

lemma derive_from_keyspec:
  assumes ok: "codec_ok ctx" and key: "int (length key) = key_sz ctx"
    and ok2: "codec_ok ctx2" and sz: "key_sz ctx2 = key_sz ctx" and c: "cipher_ok ctx2 c"
    and pass: "c_pass_sz c = keyspec_sz ctx"
  shows "derive_cipher_key ctx2 c (keyspec_text ctx key) = Some (SQLITE_OK, key, kdf_salt ctx)"
proof -
  note d = codec_okD [OF ok] and d2 = codec_okD [OF ok2] and s = codec_ok_sizes [OF ok]
  let ?p = "keyspec_text ctx key"
  have b: "is_keyspec_of ?p (c_pass_sz c) (key_sz ctx2) = Some False"
     "is_keyspec_of ?p (c_pass_sz c) (key_sz ctx2 + kdf_salt_sz ctx2) = Some True"
    using keyspec_is_keyspec [OF ok key] pass sz d2(5) by simp_all
  have dr: "drop 2 ?p = hex_text key @ hex_text (kdf_salt ctx) @ [39]"
    "drop (nat (2 + key_sz ctx * 2)) ?p = hex_text (kdf_salt ctx) @ [39]"
    using key s(1) by (auto simp: keyspec_text_def nat_add_distrib nat_mult_distrib simp flip: key)
  have "cipher_hex2bin (drop 2 ?p) (key_sz ctx2 * 2) (c_key c) = Some (hex_bytes (take (nat (2 * key_sz ctx2)) (drop 2 ?p)))"
    using c s(1) sz key by (intro hex2bin_exact) (auto simp: cipher_ok_def dr)
  also have "take (nat (2 * key_sz ctx2)) (drop 2 ?p) = hex_text key"
    unfolding dr sz key [symmetric] by (simp add: nat_mult_distrib)
  finally have 1: "cipher_hex2bin (drop 2 ?p) (key_sz ctx2 * 2) (c_key c) = Some key" by simp
  have "cipher_hex2bin (drop (nat (2 + key_sz ctx2 * 2)) ?p) (kdf_salt_sz ctx2 * 2) (kdf_salt ctx2)
      = Some (hex_bytes (take (nat (2 * kdf_salt_sz ctx2)) (drop (nat (2 + key_sz ctx2 * 2)) ?p)))"
    using d2(5,7) d(7) sz by (intro hex2bin_exact) (auto simp: dr)
  then have 2: "cipher_hex2bin (drop (nat (2 + key_sz ctx2 * 2)) ?p) (kdf_salt_sz ctx2 * 2) (kdf_salt ctx2) = Some (kdf_salt ctx)"
    using d2(5) d(7) sz by (simp add: dr)
  show ?thesis using b 1 2 by (simp add: derive_cipher_key_def)
qed

lemma keyspec_text_cong: "kdf_salt ctx' = kdf_salt ctx \<Longrightarrow> keyspec_text ctx' key = keyspec_text ctx key"
  by (simp add: keyspec_text_def)

lemma derive_hmac_key_ok:
  assumes ok: "codec_ok ctx" and c: "cipher_ok ctx c" and e: "derive_hmac_key g ctx c = Some (SQLITE_OK, ctx', c')"
  shows "pr_kdf (cprovider ctx) (kdf_algorithm ctx) (c_key c) (map (\<lambda>b. b XOR g_hmac_salt_mask g) (kdf_salt ctx))
           (fast_kdf_iter ctx) (key_sz ctx) = Some (c_hmac_key c')" "c' = c\<lparr>c_hmac_key := c_hmac_key c'\<rparr>"
    "kdf_salt ctx' = kdf_salt ctx"
proof -
  note d = codec_okD [OF ok]
  let ?hs = "map (\<lambda>b. b XOR g_hmac_salt_mask g) (kdf_salt ctx)"
  have k: "int (length (c_key c)) = key_sz ctx" "int (length (c_hmac_key c)) = key_sz ctx"
    using c by (auto simp: cipher_ok_def)
  have rd: "mem_read (kdf_salt ctx) 0 16 = Some (kdf_salt ctx)" "mem_read (c_key c) 0 (key_sz ctx) = Some (c_key c)"
    "mem_write (hmac_kdf_salt ctx) 0 ?hs = Some ?hs" "mem_read ?hs 0 16 = Some ?hs"
    using mem_read_all [of "kdf_salt ctx"] mem_read_all [of ?hs] mem_read_all [of "c_key c"] d(7,8) k
    by (simp_all add: mem_write_def)
  obtain hb where hb: "pr_kdf (cprovider ctx) (kdf_algorithm ctx) (c_key c) ?hs (fast_kdf_iter ctx) (key_sz ctx) = Some hb"
    using e rd d(5) by (auto simp: derive_hmac_key_def Let_def split: option.splits)
  have "int (length hb) = key_sz ctx" using provider_ok_kdf [OF d(1) hb] .
  then have "mem_write (c_hmac_key c) 0 hb = Some hb" using k by (simp add: mem_write_def)
  then have "ctx' = ctx\<lparr>hmac_kdf_salt := ?hs\<rparr>" "c' = c\<lparr>c_hmac_key := hb\<rparr>"
    using e rd d(5) hb by (simp_all add: derive_hmac_key_def Let_def)
  then show "pr_kdf (cprovider ctx) (kdf_algorithm ctx) (c_key c) ?hs (fast_kdf_iter ctx) (key_sz ctx) = Some (c_hmac_key c')"
    "c' = c\<lparr>c_hmac_key := c_hmac_key c'\<rparr>" "kdf_salt ctx' = kdf_salt ctx"
    using hb by simp_all
qed

text \<open>What a successful derivation produced, from the key and the salt it settled on.\<close>

lemma key_derive_ok:
  assumes ok: "codec_ok ctx" and c: "cipher_ok ctx c" and w: "world_ok w"
    and e: "sqlcipher_cipher_ctx_key_derive g ctx c w = Some (SQLITE_OK, ctx', c', w')"
  obtains pass ctx1 where "c_pass c = Some pass" "codec_ok ctx1" "same_settings ctx ctx1" "cipher_ok ctx1 c"
    "derive_cipher_key ctx1 c pass = Some (SQLITE_OK, c_key c', kdf_salt ctx')"
    "c_keyspec c' = Some (keyspec_text ctx' (c_key c'))" "int (length (c_key c')) = key_sz ctx"
    "flag_get (cflags ctx) CIPHER_FLAG_HMAC \<Longrightarrow>
       pr_kdf (cprovider ctx) (kdf_algorithm ctx) (c_key c')
         (map (\<lambda>b. b XOR g_hmac_salt_mask g) (kdf_salt ctx')) (fast_kdf_iter ctx) (key_sz ctx) = Some (c_hmac_key c')"
proof -
  obtain pass where pass: "c_pass c = Some pass" and nz: "c_pass_sz c \<noteq> 0"
    using e by (auto simp: sqlcipher_cipher_ctx_key_derive_def split: option.splits if_splits)
  define st where "st = (if flag_get (cflags ctx) CIPHER_FLAG_HAS_KDF_SALT then Some (0 :: int, ctx, w)
                         else sqlcipher_codec_ctx_init_kdf_salt ctx w)"
  obtain rc ctx1 w1 where a: "st = Some (rc, ctx1, w1)" "codec_ok ctx1" "same_settings ctx ctx1"
    using init_kdf_salt_keeps [OF ok w] ok unfolding st_def by (cases "flag_get (cflags ctx) CIPHER_FLAG_HAS_KDF_SALT") auto
  have c1: "cipher_ok ctx1 c" using c cipher_ok_same [OF a(3)] by simp
  obtain rc2 k s where b: "derive_cipher_key ctx1 c pass = Some (rc2, k, s)" "int (length k) = key_sz ctx1" "length s = 16"
    using derive_cipher_key_keeps [OF a(2) c1 pass] by blast
  let ?ctx2 = "ctx1\<lparr>kdf_salt := s\<rparr>" and ?c1 = "c\<lparr>c_key := k\<rparr>"
  have ok2: "codec_ok ?ctx2" using codec_ok_salts [OF a(2) b(3) b(3)] by simp
  have c2: "cipher_ok ?ctx2 ?c1" using c1 b(2) by (simp add: cipher_ok_def)
  obtain rc3 c3 w2 where t: "sqlcipher_cipher_ctx_set_keyspec ?ctx2 ?c1 k w1 = Some (rc3, c3, w2)"
      "cipher_ok ?ctx2 c3" "c3 = ?c1\<lparr>c_keyspec := c_keyspec c3\<rparr>" "rc3 = 0 \<longrightarrow> c_keyspec c3 = Some (keyspec_text ?ctx2 k)"
    using set_keyspec_keeps [OF ok2 c2, of k w1] b(2) by auto
  have k3: "c_key c3 = k" by (subst t(3)) simp
  have hm: "(cflags ctx1 AND CIPHER_FLAG_HMAC = 0) = (\<not> flag_get (cflags ctx) CIPHER_FLAG_HMAC)"
    using a(3) by (simp add: flag_get_def same_settings_def)
  note run = sqlcipher_cipher_ctx_key_derive_def pass nz st_def [symmetric] a(1) b(1) t(1) hm Let_def
  have rc: "rc = 0" "rc2 = 0" "rc3 = 0" using e by (auto simp: run split: if_splits)
  obtain c4 where f: "(if flag_get (cflags ctx) CIPHER_FLAG_HMAC then derive_hmac_key g ?ctx2 c3 else Some (0, ?ctx2, c3))
      = Some (0, ctx', c4)" "c' = c4\<lparr>c_derive_key := 0\<rparr>"
    using e rc by (auto simp: run split: if_splits bind_splits)
  have p: "cprovider ctx1 = cprovider ctx" "kdf_algorithm ctx1 = kdf_algorithm ctx" "fast_kdf_iter ctx1 = fast_kdf_iter ctx"
    "key_sz ctx1 = key_sz ctx" using a(3) by (simp_all add: same_settings_def)
  have g: "c_key c4 = k \<and> c_keyspec c4 = c_keyspec c3 \<and> kdf_salt ctx' = s"
  proof (cases "flag_get (cflags ctx) CIPHER_FLAG_HMAC")
    case True
    then have d: "derive_hmac_key g ?ctx2 c3 = Some (0, ctx', c4)" using f by simp
    note o = derive_hmac_key_ok [OF ok2 t(2) d]
    have "c_key c4 = c_key c3" "c_keyspec c4 = c_keyspec c3" by (subst o(2), simp)+
    then show ?thesis using o(3) k3 by simp
  qed (use f k3 in auto)
  show ?thesis
  proof (rule that [OF pass a(2,3) c1])
    show "derive_cipher_key ctx1 c pass = Some (0, c_key c', kdf_salt ctx')" using b(1) rc g f(2) by simp
    show "c_keyspec c' = Some (keyspec_text ctx' (c_key c'))" using t(4) rc g f(2) by (simp add: keyspec_text_def)
    show "int (length (c_key c')) = key_sz ctx" using b(2) g f(2) p by simp
    assume h: "flag_get (cflags ctx) CIPHER_FLAG_HMAC"
    then have d: "derive_hmac_key g ?ctx2 c3 = Some (0, ctx', c4)" using f by simp
    show "pr_kdf (cprovider ctx) (kdf_algorithm ctx) (c_key c')
         (map (\<lambda>b. b XOR g_hmac_salt_mask g) (kdf_salt ctx')) (fast_kdf_iter ctx) (key_sz ctx) = Some (c_hmac_key c')"
      using derive_hmac_key_ok(1) [OF ok2 t(2) d] g f(2) k3 p by simp
  qed
qed

text \<open>
  C6.  Reopening with a keyspec: the text \<open>x'key salt'\<close> a successful derivation stores, which
  \<open>sqlcipher_codec_get_keyspec\<close> hands to \<open>ATTACH\<close>, used as the passphrase of a second context with the
  same settings, derives the same encryption key, the same salt and (with HMAC) the same HMAC key, no
  matter how the first key was obtained and what salt the second context started with.
\<close>

theorem keyspec_reopens:
  assumes ok: "codec_ok ctx" and c: "cipher_ok ctx c" and w: "world_ok w"
    and d1: "sqlcipher_cipher_ctx_key_derive g ctx c w = Some (SQLITE_OK, ctx1, c1, w1)"
    and ks: "c_keyspec c1 = Some ks"
    and ok2: "codec_ok ctx2" and same: "same_settings ctx ctx2" and c2: "cipher_ok ctx2 c2" and w2: "world_ok w2"
    and pass: "c_pass c2 = Some ks"
    and d2: "sqlcipher_cipher_ctx_key_derive g ctx2 c2 w2 = Some (SQLITE_OK, ctx3, c3, w3)"
  shows "c_key c3 = c_key c1 \<and> kdf_salt ctx3 = kdf_salt ctx1 \<and> c_keyspec c3 = Some ks \<and>
         (flag_get (cflags ctx) CIPHER_FLAG_HMAC \<longrightarrow> c_hmac_key c3 = c_hmac_key c1)"
proof -
  obtain ctx1' p1 where a: "same_settings ctx ctx1'" "c_keyspec c1 = Some (keyspec_text ctx1 (c_key c1))"
      "int (length (c_key c1)) = key_sz ctx" "flag_get (cflags ctx) CIPHER_FLAG_HMAC \<Longrightarrow>
       pr_kdf (cprovider ctx) (kdf_algorithm ctx) (c_key c1)
         (map (\<lambda>b. b XOR g_hmac_salt_mask g) (kdf_salt ctx1)) (fast_kdf_iter ctx) (key_sz ctx) = Some (c_hmac_key c1)"
    using key_derive_ok [OF ok c w d1] by blast
  obtain ctx2' where b: "codec_ok ctx2'" "same_settings ctx2 ctx2'" "cipher_ok ctx2' c2"
      "derive_cipher_key ctx2' c2 ks = Some (0, c_key c3, kdf_salt ctx3)"
      "c_keyspec c3 = Some (keyspec_text ctx3 (c_key c3))" "flag_get (cflags ctx2) CIPHER_FLAG_HMAC \<Longrightarrow>
       pr_kdf (cprovider ctx2) (kdf_algorithm ctx2) (c_key c3)
         (map (\<lambda>b. b XOR g_hmac_salt_mask g) (kdf_salt ctx3)) (fast_kdf_iter ctx2) (key_sz ctx2) = Some (c_hmac_key c3)"
    using key_derive_ok [OF ok2 c2 w2 d2] pass by auto
  obtain ok1: "codec_ok ctx1" "same_settings ctx ctx1" using key_derive_keeps [OF ok c w, of g] d1 by auto
  have sz: "key_sz ctx1 = key_sz ctx" "keyspec_sz ctx1 = keyspec_sz ctx" "key_sz ctx2' = key_sz ctx"
    using ok1(2) same b(2) by (simp_all add: same_settings_def)
  have kt: "ks = keyspec_text ctx1 (c_key c1)" using ks a(2) by simp
  have "c_pass_sz c2 = keyspec_sz ctx1"
    using c2 pass a(3) codec_okD(6,7) [OF ok1(1)] sz by (simp add: cipher_ok_def kt keyspec_text_def)
  then have "derive_cipher_key ctx2' c2 ks = Some (0, c_key c1, kdf_salt ctx1)"
    unfolding kt using a(3) sz b(1,3) by (intro derive_from_keyspec [OF ok1(1)]) simp_all
  with b(4) have e: "c_key c3 = c_key c1" "kdf_salt ctx3 = kdf_salt ctx1" by simp_all
  moreover have "c_keyspec c3 = Some ks" using b(5) e by (simp add: kt keyspec_text_def)
  moreover have "c_hmac_key c3 = c_hmac_key c1" if h: "flag_get (cflags ctx) CIPHER_FLAG_HMAC"
    using a(4) [OF h] b(6) same h e by (simp add: same_settings_def)
  ultimately show ?thesis by blast
qed

section \<open>Concrete inputs\<close>

definition demo_pass_ctx :: "byte list \<Rightarrow> cipher_ctx" where
  "demo_pass_ctx p = demo_cipher_ctx\<lparr>c_derive_key := 1, c_pass := Some p, c_pass_sz := int (length p)\<rparr>"

lemma demo_pass_ctx_ok: "cipher_ok demo_ctx (demo_pass_ctx p)"
  by (simp add: cipher_ok_def demo_pass_ctx_def demo_cipher_ctx_def)

lemma malloc_w_plenty:
  "w_allocs w = [] \<Longrightarrow> 0 < n \<Longrightarrow> n \<le> 100000 \<Longrightarrow> malloc_w n w = (Some (replicate (nat n) 0), w)"
  by (simp add: malloc_w_def sqlcipher_malloc_def SQLITE_MAX_ALLOCATION_SIZE_def)

lemma demo_derive_ok:
  assumes c: "cipher_ok demo_ctx c" and p: "c_pass c = Some p" "p \<noteq> []"
  shows "\<exists>ctx' c' w'. sqlcipher_cipher_ctx_key_derive demo_globals demo_ctx c demo_world = Some (SQLITE_OK, ctx', c', w')"
proof -
  note ok = demo_ctx_ok(1)
  have nz: "c_pass_sz c \<noteq> 0" using c p by (auto simp: cipher_ok_def)
  define ctx1 where "ctx1 = demo_ctx\<lparr>kdf_salt := replicate 16 5, cflags := flag_set (cflags demo_ctx) CIPHER_FLAG_HAS_KDF_SALT\<rparr>"
  have f: "\<not> flag_get (cflags demo_ctx) CIPHER_FLAG_HAS_KDF_SALT"
    by (simp add: demo_ctx_def flag_get_def CIPHER_FLAG_HAS_KDF_SALT_def)
  have 1: "sqlcipher_codec_ctx_init_kdf_salt demo_ctx demo_world = Some (0, ctx1, demo_world\<lparr>w_rand := 6\<rparr>)"
    using f by (simp add: sqlcipher_codec_ctx_init_kdf_salt_def ctx1_def Let_def)
      (simp add: demo_ctx_def demo_world_def mem_write_def)
  obtain a: "codec_ok ctx1" "same_settings demo_ctx ctx1"
    using init_kdf_salt_keeps [OF ok demo_world_ok] 1 by auto
  have q: "cprovider ctx1 = demo_provider" "key_sz ctx1 = 32" "kdf_algorithm ctx1 = 2" "keyspec_sz ctx1 = 99"
    by (simp_all add: ctx1_def demo_ctx_def)
  have c1: "cipher_ok ctx1 c" using c cipher_ok_same [OF a(2)] by simp
  obtain rc k s where b: "derive_cipher_key ctx1 c p = Some (rc, k, s)" "int (length k) = key_sz ctx1" "length s = 16"
    using derive_cipher_key_keeps [OF a(1) c1 p(1)] by blast
  have rc: "rc = 0" using b(1) q by (auto simp: derive_cipher_key_def split: bind_splits if_splits)
  let ?ctx2 = "ctx1\<lparr>kdf_salt := s\<rparr>" and ?c1 = "c\<lparr>c_key := k\<rparr>"
  have ok2: "codec_ok ?ctx2" using codec_ok_salts [OF a(1) b(3) b(3)] by simp
  have c2: "cipher_ok ?ctx2 ?c1" using c1 b(2) by (simp add: cipher_ok_def)
  obtain rc3 c3 w2 where t: "sqlcipher_cipher_ctx_set_keyspec ?ctx2 ?c1 k (demo_world\<lparr>w_rand := 6\<rparr>) = Some (rc3, c3, w2)"
      "cipher_ok ?ctx2 c3" using set_keyspec_keeps [OF ok2 c2, of k "demo_world\<lparr>w_rand := 6\<rparr>"] b(2) by auto
  have "malloc_w 99 (demo_world\<lparr>w_rand := 6\<rparr>) = (Some (replicate 99 0), demo_world\<lparr>w_rand := 6\<rparr>)"
    by (simp add: malloc_w_plenty demo_world_def)
  then have rc3: "rc3 = 0" using t(1) q
    by (auto simp: sqlcipher_cipher_ctx_set_keyspec_def split: bind_splits)
  obtain rc4 hs hk where h: "derive_hmac_key demo_globals ?ctx2 c3 = Some (rc4, ?ctx2\<lparr>hmac_kdf_salt := hs\<rparr>, c3\<lparr>c_hmac_key := hk\<rparr>)"
    using derive_hmac_key_keeps [OF ok2 t(2)] by blast
  have "rc4 = 0" using h q by (auto simp: derive_hmac_key_def Let_def split: bind_splits)
  then show ?thesis using f p(1) nz 1 b(1) rc t(1) rc3 h
    by (simp add: sqlcipher_cipher_ctx_key_derive_def Let_def)
qed

theorem keyspec_reopens_witness:
  "\<exists>ctx1 c1 w1 ks ctx3 c3 w3.
     sqlcipher_cipher_ctx_key_derive demo_globals demo_ctx (demo_pass_ctx [1, 2, 3]) demo_world = Some (SQLITE_OK, ctx1, c1, w1) \<and>
     c_keyspec c1 = Some ks \<and>
     sqlcipher_cipher_ctx_key_derive demo_globals demo_ctx (demo_pass_ctx ks) demo_world = Some (SQLITE_OK, ctx3, c3, w3) \<and>
     c_key c3 = c_key c1 \<and> kdf_salt ctx3 = kdf_salt ctx1 \<and> c_hmac_key c3 = c_hmac_key c1"
proof -
  note ok = demo_ctx_ok(1) and w = demo_world_ok
  obtain ctx1 c1 w1 where d1: "sqlcipher_cipher_ctx_key_derive demo_globals demo_ctx (demo_pass_ctx [1, 2, 3]) demo_world
      = Some (0, ctx1, c1, w1)"
    using demo_derive_ok [OF demo_pass_ctx_ok, of "[1, 2, 3]" "[1, 2, 3]"] by (auto simp: demo_pass_ctx_def)
  obtain ks where ks: "c_keyspec c1 = Some ks" "ks \<noteq> []"
    using key_derive_ok [OF ok demo_pass_ctx_ok w d1] by (metis keyspec_text_def append_is_Nil_conv not_Cons_self2)
  obtain ctx3 c3 w3 where d2: "sqlcipher_cipher_ctx_key_derive demo_globals demo_ctx (demo_pass_ctx ks) demo_world
      = Some (0, ctx3, c3, w3)"
    using demo_derive_ok [OF demo_pass_ctx_ok _ ks(2), of ks] by (auto simp: demo_pass_ctx_def)
  have p: "c_pass (demo_pass_ctx ks) = Some ks" by (simp add: demo_pass_ctx_def)
  from keyspec_reopens [OF ok demo_pass_ctx_ok w d1 ks(1) ok same_settings_refl demo_pass_ctx_ok w p d2] d1 ks(1) d2
  show ?thesis by auto
qed

section \<open>Creating a context and deriving its keys\<close>

text \<open>
  C8.  \<open>sqlcipher_codec_ctx_init\<close> is memory safe for every outcome of its allocations, every default
  in force and every key of at least the stated length; when it succeeds, the context satisfies the
  invariant, has a page buffer of the default page size, a plaintext header that leaves room for an
  encrypted block, and a write context equal to the read context.
\<close>

theorem codec_init_wellformed:
  assumes "g_provider g = Some p" and "provider_ok p" and "zKey = Some z" and "nKey \<le> int (length z)"
  shows "\<exists>res w'. sqlcipher_codec_ctx_init g zKey nKey w = Some (res, w') \<and>
           (\<forall>ctx. res = Inr ctx \<longrightarrow> codec_ok ctx \<and> header_ok ctx \<and> page_sz ctx = g_page_size g \<and>
              cbuffer ctx \<noteq> None \<and> read_ctx ctx = write_ctx ctx)"
  using assms by (intro codec_ctx_init_keeps [OF assms(1,2)]) auto

theorem codec_init_wellformed_witness:
  "\<exists>res w'. sqlcipher_codec_ctx_init demo_globals (Some [97, 98, 99]) 3 demo_world = Some (res, w') \<and>
     (\<forall>ctx. res = Inr ctx \<longrightarrow> codec_ok ctx \<and> header_ok ctx \<and> page_sz ctx = g_page_size demo_globals \<and>
        cbuffer ctx \<noteq> None \<and> read_ctx ctx = write_ctx ctx)"
  by (rule codec_init_wellformed [of _ demo_provider _ "[97, 98, 99]"])
    (simp_all add: demo_globals_def demo_provider_ok)



text \<open>
  Comparing the passphrases of two cipher contexts reads out of bounds exactly when they are not
  comparable: in particular when both are set and the first is longer than the second, because the
  arguments of the log call compare them over the length of the first.  Otherwise the comparison is
  defined, and 0 means that the passphrases are equal.
\<close>

theorem cipher_ctx_cmp_overread:
  assumes "cipher_ok ctx c1" and "cipher_ok ctx c2"
  shows "(sqlcipher_cipher_ctx_cmp c1 c2 = None \<longleftrightarrow> \<not> passes_comparable c1 c2) \<and>
         (c_pass c1 = Some p1 \<and> c_pass c2 = Some p2 \<and> c_pass_sz c2 < c_pass_sz c1 \<longrightarrow>
            sqlcipher_cipher_ctx_cmp c1 c2 = None) \<and>
         (c_pass c1 = Some p1 \<and> c_pass c2 = Some p2 \<and> sqlcipher_cipher_ctx_cmp c1 c2 = Some 0 \<longrightarrow> p1 = p2)"
proof -
  have d: "sqlcipher_cipher_ctx_cmp c1 c2 = None \<longleftrightarrow> \<not> passes_comparable c1 c2"
    using cmp_defined_iff [OF assms] by (cases "sqlcipher_cipher_ctx_cmp c1 c2") auto
  have "p1 = p2" if p: "c_pass c1 = Some p1" "c_pass c2 = Some p2" and z: "sqlcipher_cipher_ctx_cmp c1 c2 = Some 0"
  proof -
    have sz: "c_pass_sz c1 = c_pass_sz c2" using z by (auto simp: sqlcipher_cipher_ctx_cmp_def split: if_splits bind_splits)
    have l: "int (length p1) = c_pass_sz c1" "int (length p2) = c_pass_sz c1" using assms p sz by (auto simp: cipher_ok_def)
    have "sqlcipher_memcmp p1 0 p2 0 (c_pass_sz c1) = Some (if p1 = p2 then 0 else 1)"
      using mem_read_all [of p1] mem_read_all [of p2] l by (intro sqlcipher_memcmp_iff) simp_all
    then show ?thesis using z p sz by (auto simp: sqlcipher_cipher_ctx_cmp_def split: if_splits)
  qed
  with d show ?thesis by (auto simp: passes_comparable_def)
qed

theorem cipher_ctx_cmp_overread_witness:
  "sqlcipher_cipher_ctx_cmp (demo_pass_ctx [1, 2, 3, 4, 5, 6, 7, 8]) (demo_pass_ctx [1, 2, 3]) = None"
  using cipher_ctx_cmp_overread [OF demo_pass_ctx_ok demo_pass_ctx_ok, of "[1, 2, 3, 4, 5, 6, 7, 8]" "[1, 2, 3]" "[1, 2, 3, 4, 5, 6, 7, 8]" "[1, 2, 3]"]
  by (simp add: demo_pass_ctx_def)

text \<open>
  C9.  The reserve at the end of every page is a whole number of cipher blocks, holds the vector and,
  with HMAC, the digest, and leaves at least 416 bytes of the smallest page; a page size that is
  accepted is a multiple of the cipher block as well.
\<close>

theorem reserve_fits:
  assumes "codec_ok ctx"
  shows "block_sz ctx dvd reserve_sz ctx \<and> block_sz ctx dvd page_sz ctx \<and>
         iv_sz ctx + (if sqlcipher_codec_ctx_get_use_hmac ctx then hmac_sz ctx else 0) \<le> reserve_sz ctx \<and>
         reserve_sz ctx < 96 \<and> 416 < page_sz ctx - reserve_sz ctx \<and>
         sqlcipher_codec_ctx_reserve_setup ctx = ctx"
proof -
  have "sqlcipher_codec_ctx_reserve_setup ctx = ctx\<lparr>hmac_sz := hmac_sz ctx, reserve_sz := reserve_sz ctx\<rparr>"
    using codec_okD(10,11) [OF assms]
    by (simp add: sqlcipher_codec_ctx_reserve_setup_def reserve_of_def Let_def)
  then show ?thesis using codec_ok_sizes [OF assms] by (auto simp: sqlcipher_codec_ctx_get_use_hmac_def split: if_splits)
qed

theorem reserve_fits_witness: "block_sz demo_ctx dvd reserve_sz demo_ctx \<and> reserve_sz demo_ctx < 96"
  using reserve_fits [OF demo_ctx_ok(1)] by simp

end
