(* ===== verification/Btree_Config.thy ===== *)
theory Btree_Config
  imports Codec
begin

text \<open>
  The part of the B-tree and pager objects the codec configures: page size and reserved bytes
  (\<open>sqlite3BtreeSetPageSize\<close>, \<open>sqlite3PagerSetPagesize\<close>), the secure-delete and auto-vacuum
  settings, and the codec a pager calls (\<open>sqlcipherPagerSetCodec\<close>).

  One record \<open>btree\<close> holds the fields of \<open>BtShared\<close> and \<open>Pager\<close> these functions read and
  write, together with the \<open>world\<close> the codec reaches through them (the error codes, the auto-vacuum
  mode, the file and the number of the locking page are fields of that record).  Cached pages are not
  represented; \<open>pager_reset\<close>, which drops them, is seen as the increment of \<open>iDataVersion\<close>.
\<close>

section \<open>State\<close>

record 'r btree =
  bt_world :: "'r world"
  bt_pageSize :: int
  bt_usableSize :: int
  bt_nReserveWanted :: int
  bt_btsFlags :: u32
  pg_memDb :: bool
  pg_dbSize :: int
  pg_nRef :: int
  pg_pageSize :: int
  pg_nReserve :: int
  pg_eState :: int
  pg_iDataVersion :: u32
  pg_xCodec :: bool
  pg_xCodecFree :: bool
  pg_pCodec :: "'r codec_ctx option"

definition SQLITE_MAX_PAGE_SIZE :: int where "SQLITE_MAX_PAGE_SIZE = 65536"
definition PENDING_BYTE :: int where "PENDING_BYTE = 0x40000000"

definition BTS_PAGESIZE_FIXED :: u32 where "BTS_PAGESIZE_FIXED = 2"
definition BTS_SECURE_DELETE :: u32 where "BTS_SECURE_DELETE = 4"
definition BTS_FAST_SECURE :: u32 where "BTS_FAST_SECURE = 12"

lemmas bts_flag_defs = BTS_PAGESIZE_FIXED_def BTS_SECURE_DELETE_def BTS_FAST_SECURE_def

abbreviation (input) BTREE_AUTOVACUUM_FULL :: int where "BTREE_AUTOVACUUM_FULL \<equiv> 1"
abbreviation (input) BTREE_AUTOVACUUM_INCR :: int where "BTREE_AUTOVACUUM_INCR \<equiv> 2"
abbreviation (input) PAGER_OPEN :: int where "PAGER_OPEN \<equiv> 0"
abbreviation (input) PAGER_ERROR :: int where "PAGER_ERROR \<equiv> 6"

section \<open>Page size\<close>

text \<open>The outcome of an allocation whose memory the model does not look at.\<close>

definition take_alloc :: "'r world \<Rightarrow> bool \<times> 'r world" where
  "take_alloc w = (case w_allocs w of [] \<Rightarrow> (True, w) | ok # al \<Rightarrow> (ok, w\<lparr>w_allocs := al\<rparr>))"

definition pager_reset :: "'r btree \<Rightarrow> 'r btree" where
  "pager_reset bt = bt\<lparr>pg_iDataVersion := pg_iDataVersion bt + 1\<rparr>"

text \<open>
  The body of the first \<open>if\<close> of \<open>sqlite3PagerSetPagesize\<close>: the size of the file when the pager is
  past \<open>PAGER_OPEN\<close> (an error code in the world means \<open>PAGER_ERROR\<close>), the new temporary page, and
  the new page cache, any of which may fail.
\<close>

definition pager_change_size :: "'r btree \<Rightarrow> int \<Rightarrow> int \<times> 'r btree" where
  "pager_change_size bt pageSize =
     (let w = bt_world bt;
          fsz = (if (pg_eState bt > PAGER_OPEN \<or> w_pager_error w \<noteq> SQLITE_OK) \<and> w_fd_open w
                 then w_file_size w else Some 0)
      in case fsz of
           None \<Rightarrow> (SQLITE_IOERR, bt)
         | Some nByte \<Rightarrow>
             (case take_alloc w of (tmp_ok, w1) \<Rightarrow>
                if \<not> tmp_ok then (SQLITE_NOMEM, bt\<lparr>bt_world := w1\<rparr>)
                else let bt1 = pager_reset (bt\<lparr>bt_world := w1\<rparr>) in
                  (case take_alloc w1 of (cache_ok, w2) \<Rightarrow>
                     if \<not> cache_ok then (SQLITE_NOMEM, bt1\<lparr>bt_world := w2\<rparr>)
                     else (SQLITE_OK,
                       bt1\<lparr>bt_world := w2\<lparr>w_sj_pgno := of_int (PENDING_BYTE div pageSize) + 1\<rparr>,
                           pg_dbSize := (nByte + pageSize - 1) div pageSize mod 2 ^ 32,
                           pg_pageSize := pageSize\<rparr>))))"

definition sqlite3PagerSetPagesize :: "'r btree \<Rightarrow> int \<Rightarrow> int \<Rightarrow> int \<times> int \<times> 'r btree" where
  "sqlite3PagerSetPagesize bt pageSize nReserve =
     (case (if (\<not> pg_memDb bt \<or> pg_dbSize bt = 0) \<and> pg_nRef bt = 0 \<and> pageSize \<noteq> 0
               \<and> pageSize \<noteq> pg_pageSize bt
            then pager_change_size bt pageSize else (SQLITE_OK, bt)) of
        (rc, bt1) \<Rightarrow>
          (rc, pg_pageSize bt1,
           if rc = SQLITE_OK
           then bt1\<lparr>pg_nReserve := (if nReserve < 0 then pg_nReserve bt1 else nReserve)\<rparr>
           else bt1))"

definition sqlite3BtreeSetPageSize :: "'r btree \<Rightarrow> int \<Rightarrow> int \<Rightarrow> bool \<Rightarrow> int \<times> 'r btree" where
  "sqlite3BtreeSetPageSize bt pageSize nReserve iFix =
     (let bt0 = bt\<lparr>bt_nReserveWanted := nReserve\<rparr>;
          x = bt_pageSize bt - bt_usableSize bt;
          res = (if nReserve < x then x else nReserve)
      in if flag_get (bt_btsFlags bt) BTS_PAGESIZE_FIXED then (SQLITE_READONLY, bt0)
         else
           let bt1 = (if pageSize \<ge> 512 \<and> pageSize \<le> SQLITE_MAX_PAGE_SIZE \<and> (pageSize - 1) AND pageSize = 0
                      then bt0\<lparr>bt_pageSize := (if res > 32 \<and> pageSize = 512 then 1024 else pageSize)\<rparr>
                      else bt0)
           in case sqlite3PagerSetPagesize bt1 (bt_pageSize bt1) res of
                (rc, psz, bt2) \<Rightarrow>
                  (rc, bt2\<lparr>bt_pageSize := psz, bt_usableSize := psz - res mod 65536,
                           bt_btsFlags := (if iFix then flag_set (bt_btsFlags bt2) BTS_PAGESIZE_FIXED
                                           else bt_btsFlags bt2)\<rparr>))"

definition sqlite3BtreeGetReserveNoMutex :: "'r btree \<Rightarrow> int" where
  "sqlite3BtreeGetReserveNoMutex bt = bt_pageSize bt - bt_usableSize bt"

definition sqlite3BtreeGetRequestedReserve :: "'r btree \<Rightarrow> int" where
  "sqlite3BtreeGetRequestedReserve bt =
     (let n1 = bt_nReserveWanted bt; n2 = sqlite3BtreeGetReserveNoMutex bt in if n1 > n2 then n1 else n2)"

section \<open>Secure delete and auto-vacuum\<close>

definition sqlite3BtreeSecureDelete :: "'r btree \<Rightarrow> int \<Rightarrow> int \<times> 'r btree" where
  "sqlite3BtreeSecureDelete bt newFlag =
     (let bt1 = (if newFlag \<ge> 0
                 then bt\<lparr>bt_btsFlags := flag_unset (bt_btsFlags bt) BTS_FAST_SECURE
                                          OR BTS_SECURE_DELETE * of_int newFlag\<rparr>
                 else bt)
      in (uint (bt_btsFlags bt1 AND BTS_FAST_SECURE) div uint BTS_SECURE_DELETE, bt1))"

text \<open>\<open>w_autovacuum\<close> is what \<open>sqlite3BtreeGetAutoVacuum\<close> computes from the two fields set here.\<close>

definition sqlite3BtreeGetAutoVacuum :: "'r btree \<Rightarrow> int" where
  "sqlite3BtreeGetAutoVacuum bt = w_autovacuum (bt_world bt)"

definition sqlite3BtreeSetAutoVacuum :: "'r btree \<Rightarrow> int \<Rightarrow> int \<times> 'r btree" where
  "sqlite3BtreeSetAutoVacuum bt autoVacuum =
     (let av = autoVacuum mod 256 in
      if flag_get (bt_btsFlags bt) BTS_PAGESIZE_FIXED
         \<and> (av \<noteq> 0) \<noteq> (sqlite3BtreeGetAutoVacuum bt \<noteq> BTREE_AUTOVACUUM_NONE)
      then (SQLITE_READONLY, bt)
      else (SQLITE_OK,
            bt\<lparr>bt_world := (bt_world bt)\<lparr>w_autovacuum :=
                 (if av = 0 then BTREE_AUTOVACUUM_NONE
                  else if av = 2 then BTREE_AUTOVACUUM_INCR else BTREE_AUTOVACUUM_FULL)\<rparr>\<rparr>))"

section \<open>The codec of a pager\<close>

definition sqlcipherPagerGetCodec :: "'r btree \<Rightarrow> 'r codec_ctx option" where
  "sqlcipherPagerGetCodec bt = pg_pCodec bt"

definition sqlite3pager_is_sj_pgno :: "'r btree \<Rightarrow> pgno \<Rightarrow> bool" where
  "sqlite3pager_is_sj_pgno bt pgno \<longleftrightarrow> w_sj_pgno (bt_world bt) = pgno"

definition sqlite3pager_error :: "'r btree \<Rightarrow> int \<Rightarrow> 'r btree" where
  "sqlite3pager_error bt err = bt\<lparr>bt_world := (bt_world bt)\<lparr>w_pager_error := err\<rparr>, pg_eState := PAGER_ERROR\<rparr>"

end
