(* ===== verification/Codec_Api.thy ===== *)
theory Codec_Api
  imports Btree_Config
begin

text \<open>
  The life cycle of a codec: provider registration and activation counting (\<open>crypto_impl.c\<close>),
  attaching a codec to a pager (\<open>sqlcipherCodecAttach\<close>), the public functions \<open>sqlite3_key\<close>,
  \<open>sqlite3_key_v2\<close>, \<open>sqlite3_rekey\<close> and \<open>sqlite3_rekey_v2\<close>, and reading the key of an attached
  database back (\<open>sqlcipherCodecGetKey\<close>).

  Mutexes are not represented: the functions are the critical sections they protect.  The B-tree and
  pager calls of a rekey are a parameter, the record \<open>txn_env\<close>; every other call is modelled.
\<close>

section \<open>Providers and activation\<close>

definition sqlcipher_register_provider ::
    "'r cipher_globals \<Rightarrow> 'r sqlcipher_provider \<Rightarrow> int \<times> 'r cipher_globals" where
  "sqlcipher_register_provider g p = (SQLITE_OK, g\<lparr>g_provider := Some p\<rparr>)"

definition sqlcipher_get_provider :: "'r cipher_globals \<Rightarrow> 'r sqlcipher_provider option" where
  "sqlcipher_get_provider g = g_provider g"

text \<open>
  The provider is allocated without a check: when the allocation fails, \<open>sqlcipher_cc_setup\<close> writes
  through NULL.
\<close>

definition sqlcipher_activate ::
    "('r, 'h, 'c) commoncrypto \<Rightarrow> 'r cipher_globals \<Rightarrow> 'r world \<Rightarrow> ('r cipher_globals \<times> 'r world) option" where
  "sqlcipher_activate cc g w = do {
     (g1, w1) \<leftarrow>
       (case sqlcipher_get_provider g of
          Some _ \<Rightarrow> Some (g, w)
        | None \<Rightarrow>
            (case malloc_w sizeof_provider w of
               (None, _) \<Rightarrow> None
             | (Some _, w') \<Rightarrow> Some (snd (sqlcipher_register_provider g (sqlcipher_cc_setup cc)), w')));
     Some (g1\<lparr>g_activate_count := g_activate_count g1 + 1\<rparr>, w1)
   }"

definition sqlcipher_deactivate :: "'r cipher_globals \<Rightarrow> 'r cipher_globals" where
  "sqlcipher_deactivate g =
     (let n = g_activate_count g - 1 in
      if n < 1 then g\<lparr>g_activate_count := 0, g_provider := None\<rparr> else g\<lparr>g_activate_count := n\<rparr>)"

definition sqlite3FreeCodecArg ::
    "'r cipher_globals \<Rightarrow> 'r codec_ctx option \<Rightarrow> 'r cipher_globals option" where
  "sqlite3FreeCodecArg g arg =
     (case arg of
        None \<Rightarrow> Some g
      | Some ctx \<Rightarrow> do { _ \<leftarrow> sqlcipher_codec_ctx_free ctx; Some (sqlcipher_deactivate g) })"

text \<open>Called with \<open>sqlite3Codec\<close> and \<open>sqlite3FreeCodecArg\<close>, and without a size-change callback.\<close>

definition sqlcipherPagerSetCodec ::
    "'r cipher_globals \<Rightarrow> 'r btree \<Rightarrow> 'r codec_ctx \<Rightarrow> ('r cipher_globals \<times> 'r btree) option" where
  "sqlcipherPagerSetCodec g bt ctx = do {
     (g1, bt1) \<leftarrow>
       (if pg_xCodecFree bt then do { g' \<leftarrow> sqlite3FreeCodecArg g (pg_pCodec bt); Some (g', bt) }
        else Some (g, pager_reset bt));
     Some (g1, bt1\<lparr>pg_xCodec := \<not> pg_memDb bt1, pg_xCodecFree := True, pg_pCodec := Some ctx\<rparr>)
   }"

section \<open>Attaching a codec\<close>

text \<open>Besides result code and B-tree, the value stored in \<open>db->nextPagesize\<close>.\<close>

definition codec_set_btree_to_codec_pagesize ::
    "'r btree \<Rightarrow> 'r codec_ctx \<Rightarrow> int \<times> 'r btree \<times> int" where
  "codec_set_btree_to_codec_pagesize bt ctx =
     (case sqlite3BtreeSetPageSize (bt\<lparr>bt_btsFlags := flag_unset (bt_btsFlags bt) BTS_PAGESIZE_FIXED\<rparr>)
             (page_sz ctx) (reserve_sz ctx) False of
        (rc, bt') \<Rightarrow> (rc, bt', page_sz ctx))"

definition codec_set_pass_key ::
    "'r btree option \<Rightarrow> byte list option \<Rightarrow> int \<Rightarrow> int \<Rightarrow> (int \<times> 'r btree option) option" where
  "codec_set_pass_key pBt zKey nKey for_ctx =
     (case pBt of
        None \<Rightarrow> Some (SQLITE_ERROR, None)
      | Some bt \<Rightarrow>
          (case sqlcipherPagerGetCodec bt of
             None \<Rightarrow> Some (SQLITE_ERROR, Some bt)
           | Some ctx \<Rightarrow> do {
               (rc, ctx', w') \<leftarrow> sqlcipher_codec_ctx_set_pass ctx zKey nKey for_ctx (bt_world bt);
               Some (rc, Some (bt\<lparr>pg_pCodec := Some ctx', bt_world := w'\<rparr>))
             }))"

text \<open>What follows a successful \<open>sqlcipher_codec_ctx_init\<close>.\<close>

definition codec_attach_ctx ::
    "'r cipher_globals \<Rightarrow> 'r btree \<Rightarrow> 'r codec_ctx \<Rightarrow> bool \<Rightarrow> ('r cipher_globals \<times> 'r btree \<times> int) option" where
  "codec_attach_ctx g bt ctx fd = do {
     (g1, bt1) \<leftarrow> sqlcipherPagerSetCodec g bt ctx;
     let (rc, bt2, next) = codec_set_btree_to_codec_pagesize bt1 ctx;
     let bt3 = snd (sqlite3BtreeSecureDelete bt2 1);
     Some (g1, if fd then snd (sqlite3BtreeSetAutoVacuum bt3 0) else bt3, next)
   }"

text \<open>
  \<open>sqlcipherCodecAttach\<close> for the database \<open>pBt\<close> of a connection whose \<open>nextPagesize\<close> is \<open>next\<close>.
\<close>

definition sqlcipherCodecAttach ::
    "('r, 'h, 'c) commoncrypto \<Rightarrow> 'r cipher_globals \<Rightarrow> 'r btree option \<Rightarrow> int \<Rightarrow> byte list option \<Rightarrow> int
       \<Rightarrow> (int \<times> 'r cipher_globals \<times> 'r btree option \<times> int) option" where
  "sqlcipherCodecAttach cc g pBt next zKey nKey =
     (case pBt of
        None \<Rightarrow> Some (SQLITE_OK, g, None, next)
      | Some bt \<Rightarrow>
          if nKey = 0 \<or> zKey = None then Some (SQLITE_OK, g, Some bt, next)
          else
            let key_used = (case sqlcipherPagerGetCodec bt of
                              None \<Rightarrow> False | Some ctx \<Rightarrow> flag_get (cflags ctx) CIPHER_FLAG_KEY_USED)
            in if key_used then Some (SQLITE_OK, g, Some bt, next)
               else do {
                 let fd = w_fd_open (bt_world bt);
                 (g1, w1) \<leftarrow> sqlcipher_activate cc g (bt_world bt);
                 (res, w2) \<leftarrow> sqlcipher_codec_ctx_init g1 zKey nKey w1;
                 (case res of
                    Inl rc \<Rightarrow>
                      let bt1 = sqlite3pager_error (bt\<lparr>bt_world := w2\<rparr>) rc
                      in Some (rc, g1, Some (bt1\<lparr>bt_world := (bt_world bt1)\<lparr>w_db_error := rc\<rparr>\<rparr>), next)
                  | Inr ctx \<Rightarrow> do {
                      (g2, bt2, next') \<leftarrow> codec_attach_ctx g1 (bt\<lparr>bt_world := w2\<rparr>) ctx fd;
                      Some (SQLITE_OK, g2, Some bt2, next')
                    })
               })"

section \<open>Connections\<close>

text \<open>The databases of a connection, each with its schema name and possibly no B-tree.\<close>

record 'r sqlite3 =
  aDb :: "(byte list \<times> 'r btree option) list"
  nextPagesize :: int

fun find_name :: "byte list \<Rightarrow> (byte list \<times> 'a) list \<Rightarrow> int \<Rightarrow> int" where
  "find_name z [] i = 0"
| "find_name z ((n, b) # ds) i = (if n = z then i else find_name z ds (i + 1))"

definition sqlcipher_find_db_index :: "'r sqlite3 \<Rightarrow> byte list option \<Rightarrow> int" where
  "sqlcipher_find_db_index db zDb = (case zDb of None \<Rightarrow> 0 | Some z \<Rightarrow> find_name z (aDb db) 0)"

definition put_btree :: "'r sqlite3 \<Rightarrow> int \<Rightarrow> 'r btree option \<Rightarrow> 'r sqlite3" where
  "put_btree db i pBt = db\<lparr>aDb := (aDb db)[nat i := (fst (aDb db ! nat i), pBt)]\<rparr>"

definition sqlite3_key_v2 ::
    "('r, 'h, 'c) commoncrypto \<Rightarrow> 'r cipher_globals \<Rightarrow> 'r sqlite3 option \<Rightarrow> byte list option
       \<Rightarrow> byte list option \<Rightarrow> int \<Rightarrow> (int \<times> 'r cipher_globals \<times> 'r sqlite3 option) option" where
  "sqlite3_key_v2 cc g db zDb pKey nKey =
     (case db of
        None \<Rightarrow> Some (SQLITE_ERROR, g, None)
      | Some d \<Rightarrow>
          if pKey = None \<or> nKey = 0 then Some (SQLITE_ERROR, g, Some d)
          else do {
            let i = sqlcipher_find_db_index d zDb;
            (_, pBt) \<leftarrow> nth_opt (aDb d) i;
            (rc, g', pBt', next') \<leftarrow> sqlcipherCodecAttach cc g pBt (nextPagesize d) pKey nKey;
            Some (rc, g', Some ((put_btree d i pBt')\<lparr>nextPagesize := next'\<rparr>))
          })"

definition sqlite3_key ::
    "('r, 'h, 'c) commoncrypto \<Rightarrow> 'r cipher_globals \<Rightarrow> 'r sqlite3 option
       \<Rightarrow> byte list option \<Rightarrow> int \<Rightarrow> (int \<times> 'r cipher_globals \<times> 'r sqlite3 option) option" where
  "sqlite3_key cc g db pKey nKey = sqlite3_key_v2 cc g db (Some (str ''main'')) pKey nKey"

section \<open>Changing the key\<close>

text \<open>
  The B-tree and pager calls of \<open>sqlite3_rekey_v2\<close>: begin a write transaction, count the pages, get,
  write and release a page, commit and roll back.  They read and write pages through the codec, so
  each may change the B-tree state.
\<close>

record 'r txn_env =
  e_BeginTrans :: "'r btree \<Rightarrow> int \<times> 'r btree"
  e_Pagecount :: "'r btree \<Rightarrow> int"
  e_PagerGet :: "pgno \<Rightarrow> 'r btree \<Rightarrow> int \<times> 'r btree"
  e_PagerWrite :: "pgno \<Rightarrow> 'r btree \<Rightarrow> int \<times> 'r btree"
  e_Unref :: "pgno \<Rightarrow> 'r btree \<Rightarrow> 'r btree"
  e_Commit :: "'r btree \<Rightarrow> int \<times> 'r btree"
  e_Rollback :: "'r btree \<Rightarrow> 'r btree"

datatype txn_event = Begin | Get pgno | Write pgno | Unref pgno | Commit | Rollback

text \<open>
  The loop over the \<open>n\<close> remaining pages from \<open>pgno\<close> on, with the result code and the calls made.
\<close>

fun rekey_pages :: "'r txn_env \<Rightarrow> nat \<Rightarrow> pgno \<Rightarrow> 'r btree \<Rightarrow> int \<times> 'r btree \<times> txn_event list" where
  "rekey_pages e 0 pgno bt = (SQLITE_OK, bt, [])"
| "rekey_pages e (Suc n) pgno bt =
     (if sqlite3pager_is_sj_pgno bt pgno then rekey_pages e n (pgno + 1) bt
      else case e_PagerGet e pgno bt of (rc, bt1) \<Rightarrow>
        if rc \<noteq> SQLITE_OK then (rc, bt1, [Get pgno])
        else case e_PagerWrite e pgno bt1 of (rc2, bt2) \<Rightarrow>
          if rc2 \<noteq> SQLITE_OK then (rc2, bt2, [Get pgno, Write pgno])
          else case rekey_pages e n (pgno + 1) (e_Unref e pgno bt2) of (rc3, bt3, tr) \<Rightarrow>
            (rc3, bt3, Get pgno # Write pgno # Unref pgno # tr))"

definition rekey_commit ::
    "'r txn_env \<Rightarrow> int \<Rightarrow> 'r btree \<Rightarrow> ('r btree \<times> txn_event list) option" where
  "rekey_commit e rc bt =
     (if rc = SQLITE_OK then do {
        let (_, bt1) = e_Commit e bt;
        ctx \<leftarrow> sqlcipherPagerGetCodec bt1;
        (_, ctx', w') \<leftarrow> sqlcipher_codec_key_copy ctx 1 (bt_world bt1);
        Some (bt1\<lparr>pg_pCodec := Some ctx', bt_world := w'\<rparr>, [Commit])
      } else Some (e_Rollback e bt, [Rollback]))"

definition rekey_btree ::
    "'r txn_env \<Rightarrow> 'r btree \<Rightarrow> byte list option \<Rightarrow> int \<Rightarrow> (int \<times> 'r btree \<times> txn_event list) option" where
  "rekey_btree e bt pKey nKey =
     (case sqlcipherPagerGetCodec bt of
        None \<Rightarrow> Some (SQLITE_MISUSE, bt, [])
      | Some _ \<Rightarrow> do {
          (_, pBt1) \<leftarrow> codec_set_pass_key (Some bt) pKey nKey 1;
          bt1 \<leftarrow> pBt1;
          let (rc, bt2) = e_BeginTrans e bt1;
          let n = e_Pagecount e bt2;
          let (rc2, bt3, tr) = (if rc = SQLITE_OK then rekey_pages e (nat (n mod 2 ^ 32)) 1 bt2
                                else (rc, bt2, []));
          (bt4, tr2) \<leftarrow> rekey_commit e rc2 bt3;
          Some (SQLITE_OK, bt4, Begin # tr @ tr2)
        })"

definition sqlite3_rekey_v2 ::
    "'r txn_env \<Rightarrow> 'r sqlite3 option \<Rightarrow> byte list option \<Rightarrow> byte list option \<Rightarrow> int
       \<Rightarrow> (int \<times> 'r sqlite3 option \<times> txn_event list) option" where
  "sqlite3_rekey_v2 e db zDb pKey nKey =
     (case db of
        None \<Rightarrow> Some (SQLITE_ERROR, None, [])
      | Some d \<Rightarrow>
          if pKey = None \<or> nKey = 0 then Some (SQLITE_ERROR, Some d, [])
          else do {
            let i = sqlcipher_find_db_index d zDb;
            (_, pBt) \<leftarrow> nth_opt (aDb d) i;
            (case pBt of
               None \<Rightarrow> Some (SQLITE_OK, Some d, [])
             | Some bt \<Rightarrow> do {
                 (rc, bt', tr) \<leftarrow> rekey_btree e bt pKey nKey;
                 Some (rc, Some (put_btree d i (Some bt')), tr) })
          })"

definition sqlite3_rekey ::
    "'r txn_env \<Rightarrow> 'r sqlite3 option \<Rightarrow> byte list option \<Rightarrow> int
       \<Rightarrow> (int \<times> 'r sqlite3 option \<times> txn_event list) option" where
  "sqlite3_rekey e db pKey nKey = sqlite3_rekey_v2 e db (Some (str ''main'')) pKey nKey"

section \<open>Reading the key back\<close>

definition sqlcipher_codec_get_keyspec :: "'r codec_ctx \<Rightarrow> (byte list option \<times> int) option" where
  "sqlcipher_codec_get_keyspec ctx = do { r \<leftarrow> read_ctx ctx; Some (c_keyspec r, keyspec_sz ctx) }"

definition sqlcipher_codec_get_pass :: "'r codec_ctx \<Rightarrow> (byte list option \<times> int) option" where
  "sqlcipher_codec_get_pass ctx = do { r \<leftarrow> read_ctx ctx; Some (c_pass r, c_pass_sz r) }"

definition sqlcipher_codec_get_store_pass :: "'r codec_ctx \<Rightarrow> int" where
  "sqlcipher_codec_get_store_pass ctx = store_pass ctx"

text \<open>\<open>old\<close> is what the two output variables held before; it is kept when there is no B-tree.\<close>

definition sqlcipherCodecGetKey ::
    "'r btree option \<Rightarrow> byte list option \<times> int \<Rightarrow> (byte list option \<times> int) option" where
  "sqlcipherCodecGetKey pBt old =
     (case pBt of
        None \<Rightarrow> Some old
      | Some bt \<Rightarrow>
          (case sqlcipherPagerGetCodec bt of
             None \<Rightarrow> Some (None, 0)
           | Some ctx \<Rightarrow> do {
               (zKey, nKey) \<leftarrow> sqlcipher_codec_get_keyspec ctx;
               if sqlcipher_codec_get_store_pass ctx = 1 \<or> zKey = None
               then sqlcipher_codec_get_pass ctx else Some (zKey, nKey)
             }))"

end
