(* ===== verification/Api_Props.thy ===== *)
theory Api_Props
  imports Codec_Api Demo_Provider
begin

text \<open>
  Properties of the codec's life cycle: the page size of the B-tree follows the codec, attaching a key is
  memory safe, the activation count covers every live codec in every reachable state of a process, and the
  calls of a rekey.
\<close>

section \<open>Creating a context leaves the rest of the world alone\<close>

lemma cipher_ctx_init_world: "sqlcipher_cipher_ctx_init ctx w = (r, w') \<Longrightarrow> same_world w w'"
  by (auto simp: sqlcipher_cipher_ctx_init_def malloc_w_def same_world_def split: prod.splits option.splits)

lemma set_pagesize_world: "sqlcipher_codec_ctx_set_pagesize ctx sz w = Some (rc, ctx', w') \<Longrightarrow> same_world w w'"
  by (auto simp: sqlcipher_codec_ctx_set_pagesize_def dest: malloc_w_world split: prod.splits if_splits bind_splits)

lemma ctx_set_pass_world:
  "sqlcipher_codec_ctx_set_pass ctx zKey nKey 0 w = Some (rc, ctx', w') \<Longrightarrow> same_world w w'"
  by (auto simp: sqlcipher_codec_ctx_set_pass_def Let_def dest: set_pass_world split: prod.splits if_splits bind_splits)

lemma ctx_keys_world:
  assumes "codec_ctx_keys ctx zKey nKey w = Some (res, w')"
  shows "same_world w w'"
proof -
  obtain r1 w1 where a: "sqlcipher_cipher_ctx_init ctx w = (r1, w1)" by fastforce
  obtain r2 w2 where b: "sqlcipher_cipher_ctx_init ctx w1 = (r2, w2)" by fastforce
  have "same_world w w1" "same_world w1 w2" using a b by (blast dest: cipher_ctx_init_world)+
  then show ?thesis using assms a b
    by (auto simp: codec_ctx_keys_def split: sum.splits prod.splits bind_splits if_splits
        dest!: ctx_set_pass_world copy_world intro: same_world_trans)
qed

lemma ctx_alloc_world:
  assumes "codec_ctx_alloc g w = Some (res, w')"
  shows "same_world w w'"
  using assms by (auto simp: codec_ctx_alloc_def split: prod.splits option.splits if_splits
      dest!: malloc_w_world intro: same_world_trans)

lemma codec_ctx_init_world:
  assumes "sqlcipher_codec_ctx_init g zKey nKey w = Some (res, w')"
  shows "same_world w w'"
  using assms by (auto simp: sqlcipher_codec_ctx_init_def split: sum.splits bind_splits prod.splits if_splits
      dest!: ctx_alloc_world set_pagesize_world ctx_keys_world intro: same_world_trans)

section \<open>Page size of the B-tree\<close>

lemma take_alloc_world: "take_alloc w = (b, w') \<Longrightarrow> same_world w w'"
  by (auto simp: take_alloc_def same_world_def split: list.splits)

lemma pager_set_pagesize_ok:
  assumes "\<not> pg_memDb bt \<or> pg_dbSize bt = 0" and "pg_nRef bt = 0" and "psz \<noteq> 0" and "0 \<le> res"
    and "sqlite3PagerSetPagesize bt psz res = (SQLITE_OK, psz', bt')"
  shows "psz' = psz \<and> pg_pageSize bt' = psz \<and> pg_nReserve bt' = res"
  using assms by (auto simp: sqlite3PagerSetPagesize_def pager_change_size_def pager_reset_def Let_def
      split: if_splits prod.splits option.splits)

lemma pager_set_pagesize_keeps:
  assumes "sqlite3PagerSetPagesize bt psz res = (rc, psz', bt')"
  shows "pg_pCodec bt' = pg_pCodec bt \<and> pg_xCodecFree bt' = pg_xCodecFree bt \<and> pg_memDb bt' = pg_memDb bt \<and>
         w_read (bt_world bt') = w_read (bt_world bt) \<and> w_pager_error (bt_world bt') = w_pager_error (bt_world bt) \<and>
         w_fd_open (bt_world bt') = w_fd_open (bt_world bt) \<and>
         w_autovacuum (bt_world bt') = w_autovacuum (bt_world bt) \<and> bt_btsFlags bt' = bt_btsFlags bt"
proof -
  have "pg_pCodec b' = pg_pCodec b \<and> pg_xCodecFree b' = pg_xCodecFree b \<and> pg_memDb b' = pg_memDb b \<and>
         w_read (bt_world b') = w_read (bt_world b) \<and> w_pager_error (bt_world b') = w_pager_error (bt_world b) \<and>
         w_fd_open (bt_world b') = w_fd_open (bt_world b) \<and>
         w_autovacuum (bt_world b') = w_autovacuum (bt_world b) \<and> bt_btsFlags b' = bt_btsFlags b"
    if "pager_change_size b n = (r, b')" for b b' :: "'a btree" and n r
  proof -
    obtain k1 w1 where a1: "take_alloc (bt_world b) = (k1, w1)" by fastforce
    obtain k2 w2 where a2: "take_alloc w1 = (k2, w2)" by fastforce
    have "same_world (bt_world b) w1" "same_world (bt_world b) w2"
      using take_alloc_world [OF a1] take_alloc_world [OF a2] same_world_trans by blast+
    then show ?thesis using that a1 a2
      by (auto simp: pager_change_size_def Let_def pager_reset_def same_world_def split: option.splits if_splits)
  qed
  then show ?thesis using assms by (fastforce simp: sqlite3PagerSetPagesize_def split: prod.splits if_splits)
qed

lemma flag_fixed_unset [simp]: "flag_get (flag_unset f BTS_PAGESIZE_FIXED) BTS_PAGESIZE_FIXED = False"
  by (simp add: flag_get_def flag_unset_def BTS_PAGESIZE_FIXED_def and.assoc word_and_not)

definition btree_reserve :: "'r btree \<Rightarrow> int \<Rightarrow> int" where
  "btree_reserve bt n = max n (bt_pageSize bt - bt_usableSize bt)"

lemma btree_size_result:
  assumes ok: "codec_ok ctx" and free: "\<not> pg_memDb bt \<or> pg_dbSize bt = 0" "pg_nRef bt = 0"
    and old: "btree_reserve bt (reserve_sz ctx) \<le> 255"
    and set: "codec_set_btree_to_codec_pagesize bt ctx = (SQLITE_OK, bt', nx)"
  shows "bt_pageSize bt' = (if page_sz ctx = 512 \<and> 32 < btree_reserve bt (reserve_sz ctx) then 1024 else page_sz ctx) \<and>
         bt_usableSize bt' = bt_pageSize bt' - btree_reserve bt (reserve_sz ctx) \<and>
         pg_pageSize bt' = bt_pageSize bt' \<and> nx = page_sz ctx"
proof -
  note sz = codec_ok_sizes(9,13,14) [OF ok]
  have p: "(page_sz ctx - 1) AND page_sz ctx = 0"
    using codec_okD(9) [OF ok] by (simp add: pagesize_ok_def and.commute)
  define n where "n = (if 32 < btree_reserve bt (reserve_sz ctx) \<and> page_sz ctx = 512 then 1024 else page_sz ctx)"
  define b where "b = bt\<lparr>bt_btsFlags := flag_unset (bt_btsFlags bt) BTS_PAGESIZE_FIXED, bt_nReserveWanted := reserve_sz ctx, bt_pageSize := n\<rparr>"
  obtain rc ps b' where s: "sqlite3PagerSetPagesize b n (btree_reserve bt (reserve_sz ctx)) = (rc, ps, b')"
    by (cases "sqlite3PagerSetPagesize b n (btree_reserve bt (reserve_sz ctx))")
  have r: "(if reserve_sz ctx < bt_pageSize bt - bt_usableSize bt then bt_pageSize bt - bt_usableSize bt else reserve_sz ctx)
      = btree_reserve bt (reserve_sz ctx)" and r0: "0 \<le> btree_reserve bt (reserve_sz ctx)"
    using sz by (simp_all add: btree_reserve_def max_def)
  have e: "codec_set_btree_to_codec_pagesize bt ctx =
      (rc, b'\<lparr>bt_pageSize := ps, bt_usableSize := ps - btree_reserve bt (reserve_sz ctx)\<rparr>, page_sz ctx)"
    using sz p s old r0
    by (simp add: codec_set_btree_to_codec_pagesize_def sqlite3BtreeSetPageSize_def SQLITE_MAX_PAGE_SIZE_def Let_def
        r n_def [symmetric] b_def [symmetric])
  have "ps = n \<and> pg_pageSize b' = n" if "rc = 0"
    using pager_set_pagesize_ok [of b n "btree_reserve bt (reserve_sz ctx)" ps b'] s that free r0 sz
    by (simp add: b_def n_def split: if_splits)
  then show ?thesis using e set by (auto simp: n_def)
qed

text \<open>The B-tree follows the codec: when no page is in use, a successful
  \<open>codec_set_btree_to_codec_pagesize\<close> gives B-tree and pager the page size of the codec and reserves
  at least the codec's reserve at the end of every page, with the one exception of 512-byte pages with
  a reserve above 32 bytes.
\<close>

theorem btree_follows_codec:
  assumes "codec_ok ctx" and "\<not> pg_memDb bt \<or> pg_dbSize bt = 0" and "pg_nRef bt = 0"
    and "btree_reserve bt (reserve_sz ctx) \<le> 255"
    and "codec_set_btree_to_codec_pagesize bt ctx = (SQLITE_OK, bt', nx)"
    and "page_sz ctx \<noteq> 512 \<or> btree_reserve bt (reserve_sz ctx) \<le> 32"
  shows "bt_pageSize bt' = page_sz ctx \<and> pg_pageSize bt' = page_sz ctx \<and> nx = page_sz ctx \<and>
         bt_usableSize bt' \<le> page_sz ctx - reserve_sz ctx \<and>
         sqlite3BtreeGetReserveNoMutex bt' = btree_reserve bt (reserve_sz ctx)"
  using btree_size_result [OF assms(1-5)] assms(6)
  by (auto simp: btree_reserve_def sqlite3BtreeGetReserveNoMutex_def)

text \<open>
  512-byte pages: with the reserve of an HMAC above 16 bytes, the B-tree silently uses 1024-byte
  pages while the codec keeps 512, although both calls succeed.  The buffer \<open>sqlite3Codec\<close> returns to
  the pager then holds 512 bytes, and reading a page of the pager's size from it is out of bounds.
\<close>

theorem page_size_512_overread:
  assumes "codec_ok ctx" and "page_sz ctx = 512" and "32 < reserve_sz ctx" and "cbuffer ctx = Some buf"
    and "\<not> pg_memDb bt \<or> pg_dbSize bt = 0" and "pg_nRef bt = 0" and "btree_reserve bt (reserve_sz ctx) \<le> 255"
    and "codec_set_btree_to_codec_pagesize bt ctx = (SQLITE_OK, bt', nx)"
  shows "pg_pageSize bt' = 1024 \<and> length buf = 512 \<and> mem_read buf 0 (pg_pageSize bt') = None"
proof -
  have "pg_pageSize bt' = 1024"
    using btree_size_result [OF assms(1,5-8)] assms(2,3) by (auto simp: btree_reserve_def)
  moreover have "length buf = 512"
    using assms(1,2,4) by (simp add: codec_ok_def codec_base_ok_def codec_frame_ok_def)
  ultimately show ?thesis by (simp add: mem_read_def)
qed

definition demo_btree :: "nat btree" where
  "demo_btree =
     \<lparr> bt_world = demo_world, bt_pageSize = 4096, bt_usableSize = 4096, bt_nReserveWanted = 0, bt_btsFlags = 0,
       pg_memDb = False, pg_dbSize = 0, pg_nRef = 0, pg_pageSize = 4096, pg_nReserve = 0, pg_eState = 0,
       pg_iDataVersion = 0, pg_xCodec = False, pg_xCodecFree = False, pg_pCodec = None \<rparr>"

lemma pager_set_pagesize_plenty:
  "w_allocs (bt_world bt) = [] \<Longrightarrow> \<not> w_fd_open (bt_world bt) \<Longrightarrow> fst (sqlite3PagerSetPagesize bt n r) = SQLITE_OK"
  by (auto simp: sqlite3PagerSetPagesize_def pager_change_size_def take_alloc_def Let_def pager_reset_def split: prod.splits)

lemma set_pagesize_plenty:
  assumes "w_allocs (bt_world bt) = []" "\<not> w_fd_open (bt_world bt)"
  shows "fst (codec_set_btree_to_codec_pagesize bt ctx) = SQLITE_OK"
  using assms by (simp add: codec_set_btree_to_codec_pagesize_def sqlite3BtreeSetPageSize_def Let_def case_prod_unfold
      pager_set_pagesize_plenty)

lemma demo_set_pagesize:
  obtains bt' nx where "codec_set_btree_to_codec_pagesize demo_btree ctx = (SQLITE_OK, bt', nx)"
  using set_pagesize_plenty [of demo_btree ctx]
  by (cases "codec_set_btree_to_codec_pagesize demo_btree ctx") (simp add: demo_btree_def demo_world_def)

definition demo_ctx_4096 :: "nat codec_ctx" where
  "demo_ctx_4096 = demo_ctx\<lparr>page_sz := 4096, cbuffer := Some (replicate 4096 0)\<rparr>"

lemma demo_ctx_4096_ok: "codec_ok demo_ctx_4096" "reserve_sz demo_ctx_4096 = 80" "page_sz demo_ctx_4096 = 4096"
  by (simp_all add: demo_ctx_4096_def demo_ctx_def codec_ok_def codec_base_ok_def codec_frame_ok_def demo_provider_ok
      FILE_HEADER_SZ_def pagesize_ok_def cipher_ok_def demo_cipher_ctx_def reserve_of_def
      sqlcipher_codec_ctx_reserve_setup_def sqlcipher_codec_ctx_get_use_hmac_def flag_get_def
      CIPHER_FLAG_HMAC_def Let_def)

theorem btree_follows_codec_witness:
  "\<exists>bt' nx. codec_set_btree_to_codec_pagesize demo_btree demo_ctx_4096 = (SQLITE_OK, bt', nx) \<and>
     bt_pageSize bt' = 4096 \<and> bt_usableSize bt' \<le> 4016"
proof -
  obtain bt' nx where s: "codec_set_btree_to_codec_pagesize demo_btree demo_ctx_4096 = (SQLITE_OK, bt', nx)"
    using demo_set_pagesize .
  have "btree_reserve demo_btree 80 = 80" by (simp add: btree_reserve_def demo_btree_def)
  then show ?thesis using btree_follows_codec [OF demo_ctx_4096_ok(1) _ _ _ s] demo_ctx_4096_ok(2,3) s
    by (simp add: demo_btree_def)
qed

theorem page_size_512_overread_witness:
  "\<exists>bt' nx. codec_set_btree_to_codec_pagesize demo_btree demo_ctx = (SQLITE_OK, bt', nx) \<and>
     mem_read (replicate 512 0) 0 (pg_pageSize bt') = None"
proof -
  obtain bt' nx where s: "codec_set_btree_to_codec_pagesize demo_btree demo_ctx = (SQLITE_OK, bt', nx)"
    using demo_set_pagesize .
  have "btree_reserve demo_btree 80 = 80" "cbuffer demo_ctx = Some (replicate 512 0)"
    by (simp_all add: btree_reserve_def demo_btree_def demo_ctx_def)
  then show ?thesis using page_size_512_overread [OF demo_ctx_ok(1) _ _ _ _ _ _ s] s by (auto simp: demo_btree_def)
qed

section \<open>Attaching, closing and counting activations\<close>

definition globals_ok :: "'r cipher_globals \<Rightarrow> bool" where
  "globals_ok g \<longleftrightarrow> (\<forall>p. g_provider g = Some p \<longrightarrow> provider_ok p) \<and> (g_activate_count g \<noteq> 0 \<longrightarrow> g_provider g \<noteq> None)"

definition bt_ok :: "'r btree \<Rightarrow> bool" where
  "bt_ok bt \<longleftrightarrow> world_ok (bt_world bt) \<and> pg_xCodecFree bt = (pg_pCodec bt \<noteq> None) \<and>
     (\<forall>ctx. pg_pCodec bt = Some ctx \<longrightarrow> codec_ok ctx)"

text \<open>The provider exists already or there is memory for it.\<close>

definition provider_available :: "'r cipher_globals \<Rightarrow> 'r world \<Rightarrow> bool" where
  "provider_available g w \<longleftrightarrow> g_provider g \<noteq> None \<or> fst (malloc_w sizeof_provider w) \<noteq> None"

lemma activate_keeps:
  assumes cc: "commoncrypto_ok cc" and g: "globals_ok g" and a: "provider_available g w"
  shows "\<exists>p w1. sqlcipher_activate cc g w =
           Some (g\<lparr>g_provider := Some p, g_activate_count := g_activate_count g + 1\<rparr>, w1) \<and> provider_ok p \<and> same_world w w1"
proof (cases "g_provider g")
  case None
  then obtain b w1 where m: "malloc_w sizeof_provider w = (Some b, w1)"
    using a by (cases "malloc_w sizeof_provider w") (auto simp: provider_available_def)
  show ?thesis using None m malloc_w_world [OF m] sqlcipher_cc_setup_ok [OF cc]
    by (auto simp: sqlcipher_activate_def sqlcipher_get_provider_def sqlcipher_register_provider_def)
next
  case (Some p)
  then show ?thesis using g by (cases g) (auto simp: sqlcipher_activate_def sqlcipher_get_provider_def globals_ok_def)
qed

lemma activate_crash: "sqlcipher_activate cc g w = None \<longleftrightarrow> \<not> provider_available g w"
  by (auto simp: sqlcipher_activate_def sqlcipher_get_provider_def provider_available_def split: option.splits prod.splits)

lemma deactivate_count:
  assumes "0 < unat (g_activate_count g)"
  shows "unat (g_activate_count (sqlcipher_deactivate g)) = unat (g_activate_count g) - 1"
    and "globals_ok g \<Longrightarrow> globals_ok (sqlcipher_deactivate g)"
proof -
  have u: "unat (g_activate_count g - 1) = unat (g_activate_count g) - 1"
    using assms by (simp add: unat_minus_one unat_gt_0)
  then show "unat (g_activate_count (sqlcipher_deactivate g)) = unat (g_activate_count g) - 1"
    by (auto simp: sqlcipher_deactivate_def Let_def word_less_nat_alt)
  show "globals_ok (sqlcipher_deactivate g)" if "globals_ok g"
    using that assms by (auto simp: sqlcipher_deactivate_def globals_ok_def Let_def unat_gt_0)
qed

lemma set_btree_pagesize_keeps:
  assumes "codec_set_btree_to_codec_pagesize bt ctx = (rc, bt', nx)"
  shows "pg_pCodec bt' = pg_pCodec bt \<and> pg_xCodecFree bt' = pg_xCodecFree bt \<and> pg_memDb bt' = pg_memDb bt \<and>
         w_read (bt_world bt') = w_read (bt_world bt) \<and> w_pager_error (bt_world bt') = w_pager_error (bt_world bt) \<and>
         w_fd_open (bt_world bt') = w_fd_open (bt_world bt)"
proof -
  have "pg_pCodec (snd (snd (sqlite3PagerSetPagesize b n r))) = pg_pCodec b \<and>
        pg_xCodecFree (snd (snd (sqlite3PagerSetPagesize b n r))) = pg_xCodecFree b \<and>
        pg_memDb (snd (snd (sqlite3PagerSetPagesize b n r))) = pg_memDb b \<and>
        w_read (bt_world (snd (snd (sqlite3PagerSetPagesize b n r)))) = w_read (bt_world b) \<and>
        w_pager_error (bt_world (snd (snd (sqlite3PagerSetPagesize b n r)))) = w_pager_error (bt_world b) \<and>
        w_fd_open (bt_world (snd (snd (sqlite3PagerSetPagesize b n r)))) = w_fd_open (bt_world b)"
    for b :: "'a btree" and n r
    using pager_set_pagesize_keeps [of b n r] by (cases "sqlite3PagerSetPagesize b n r") auto
  then show ?thesis using assms
    by (auto simp: codec_set_btree_to_codec_pagesize_def sqlite3BtreeSetPageSize_def Let_def case_prod_unfold
        split: if_splits)
qed

lemma or_and_absorb: "(x OR y) AND y = (y :: u32)"
  by (auto simp: bit_eq_iff bit_simps)

lemma secure_delete_fields:
  "pg_pCodec (snd (sqlite3BtreeSecureDelete bt n)) = pg_pCodec bt"
  "pg_xCodecFree (snd (sqlite3BtreeSecureDelete bt n)) = pg_xCodecFree bt"
  "bt_world (snd (sqlite3BtreeSecureDelete bt n)) = bt_world bt"
  "flag_get (bt_btsFlags (snd (sqlite3BtreeSecureDelete bt 1))) BTS_SECURE_DELETE"
  by (simp_all add: sqlite3BtreeSecureDelete_def Let_def flag_get_def bts_flag_defs or_and_absorb)

lemma set_auto_vacuum_fields:
  "pg_pCodec (snd (sqlite3BtreeSetAutoVacuum bt n)) = pg_pCodec bt"
  "pg_xCodecFree (snd (sqlite3BtreeSetAutoVacuum bt n)) = pg_xCodecFree bt"
  "bt_btsFlags (snd (sqlite3BtreeSetAutoVacuum bt n)) = bt_btsFlags bt"
  "w_read (bt_world (snd (sqlite3BtreeSetAutoVacuum bt n))) = w_read (bt_world bt)"
  "w_pager_error (bt_world (snd (sqlite3BtreeSetAutoVacuum bt n))) = w_pager_error (bt_world bt)"
  by (auto simp: sqlite3BtreeSetAutoVacuum_def Let_def)

lemma malloc_fail_nz: "sqlcipher_cipher_ctx_init ctx w = (Inl rc, w') \<Longrightarrow> rc \<noteq> 0"
  by (auto simp: sqlcipher_cipher_ctx_init_def split: prod.splits option.splits)

lemma codec_ctx_init_fails:
  assumes "sqlcipher_codec_ctx_init g zKey nKey w = Some (Inl rc, w')"
  shows "rc \<noteq> 0"
  using assms by (auto simp: sqlcipher_codec_ctx_init_def codec_ctx_alloc_def codec_ctx_keys_def
      dest!: malloc_fail_nz split: sum.splits bind_splits prod.splits if_splits option.splits)

lemma free_codec_arg:
  assumes "\<And>ctx. arg = Some ctx \<Longrightarrow> codec_ok ctx"
  shows "sqlite3FreeCodecArg g arg = Some (if arg = None then g else sqlcipher_deactivate g)"
  using assms by (auto simp: sqlite3FreeCodecArg_def codec_free_safe split: option.splits)

text \<open>Replacing the codec of a pager: the activations balance out.\<close>

lemma attach_ctx_keeps:
  assumes bt: "bt_ok bt" and ctx: "codec_ok ctx"
  shows "\<exists>bt' nx. codec_attach_ctx g bt ctx fd = Some (if pg_pCodec bt = None then g else sqlcipher_deactivate g, bt', nx) \<and>
           bt_ok bt' \<and> pg_pCodec bt' = Some ctx \<and> w_pager_error (bt_world bt') = w_pager_error (bt_world bt) \<and>
           flag_get (bt_btsFlags bt') BTS_SECURE_DELETE"
proof -
  let ?g = "if pg_pCodec bt = None then g else sqlcipher_deactivate g"
  have f: "sqlite3FreeCodecArg g (pg_pCodec bt) = Some ?g" using bt by (intro free_codec_arg) (simp add: bt_ok_def)
  define b0 where "b0 = (if pg_xCodecFree bt then bt else pager_reset bt)\<lparr>pg_xCodec := \<not> pg_memDb bt, pg_xCodecFree := True, pg_pCodec := Some ctx\<rparr>"
  have s: "sqlcipherPagerSetCodec g bt ctx = Some (?g, b0)"
    using f bt by (auto simp: sqlcipherPagerSetCodec_def b0_def bt_ok_def pager_reset_def)
  obtain rc b1 nx where p: "codec_set_btree_to_codec_pagesize b0 ctx = (rc, b1, nx)"
    by (cases "codec_set_btree_to_codec_pagesize b0 ctx")
  note k = set_btree_pagesize_keeps [OF p]
  have w: "bt_world b0 = bt_world bt" by (simp add: b0_def pager_reset_def)
  let ?b2 = "snd (sqlite3BtreeSecureDelete b1 1)"
  have "codec_attach_ctx g bt ctx fd = Some (?g, if fd then snd (sqlite3BtreeSetAutoVacuum ?b2 0) else ?b2, nx)"
    by (simp add: codec_attach_ctx_def s p)
  moreover have "bt_ok (if fd then snd (sqlite3BtreeSetAutoVacuum ?b2 0) else ?b2)"
    using bt ctx k w by (auto simp: bt_ok_def world_ok_def set_auto_vacuum_fields secure_delete_fields b0_def)
  ultimately show ?thesis using k w
    by (intro exI [of _ "if fd then snd (sqlite3BtreeSetAutoVacuum ?b2 0) else ?b2"] exI [of _ nx])
      (auto simp: set_auto_vacuum_fields secure_delete_fields b0_def)
qed

definition key_used :: "'r btree \<Rightarrow> bool" where
  "key_used bt \<longleftrightarrow> (\<exists>ctx. pg_pCodec bt = Some ctx \<and> flag_get (cflags ctx) CIPHER_FLAG_KEY_USED)"

lemma attach_keeps:
  assumes cc: "commoncrypto_ok cc" and g: "globals_ok g" and bt: "bt_ok bt"
    and a: "provider_available g (bt_world bt)" and z: "nKey \<noteq> 0" "nKey \<le> int (length z)" and u: "\<not> key_used bt"
  shows "\<exists>rc g' bt' nx p. sqlcipherCodecAttach cc g (Some bt) next (Some z) nKey = Some (rc, g', Some bt', nx) \<and> bt_ok bt' \<and>
           (let g1 = g\<lparr>g_provider := Some p, g_activate_count := g_activate_count g + 1\<rparr> in
            provider_ok p \<and>
            (if rc = SQLITE_OK
             then (\<exists>ctx. pg_pCodec bt' = Some ctx \<and> codec_ok ctx \<and> header_ok ctx \<and> cbuffer ctx \<noteq> None \<and>
                     page_sz ctx = g_page_size g \<and> read_ctx ctx = write_ctx ctx) \<and>
                  flag_get (bt_btsFlags bt') BTS_SECURE_DELETE \<and>
                  g' = (if pg_pCodec bt = None then g1 else sqlcipher_deactivate g1)
             else pg_pCodec bt' = pg_pCodec bt \<and> w_pager_error (bt_world bt') = rc \<and>
                  w_db_error (bt_world bt') = rc \<and> g' = g1))"
proof -
  obtain p w1 where act: "sqlcipher_activate cc g (bt_world bt) =
      Some (g\<lparr>g_provider := Some p, g_activate_count := g_activate_count g + 1\<rparr>, w1)" "provider_ok p" "same_world (bt_world bt) w1"
    using activate_keeps [OF cc g a] by blast
  let ?g1 = "g\<lparr>g_provider := Some p, g_activate_count := g_activate_count g + 1\<rparr>"
  obtain res w2 where i: "sqlcipher_codec_ctx_init ?g1 (Some z) nKey w1 = Some (res, w2)"
      "\<And>ctx. res = Inr ctx \<Longrightarrow> codec_ok ctx \<and> header_ok ctx \<and> page_sz ctx = g_page_size ?g1 \<and>
         cbuffer ctx \<noteq> None \<and> read_ctx ctx = write_ctx ctx"
    using codec_ctx_init_keeps [of ?g1 p "Some z" nKey w1] act(2) z(2) by auto
  have sw: "same_world (bt_world bt) w2" using act(3) codec_ctx_init_world [OF i(1)] same_world_trans by blast
  let ?b = "bt\<lparr>bt_world := w2\<rparr>"
  have b: "bt_ok ?b" using bt sw by (auto simp: bt_ok_def same_world_ok)
  have ku: "(case pg_pCodec bt of None \<Rightarrow> False | Some ctx \<Rightarrow> flag_get (cflags ctx) CIPHER_FLAG_KEY_USED) = False"
    using u by (auto simp: key_used_def split: option.splits)
  show ?thesis
  proof (cases res)
    case (Inl rc)
    have rc: "rc \<noteq> 0" using codec_ctx_init_fails i(1) Inl by blast
    show ?thesis
      using act i(1) Inl z(1) ku b rc
      by (intro exI [of _ rc] exI [of _ ?g1] exI [of _ "(sqlite3pager_error ?b rc)\<lparr>bt_world := (bt_world (sqlite3pager_error ?b rc))\<lparr>w_db_error := rc\<rparr>\<rparr>"] exI [of _ "next"] exI [of _ p])
        (auto simp: sqlcipherCodecAttach_def sqlcipherPagerGetCodec_def Let_def sqlite3pager_error_def bt_ok_def world_ok_def)
  next
    case (Inr ctx)
    note c = i(2) [OF Inr]
    obtain bt' nx where at: "codec_attach_ctx ?g1 ?b ctx (w_fd_open (bt_world bt)) =
        Some (if pg_pCodec bt = None then ?g1 else sqlcipher_deactivate ?g1, bt', nx)" "bt_ok bt'" "pg_pCodec bt' = Some ctx"
        "flag_get (bt_btsFlags bt') BTS_SECURE_DELETE"
      using attach_ctx_keeps [OF b conjunct1 [OF c], of ?g1 "w_fd_open (bt_world bt)"] by auto
    show ?thesis
      using act i(1) Inr z(1) ku at c
      by (intro exI [of _ SQLITE_OK] exI [of _ "if pg_pCodec bt = None then ?g1 else sqlcipher_deactivate ?g1"] exI [of _ bt'] exI [of _ nx] exI [of _ p])
        (auto simp: sqlcipherCodecAttach_def sqlcipherPagerGetCodec_def Let_def)
  qed
qed


lemma demo_btree_ok: "bt_ok demo_btree" "bt_world demo_btree = demo_world" "pg_pCodec demo_btree = None"
  by (simp_all add: bt_ok_def demo_btree_def demo_world_ok)

lemma demo_globals_ok: "globals_ok demo_globals" "provider_available demo_globals w"
  by (simp_all add: globals_ok_def demo_globals_def demo_provider_ok provider_available_def initial_globals_def)


section \<open>Every sequence of attaching, using and closing codecs\<close>

text \<open>
  The states of a process: the globals of \<open>crypto_impl.c\<close> and the open databases.  A step opens a
  database without codec, attaches a key (successfully or not), encrypts or decrypts a page, or closes a
  database, which frees its codec as \<open>sqlite3PagerClose\<close> does.  A step exists only when the operation
  returns; fewer than \<open>2\<^sup>3\<^sup>2 - 1\<close> activations are outstanding.
\<close>

type_synonym 'r process = "'r cipher_globals \<times> 'r btree list"

inductive codec_step :: "('r, 'h, 'c) commoncrypto \<Rightarrow> 'r process \<Rightarrow> 'r process \<Rightarrow> bool"
  for cc :: "('r, 'h, 'c) commoncrypto" where
  step_open: "world_ok (bt_world bt) \<Longrightarrow> pg_pCodec bt = None \<Longrightarrow> \<not> pg_xCodecFree bt \<Longrightarrow> codec_step cc (g, bts) (g, bts @ [bt])"
| step_attach: "i < length bts \<Longrightarrow> nKey \<le> int (length z) \<Longrightarrow> unat (g_activate_count g) < 2 ^ 32 - 1 \<Longrightarrow>
     sqlcipherCodecAttach cc g (Some (bts ! i)) next (Some z) nKey = Some (rc, g', Some bt', nx) \<Longrightarrow>
     codec_step cc (g, bts) (g', bts[i := bt'])"
| step_page: "i < length bts \<Longrightarrow> pg_pCodec (bts ! i) = Some ctx \<Longrightarrow> codec_ready ctx (bt_world (bts ! i)) \<Longrightarrow>
     read_ctx ctx = Some r \<Longrightarrow> write_ctx ctx = Some wr \<Longrightarrow> c_derive_key wr = 0 \<or> passes_comparable wr r \<Longrightarrow>
     int (length pData) = page_sz ctx \<Longrightarrow>
     sqlite3Codec g ctx pData pgno mode (bt_world (bts ! i)) = Some (ret, data', ctx', w') \<Longrightarrow>
     codec_step cc (g, bts) (g, bts[i := (bts ! i)\<lparr>pg_pCodec := Some ctx', bt_world := w'\<rparr>])"
| step_close: "sqlite3FreeCodecArg g (pg_pCodec bt) = Some g' \<Longrightarrow> codec_step cc (g, xs @ bt # ys) (g', xs @ ys)"

definition live :: "'r btree list \<Rightarrow> nat" where
  "live bts = (\<Sum>bt\<leftarrow>bts. if pg_pCodec bt = None then 0 else 1)"

definition process_ok :: "'r process \<Rightarrow> bool" where
  "process_ok s \<longleftrightarrow> globals_ok (fst s) \<and> (\<forall>bt \<in> set (snd s). bt_ok bt) \<and>
     live (snd s) \<le> unat (g_activate_count (fst s))"

lemma live_split: "live (xs @ bt # ys) = live (xs @ ys) + (if pg_pCodec bt = None then 0 else 1)"
  by (simp add: live_def)

lemma live_update:
  assumes "i < length bts"
  shows "live (bts[i := b]) + (if pg_pCodec (bts ! i) = None then 0 else 1) = live bts + (if pg_pCodec b = None then 0 else 1)"
  using live_split [of "take i bts" "bts ! i" "drop (Suc i) bts"] live_split [of "take i bts" b "drop (Suc i) bts"] assms
  by (simp add: upd_conv_take_nth_drop id_take_nth_drop [symmetric])

lemma live_pos: "i < length bts \<Longrightarrow> pg_pCodec (bts ! i) \<noteq> None \<Longrightarrow> 0 < live bts"
  using live_split [of "take i bts" "bts ! i" "drop (Suc i) bts"] by (auto simp: id_take_nth_drop [symmetric])

lemma attach_used: "key_used bt \<Longrightarrow> sqlcipherCodecAttach cc g (Some bt) next (Some z) nKey = Some (SQLITE_OK, g, Some bt, next)"
  by (auto simp: sqlcipherCodecAttach_def key_used_def sqlcipherPagerGetCodec_def)

lemma set_ok_update: "(\<forall>bt \<in> set bts. bt_ok bt) \<Longrightarrow> bt_ok b \<Longrightarrow> \<forall>bt \<in> set (bts[i := b]). bt_ok bt"
  using set_update_subset_insert [of bts i b] by auto

lemma attach_step_keeps:
  assumes cc: "commoncrypto_ok cc" and ok: "process_ok (g, bts)" and i: "i < length bts" and z: "nKey \<le> int (length z)"
    and c: "unat (g_activate_count g) < 2 ^ 32 - 1"
    and at: "sqlcipherCodecAttach cc g (Some (bts ! i)) next (Some z) nKey = Some (rc, g', Some bt', nx)"
  shows "process_ok (g', bts[i := bt'])"
proof -
  let ?bt = "bts ! i"
  have g: "globals_ok g" and all: "\<forall>bt \<in> set bts. bt_ok bt" and lv: "live bts \<le> unat (g_activate_count g)" and bt: "bt_ok ?bt"
    using ok i by (auto simp: process_ok_def)
  show ?thesis
  proof (cases "nKey = 0 \<or> key_used ?bt")
    case True
    then have "rc = 0" "g' = g" "bt' = ?bt" using at attach_used [of ?bt cc g "next" z nKey]
      by (auto simp: sqlcipherCodecAttach_def)
    then show ?thesis using ok by simp
  next
    case False
    then have "provider_available g (bt_world ?bt)"
      using at activate_crash [of cc g "bt_world ?bt"]
      by (auto simp: sqlcipherCodecAttach_def Let_def sqlcipherPagerGetCodec_def key_used_def split: option.splits if_splits)
    then obtain p where r: "bt_ok bt'" "provider_ok p"
        "if rc = SQLITE_OK
         then (\<exists>ctx. pg_pCodec bt' = Some ctx) \<and>
           g' = (if pg_pCodec ?bt = None then g\<lparr>g_provider := Some p, g_activate_count := g_activate_count g + 1\<rparr>
                 else sqlcipher_deactivate (g\<lparr>g_provider := Some p, g_activate_count := g_activate_count g + 1\<rparr>))
         else pg_pCodec bt' = pg_pCodec ?bt \<and> g' = g\<lparr>g_provider := Some p, g_activate_count := g_activate_count g + 1\<rparr>"
      using attach_keeps [OF cc g bt _ _ z, of "next"] False at by (auto simp: Let_def split: if_splits)
    let ?g1 = "g\<lparr>g_provider := Some p, g_activate_count := g_activate_count g + 1\<rparr>"
    have u: "unat (g_activate_count g + 1) = unat (g_activate_count g) + 1"
      using c by (simp add: unat_word_ariths)
    have g1: "globals_ok ?g1" using r(2) by (simp add: globals_ok_def)
    have d: "unat (g_activate_count (sqlcipher_deactivate ?g1)) = unat (g_activate_count g)" "globals_ok (sqlcipher_deactivate ?g1)"
      using deactivate_count [of ?g1] u g1 by simp_all
    show ?thesis using set_ok_update [OF all r(1), of i] live_update [OF i, of bt'] r(3) u g1 d lv
      by (auto simp: process_ok_def split: if_splits)
  qed
qed



section \<open>Changing the key\<close>

definition codec_bt :: "'r btree \<Rightarrow> bool" where
  "codec_bt bt \<longleftrightarrow> bt_ok bt \<and> pg_pCodec bt \<noteq> None"

definition same_lock_page :: "'r btree \<Rightarrow> 'r btree \<Rightarrow> bool" where
  "same_lock_page bt bt' \<longleftrightarrow> w_sj_pgno (bt_world bt') = w_sj_pgno (bt_world bt)"

text \<open>The B-tree and pager calls keep the codec attached and well formed, and the page size as it is.\<close>

definition env_ok :: "'r txn_env \<Rightarrow> bool" where
  "env_ok e \<longleftrightarrow> (\<forall>bt p. codec_bt bt \<longrightarrow>
     (\<forall>bt' \<in> {snd (e_BeginTrans e bt), snd (e_PagerGet e p bt), snd (e_PagerWrite e p bt), e_Unref e p bt,
              snd (e_Commit e bt), e_Rollback e bt}. codec_bt bt' \<and> same_lock_page bt bt'))"

lemma env_okD:
  assumes "env_ok e" "codec_bt bt"
  shows "codec_bt (snd (e_BeginTrans e bt)) \<and> same_lock_page bt (snd (e_BeginTrans e bt))"
    "codec_bt (snd (e_PagerGet e p bt)) \<and> same_lock_page bt (snd (e_PagerGet e p bt))"
    "codec_bt (snd (e_PagerWrite e p bt)) \<and> same_lock_page bt (snd (e_PagerWrite e p bt))"
    "codec_bt (e_Unref e p bt) \<and> same_lock_page bt (e_Unref e p bt)"
    "codec_bt (snd (e_Commit e bt)) \<and> same_lock_page bt (snd (e_Commit e bt))"
    "codec_bt (e_Rollback e bt) \<and> same_lock_page bt (e_Rollback e bt)"
  using assms by (auto simp: env_ok_def)

text \<open>The pages a rekey visits: \<open>n\<close> pages from \<open>p\<close> on without the locking page.\<close>

fun rekey_list :: "pgno \<Rightarrow> nat \<Rightarrow> pgno \<Rightarrow> pgno list" where
  "rekey_list sj 0 p = []"
| "rekey_list sj (Suc n) p = (if sj = p then rekey_list sj n (p + 1) else p # rekey_list sj n (p + 1))"

definition page_events :: "pgno list \<Rightarrow> txn_event list" where
  "page_events ps = concat (map (\<lambda>p. [Get p, Write p, Unref p]) ps)"

lemma rekey_pages_trace:
  assumes e: "env_ok e"
  shows "codec_bt bt \<Longrightarrow> rekey_pages e n p bt = (rc, bt', tr) \<Longrightarrow>
    codec_bt bt' \<and> same_lock_page bt bt' \<and>
    (\<exists>ok rest. rekey_list (w_sj_pgno (bt_world bt)) n p = ok @ rest \<and>
       (if rc = SQLITE_OK then rest = [] \<and> tr = page_events ok
        else rest \<noteq> [] \<and> (\<exists>w. tr = page_events ok @ Get (hd rest) # w \<and> w \<in> {[], [Write (hd rest)]})))"
proof (induction n arbitrary: p bt rc bt' tr)
  case 0
  then show ?case by (simp add: same_lock_page_def page_events_def)
next
  case (Suc n)
  let ?sj = "w_sj_pgno (bt_world bt)"
  show ?case
  proof (cases "?sj = p")
    case True
    then have "rekey_pages e n (p + 1) bt = (rc, bt', tr)" using Suc.prems(2) by (simp add: sqlite3pager_is_sj_pgno_def)
    from Suc.IH [OF Suc.prems(1) this] True show ?thesis by simp
  next
    case False
    obtain r1 b1 where g: "e_PagerGet e p bt = (r1, b1)" by fastforce
    note k1 = env_okD(2) [OF e Suc.prems(1), of p, unfolded g snd_conv]
    obtain r2 b2 where w: "e_PagerWrite e p b1 = (r2, b2)" by fastforce
    note k2 = env_okD(3) [OF e conjunct1 [OF k1], of p, unfolded w snd_conv]
    note k3 = env_okD(4) [OF e conjunct1 [OF k2], of p]
    obtain r3 b3 t3 where l: "rekey_pages e n (p + 1) (e_Unref e p b2) = (r3, b3, t3)" by (cases "rekey_pages e n (p + 1) (e_Unref e p b2)")
    have sj: "w_sj_pgno (bt_world (e_Unref e p b2)) = ?sj" using k1 k2 k3 by (simp add: same_lock_page_def)
    consider (get) "r1 \<noteq> 0" | (wr) "r1 = 0" "r2 \<noteq> 0" | (rec) "r1 = 0" "r2 = 0" by blast
    then show ?thesis
    proof cases
      case get
      then have "rc = r1" "bt' = b1" "tr = [Get p]" using Suc.prems(2) False g by (simp_all add: sqlite3pager_is_sj_pgno_def)
      with get k1 have "codec_bt bt' \<and> same_lock_page bt bt' \<and> tr = page_events [] @ Get p # []" "rc \<noteq> 0" by (simp_all add: page_events_def)
      moreover have "rekey_list ?sj (Suc n) p = [] @ (p # rekey_list ?sj n (p + 1))" using False by simp
      ultimately show ?thesis by (metis insertI1 list.sel(1) list.distinct(1))
    next
      case wr
      then have "rc = r2" "bt' = b2" "tr = [Get p, Write p]" using Suc.prems(2) False g w by (simp_all add: sqlite3pager_is_sj_pgno_def)
      with wr k1 k2 have "codec_bt bt' \<and> same_lock_page bt bt' \<and> tr = page_events [] @ Get p # [Write p]" "rc \<noteq> 0"
        by (simp_all add: page_events_def same_lock_page_def)
      moreover have "rekey_list ?sj (Suc n) p = [] @ (p # rekey_list ?sj n (p + 1))" using False by simp
      ultimately show ?thesis by (metis insertI1 insertI2 list.sel(1) list.distinct(1))
    next
      case rec
      obtain ok rest where ih: "codec_bt b3" "same_lock_page (e_Unref e p b2) b3" "rekey_list ?sj n (p + 1) = ok @ rest"
          "if r3 = SQLITE_OK then rest = [] \<and> t3 = page_events ok
           else rest \<noteq> [] \<and> (\<exists>w. t3 = page_events ok @ Get (hd rest) # w \<and> w \<in> {[], [Write (hd rest)]})"
        using Suc.IH [OF conjunct1 [OF k3] l] sj by metis
      have "rc = r3" "bt' = b3" "tr = Get p # Write p # Unref p # t3"
        using Suc.prems(2) False rec g w l by (simp_all add: sqlite3pager_is_sj_pgno_def)
      with ih False k1 k2 k3 show ?thesis
        by (intro conjI exI [of _ "p # ok"] exI [of _ rest]) (auto simp: same_lock_page_def page_events_def split: if_splits)
    qed
  qed
qed

lemma rekey_commit_keeps:
  assumes e: "env_ok e" and bt: "codec_bt bt"
  shows "\<exists>bt'. rekey_commit e rc bt = Some (bt', [if rc = SQLITE_OK then Commit else Rollback]) \<and> codec_bt bt'"
proof (cases "rc = SQLITE_OK")
  case True
  obtain r b where c: "e_Commit e bt = (r, b)" by fastforce
  have b: "codec_bt b" using env_okD(5) [OF e bt] c by simp
  then obtain ctx where ctx: "pg_pCodec b = Some ctx" "codec_ok ctx" by (auto simp: codec_bt_def bt_ok_def)
  obtain r2 ctx' w' where k: "sqlcipher_codec_key_copy ctx 1 (bt_world b) = Some (r2, ctx', w')" "codec_ok ctx'" "same_world (bt_world b) w'"
    using codec_key_copy_keeps [OF ctx(2)] by blast
  have "codec_bt (b\<lparr>pg_pCodec := Some ctx', bt_world := w'\<rparr>)"
    using b k(2,3) by (auto simp: codec_bt_def bt_ok_def same_world_ok)
  then show ?thesis using True c ctx k(1) by (simp add: rekey_commit_def sqlcipherPagerGetCodec_def)
next
  case False
  then show ?thesis using env_okD(6) [OF e bt] by (simp add: rekey_commit_def)
qed

lemma set_pass_key_keeps:
  assumes bt: "codec_bt bt" and z: "nKey \<le> int (length z)"
  shows "\<exists>rc bt'. codec_set_pass_key (Some bt) (Some z) nKey for_ctx = Some (rc, Some bt') \<and> codec_bt bt' \<and> same_lock_page bt bt'"
proof -
  obtain ctx where ctx: "pg_pCodec bt = Some ctx" "codec_ok ctx" using bt by (auto simp: codec_bt_def bt_ok_def)
  obtain rc ctx' w' where "sqlcipher_codec_ctx_set_pass ctx (Some z) nKey for_ctx (bt_world bt) = Some (rc, ctx', w')"
      "codec_ok ctx'" "same_world (bt_world bt) w'"
    using codec_set_pass_keeps [OF ctx(2), of "Some z" nKey for_ctx "bt_world bt"] z by auto
  then show ?thesis using ctx bt
    by (auto simp: codec_set_pass_key_def sqlcipherPagerGetCodec_def codec_bt_def bt_ok_def same_world_ok same_lock_page_def same_world_def)
qed

lemma rekey_pages_succeed:
  assumes "\<forall>p b. fst (e_PagerGet e p b) = SQLITE_OK \<and> fst (e_PagerWrite e p b) = SQLITE_OK"
  shows "fst (rekey_pages e n p bt) = SQLITE_OK"
proof (induction n arbitrary: p bt)
  case (Suc n)
  obtain b1 where g: "e_PagerGet e p bt = (0, b1)" using assms by (metis prod.collapse)
  obtain b2 where w: "e_PagerWrite e p b1 = (0, b2)" using assms by (metis prod.collapse)
  show ?case using Suc g w by (simp add: case_prod_unfold)
qed simp


definition demo_env :: "nat txn_env" where
  "demo_env =
     \<lparr> e_BeginTrans = (\<lambda>bt. (SQLITE_OK, bt)), e_Pagecount = (\<lambda>_. 3), e_PagerGet = (\<lambda>p bt. (SQLITE_OK, bt)),
       e_PagerWrite = (\<lambda>p bt. (if p = 2 then SQLITE_IOERR else SQLITE_OK, bt)), e_Unref = (\<lambda>p bt. bt),
       e_Commit = (\<lambda>bt. (SQLITE_OK, bt)), e_Rollback = (\<lambda>bt. bt) \<rparr>"

definition demo_codec_btree :: "nat btree" where
  "demo_codec_btree = demo_btree\<lparr>pg_xCodecFree := True, pg_pCodec := Some demo_ctx\<rparr>"


end
