(* ===== verification/Format.thy ===== *)
theory Format
  imports Util_Text
begin

text \<open>
  The text of the result rows of the pragmas: the conversion \<open>%d\<close> of \<open>sqlite3_mprintf\<close> and its inverse
  \<open>atoi\<close>.  A row is the column name with the text, which is NULL when no text was built; the texts
  themselves are assumed to be allocated.
\<close>

type_synonym row = "byte list \<times> byte list option"

fun dec_digits :: "nat \<Rightarrow> byte list" where
  "dec_digits n = (if n < 10 then [of_nat (48 + n)] else dec_digits (n div 10) @ [of_nat (48 + n mod 10)])"

declare dec_digits.simps [simp del]

definition fmt_d :: "int \<Rightarrow> byte list" where
  "fmt_d n = (if n < 0 then 45 # dec_digits (nat (- n)) else dec_digits (nat n))"

lemma digit_byte:
  assumes "d < 10"
  shows "sqlite3Isdigit (of_nat (48 + d))" "uint (of_nat (48 + d) :: byte) - 48 = int d"
proof -
  have u: "unat (of_nat (48 + d) :: byte) = 48 + d"
    using assms by (simp add: unat_of_nat take_bit_eq_mod del: of_nat_add)
  show "sqlite3Isdigit (of_nat (48 + d))"
    unfolding sqlite3Isdigit_def word_le_nat_alt u using assms by simp
  show "uint (of_nat (48 + d) :: byte) - 48 = int d"
    unfolding uint_nat u by simp
qed

lemma dec_digits_ne [simp]: "dec_digits n \<noteq> []"
  by (subst dec_digits.simps) simp

lemma dec_digits_digit: "c \<in> set (dec_digits n) \<Longrightarrow> sqlite3Isdigit c"
proof (induction n rule: dec_digits.induct)
  case (1 n)
  then show ?case using digit_byte(1) [of n] digit_byte(1) [of "n mod 10"]
    by (subst (asm) (2) dec_digits.simps) (auto split: if_splits)
qed

lemma dec_value_append:
  "\<forall>c \<in> set xs. sqlite3Isdigit c \<Longrightarrow> dec_value v (xs @ ys) = dec_value (dec_value v xs) ys"
  by (induction v xs rule: dec_value.induct) auto

lemma dec_value_digits: "dec_value 0 (dec_digits n) = int n"
proof (induction n rule: dec_digits.induct)
  case (1 n)
  show ?case
  proof (cases "n < 10")
    case True
    then show ?thesis by (simp add: dec_digits.simps [of n] digit_byte del: of_nat_add)
  next
    case False
    have "int (n div 10) * 10 + int (n mod 10) = int n" by presburger
    then show ?thesis using False 1
      by (simp add: dec_digits.simps [of n] dec_value_append dec_digits_digit digit_byte del: of_nat_add)
  qed
qed

lemma hd_dec_digits: "sqlite3Isdigit (hd0 (dec_digits n))"
  by (cases "dec_digits n") (auto intro: dec_digits_digit [of _ n])

lemma digit_not_sign: "sqlite3Isdigit c \<Longrightarrow> c \<noteq> 45 \<and> c \<noteq> 43 \<and> \<not> sqlite3Isspace c"
  by (auto simp: sqlite3Isdigit_def sqlite3Isspace_def word_le_nat_alt)

lemma dropWhile_digits: "dropWhile sqlite3Isspace (dec_digits n) = dec_digits n"
  using hd_dec_digits [of n] by (cases "dec_digits n") (auto simp: digit_not_sign)

text \<open>\<open>atoi\<close> reads back what \<open>%d\<close> printed.\<close>

lemma c_atoi_fmt_d:
  assumes "- (2 ^ 31) \<le> n" "n < 2 ^ 31"
  shows "c_atoi (fmt_d n) = Some n"
  using assms digit_not_sign [OF hd_dec_digits [of "nat n"]]
  by (auto simp: c_atoi_def fmt_d_def Let_def dropWhile_digits dec_value_digits sqlite3Isspace_def)

end
