(* ===== verification/Integrity.thy ===== *)
theory Integrity
  imports Api_Props Format
begin

text \<open>
  \<open>PRAGMA cipher_integrity_check\<close>: \<open>sqlcipher_codec_ctx_integrity_check\<close> recomputes the HMAC of every
  page of the file and reports the pages whose stored HMAC differs.  The result is the list of rows.

  A failing \<open>sqlite3OsFileSize\<close> leaves the size uninitialised, which is \<open>None\<close>.  What a failing read
  leaves in the buffer is not represented: the buffer is wiped before the next read.
\<close>

section \<open>The check of one page\<close>

definition integrity_row :: "byte list \<Rightarrow> byte list \<Rightarrow> row" where
  "integrity_row column msg = (column, Some msg)"

text \<open>\<open>(page - 1) * ctx->page_sz\<close> is a product of unsigned 32-bit integers, whatever it is assigned to.\<close>

definition integrity_offset :: "'r codec_ctx \<Rightarrow> pgno \<Rightarrow> int" where
  "integrity_offset ctx page = uint ((page - 1) * of_int (page_sz ctx))"

definition integrity_hdr :: "'r codec_ctx \<Rightarrow> pgno \<Rightarrow> int" where
  "integrity_hdr ctx page =
     (if page = 1 then (if plaintext_header_sz ctx \<noteq> 0 then plaintext_header_sz ctx else FILE_HEADER_SZ) else 0)"

definition memset_opt :: "byte list option \<Rightarrow> int \<Rightarrow> byte list option option" where
  "memset_opt p n = (case p of None \<Rightarrow> Some None | Some b \<Rightarrow> map_option Some (sqlcipher_memset b 0 0 n))"

definition integrity_page ::
    "'r codec_ctx \<Rightarrow> cipher_ctx \<Rightarrow> 'r world \<Rightarrow> byte list \<Rightarrow> pgno \<Rightarrow> byte list option \<Rightarrow> byte list option
       \<Rightarrow> (row list \<times> byte list option \<times> byte list option) option" where
  "integrity_page ctx r w column page buf hmac_out = do {
     let hdr = integrity_hdr ctx page;
     let offset = integrity_offset ctx page + hdr;
     let payload_sz = page_sz ctx - reserve_sz ctx + iv_sz ctx - hdr;
     let read_sz = page_sz ctx - hdr;
     buf0 \<leftarrow> memset_opt buf (page_sz ctx);
     out0 \<leftarrow> memset_opt hmac_out (hmac_sz ctx);
     (case w_read w read_sz offset of
        None \<Rightarrow>
          Some ([integrity_row column (str ''error reading '' @ fmt_d read_sz @ str '' bytes from file page ''
                   @ fmt_d (sint page) @ str '' at offset '' @ fmt_d (sint (of_int offset :: u32)))], buf0, out0)
      | Some bs \<Rightarrow> do {
          b0 \<leftarrow> buf0;
          b1 \<leftarrow> mem_write b0 0 bs;
          mac \<leftarrow> sqlcipher_page_hmac ctx r page b1 0 payload_sz;
          (case mac of
             None \<Rightarrow> Some ([integrity_row column (str ''HMAC operation failed for page '' @ fmt_d (sint page))], Some b1, out0)
           | Some m \<Rightarrow> do {
               h0 \<leftarrow> out0;
               h1 \<leftarrow> mem_write h0 0 m;
               differ \<leftarrow> sqlcipher_memcmp b1 payload_sz h1 0 (hmac_sz ctx);
               Some (if differ \<noteq> 0
                     then [integrity_row column (str ''HMAC verification failed for page '' @ fmt_d (sint page))]
                     else [], Some b1, Some h1)
             })
        })
   }"

section \<open>All pages\<close>

fun integrity_loop ::
    "'r codec_ctx \<Rightarrow> cipher_ctx \<Rightarrow> 'r world \<Rightarrow> byte list \<Rightarrow> nat \<Rightarrow> pgno \<Rightarrow> byte list option \<Rightarrow> byte list option
       \<Rightarrow> (row list \<times> byte list option \<times> byte list option) option" where
  "integrity_loop ctx r w column 0 page buf hmac_out = Some ([], buf, hmac_out)"
| "integrity_loop ctx r w column (Suc n) page buf hmac_out =
     (if w_sj_pgno w = page then integrity_loop ctx r w column n (page + 1) buf hmac_out
      else do {
        (rows, buf1, out1) \<leftarrow> integrity_page ctx r w column page buf hmac_out;
        (rows2, buf2, out2) \<leftarrow> integrity_loop ctx r w column n (page + 1) buf1 out1;
        Some (rows @ rows2, buf2, out2)
      })"

text \<open>After the loop \<open>page\<close> is the number of the page that is only partly in the file.\<close>

definition integrity_pages ::
    "'r codec_ctx \<Rightarrow> 'r world \<Rightarrow> byte list \<Rightarrow> int \<Rightarrow> byte list option \<Rightarrow> (row list \<times> 'r codec_ctx) option" where
  "integrity_pages ctx w column file_sz hmac_out = do {
     r \<leftarrow> read_ctx ctx;
     let n = nat (file_sz div page_sz ctx);
     (rows, buf, out) \<leftarrow> integrity_loop ctx r w column n 1 (cbuffer ctx) hmac_out;
     let rest = file_sz mod page_sz ctx;
     let last = (if rest \<noteq> 0
                 then [integrity_row column (str ''page '' @ fmt_d (sint (of_nat (n + 1) :: pgno)) @ str '' has an invalid size of ''
                         @ fmt_d rest @ str '' bytes (expected '' @ fmt_d (page_sz ctx) @ str '' bytes)'')]
                 else []);
     _ \<leftarrow> sqlcipher_free out (hmac_sz ctx);
     Some (rows @ last, ctx\<lparr>cbuffer := buf\<rparr>)
   }"

definition sqlcipher_codec_ctx_integrity_check ::
    "'r cipher_globals \<Rightarrow> 'r codec_ctx \<Rightarrow> byte list \<Rightarrow> 'r world \<Rightarrow> (int \<times> row list \<times> 'r codec_ctx \<times> 'r world) option" where
  "sqlcipher_codec_ctx_integrity_check g ctx column w =
     (if \<not> w_fd_open w then Some (SQLITE_OK, [integrity_row column (str ''database file is undefined'')], ctx, w)
      else if cflags ctx AND CIPHER_FLAG_HMAC = 0
      then Some (SQLITE_OK, [integrity_row column (str ''HMAC is not enabled, unable to integrity check'')], ctx, w)
      else do {
        (rc, ctx1, w1) \<leftarrow> sqlcipher_codec_key_derive g ctx w;
        if rc \<noteq> SQLITE_OK then Some (SQLITE_OK, [integrity_row column (str ''unable to derive keys'')], ctx1, w1)
        else do {
          file_sz \<leftarrow> w_file_size w1;
          let (hmac_out, w2) = malloc_w (hmac_sz ctx1) w1;
          (rows, ctx2) \<leftarrow> integrity_pages ctx1 w2 column file_sz hmac_out;
          Some (SQLITE_OK, rows, ctx2, w2)
        }
      })"

section \<open>What the check reports\<close>

text \<open>
  The report on one page, stated over the page format of \<open>sqlcipher_page_cipher\<close>: \<open>bytes\<close> is the
  encrypted part of the page, \<open>None\<close> when it cannot be read.
\<close>

definition page_report ::
    "'r codec_ctx \<Rightarrow> cipher_ctx \<Rightarrow> byte list \<Rightarrow> pgno \<Rightarrow> byte list option \<Rightarrow> row list" where
  "page_report ctx r column page bytes =
     (case bytes of
        None \<Rightarrow> [integrity_row column (str ''error reading '' @ fmt_d (page_sz ctx - integrity_hdr ctx page)
                   @ str '' bytes from file page '' @ fmt_d (sint page) @ str '' at offset ''
                   @ fmt_d (sint (of_int (integrity_offset ctx page + integrity_hdr ctx page) :: u32)))]
      | Some bs \<Rightarrow>
          (case page_mac ctx r page bs of
             None \<Rightarrow> [integrity_row column (str ''HMAC operation failed for page '' @ fmt_d (sint page))]
           | Some m \<Rightarrow>
               if m = stored_mac ctx bs then []
               else [integrity_row column (str ''HMAC verification failed for page '' @ fmt_d (sint page))]))"

fun file_report :: "'r codec_ctx \<Rightarrow> cipher_ctx \<Rightarrow> byte list \<Rightarrow> 'r world \<Rightarrow> nat \<Rightarrow> pgno \<Rightarrow> row list" where
  "file_report ctx r column w 0 page = []"
| "file_report ctx r column w (Suc n) page =
     (if w_sj_pgno w = page then []
      else page_report ctx r column page
             (w_read w (page_sz ctx - integrity_hdr ctx page) (integrity_offset ctx page + integrity_hdr ctx page)))
     @ file_report ctx r column w n (page + 1)"

lemma memset_some: "int (length b) = n \<Longrightarrow> memset_opt (Some b) n = Some (Some (replicate (nat n) 0))"
  by (auto simp: memset_opt_def sqlcipher_memset_def mem_write_def)

lemma integrity_page_report:
  assumes ok: "codec_ok ctx" and h: "header_ok ctx" "0 \<le> plaintext_header_sz ctx" and r: "cipher_ok ctx r" and w: "world_ok w"
    and b: "int (length b) = page_sz ctx" and m: "int (length out) = hmac_sz ctx" and hm: "flag_get (cflags ctx) CIPHER_FLAG_HMAC"
  shows "\<exists>b' out'. integrity_page ctx r w column page (Some b) (Some out) =
           Some (page_report ctx r column page
                   (w_read w (page_sz ctx - integrity_hdr ctx page) (integrity_offset ctx page + integrity_hdr ctx page)),
                 Some b', Some out') \<and> int (length b') = page_sz ctx \<and> int (length out') = hmac_sz ctx"
proof -
  let ?hdr = "integrity_hdr ctx page" and ?o = "replicate (nat (hmac_sz ctx)) (0 :: byte)" and ?z = "replicate (nat (page_sz ctx)) (0 :: byte)"
  note s = codec_ok_sizes [OF ok]
  have hdr: "0 \<le> ?hdr" "?hdr + reserve_sz ctx < page_sz ctx" "block_sz ctx dvd ?hdr"
    using h s(4,5,10,13) by (auto simp: integrity_hdr_def header_ok_def FILE_HEADER_SZ_def)
  have mb: "memset_opt (Some b) (page_sz ctx) = Some (Some ?z)" and mo: "memset_opt (Some out) (hmac_sz ctx) = Some (Some ?o)"
    using b m by (simp_all add: memset_some)
  show ?thesis
  proof (cases "w_read w (page_sz ctx - ?hdr) (integrity_offset ctx page + ?hdr)")
    case None
    then show ?thesis using mb mo s by (simp add: integrity_page_def Let_def page_report_def)
  next
    case (Some bs)
    then have lb: "int (length bs) = page_sz ctx - ?hdr" using w by (auto simp: world_ok_def)
    define b1 where "b1 = bs @ drop (length bs) ?z"
    have w1: "mem_write ?z 0 bs = Some b1" "int (length b1) = page_sz ctx"
      using lb hdr s(13) by (auto simp: mem_write_def b1_def)
    have g: "page_geom ctx (page_sz ctx - ?hdr) b1 0 b1 0"
      using w1(2) hdr s(12) by (auto simp: page_geom_def)
    have p: "page_at b1 0 (page_sz ctx - ?hdr) = bs"
      using lb by (simp add: page_at_def b1_def flip: lb)
    note pp = page_parts [OF ok g, unfolded p]
    have key: "mem_read (c_hmac_key r) 0 (key_sz ctx) = Some (c_hmac_key r)"
      using mem_read_all [of "c_hmac_key r"] r by (simp add: cipher_ok_def)
    have ps: "page_sz ctx - reserve_sz ctx + iv_sz ctx - ?hdr = page_sz ctx - ?hdr - reserve_sz ctx + iv_sz ctx" by simp
    have hm1: "sqlcipher_page_hmac ctx r page b1 0 (page_sz ctx - reserve_sz ctx + iv_sz ctx - ?hdr) = Some (page_mac ctx r page bs)"
      using key pp(3) unfolding ps by (simp add: sqlcipher_page_hmac_def page_mac_def)
    show ?thesis
    proof (cases "page_mac ctx r page bs")
      case None
      then show ?thesis using Some mb mo w1 hm1 s by (simp add: integrity_page_def Let_def page_report_def)
    next
      case (Some mac)
      note mac = this
      have lm: "int (length mac) = hmac_sz ctx"
        using provider_ok_hmac [OF codec_okD(1) [OF ok]] mac codec_okD(10) [OF ok] by (simp add: page_mac_def)
      have w2: "mem_write ?o 0 mac = Some mac" using lm by (auto simp: mem_write_def)
      have cmp: "sqlcipher_memcmp b1 (page_sz ctx - reserve_sz ctx + iv_sz ctx - ?hdr) mac 0 (hmac_sz ctx)
          = Some (if stored_mac ctx bs = mac then 0 else 1)"
        using pp(5) [OF hm] mem_read_all [of mac] lm unfolding ps by (intro sqlcipher_memcmp_iff) simp_all
      show ?thesis using Some mb mo w1 hm1 w2 cmp lm \<open>w_read _ _ _ = Some bs\<close>
        by (simp add: integrity_page_def Let_def page_report_def)
    qed
  qed
qed

lemma integrity_loop_report:
  assumes ok: "codec_ok ctx" and h: "header_ok ctx" "0 \<le> plaintext_header_sz ctx" and r: "cipher_ok ctx r" and w: "world_ok w"
    and hm: "flag_get (cflags ctx) CIPHER_FLAG_HMAC"
  shows "int (length b) = page_sz ctx \<Longrightarrow> int (length out) = hmac_sz ctx \<Longrightarrow>
    \<exists>b' out'. integrity_loop ctx r w column n page (Some b) (Some out) =
      Some (file_report ctx r column w n page, Some b', Some out') \<and> int (length b') = page_sz ctx \<and> int (length out') = hmac_sz ctx"
proof (induction n arbitrary: page b out)
  case (Suc n)
  show ?case
  proof (cases "w_sj_pgno w = page")
    case True
    then show ?thesis using Suc by simp
  next
    case False
    obtain b1 out1 where p: "integrity_page ctx r w column page (Some b) (Some out) =
           Some (page_report ctx r column page
                   (w_read w (page_sz ctx - integrity_hdr ctx page) (integrity_offset ctx page + integrity_hdr ctx page)),
                 Some b1, Some out1)" "int (length b1) = page_sz ctx" "int (length out1) = hmac_sz ctx"
      using integrity_page_report [OF ok h r w Suc.prems hm] by blast
    obtain b2 out2 where l: "integrity_loop ctx r w column n (page + 1) (Some b1) (Some out1) =
        Some (file_report ctx r column w n (page + 1), Some b2, Some out2)" "int (length b2) = page_sz ctx" "int (length out2) = hmac_sz ctx"
      using Suc.IH [OF p(2,3)] by blast
    show ?thesis using False p l by simp
  qed
qed simp

text \<open>The keys are settled, so that the check derives none, and the memory for an HMAC is there.\<close>

lemma integrity_check_report:
  assumes rdy: "codec_ready ctx w" and k: "keys_settled ctx" and h: "0 \<le> plaintext_header_sz ctx"
    and hm: "flag_get (cflags ctx) CIPHER_FLAG_HMAC" "0 < hmac_sz ctx" and fd: "w_fd_open w" and al: "w_allocs w = []"
    and fs: "w_file_size w = Some fs"
  shows "\<exists>r rows ctx'. read_ctx ctx = Some r \<and> sqlcipher_codec_ctx_integrity_check g ctx column w = Some (SQLITE_OK, rows, ctx', w) \<and>
           codec_ok ctx' \<and> same_settings ctx (ctx'\<lparr>cbuffer := cbuffer ctx\<rparr>) \<and>
           rows = file_report ctx r column w (nat (fs div page_sz ctx)) 1 @
             (if fs mod page_sz ctx = 0 then []
              else [integrity_row column (str ''page '' @ fmt_d (sint (of_nat (nat (fs div page_sz ctx) + 1) :: pgno)) @ str '' has an invalid size of ''
                         @ fmt_d (fs mod page_sz ctx) @ str '' bytes (expected '' @ fmt_d (page_sz ctx) @ str '' bytes)'')])"
proof -
  have ok: "codec_ok ctx" "header_ok ctx" "cbuffer ctx \<noteq> None" "world_ok w" using rdy by (auto simp: codec_ready_def)
  obtain c where c: "sqlcipher_codec_key_derive g ctx w = Some (SQLITE_OK, c, w)" "codec_ok c" "same_settings ctx c"
      "cflags c = cflags ctx" "map_option c_hmac_key (read_ctx c) = map_option c_hmac_key (read_ctx ctx)"
    using derive_settled [OF ok(1) k] .
  have f: "page_sz c = page_sz ctx" "reserve_sz c = reserve_sz ctx" "iv_sz c = iv_sz ctx" "hmac_sz c = hmac_sz ctx"
      "plaintext_header_sz c = plaintext_header_sz ctx" "cprovider c = cprovider ctx" "hmac_algorithm c = hmac_algorithm ctx"
      "header_ok c" "cbuffer c = cbuffer ctx"
    using c(3) ok(2) header_ok_same [OF c(3)] by (simp_all add: same_settings_def)
  obtain r where r: "read_ctx c = Some r" "cipher_ok c r" using codec_ok_ctxs [OF c(2)] by blast
  obtain r0 where r0: "read_ctx ctx = Some r0" "c_hmac_key r0 = c_hmac_key r" using c(5) r(1) by (cases "read_ctx ctx") auto
  obtain b where b: "cbuffer c = Some b" "int (length b) = page_sz c"
    using c(2) ok(3) f(9) by (auto simp: codec_ok_def codec_base_ok_def codec_frame_ok_def opt_len_def)
  have m: "malloc_w (hmac_sz c) w = (Some (replicate (nat (hmac_sz c)) 0), w)"
    using codec_ok_sizes(7) [OF c(2)] hm(2) al f(4)
    by (simp add: malloc_w_def sqlcipher_malloc_def SQLITE_MAX_ALLOCATION_SIZE_def)
  let ?n = "nat (fs div page_sz ctx)"
  obtain b' out' where l: "integrity_loop c r w column ?n 1 (Some b) (Some (replicate (nat (hmac_sz c)) 0)) =
      Some (file_report c r column w ?n 1, Some b', Some out')" "int (length b') = page_sz c" "int (length out') = hmac_sz c"
    using integrity_loop_report [OF c(2) f(8) _ r(2) ok(4) _ b(2), of "replicate (nat (hmac_sz c)) 0" column ?n 1] h hm c(4) f
    by auto
  have "page_report c r column page bs = page_report ctx r0 column page bs" for page bs
    by (simp add: page_report_def page_mac_def stored_mac_def integrity_hdr_def integrity_offset_def pgno_raw_def f c(4) r0(2)
        cong: option.case_cong)
  then have fr: "file_report c r column w n page = file_report ctx r0 column w n page" for n page
    by (induction n arbitrary: page) (simp_all add: integrity_hdr_def integrity_offset_def f)
  have fre: "sqlcipher_free (Some out') (hmac_sz c) = Some ()" using l(3) by (intro free_ok) simp
  have "codec_ok (c\<lparr>cbuffer := Some b'\<rparr>)" using codec_ok_buffer [OF c(2) l(2)] .
  moreover have "same_settings ctx (c\<lparr>cbuffer := cbuffer ctx\<rparr>)" using c(3) by (simp add: same_settings_def)
  moreover have "cflags ctx AND CIPHER_FLAG_HMAC \<noteq> 0" using hm(1) by (simp add: flag_get_def)
  ultimately show ?thesis using r0(1) fd c(1) fs m r(1) l(1) b(1) fre fr f
    by (simp add: sqlcipher_codec_ctx_integrity_check_def integrity_pages_def Let_def)
qed

lemma file_report_empty:
  "file_report ctx r column w n page = [] \<longleftrightarrow>
     (\<forall>i < n. w_sj_pgno w = page + of_nat i \<or>
        page_report ctx r column (page + of_nat i)
          (w_read w (page_sz ctx - integrity_hdr ctx (page + of_nat i))
             (integrity_offset ctx (page + of_nat i) + integrity_hdr ctx (page + of_nat i))) = [])"
  by (induction n arbitrary: page) (auto simp: All_less_Suc2 algebra_simps)

lemma page_report_empty:
  "page_report ctx r column page bytes = [] \<longleftrightarrow> (\<exists>bs. bytes = Some bs \<and> page_mac ctx r page bs = Some (stored_mac ctx bs))"
  by (auto simp: page_report_def split: option.splits)

lemma integrity_offset_exact:
  assumes "0 \<le> int i * page_sz ctx" "int i * page_sz ctx < 2 ^ 32"
  shows "integrity_offset ctx (1 + of_nat i) = int i * page_sz ctx"
proof -
  have "((1 + of_nat i) - 1) * of_int (page_sz ctx) = (of_int (int i * page_sz ctx) :: u32)" by simp
  then show ?thesis using assms by (simp add: integrity_offset_def of_int_mult [symmetric] unsigned_of_int take_bit_eq_mod del: of_int_mult)
qed


text \<open>
  Above 4 GiB the check reads the wrong bytes: the file offset is computed in 32 bits, so the page at
  offset \<open>2\<^sup>3\<^sup>2\<close> is checked against the bytes at the start of the file, whatever its own bytes are.
\<close>

theorem integrity_check_wraps:
  assumes "codec_ok ctx" and "page = 1 + of_int (2 ^ 32 div page_sz ctx)" and "2 ^ 32 div page_sz ctx * page_sz ctx = 2 ^ 32"
    and "\<And>n. w_read w' n 0 = w_read w n 0"
  shows "page \<noteq> 1 \<and> integrity_page ctx r w' column page buf out = integrity_page ctx r w column page buf out"
proof -
  let ?k = "2 ^ 32 div page_sz ctx"
  note s = codec_ok_sizes(13,14) [OF assms(1)]
  have "(page - 1) * of_int (page_sz ctx) = (of_int (?k * page_sz ctx) :: u32)" using assms(2) by simp
  also have "\<dots> = 0" unfolding assms(3) by simp
  finally have o: "integrity_offset ctx page = 0" by (simp add: integrity_offset_def)
  have k: "0 < ?k" "?k < 2 ^ 32" using s by (auto simp: pos_imp_zdiv_pos_iff int_div_less_self)
  have "(of_int ?k :: u32) \<noteq> 0" using k by (simp add: word_of_int_eq_0_iff zdvd_not_zless)
  then have "page \<noteq> 1" using assms(2) by simp
  with o show ?thesis by (simp add: integrity_page_def integrity_hdr_def Let_def assms(4))
qed

definition demo_read_world :: "int \<Rightarrow> nat world" where
  "demo_read_world k = demo_world\<lparr>w_read := (\<lambda>n off. if n < 0 then None else if off = 0 then Some (replicate (nat n) 7) else Some (replicate (nat n) (of_int k)))\<rparr>"

theorem integrity_check_wraps_witness:
  "integrity_page demo_ctx_4096 demo_cipher_ctx (demo_read_world 1) (str ''c'') 0x100001 None None
     = integrity_page demo_ctx_4096 demo_cipher_ctx (demo_read_world 2) (str ''c'') 0x100001 None None"
  using integrity_check_wraps [where ctx = demo_ctx_4096 and page = "0x100001" and w = "demo_read_world 2" and w' = "demo_read_world 1"
      and r = demo_cipher_ctx and column = "str ''c''" and buf = None and out = None] demo_ctx_4096_ok(1,3)
  by (simp add: demo_read_world_def)

definition demo_file_world :: "nat world" where
  "demo_file_world = demo_world\<lparr>w_fd_open := True, w_file_size := Some 1024, w_read := (\<lambda>n off. if n < 0 then None else Some (replicate (nat n) 0))\<rparr>"


end
