(* ===== verification/Pragma.thy ===== *)
theory Pragma
  imports Integrity
begin

text \<open>
  \<open>sqlcipher_codec_pragma\<close>: the pragmas that read and change the settings of a codec context and the
  process-wide defaults.  The \<open>if\<close>/\<open>else\<close> chain of the source is cut into groups; each handler is one
  branch of the chain.  Names and arguments are C strings; a missing argument is \<open>None\<close>.

  The result of a handler is the return value of the function with the rows it emits and the new state;
  \<open>None\<close> is undefined behaviour: an \<open>atoi\<close> overflow or the use of unchecked memory.  Opening files,
  \<open>sqlcipher_codec_ctx_migrate\<close> and the version text of the provider are parameters.
\<close>

section \<open>State\<close>

datatype log_target = LogNone | LogStdout | LogStderr | LogCat | LogFile "byte list"

record 'r pstate =
  ps_g :: "'r cipher_globals"
  ps_bt :: "'r btree option"
  ps_next :: int
  ps_log_level :: u32
  ps_log :: log_target
  ps_trace :: log_target

record 'r pragma_env =
  pe_fopen :: "byte list \<Rightarrow> bool"
  pe_migrate :: "'r pstate \<Rightarrow> int \<times> 'r pstate"
  pe_provider_version :: "byte list"

type_synonym 'r pragma_result = "(int \<times> row list \<times> 'r pstate) option"

definition pragma_is :: "byte list \<Rightarrow> string \<Rightarrow> bool" where
  "pragma_is z name \<longleftrightarrow> sqlite3_stricmp (Some z) (Some (str name)) = 0"

definition sqlcipher_vdbe_return_string :: "string \<Rightarrow> byte list option \<Rightarrow> row list" where
  "sqlcipher_vdbe_return_string zLabel value = [(str zLabel, value)]"

definition sqlite3Strlen30 :: "byte list \<Rightarrow> int" where
  "sqlite3Strlen30 z = int (length z) mod 2 ^ 30"

definition pragma_ctx :: "'r pstate \<Rightarrow> 'r codec_ctx option" where
  "pragma_ctx s = (case ps_bt s of None \<Rightarrow> None | Some bt \<Rightarrow> sqlcipherPagerGetCodec bt)"

definition put_ctx :: "'r pstate \<Rightarrow> 'r codec_ctx \<Rightarrow> 'r pstate" where
  "put_ctx s ctx = s\<lparr>ps_bt := map_option (\<lambda>bt. bt\<lparr>pg_pCodec := Some ctx\<rparr>) (ps_bt s)\<rparr>"

definition ctx_error :: "'r pstate \<Rightarrow> int \<Rightarrow> 'r pstate" where
  "ctx_error s err = s\<lparr>ps_bt := map_option (\<lambda>bt. bt\<lparr>bt_world := sqlcipher_codec_ctx_set_error err (bt_world bt)\<rparr>) (ps_bt s)\<rparr>"

text \<open>\<open>if(rc != SQLITE_OK) sqlcipher_codec_ctx_set_error(ctx, err)\<close>.\<close>

definition error_unless_ok :: "int \<Rightarrow> int \<Rightarrow> 'r pstate \<Rightarrow> 'r pstate" where
  "error_unless_ok rc err s = (if rc \<noteq> SQLITE_OK then ctx_error s err else s)"

text \<open>The branches guarded by \<open>if(ctx)\<close>, with the context and the B-tree it belongs to.\<close>

definition with_ctx ::
    "'r pstate \<Rightarrow> ('r codec_ctx \<Rightarrow> 'r btree \<Rightarrow> 'r pragma_result) \<Rightarrow> 'r pragma_result" where
  "with_ctx s f =
     (case ps_bt s of
        None \<Rightarrow> Some (1, [], s)
      | Some bt \<Rightarrow> (case sqlcipherPagerGetCodec bt of None \<Rightarrow> Some (1, [], s) | Some ctx \<Rightarrow> f ctx bt))"

abbreviation (input) handled :: "row list \<Rightarrow> 'r pstate \<Rightarrow> 'r pragma_result" where
  "handled rows s \<equiv> Some (1, rows, s)"

definition resize :: "'r pstate \<Rightarrow> 'r codec_ctx \<Rightarrow> int option \<Rightarrow> 'r pstate" where
  "resize s ctx err =
     (case ps_bt s of
        None \<Rightarrow> s
      | Some bt \<Rightarrow>
          (case codec_set_btree_to_codec_pagesize bt ctx of
             (rc, bt', next') \<Rightarrow>
               error_unless_ok rc (case err of None \<Rightarrow> rc | Some e \<Rightarrow> e) (s\<lparr>ps_bt := Some bt', ps_next := next'\<rparr>)))"

section \<open>Status, store_pass\<close>

definition pragma_status :: "'r pstate \<Rightarrow> byte list \<Rightarrow> byte list option \<Rightarrow> row list \<times> 'r pstate" where
  "pragma_status s zLeft zRight =
     (case pragma_ctx s of
        None \<Rightarrow> ([], s)
      | Some ctx \<Rightarrow>
          if pragma_is zLeft ''cipher_fips_status'' \<and> zRight = None
          then (sqlcipher_vdbe_return_string ''cipher_fips_status'' (Some (fmt_d (pr_fips_status (cprovider ctx)))), s)
          else if pragma_is zLeft ''cipher_store_pass''
          then (case zRight of
                  Some z \<Rightarrow>
                    (sqlcipher_vdbe_return_string ''cipher_store_pass''
                       (Some (str ''PRAGMA cipher_store_pass is deprecated, please remove from use'')),
                     put_ctx s (sqlcipher_codec_set_store_pass ctx (if sqlite3GetBoolean z 1 then 1 else 0)))
                | None \<Rightarrow>
                    (sqlcipher_vdbe_return_string ''cipher_store_pass''
                       (Some (fmt_d (sqlcipher_codec_get_store_pass ctx))), s))
          else ([], s))"

section \<open>Profiling, randomness, migration, versions\<close>

definition sqlcipher_cipher_profile ::
    "'r pragma_env \<Rightarrow> 'r pstate \<Rightarrow> byte list \<Rightarrow> int \<times> 'r pstate" where
  "sqlcipher_cipher_profile e s z =
     (if pragma_is z ''off'' then (SQLITE_OK, s\<lparr>ps_trace := LogNone\<rparr>)
      else if pragma_is z ''stdout'' then (SQLITE_OK, s\<lparr>ps_trace := LogStdout\<rparr>)
      else if pragma_is z ''stderr'' then (SQLITE_OK, s\<lparr>ps_trace := LogStderr\<rparr>)
      else if pragma_is z ''logcat'' then (SQLITE_OK, s\<lparr>ps_trace := LogCat\<rparr>)
      else if pe_fopen e z then (SQLITE_OK, s\<lparr>ps_trace := LogFile z\<rparr>) else (SQLITE_ERROR, s))"

definition sqlcipher_codec_add_random ::
    "'r codec_ctx \<Rightarrow> byte list \<Rightarrow> int \<Rightarrow> 'r world \<Rightarrow> (int \<times> 'r world) option" where
  "sqlcipher_codec_add_random ctx zRight random_sz w =
     (let n = random_sz - 3 in
      if n > 0 \<and> sqlite3StrNICmp zRight (str ''x'' @ [39]) 2 = 0
         \<and> sqlite3StrNICmp (drop (nat (random_sz - 1)) zRight) [39] 1 = 0 \<and> n mod 2 = 0
      then (case malloc_w (n div 2) w of
              (None, w1) \<Rightarrow> None
            | (Some b, w1) \<Rightarrow> do {
                random \<leftarrow> cipher_hex2bin (drop 2 zRight) n b;
                _ \<leftarrow> sqlcipher_free (Some random) (n div 2);
                Some (pr_add_random (cprovider ctx) random, w1)
              })
      else Some (SQLITE_ERROR, w))"

definition sqlcipher_version :: "byte list" where
  "sqlcipher_version = str ''4.5.6 community''"

definition pragma_info ::
    "'r pragma_env \<Rightarrow> 'r pstate \<Rightarrow> byte list \<Rightarrow> byte list option \<Rightarrow> 'r pragma_result option" where
  "pragma_info e s zLeft zRight =
     (if pragma_is zLeft ''cipher_profile'' \<and> zRight \<noteq> None
      then Some (do {
        z \<leftarrow> zRight;
        let (rc, s') = sqlcipher_cipher_profile e s z;
        handled (sqlcipher_vdbe_return_string ''cipher_profile'' (Some (fmt_d rc))) s' })
      else if pragma_is zLeft ''cipher_add_random'' \<and> zRight \<noteq> None
      then Some (with_ctx s (\<lambda>ctx bt. do {
        z \<leftarrow> zRight;
        (rc, w') \<leftarrow> sqlcipher_codec_add_random ctx z (sqlite3Strlen30 z) (bt_world bt);
        handled (sqlcipher_vdbe_return_string ''cipher_add_random'' (Some (fmt_d rc))) (s\<lparr>ps_bt := Some (bt\<lparr>bt_world := w'\<rparr>)\<rparr>) }))
      else if pragma_is zLeft ''cipher_migrate'' \<and> zRight = None
      then Some (with_ctx s (\<lambda>ctx bt.
        let (rc, s') = pe_migrate e s
        in handled (sqlcipher_vdbe_return_string ''cipher_migrate'' (Some (fmt_d rc))) (error_unless_ok rc rc s')))
      else if pragma_is zLeft ''cipher_provider'' \<and> zRight = None
      then Some (with_ctx s (\<lambda>ctx bt.
        handled (sqlcipher_vdbe_return_string ''cipher_provider'' (Some (str (pr_name (cprovider ctx))))) s))
      else if pragma_is zLeft ''cipher_provider_version'' \<and> zRight = None
      then Some (with_ctx s (\<lambda>ctx bt.
        handled (sqlcipher_vdbe_return_string ''cipher_provider_version'' (Some (pe_provider_version e))) s))
      else if pragma_is zLeft ''cipher_version'' \<and> zRight = None
      then Some (handled (sqlcipher_vdbe_return_string ''cipher_version'' (Some sqlcipher_version)) s)
      else if pragma_is zLeft ''cipher''
      then Some (with_ctx s (\<lambda>ctx bt.
        handled (sqlcipher_vdbe_return_string ''cipher''
                (Some (if zRight \<noteq> None then str ''PRAGMA cipher is no longer supported.''
                       else str (pr_get_cipher (cprovider ctx))))) s))
      else if pragma_is zLeft ''rekey_cipher'' \<and> zRight \<noteq> None
      then Some (handled (sqlcipher_vdbe_return_string ''rekey_cipher'' (Some (str ''PRAGMA rekey_cipher is no longer supported.''))) s)
      else None)"

section \<open>Iteration counts\<close>

definition sqlcipher_set_default_kdf_iter :: "'r cipher_globals \<Rightarrow> int \<Rightarrow> 'r cipher_globals" where
  "sqlcipher_set_default_kdf_iter g n = g\<lparr>g_kdf_iter := n\<rparr>"

definition pragma_kdf_iter :: "'r pstate \<Rightarrow> byte list \<Rightarrow> byte list option \<Rightarrow> 'r pragma_result option" where
  "pragma_kdf_iter s zLeft zRight =
     (if pragma_is zLeft ''cipher_default_kdf_iter''
      then Some (case zRight of
          Some z \<Rightarrow> do { n \<leftarrow> c_atoi z; handled [] (s\<lparr>ps_g := sqlcipher_set_default_kdf_iter (ps_g s) n\<rparr>) }
        | None \<Rightarrow> handled (sqlcipher_vdbe_return_string ''cipher_default_kdf_iter'' (Some (fmt_d (g_kdf_iter (ps_g s))))) s)
      else if pragma_is zLeft ''kdf_iter''
      then Some (with_ctx s (\<lambda>ctx bt. case zRight of
          Some z \<Rightarrow> do { n \<leftarrow> c_atoi z; handled [] (put_ctx s (sqlcipher_codec_ctx_set_kdf_iter ctx n)) }
        | None \<Rightarrow> handled (sqlcipher_vdbe_return_string ''kdf_iter'' (Some (fmt_d (kdf_iter ctx)))) s))
      else if pragma_is zLeft ''fast_kdf_iter''
      then Some (with_ctx s (\<lambda>ctx bt. case zRight of
          Some z \<Rightarrow> do {
            n \<leftarrow> c_atoi z;
            handled (sqlcipher_vdbe_return_string ''fast_kdf_iter''
                    (Some (str ''PRAGMA fast_kdf_iter is deprecated, please remove from use'')))
              (put_ctx s (sqlcipher_codec_ctx_set_fast_kdf_iter ctx n)) }
        | None \<Rightarrow> handled (sqlcipher_vdbe_return_string ''fast_kdf_iter'' (Some (fmt_d (fast_kdf_iter ctx)))) s))
      else if pragma_is zLeft ''rekey_kdf_iter'' \<and> zRight \<noteq> None
      then Some (handled (sqlcipher_vdbe_return_string ''rekey_kdf_iter'' (Some (str ''PRAGMA rekey_kdf_iter is no longer supported.''))) s)
      else None)"

section \<open>Page size\<close>

definition sqlcipher_set_default_pagesize :: "'r cipher_globals \<Rightarrow> int \<Rightarrow> 'r cipher_globals" where
  "sqlcipher_set_default_pagesize g n = g\<lparr>g_page_size := n\<rparr>"

definition set_ctx_pagesize ::
    "'r pstate \<Rightarrow> 'r codec_ctx \<Rightarrow> 'r btree \<Rightarrow> int \<Rightarrow> int option \<Rightarrow> ('r codec_ctx \<times> 'r pstate) option" where
  "set_ctx_pagesize s ctx bt sz err = do {
     (rc, ctx', w') \<leftarrow> sqlcipher_codec_ctx_set_pagesize ctx sz (bt_world bt);
     Some (ctx', error_unless_ok rc (case err of None \<Rightarrow> rc | Some e \<Rightarrow> e)
             (s\<lparr>ps_bt := Some (bt\<lparr>pg_pCodec := Some ctx', bt_world := w'\<rparr>)\<rparr>))
   }"

definition pragma_page_size :: "'r pstate \<Rightarrow> byte list \<Rightarrow> byte list option \<Rightarrow> 'r pragma_result option" where
  "pragma_page_size s zLeft zRight =
     (if pragma_is zLeft ''page_size'' \<or> pragma_is zLeft ''cipher_page_size''
      then Some (if pragma_ctx s = None then Some (0, [], s)
        else with_ctx s (\<lambda>ctx bt. case zRight of
            Some z \<Rightarrow> do {
              n \<leftarrow> c_atoi z;
              (ctx', s') \<leftarrow> set_ctx_pagesize s ctx bt n None;
              handled [] (resize s' ctx' None) }
          | None \<Rightarrow> handled (sqlcipher_vdbe_return_string ''cipher_page_size'' (Some (fmt_d (page_sz ctx)))) s))
      else if pragma_is zLeft ''cipher_default_page_size''
      then Some (case zRight of
          Some z \<Rightarrow> do { n \<leftarrow> c_atoi z; handled [] (s\<lparr>ps_g := sqlcipher_set_default_pagesize (ps_g s) n\<rparr>) }
        | None \<Rightarrow> handled (sqlcipher_vdbe_return_string ''cipher_default_page_size'' (Some (fmt_d (g_page_size (ps_g s))))) s)
      else None)"

section \<open>HMAC\<close>

definition sqlcipher_set_default_use_hmac :: "'r cipher_globals \<Rightarrow> bool \<Rightarrow> 'r cipher_globals" where
  "sqlcipher_set_default_use_hmac g use =
     g\<lparr>g_flags := (if use then flag_set (g_flags g) CIPHER_FLAG_HMAC else flag_unset (g_flags g) CIPHER_FLAG_HMAC)\<rparr>"

definition sqlcipher_get_default_use_hmac :: "'r cipher_globals \<Rightarrow> bool" where
  "sqlcipher_get_default_use_hmac g = flag_get (g_flags g) CIPHER_FLAG_HMAC"

definition sqlcipher_set_hmac_salt_mask :: "'r cipher_globals \<Rightarrow> byte \<Rightarrow> 'r cipher_globals" where
  "sqlcipher_set_hmac_salt_mask g msk = g\<lparr>g_hmac_salt_mask := msk\<rparr>"

definition salt_mask_arg :: "'r cipher_globals \<Rightarrow> byte list \<Rightarrow> 'r cipher_globals option" where
  "salt_mask_arg g z =
     (if sqlite3StrNICmp z (str ''x'' @ [39]) 2 = 0 \<and> sqlite3Strlen30 z = 5
      then do { msk \<leftarrow> cipher_hex2bin (drop 2 z) 2 [0]; m \<leftarrow> nth_opt msk 0; Some (sqlcipher_set_hmac_salt_mask g m) }
      else Some g)"

definition set_pgno_flags :: "byte list \<Rightarrow> u32 \<Rightarrow> u32" where
  "set_pgno_flags z fl =
     (if pragma_is z ''le'' then flag_set (flag_unset fl CIPHER_FLAG_BE_PGNO) CIPHER_FLAG_LE_PGNO
      else if pragma_is z ''be'' then flag_set (flag_unset fl CIPHER_FLAG_LE_PGNO) CIPHER_FLAG_BE_PGNO
      else if pragma_is z ''native'' then flag_unset (flag_unset fl CIPHER_FLAG_LE_PGNO) CIPHER_FLAG_BE_PGNO
      else fl)"

definition fmt_bool :: "bool \<Rightarrow> byte list" where
  "fmt_bool b = fmt_d (if b then 1 else 0)"

definition pragma_hmac :: "'r pstate \<Rightarrow> byte list \<Rightarrow> byte list option \<Rightarrow> 'r pragma_result option" where
  "pragma_hmac s zLeft zRight =
     (if pragma_is zLeft ''cipher_default_use_hmac''
      then Some (case zRight of
          Some z \<Rightarrow> handled [] (s\<lparr>ps_g := sqlcipher_set_default_use_hmac (ps_g s) (sqlite3GetBoolean z 1)\<rparr>)
        | None \<Rightarrow> handled (sqlcipher_vdbe_return_string ''cipher_default_use_hmac''
                            (Some (fmt_bool (sqlcipher_get_default_use_hmac (ps_g s))))) s)
      else if pragma_is zLeft ''cipher_use_hmac''
      then Some (with_ctx s (\<lambda>ctx bt. case zRight of
          Some z \<Rightarrow> let ctx' = sqlcipher_codec_ctx_set_use_hmac ctx (sqlite3GetBoolean z 1)
                    in handled [] (resize (put_ctx s ctx') ctx' None)
        | None \<Rightarrow> handled (sqlcipher_vdbe_return_string ''cipher_use_hmac''
                            (Some (fmt_bool (sqlcipher_codec_ctx_get_use_hmac ctx)))) s))
      else if pragma_is zLeft ''cipher_hmac_pgno''
      then Some (with_ctx s (\<lambda>ctx bt. case zRight of
          Some z \<Rightarrow> handled (sqlcipher_vdbe_return_string ''cipher_hmac_pgno''
                              (Some (str ''PRAGMA cipher_hmac_pgno is deprecated, please remove from use'')))
                      (put_ctx s (ctx\<lparr>cflags := set_pgno_flags z (cflags ctx)\<rparr>))
        | None \<Rightarrow> handled (sqlcipher_vdbe_return_string ''cipher_hmac_pgno''
                            (Some (str (if flag_get (cflags ctx) CIPHER_FLAG_LE_PGNO then ''le''
                                        else if flag_get (cflags ctx) CIPHER_FLAG_BE_PGNO then ''be'' else ''native'')))) s))
      else if pragma_is zLeft ''cipher_hmac_salt_mask''
      then Some (with_ctx s (\<lambda>ctx bt. case zRight of
          Some z \<Rightarrow> do {
            g' \<leftarrow> salt_mask_arg (ps_g s) z;
            handled (sqlcipher_vdbe_return_string ''cipher_hmac_salt_mask''
                       (Some (str ''PRAGMA cipher_hmac_salt_mask is deprecated, please remove from use''))) (s\<lparr>ps_g := g'\<rparr>) }
        | None \<Rightarrow> handled (sqlcipher_vdbe_return_string ''cipher_hmac_salt_mask'' (Some (hex_text [g_hmac_salt_mask (ps_g s)]))) s))
      else None)"

section \<open>Plaintext header and salt\<close>

definition sqlcipher_set_default_plaintext_header_size :: "'r cipher_globals \<Rightarrow> int \<Rightarrow> 'r cipher_globals" where
  "sqlcipher_set_default_plaintext_header_size g n = g\<lparr>g_plaintext_header_sz := n\<rparr>"

definition pragma_header :: "'r pstate \<Rightarrow> byte list \<Rightarrow> byte list option \<Rightarrow> 'r pragma_result option" where
  "pragma_header s zLeft zRight =
     (if pragma_is zLeft ''cipher_plaintext_header_size''
      then Some (with_ctx s (\<lambda>ctx bt. case zRight of
          Some z \<Rightarrow> do { n \<leftarrow> c_atoi z; handled [] (put_ctx s (snd (sqlcipher_codec_ctx_set_plaintext_header_size ctx n))) }
        | None \<Rightarrow> handled (sqlcipher_vdbe_return_string ''cipher_plaintext_header_size'' (Some (fmt_d (plaintext_header_sz ctx)))) s))
      else if pragma_is zLeft ''cipher_default_plaintext_header_size''
      then Some (case zRight of
          Some z \<Rightarrow> do { n \<leftarrow> c_atoi z; handled [] (s\<lparr>ps_g := sqlcipher_set_default_plaintext_header_size (ps_g s) n\<rparr>) }
        | None \<Rightarrow> handled (sqlcipher_vdbe_return_string ''cipher_default_plaintext_header_size''
                            (Some (fmt_d (g_plaintext_header_sz (ps_g s))))) s)
      else None)"

text \<open>The allocations of this pragma are used without a check.\<close>

definition salt_set :: "'r codec_ctx \<Rightarrow> byte list \<Rightarrow> 'r world \<Rightarrow> ('r codec_ctx \<times> 'r world) option" where
  "salt_set ctx z w =
     (if sqlite3StrNICmp z (str ''x'' @ [39]) 2 = 0 \<and> sqlite3Strlen30 z = FILE_HEADER_SZ * 2 + 3
      then (case take_alloc w of (ok, w1) \<Rightarrow>
              if \<not> ok then None
              else do {
                salt \<leftarrow> cipher_hex2bin (drop 2 z) (FILE_HEADER_SZ * 2) (replicate (nat FILE_HEADER_SZ) 0);
                (_, ctx') \<leftarrow> sqlcipher_codec_ctx_set_kdf_salt ctx salt FILE_HEADER_SZ;
                Some (ctx', w1)
              })
      else Some (ctx, w))"

definition salt_get :: "'r codec_ctx \<Rightarrow> 'r world \<Rightarrow> (int \<times> row list \<times> 'r codec_ctx \<times> 'r world) option" where
  "salt_get ctx w =
     (case take_alloc w of (ok, w1) \<Rightarrow> do {
        (rc, salt, ctx', w2) \<leftarrow> sqlcipher_codec_ctx_get_kdf_salt ctx w1;
        if rc = SQLITE_OK then
          (if \<not> ok then None
           else do {
             hexsalt \<leftarrow> cipher_bin2hex salt FILE_HEADER_SZ (replicate (nat (FILE_HEADER_SZ * 2 + 1)) 0) 0;
             Some (rc, sqlcipher_vdbe_return_string ''cipher_salt'' (Some (takeWhile (\<lambda>c. c \<noteq> 0) hexsalt)), ctx', w2)
           })
        else Some (rc, [], ctx', w2)
      })"

definition pragma_salt :: "'r pstate \<Rightarrow> byte list \<Rightarrow> byte list option \<Rightarrow> 'r pragma_result option" where
  "pragma_salt s zLeft zRight =
     (if pragma_is zLeft ''cipher_salt''
      then Some (with_ctx s (\<lambda>ctx bt. case zRight of
          Some z \<Rightarrow> do {
            (ctx', w') \<leftarrow> salt_set ctx z (bt_world bt);
            handled [] (s\<lparr>ps_bt := Some (bt\<lparr>pg_pCodec := Some ctx', bt_world := w'\<rparr>)\<rparr>) }
        | None \<Rightarrow> do {
            (rc, rows, ctx', w') \<leftarrow> salt_get ctx (bt_world bt);
            handled rows (error_unless_ok rc rc (s\<lparr>ps_bt := Some (bt\<lparr>pg_pCodec := Some ctx', bt_world := w'\<rparr>)\<rparr>)) }))
      else None)"

section \<open>Algorithms\<close>

definition hmac_label :: "int \<Rightarrow> string option" where
  "hmac_label a = (if a = SQLCIPHER_HMAC_SHA1 then Some ''HMAC_SHA1''
     else if a = SQLCIPHER_HMAC_SHA256 then Some ''HMAC_SHA256''
     else if a = SQLCIPHER_HMAC_SHA512 then Some ''HMAC_SHA512'' else None)"

definition kdf_label :: "int \<Rightarrow> string option" where
  "kdf_label a = (if a = SQLCIPHER_HMAC_SHA1 then Some ''PBKDF2_HMAC_SHA1''
     else if a = SQLCIPHER_HMAC_SHA256 then Some ''PBKDF2_HMAC_SHA256''
     else if a = SQLCIPHER_HMAC_SHA512 then Some ''PBKDF2_HMAC_SHA512'' else None)"

text \<open>The comparison of the argument with the three labels in turn.\<close>

definition algorithm_of :: "(int \<Rightarrow> string option) \<Rightarrow> byte list \<Rightarrow> int option" where
  "algorithm_of label z =
     (if pragma_is z (the (label SQLCIPHER_HMAC_SHA1)) then Some SQLCIPHER_HMAC_SHA1
      else if pragma_is z (the (label SQLCIPHER_HMAC_SHA256)) then Some SQLCIPHER_HMAC_SHA256
      else if pragma_is z (the (label SQLCIPHER_HMAC_SHA512)) then Some SQLCIPHER_HMAC_SHA512 else None)"

definition label_row :: "string \<Rightarrow> string option \<Rightarrow> row list" where
  "label_row name l = (case l of None \<Rightarrow> [] | Some t \<Rightarrow> sqlcipher_vdbe_return_string name (Some (str t)))"

definition sqlcipher_set_default_hmac_algorithm :: "'r cipher_globals \<Rightarrow> int \<Rightarrow> 'r cipher_globals" where
  "sqlcipher_set_default_hmac_algorithm g a = g\<lparr>g_hmac_algorithm := a\<rparr>"

definition sqlcipher_set_default_kdf_algorithm :: "'r cipher_globals \<Rightarrow> int \<Rightarrow> 'r cipher_globals" where
  "sqlcipher_set_default_kdf_algorithm g a = g\<lparr>g_kdf_algorithm := a\<rparr>"

definition pragma_hmac_algorithm :: "'r pstate \<Rightarrow> byte list \<Rightarrow> byte list option \<Rightarrow> 'r pragma_result option" where
  "pragma_hmac_algorithm s zLeft zRight =
     (if pragma_is zLeft ''cipher_hmac_algorithm''
      then Some (with_ctx s (\<lambda>ctx bt. case zRight of
          Some z \<Rightarrow>
            (case algorithm_of hmac_label z of
               Some a \<Rightarrow> let ctx' = sqlcipher_codec_ctx_set_hmac_algorithm ctx a
                         in handled [] (resize (put_ctx s ctx') ctx' (Some SQLITE_ERROR))
             | None \<Rightarrow> handled [] (resize (ctx_error s SQLITE_ERROR) ctx (Some SQLITE_ERROR)))
        | None \<Rightarrow> handled (label_row ''cipher_hmac_algorithm'' (hmac_label (hmac_algorithm ctx))) s))
      else if pragma_is zLeft ''cipher_default_hmac_algorithm''
      then Some (case zRight of
          Some z \<Rightarrow> handled [] (case algorithm_of hmac_label z of
                       Some a \<Rightarrow> s\<lparr>ps_g := sqlcipher_set_default_hmac_algorithm (ps_g s) a\<rparr> | None \<Rightarrow> s)
        | None \<Rightarrow> handled (label_row ''cipher_default_hmac_algorithm'' (hmac_label (g_hmac_algorithm (ps_g s)))) s)
      else None)"

definition pragma_kdf_algorithm :: "'r pstate \<Rightarrow> byte list \<Rightarrow> byte list option \<Rightarrow> 'r pragma_result option" where
  "pragma_kdf_algorithm s zLeft zRight =
     (if pragma_is zLeft ''cipher_kdf_algorithm''
      then Some (with_ctx s (\<lambda>ctx bt. case zRight of
          Some z \<Rightarrow>
            handled [] (case algorithm_of kdf_label z of
               Some a \<Rightarrow> put_ctx s (sqlcipher_codec_ctx_set_kdf_algorithm ctx a)
             | None \<Rightarrow> ctx_error s SQLITE_ERROR)
        | None \<Rightarrow> handled (label_row ''cipher_kdf_algorithm'' (kdf_label (kdf_algorithm ctx))) s))
      else if pragma_is zLeft ''cipher_default_kdf_algorithm''
      then Some (case zRight of
          Some z \<Rightarrow> handled [] (case algorithm_of kdf_label z of
                       Some a \<Rightarrow> s\<lparr>ps_g := sqlcipher_set_default_kdf_algorithm (ps_g s) a\<rparr> | None \<Rightarrow> s)
        | None \<Rightarrow> handled (label_row ''cipher_default_kdf_algorithm'' (kdf_label (g_kdf_algorithm (ps_g s)))) s)
      else None)"

section \<open>Compatibility\<close>

definition compat_settings :: "int \<Rightarrow> int \<times> int \<times> int \<times> int \<times> bool" where
  "compat_settings version =
     (if version = 1 then (1024, SQLCIPHER_HMAC_SHA1, SQLCIPHER_HMAC_SHA1, 4000, False)
      else if version = 2 then (1024, SQLCIPHER_HMAC_SHA1, SQLCIPHER_HMAC_SHA1, 4000, True)
      else if version = 3 then (1024, SQLCIPHER_HMAC_SHA1, SQLCIPHER_HMAC_SHA1, 64000, True)
      else (4096, SQLCIPHER_HMAC_SHA512, SQLCIPHER_HMAC_SHA512, 256000, True))"

text \<open>The five setters, of which only the first can fail.\<close>

definition compat_ctx ::
    "'r pstate \<Rightarrow> 'r codec_ctx \<Rightarrow> 'r btree \<Rightarrow> int \<Rightarrow> ('r codec_ctx \<times> 'r pstate) option" where
  "compat_ctx s ctx bt version =
     (case compat_settings version of (psz, hm, kd, iter, use) \<Rightarrow> do {
        (c1, s1) \<leftarrow> set_ctx_pagesize s ctx bt psz (Some SQLITE_ERROR);
        let c2 = sqlcipher_codec_ctx_set_hmac_algorithm c1 hm;
        let c3 = sqlcipher_codec_ctx_set_kdf_algorithm c2 kd;
        let c4 = sqlcipher_codec_ctx_set_kdf_iter c3 iter;
        let c5 = sqlcipher_codec_ctx_set_use_hmac c4 use;
        Some (c5, put_ctx s1 c5)
      })"

definition compat_defaults :: "'r cipher_globals \<Rightarrow> int \<Rightarrow> 'r cipher_globals" where
  "compat_defaults g version =
     (case compat_settings version of (psz, hm, kd, iter, use) \<Rightarrow>
        sqlcipher_set_default_use_hmac
          (sqlcipher_set_default_kdf_iter
            (sqlcipher_set_default_kdf_algorithm
              (sqlcipher_set_default_hmac_algorithm
                (sqlcipher_set_default_pagesize g psz) hm) kd) iter) use)"

definition pragma_compatibility :: "'r pstate \<Rightarrow> byte list \<Rightarrow> byte list option \<Rightarrow> 'r pragma_result option" where
  "pragma_compatibility s zLeft zRight =
     (if pragma_is zLeft ''cipher_compatibility''
      then Some (with_ctx s (\<lambda>ctx bt. case zRight of
          Some z \<Rightarrow> do {
            version \<leftarrow> c_atoi z;
            (ctx', s') \<leftarrow> compat_ctx s ctx bt version;
            handled [] (resize s' ctx' (Some SQLITE_ERROR)) }
        | None \<Rightarrow> handled [] s))
      else if pragma_is zLeft ''cipher_default_compatibility''
      then Some (case zRight of
          Some z \<Rightarrow> do { version \<leftarrow> c_atoi z; handled [] (s\<lparr>ps_g := compat_defaults (ps_g s) version\<rparr>) }
        | None \<Rightarrow> handled [] s)
      else None)"

section \<open>Memory security, settings, integrity, log\<close>

definition sqlcipher_set_mem_security :: "'r cipher_globals \<Rightarrow> bool \<Rightarrow> 'r cipher_globals" where
  "sqlcipher_set_mem_security g on = (if on then g\<lparr>g_mem_security_on := 1\<rparr> else g)"

definition sqlcipher_get_mem_security :: "'r cipher_globals \<Rightarrow> bool" where
  "sqlcipher_get_mem_security g \<longleftrightarrow> g_mem_security_on g \<noteq> 0 \<and> g_mem_executed g \<noteq> 0"

definition pragma_mem_security :: "'r pstate \<Rightarrow> byte list \<Rightarrow> byte list option \<Rightarrow> 'r pragma_result option" where
  "pragma_mem_security s zLeft zRight =
     (if pragma_is zLeft ''cipher_memory_security''
      then Some (case zRight of
          Some z \<Rightarrow> handled [] (s\<lparr>ps_g := sqlcipher_set_mem_security (ps_g s) (sqlite3GetBoolean z 1)\<rparr>)
        | None \<Rightarrow> handled (sqlcipher_vdbe_return_string ''cipher_memory_security''
                            (Some (fmt_bool (sqlcipher_get_mem_security (ps_g s))))) s)
      else None)"

definition setting_row :: "string \<Rightarrow> byte list \<Rightarrow> row list" where
  "setting_row name v = sqlcipher_vdbe_return_string ''pragma'' (Some (str ''PRAGMA '' @ str name @ str '' = '' @ v @ str '';''))"

definition setting_label_row :: "string \<Rightarrow> string option \<Rightarrow> row list" where
  "setting_label_row name l =
     (case l of None \<Rightarrow> sqlcipher_vdbe_return_string ''pragma'' None | Some t \<Rightarrow> setting_row name (str t))"

definition settings_rows :: "'r codec_ctx \<Rightarrow> row list" where
  "settings_rows ctx =
     setting_row ''kdf_iter'' (fmt_d (kdf_iter ctx)) @
     setting_row ''cipher_page_size'' (fmt_d (page_sz ctx)) @
     setting_row ''cipher_use_hmac'' (fmt_bool (sqlcipher_codec_ctx_get_use_hmac ctx)) @
     setting_row ''cipher_plaintext_header_size'' (fmt_d (plaintext_header_sz ctx)) @
     setting_label_row ''cipher_hmac_algorithm'' (hmac_label (hmac_algorithm ctx)) @
     setting_label_row ''cipher_kdf_algorithm'' (kdf_label (kdf_algorithm ctx))"

definition default_settings_rows :: "'r cipher_globals \<Rightarrow> row list" where
  "default_settings_rows g =
     setting_row ''cipher_default_kdf_iter'' (fmt_d (g_kdf_iter g)) @
     setting_row ''cipher_default_page_size'' (fmt_d (g_page_size g)) @
     setting_row ''cipher_default_use_hmac'' (fmt_bool (sqlcipher_get_default_use_hmac g)) @
     setting_row ''cipher_default_plaintext_header_size'' (fmt_d (g_plaintext_header_sz g)) @
     setting_label_row ''cipher_default_hmac_algorithm'' (hmac_label (g_hmac_algorithm g)) @
     setting_label_row ''cipher_default_kdf_algorithm'' (kdf_label (g_kdf_algorithm g))"

definition pragma_settings :: "'r pstate \<Rightarrow> byte list \<Rightarrow> byte list option \<Rightarrow> 'r pragma_result option" where
  "pragma_settings s zLeft zRight =
     (if pragma_is zLeft ''cipher_settings'' then Some (with_ctx s (\<lambda>ctx bt. handled (settings_rows ctx) s))
      else if pragma_is zLeft ''cipher_default_settings'' then Some (handled (default_settings_rows (ps_g s)) s)
      else None)"

definition sqlcipher_set_log :: "'r pragma_env \<Rightarrow> 'r pstate \<Rightarrow> byte list \<Rightarrow> int \<times> 'r pstate" where
  "sqlcipher_set_log e s z =
     (if pragma_is z ''logcat'' then (SQLITE_OK, s\<lparr>ps_log := LogCat\<rparr>)
      else if pragma_is z ''stdout'' then (SQLITE_OK, s\<lparr>ps_log := LogStdout\<rparr>)
      else if pragma_is z ''stderr'' then (SQLITE_OK, s\<lparr>ps_log := LogStderr\<rparr>)
      else if pragma_is z ''off'' then (SQLITE_OK, s\<lparr>ps_log := LogNone\<rparr>)
      else if pe_fopen e z then (SQLITE_OK, s\<lparr>ps_log := LogFile z\<rparr>) else (SQLITE_ERROR, s\<lparr>ps_log := LogNone\<rparr>))"

definition log_level_of :: "byte list \<Rightarrow> u32" where
  "log_level_of z =
     (if pragma_is z ''ERROR'' then 1 else if pragma_is z ''WARN'' then 2 else if pragma_is z ''INFO'' then 4
      else if pragma_is z ''DEBUG'' then 8 else if pragma_is z ''TRACE'' then 16 else 0)"

definition pragma_check_log ::
    "'r pragma_env \<Rightarrow> 'r pstate \<Rightarrow> byte list \<Rightarrow> byte list option \<Rightarrow> 'r pragma_result option" where
  "pragma_check_log e s zLeft zRight =
     (if pragma_is zLeft ''cipher_integrity_check''
      then Some (with_ctx s (\<lambda>ctx bt. do {
        (_, rows, ctx', w') \<leftarrow> sqlcipher_codec_ctx_integrity_check (ps_g s) ctx (str ''cipher_integrity_check'') (bt_world bt);
        handled rows (s\<lparr>ps_bt := Some (bt\<lparr>pg_pCodec := Some ctx', bt_world := w'\<rparr>)\<rparr>) }))
      else if pragma_is zLeft ''cipher_log_level'' \<and> zRight \<noteq> None
      then Some (do {
        z \<leftarrow> zRight;
        let level = log_level_of z;
        handled (sqlcipher_vdbe_return_string ''cipher_log_level'' (Some (fmt_d (uint level)))) (s\<lparr>ps_log_level := level\<rparr>) })
      else if pragma_is zLeft ''cipher_log'' \<and> zRight \<noteq> None
      then Some (do {
        z \<leftarrow> zRight;
        let (rc, s') = sqlcipher_set_log e s z;
        handled (sqlcipher_vdbe_return_string ''cipher_log'' (Some (fmt_d rc))) s' })
      else None)"

section \<open>The pragma\<close>

fun first_match :: "'a option list \<Rightarrow> 'a option" where
  "first_match [] = None"
| "first_match (None # xs) = first_match xs"
| "first_match (Some x # xs) = Some x"

text \<open>
  The chain after the first group is entered whatever the first group did: the \<open>else\<close> between them is
  missing.
\<close>

definition pragma_chain ::
    "'r pragma_env \<Rightarrow> 'r pstate \<Rightarrow> byte list \<Rightarrow> byte list option \<Rightarrow> 'r pragma_result option" where
  "pragma_chain e s zLeft zRight =
     first_match
       [pragma_info e s zLeft zRight, pragma_kdf_iter s zLeft zRight, pragma_page_size s zLeft zRight,
        pragma_hmac s zLeft zRight, pragma_header s zLeft zRight, pragma_salt s zLeft zRight,
        pragma_hmac_algorithm s zLeft zRight, pragma_kdf_algorithm s zLeft zRight, pragma_compatibility s zLeft zRight,
        pragma_mem_security s zLeft zRight, pragma_settings s zLeft zRight, pragma_check_log e s zLeft zRight]"

definition sqlcipher_codec_pragma ::
    "'r pragma_env \<Rightarrow> 'r pstate \<Rightarrow> byte list \<Rightarrow> byte list option \<Rightarrow> 'r pragma_result" where
  "sqlcipher_codec_pragma e s zLeft zRight =
     (case pragma_status s zLeft zRight of (rows, s1) \<Rightarrow>
        (case pragma_chain e s1 zLeft zRight of
           None \<Rightarrow> Some (0, rows, s1)
         | Some r \<Rightarrow> map_option (\<lambda>(rc, rows2, s2). (rc, rows @ rows2, s2)) r))"

end
