(* ===== verification/Pragma_Props.thy ===== *)
theory Pragma_Props
  imports Pragma
begin

text \<open>
  Every pragma but the integrity check keeps the codec of the connection well formed and never runs into
  undefined behaviour.  Each group of the dispatcher satisfies the contract of the locale
  \<open>pragma_handler\<close>; the theorem about \<open>sqlcipher_codec_pragma\<close> follows from the interpretations.
\<close>

section \<open>States\<close>

definition ps_ok :: "'r pstate \<Rightarrow> bool" where
  "ps_ok s \<longleftrightarrow> globals_ok (ps_g s) \<and> (\<forall>bt. ps_bt s = Some bt \<longrightarrow> bt_ok bt)"

definition allocs_succeed :: "'r pstate \<Rightarrow> bool" where
  "allocs_succeed s \<longleftrightarrow> (\<forall>bt. ps_bt s = Some bt \<longrightarrow> w_allocs (bt_world bt) = [])"

definition argument_ok :: "byte list option \<Rightarrow> bool" where
  "argument_ok zRight \<longleftrightarrow> (\<forall>z. zRight = Some z \<longrightarrow> c_atoi z \<noteq> None)"

definition result_ok :: "'r pragma_result \<Rightarrow> bool" where
  "result_ok r \<longleftrightarrow> (\<exists>rc rows s'. r = Some (rc, rows, s') \<and> rc \<in> {0, 1} \<and> ps_ok s')"

lemma result_ok_Some [simp]: "result_ok (Some (rc, rows, s)) \<longleftrightarrow> rc \<in> {0, 1} \<and> ps_ok s"
  by (auto simp: result_ok_def)

lemma ps_ok_upd [simp]:
  "ps_ok (s\<lparr>ps_bt := Some bt\<rparr>) \<longleftrightarrow> globals_ok (ps_g s) \<and> bt_ok bt"
  "ps_ok (s\<lparr>ps_log := l\<rparr>) \<longleftrightarrow> ps_ok s" "ps_ok (s\<lparr>ps_trace := l\<rparr>) \<longleftrightarrow> ps_ok s" "ps_ok (s\<lparr>ps_log_level := lv\<rparr>) \<longleftrightarrow> ps_ok s"
  "ps_ok (s\<lparr>ps_next := n\<rparr>) \<longleftrightarrow> ps_ok s"
  by (simp_all add: ps_ok_def)

lemma ps_ok_globals [simp]:
  assumes "ps_ok s" "g_provider g = g_provider (ps_g s)" "g_activate_count g = g_activate_count (ps_g s)"
  shows "ps_ok (s\<lparr>ps_g := g\<rparr>)"
  using assms by (simp add: ps_ok_def globals_ok_def)

lemma world_ok_error [simp]: "world_ok (sqlcipher_codec_ctx_set_error err w) = world_ok w"
  by (simp add: world_ok_def sqlcipher_codec_ctx_set_error_def Let_def sqlite3pager_error_def)

lemma ctx_error_ok [simp]: "ps_ok s \<Longrightarrow> ps_ok (ctx_error s err)"
  by (auto simp: ps_ok_def ctx_error_def bt_ok_def)

lemma error_unless_ok_ok [simp]: "ps_ok s \<Longrightarrow> ps_ok (error_unless_ok rc err s)"
  by (simp add: error_unless_ok_def)

lemma put_ctx_ok: "ps_ok s \<Longrightarrow> pragma_ctx s \<noteq> None \<Longrightarrow> codec_ok ctx \<Longrightarrow> ps_ok (put_ctx s ctx)"
  by (auto simp: ps_ok_def put_ctx_def bt_ok_def pragma_ctx_def sqlcipherPagerGetCodec_def split: option.splits)

lemma bt_ok_pagesize:
  assumes "bt_ok bt" "codec_set_btree_to_codec_pagesize bt ctx = (rc, bt', nx)"
  shows "bt_ok bt'"
  using assms(1) set_btree_pagesize_keeps [OF assms(2)] by (auto simp: bt_ok_def world_ok_def)

lemma ps_okD: "ps_ok s \<Longrightarrow> globals_ok (ps_g s)" "ps_ok s \<Longrightarrow> ps_bt s = Some bt \<Longrightarrow> bt_ok bt"
  by (simp_all add: ps_ok_def)

lemma resize_ok [simp]: "ps_ok s \<Longrightarrow> ps_ok (resize s ctx err)"
  by (auto simp: resize_def ps_okD(1) intro: bt_ok_pagesize [OF ps_okD(2)] intro!: error_unless_ok_ok split: option.splits prod.splits)

lemma with_ctx_ok:
  assumes "ps_ok s"
    and "\<And>ctx bt. ps_bt s = Some bt \<Longrightarrow> pg_pCodec bt = Some ctx \<Longrightarrow> bt_ok bt \<Longrightarrow> codec_ok ctx \<Longrightarrow> pragma_ctx s = Some ctx
           \<Longrightarrow> result_ok (f ctx bt)"
  shows "result_ok (with_ctx s f)"
  using assms by (auto simp: with_ctx_def sqlcipherPagerGetCodec_def ps_ok_def pragma_ctx_def bt_ok_def split: option.splits)

section \<open>The groups of pragmas\<close>

lemma status_ok:
  assumes "ps_ok s" "pragma_status s zLeft zRight = (rows, s')"
  shows "ps_ok s'" "allocs_succeed s \<Longrightarrow> allocs_succeed s'"
proof -
  have c: "codec_ok ctx" if "pragma_ctx s = Some ctx" for ctx
    using that assms(1) by (auto simp: pragma_ctx_def sqlcipherPagerGetCodec_def ps_ok_def bt_ok_def split: option.splits)
  show "ps_ok s'"
    using assms c by (auto simp: pragma_status_def intro!: put_ctx_ok codec_ok_settings split: option.splits if_splits)
  show "allocs_succeed s'" if "allocs_succeed s"
    using assms(2) that by (auto simp: pragma_status_def put_ctx_def allocs_succeed_def split: option.splits if_splits)
qed

lemma profile_ok [simp]: "ps_ok s \<Longrightarrow> ps_ok (snd (sqlcipher_cipher_profile e s z))"
  by (simp add: sqlcipher_cipher_profile_def)

lemma set_log_ok [simp]: "ps_ok s \<Longrightarrow> ps_ok (snd (sqlcipher_set_log e s z))"
  by (simp add: sqlcipher_set_log_def)

lemma Strlen30_le: "sqlite3Strlen30 z \<le> int (length z)"
  by (simp add: sqlite3Strlen30_def zmod_le_nonneg_dividend)

lemma add_random_defined:
  assumes "w_allocs w = []"
  shows "\<exists>rc w'. sqlcipher_codec_add_random ctx z (sqlite3Strlen30 z) w = Some (rc, w') \<and> same_world w w'"
proof -
  define n where "n = sqlite3Strlen30 z - 3"
  have len: "n + 3 \<le> int (length z)" "n < 2 ^ 30"
    by (simp_all add: n_def sqlite3Strlen30_def zmod_le_nonneg_dividend)
  show ?thesis
  proof (cases "n > 0 \<and> sqlite3StrNICmp z (str ''x'' @ [39]) 2 = 0
         \<and> sqlite3StrNICmp (drop (nat (sqlite3Strlen30 z - 1)) z) [39] 1 = 0 \<and> n mod 2 = 0")
    case True
    then have "0 < n div 2" "n div 2 < 2 ^ 30" using len(2) by auto
    then have m: "malloc_w (n div 2) w = (Some (replicate (nat (n div 2)) 0), w)"
      using assms by (simp add: malloc_w_def sqlcipher_malloc_def SQLITE_MAX_ALLOCATION_SIZE_def)
    have "cipher_hex2bin (drop 2 z) (n div 2 * 2) (replicate (nat (n div 2)) 0)
            = Some (hex_bytes (take (nat (2 * (n div 2))) (drop 2 z)))"
      using True len by (intro hex2bin_exact) auto
    moreover have "n div 2 * 2 = n" "2 * (n div 2) = n" using True by auto
    ultimately have "cipher_hex2bin (drop 2 z) n (replicate (nat (n div 2)) 0)
            = Some (hex_bytes (take (nat n) (drop 2 z)))"
      by simp
    moreover have "sqlcipher_free (Some (hex_bytes (take (nat n) (drop 2 z)))) (n div 2) = Some ()"
      using len True by (intro free_ok) auto
    ultimately show ?thesis using True m by (auto simp: sqlcipher_codec_add_random_def n_def Let_def)
  qed (auto simp: sqlcipher_codec_add_random_def n_def Let_def)
qed

lemma set_ctx_pagesize_ok:
  assumes "ps_ok s" "ps_bt s = Some bt" "pg_pCodec bt = Some ctx"
  shows "\<exists>ctx' s'. set_ctx_pagesize s ctx bt sz err = Some (ctx', s') \<and> ps_ok s' \<and> codec_ok ctx' \<and> pragma_ctx s' = Some ctx'"
proof -
  have bt: "bt_ok bt" "codec_ok ctx" using assms by (auto simp: ps_ok_def bt_ok_def)
  obtain rc ctx' w' where p: "sqlcipher_codec_ctx_set_pagesize ctx sz (bt_world bt) = Some (rc, ctx', w')" "codec_ok ctx'"
    using set_pagesize_keeps [OF bt(2)] by metis
  have "bt_ok (bt\<lparr>pg_pCodec := Some ctx', bt_world := w'\<rparr>)"
    using bt p assms(3) same_world_ok [OF set_pagesize_world [OF p(1)]] by (auto simp: bt_ok_def)
  then have "ps_ok (error_unless_ok rc e (s\<lparr>ps_bt := Some (bt\<lparr>pg_pCodec := Some ctx', bt_world := w'\<rparr>)\<rparr>))" for e
    using assms(1) by (intro error_unless_ok_ok) (simp add: ps_okD(1))
  then show ?thesis using p
    by (simp add: set_ctx_pagesize_def pragma_ctx_def error_unless_ok_def ctx_error_def sqlcipherPagerGetCodec_def)
qed

lemma kdf_iter_ok:
  assumes "ps_ok s" "argument_ok zRight" "pragma_kdf_iter s zLeft zRight = Some r"
  shows "result_ok r"
  using assms
  by (auto simp: pragma_kdf_iter_def argument_ok_def sqlcipher_set_default_kdf_iter_def
      intro!: with_ctx_ok put_ctx_ok codec_ok_settings split: if_splits option.splits)

lemma set_page_size_ok:
  assumes "ps_ok s" "ps_bt s = Some bt" "pg_pCodec bt = Some ctx"
  shows "result_ok (do { (ctx', s') \<leftarrow> set_ctx_pagesize s ctx bt n None; Some (1, [], resize s' ctx' None) })"
  using set_ctx_pagesize_ok [OF assms, of n None] by auto

lemma page_size_ok:
  assumes "ps_ok s" "argument_ok zRight" "pragma_page_size s zLeft zRight = Some r"
  shows "result_ok r"
  using assms
  by (auto simp: pragma_page_size_def argument_ok_def sqlcipher_set_default_pagesize_def
      intro!: with_ctx_ok set_page_size_ok split: if_splits option.splits)

lemma set_pgno_flags_hmac [simp]: "flag_get (set_pgno_flags z fl) CIPHER_FLAG_HMAC = flag_get fl CIPHER_FLAG_HMAC"
  by (simp add: set_pgno_flags_def flag_get_def flag_set_def flag_unset_def cipher_flag_defs bit.conj_disj_distrib2 and.assoc)

lemma header_pragma_ok:
  assumes "ps_ok s" "argument_ok zRight" "pragma_header s zLeft zRight = Some r"
  shows "result_ok r"
  using assms
  by (auto simp: pragma_header_def argument_ok_def sqlcipher_set_default_plaintext_header_size_def
      intro!: with_ctx_ok put_ctx_ok codec_ok_settings split: if_splits option.splits)

lemma kdf_algorithm_ok:
  assumes "ps_ok s" "pragma_kdf_algorithm s zLeft zRight = Some r"
  shows "result_ok r"
  using assms
  by (auto simp: pragma_kdf_algorithm_def sqlcipher_set_default_kdf_algorithm_def
      intro!: with_ctx_ok put_ctx_ok codec_ok_settings split: if_splits option.splits)

lemma hmac_algorithm_ok:
  assumes "ps_ok s" "pragma_hmac_algorithm s zLeft zRight = Some r"
  shows "result_ok r"
  using assms
  by (auto simp: pragma_hmac_algorithm_def sqlcipher_set_default_hmac_algorithm_def Let_def
      intro!: with_ctx_ok resize_ok put_ctx_ok codec_ok_settings split: if_splits option.splits)

lemma mem_security_ok: "ps_ok s \<Longrightarrow> pragma_mem_security s zLeft zRight = Some r \<Longrightarrow> result_ok r"
  by (auto simp: pragma_mem_security_def sqlcipher_set_mem_security_def split: if_splits option.splits)

lemma settings_ok: "ps_ok s \<Longrightarrow> pragma_settings s zLeft zRight = Some r \<Longrightarrow> result_ok r"
  by (auto simp: pragma_settings_def intro!: with_ctx_ok split: if_splits option.splits)

lemma check_log_ok:
  "ps_ok s \<Longrightarrow> \<not> pragma_is zLeft ''cipher_integrity_check'' \<Longrightarrow> pragma_check_log e s zLeft zRight = Some r \<Longrightarrow> result_ok r"
  by (auto simp: pragma_check_log_def Let_def case_prod_unfold split: if_splits option.splits)

lemma salt_mask_defined:
  "\<exists>g'. salt_mask_arg g z = Some g' \<and> g_provider g' = g_provider g \<and> g_activate_count g' = g_activate_count g"
proof (cases "sqlite3Strlen30 z = 5")
  case True
  then have "5 \<le> int (length z)" using Strlen30_le [of z] by simp
  then have "cipher_hex2bin (drop 2 z) (1 * 2) [0] = Some (hex_bytes (take (nat (2 * 1)) (drop 2 z)))"
    by (intro hex2bin_exact) auto
  moreover have "hex_bytes (take 2 (drop 2 z)) \<noteq> []"
    using \<open>5 \<le> int (length z)\<close> by (simp flip: length_greater_0_conv)
  ultimately show ?thesis
    by (simp add: nth_opt_def sqlcipher_set_hmac_salt_mask_def salt_mask_arg_def)
qed (simp add: salt_mask_arg_def)

lemma salt_mask_ok:
  "ps_ok s \<Longrightarrow> result_ok (do { g' \<leftarrow> salt_mask_arg (ps_g s) z; Some (1, rows, s\<lparr>ps_g := g'\<rparr>) })"
  using salt_mask_defined [of "ps_g s" z] by auto

lemma hmac_ok:
  assumes "ps_ok s" "pragma_hmac s zLeft zRight = Some r"
  shows "result_ok r"
  using assms
  by (auto simp: pragma_hmac_def Let_def sqlcipher_set_default_use_hmac_def 
      intro!: with_ctx_ok salt_mask_ok resize_ok put_ctx_ok codec_ok_settings codec_ok_flags split: if_split_asm option.split option.split_asm)

lemma salt_set_defined:
  assumes "w_allocs w = []" "codec_ok ctx"
  shows "\<exists>ctx' w'. salt_set ctx z w = Some (ctx', w') \<and> codec_ok ctx' \<and> same_world w w'"
proof (cases "sqlite3StrNICmp z (str ''x'' @ [39]) 2 = 0 \<and> sqlite3Strlen30 z = FILE_HEADER_SZ * 2 + 3")
  case True
  then have len: "35 \<le> int (length z)"
    using Strlen30_le [of z] by (simp add: FILE_HEADER_SZ_def)
  then have "cipher_hex2bin (drop 2 z) (16 * 2) (replicate 16 0) = Some (hex_bytes (take (nat (2 * 16)) (drop 2 z)))"
    by (intro hex2bin_exact) auto
  moreover obtain rc ctx' where "sqlcipher_codec_ctx_set_kdf_salt ctx (hex_bytes (take 32 (drop 2 z))) FILE_HEADER_SZ = Some (rc, ctx')" "codec_ok ctx'"
    using set_kdf_salt_keeps [OF assms(2), of FILE_HEADER_SZ "hex_bytes (take 32 (drop 2 z))"] len by (auto simp: FILE_HEADER_SZ_def)
  ultimately show ?thesis using True assms(1) by (simp add: salt_set_def take_alloc_def FILE_HEADER_SZ_def)
qed (use assms in \<open>auto simp: salt_set_def\<close>)

lemma bt_ok_ctx:
  assumes "bt_ok bt" "pg_pCodec bt = Some ctx" "codec_ok ctx'" "same_world (bt_world bt) w'"
  shows "bt_ok (bt\<lparr>pg_pCodec := Some ctx', bt_world := w'\<rparr>)"
  using assms same_world_ok by (auto simp: bt_ok_def)

lemma salt_get_defined:
  assumes "w_allocs w = []" "codec_ok ctx" "world_ok w"
  shows "\<exists>rc rows ctx' w'. salt_get ctx w = Some (rc, rows, ctx', w') \<and> codec_ok ctx' \<and> same_world w w'"
proof -
  obtain rc ctx' w' where g: "sqlcipher_codec_ctx_get_kdf_salt ctx w = Some (rc, kdf_salt ctx', ctx', w')" "codec_ok ctx'" "same_world w w'"
    using init_kdf_salt_keeps [OF assms(2,3)] assms(2) by (cases "flag_get (cflags ctx) CIPHER_FLAG_HAS_KDF_SALT") (auto simp: sqlcipher_codec_ctx_get_kdf_salt_def)
  have s: "length (kdf_salt ctx') = 16" using codec_okD [OF g(2)] by simp
  then have "cipher_bin2hex (kdf_salt ctx') 16 (replicate 33 0) 0 = Some (hex_text (kdf_salt ctx') @ [0])"
    using bin2hex_write [of "kdf_salt ctx'" 16 "replicate 33 0" 0] mem_write_fits [of "hex_text (kdf_salt ctx') @ [0]" "replicate 33 0"]
    by fastforce
  then show ?thesis using g assms(1) by (simp add: salt_get_def take_alloc_def FILE_HEADER_SZ_def)
qed

lemma salt_ok:
  assumes "ps_ok s" "allocs_succeed s" "pragma_salt s zLeft zRight = Some r"
  shows "result_ok r"
proof -
  have "result_ok (do { (ctx', w') \<leftarrow> salt_set ctx z (bt_world bt);
            Some (1, [], s\<lparr>ps_bt := Some (bt\<lparr>pg_pCodec := Some ctx', bt_world := w'\<rparr>)\<rparr>) })"
     "result_ok (do {
            (rc, rows, ctx', w') \<leftarrow> salt_get ctx (bt_world bt);
            Some (1, rows, error_unless_ok rc rc (s\<lparr>ps_bt := Some (bt\<lparr>pg_pCodec := Some ctx', bt_world := w'\<rparr>)\<rparr>)) })"
    if "ps_bt s = Some bt" "pg_pCodec bt = Some ctx" "bt_ok bt" "codec_ok ctx" for ctx bt z
  proof -
    have al: "w_allocs (bt_world bt) = []" using assms(2) that by (simp add: allocs_succeed_def)
    have wd: "world_ok (bt_world bt)" using that(3) by (simp add: bt_ok_def)
    show "result_ok (do { (ctx', w') \<leftarrow> salt_set ctx z (bt_world bt);
            Some (1, [], s\<lparr>ps_bt := Some (bt\<lparr>pg_pCodec := Some ctx', bt_world := w'\<rparr>)\<rparr>) })"
      using salt_set_defined [OF al that(4), of z] that assms(1) by (auto simp: ps_okD(1) intro: bt_ok_ctx)
    show "result_ok (do {
            (rc, rows, ctx', w') \<leftarrow> salt_get ctx (bt_world bt);
            Some (1, rows, error_unless_ok rc rc (s\<lparr>ps_bt := Some (bt\<lparr>pg_pCodec := Some ctx', bt_world := w'\<rparr>)\<rparr>)) })"
      using salt_get_defined [OF al that(4) wd] assms(1) by (auto simp: ps_okD(1) intro!: error_unless_ok_ok bt_ok_ctx [OF that(3,2)])
  qed
  then show ?thesis using assms(1,3) by (auto simp: pragma_salt_def intro!: with_ctx_ok split: if_splits option.split)
qed

lemma compat_ctx_ok:
  assumes "ps_ok s" "ps_bt s = Some bt" "pg_pCodec bt = Some ctx"
  shows "result_ok (do { (ctx', s') \<leftarrow> compat_ctx s ctx bt n; Some (1, [], resize s' ctx' err) })"
proof -
  obtain psz hm kd it us where c: "compat_settings n = (psz, hm, kd, it, us)" by (cases "compat_settings n")
  obtain ctx' s' where "set_ctx_pagesize s ctx bt psz (Some SQLITE_ERROR) = Some (ctx', s')"
      "ps_ok s'" "codec_ok ctx'" "pragma_ctx s' = Some ctx'"
    using set_ctx_pagesize_ok [OF assms, of psz "Some SQLITE_ERROR"] by blast
  then show ?thesis
    by (auto simp: compat_ctx_def c Let_def intro!: resize_ok put_ctx_ok codec_ok_settings)
qed

lemma compat_defaults_provider [simp]:
  "g_provider (compat_defaults g n) = g_provider g" "g_activate_count (compat_defaults g n) = g_activate_count g"
  by (simp_all add: compat_defaults_def case_prod_unfold sqlcipher_set_default_use_hmac_def sqlcipher_set_default_kdf_iter_def
      sqlcipher_set_default_kdf_algorithm_def sqlcipher_set_default_hmac_algorithm_def sqlcipher_set_default_pagesize_def)

lemma compatibility_ok:
  assumes "ps_ok s" "argument_ok zRight" "pragma_compatibility s zLeft zRight = Some r"
  shows "result_ok r"
  using assms
  by (auto simp: pragma_compatibility_def argument_ok_def intro!: with_ctx_ok compat_ctx_ok split: if_splits option.splits)

definition migrate_ok :: "'r pragma_env \<Rightarrow> bool" where
  "migrate_ok e \<longleftrightarrow> (\<forall>s. ps_ok s \<longrightarrow> ps_ok (snd (pe_migrate e s)))"

lemma add_random_ok:
  assumes "ps_ok s" "allocs_succeed s" "ps_bt s = Some bt" "pg_pCodec bt = Some ctx"
  shows "result_ok (do {
        (rc, w') \<leftarrow> sqlcipher_codec_add_random ctx z (sqlite3Strlen30 z) (bt_world bt);
        Some (1, f rc, s\<lparr>ps_bt := Some (bt\<lparr>bt_world := w'\<rparr>)\<rparr>) })"
proof -
  have b: "bt_ok bt" "w_allocs (bt_world bt) = []" using assms by (auto simp: ps_ok_def allocs_succeed_def)
  then have "bt_ok (bt\<lparr>bt_world := w'\<rparr>)" if "same_world (bt_world bt) w'" for w'
    using same_world_ok [OF that] by (auto simp: bt_ok_def)
  then show ?thesis using add_random_defined [OF b(2), of ctx z] assms(1) by (auto simp: ps_okD(1))
qed

lemma migrate_result_ok:
  assumes "ps_ok s" "migrate_ok e"
  shows "result_ok (let (rc, s') = pe_migrate e s in Some (1, f rc, error_unless_ok rc rc s'))"
  using assms by (auto simp: migrate_ok_def split: prod.split)

lemma profile_result_ok:
  assumes "ps_ok s"
  shows "result_ok (let (rc, s') = sqlcipher_cipher_profile e s z in Some (1, f rc, s'))"
  using profile_ok [OF assms, of e z] by (auto split: prod.split)

lemma branch_ok:
  "(if P then Some a else b) = Some r \<Longrightarrow> (P \<Longrightarrow> result_ok a) \<Longrightarrow> (b = Some r \<Longrightarrow> result_ok r) \<Longrightarrow> result_ok r"
  by (auto split: if_splits)

lemma info_ok:
  assumes s: "ps_ok s" and "allocs_succeed s" "migrate_ok e" "pragma_info e s zLeft zRight = Some r"
  shows "result_ok r"
  using assms(4) unfolding pragma_info_def
proof (elim branch_ok, goal_cases)
  case 1
  then show ?case using profile_result_ok [OF s] by (auto simp only: option.simps bind.bind_lunit not_None_eq)
next
  case 2
  then show ?case using add_random_ok [OF s assms(2)] by (intro with_ctx_ok [OF s]) (auto simp only: option.simps bind.bind_lunit not_None_eq)
next
  case 3
  show ?case by (intro with_ctx_ok [OF s] migrate_result_ok s assms(3))
qed (simp_all add: s with_ctx_ok)

section \<open>The contract of a group\<close>

definition pragma_pre :: "'r pragma_env \<Rightarrow> 'r pstate \<Rightarrow> byte list \<Rightarrow> byte list option \<Rightarrow> bool" where
  "pragma_pre e s zLeft zRight \<longleftrightarrow> ps_ok s \<and> allocs_succeed s \<and> argument_ok zRight \<and> migrate_ok e \<and>
     \<not> pragma_is zLeft ''cipher_integrity_check''"

locale pragma_handler =
  fixes e :: "'r pragma_env" and h :: "'r pstate \<Rightarrow> byte list \<Rightarrow> byte list option \<Rightarrow> 'r pragma_result option"
  assumes keeps: "pragma_pre e s zLeft zRight \<Longrightarrow> h s zLeft zRight = Some r \<Longrightarrow> result_ok r"
begin

lemma before:
  assumes "pragma_pre e s zLeft zRight" "first_match (h s zLeft zRight # rest) = Some r"
    and "first_match rest = Some r \<Longrightarrow> result_ok r"
  shows "result_ok r"
  using assms keeps by (cases "h s zLeft zRight") auto

end

interpretation info: pragma_handler e "pragma_info e" for e
  by unfold_locales (auto simp: pragma_pre_def intro: info_ok)

interpretation kdf_iter: pragma_handler e pragma_kdf_iter for e
  by unfold_locales (auto simp: pragma_pre_def intro: kdf_iter_ok)

interpretation page_size: pragma_handler e pragma_page_size for e
  by unfold_locales (auto simp: pragma_pre_def intro: page_size_ok)

interpretation hmac: pragma_handler e pragma_hmac for e
  by unfold_locales (auto simp: pragma_pre_def intro: hmac_ok)

interpretation header: pragma_handler e pragma_header for e
  by unfold_locales (auto simp: pragma_pre_def intro: header_pragma_ok)

interpretation salt: pragma_handler e pragma_salt for e
  by unfold_locales (auto simp: pragma_pre_def intro: salt_ok)

interpretation hmac_alg: pragma_handler e pragma_hmac_algorithm for e
  by unfold_locales (auto simp: pragma_pre_def intro: hmac_algorithm_ok)

interpretation kdf_alg: pragma_handler e pragma_kdf_algorithm for e
  by unfold_locales (auto simp: pragma_pre_def intro: kdf_algorithm_ok)

interpretation compatibility: pragma_handler e pragma_compatibility for e
  by unfold_locales (auto simp: pragma_pre_def intro: compatibility_ok)

interpretation mem_security: pragma_handler e pragma_mem_security for e
  by unfold_locales (auto simp: pragma_pre_def intro: mem_security_ok)

interpretation settings: pragma_handler e pragma_settings for e
  by unfold_locales (auto simp: pragma_pre_def intro: settings_ok)

interpretation check_log: pragma_handler e "pragma_check_log e" for e
  by unfold_locales (auto simp: pragma_pre_def intro: check_log_ok)

lemma chain_ok:
  assumes pre: "pragma_pre e s zLeft zRight" and r: "pragma_chain e s zLeft zRight = Some r"
  shows "result_ok r"
  using r unfolding pragma_chain_def
  by (elim info.before [OF pre] kdf_iter.before [OF pre] page_size.before [OF pre] hmac.before [OF pre]
      header.before [OF pre] salt.before [OF pre] hmac_alg.before [OF pre] kdf_alg.before [OF pre]
      compatibility.before [OF pre] mem_security.before [OF pre] settings.before [OF pre] check_log.before [OF pre]) simp


definition demo_pstate :: "nat pstate" where
  "demo_pstate = \<lparr>ps_g = demo_globals, ps_bt = Some demo_codec_btree, ps_next = 0, ps_log_level = 0, ps_log = LogNone, ps_trace = LogNone\<rparr>"

definition demo_pragma_env :: "nat pragma_env" where
  "demo_pragma_env = \<lparr>pe_fopen = (\<lambda>_. False), pe_migrate = (\<lambda>s. (SQLITE_OK, s)), pe_provider_version = []\<rparr>"

lemma demo_pragma_pre:
  assumes "c_atoi z \<noteq> None" "\<not> pragma_is name ''cipher_integrity_check''"
  shows "pragma_pre demo_pragma_env demo_pstate name (Some z)"
  using assms demo_globals_ok(1) demo_world_ok demo_ctx_ok
  by (simp add: pragma_pre_def ps_ok_def allocs_succeed_def argument_ok_def migrate_ok_def bt_ok_def demo_pstate_def
      demo_pragma_env_def demo_codec_btree_def demo_btree_def demo_world_def)


end
