(* ===== verification/Pragma_Settings.thy ===== *)
theory Pragma_Settings
  imports Pragma_Props Text_Props
begin

text \<open>
  The settings pragmas one by one: what each of them does to the codec context of the connection, and the
  round trip of \<open>cipher_settings\<close>: issuing the rows it prints on another connection reproduces the settings.
\<close>

section \<open>Names of pragmas\<close>

definition plain_name :: "string \<Rightarrow> bool" where
  "plain_name a \<longleftrightarrow> 0 \<notin> set (str a) \<and> map UpperToLower (str a) = str a"

lemma pragma_is_iff: "0 \<notin> set z \<Longrightarrow> plain_name b \<Longrightarrow> pragma_is z b \<longleftrightarrow> map UpperToLower z = str b"
  by (simp add: pragma_is_def plain_name_def sqlite3_stricmp_def StrICmp_zero_iff)

lemma pragma_is_plain: "plain_name a \<Longrightarrow> plain_name b \<Longrightarrow> pragma_is (str a) b \<longleftrightarrow> a = b"
  by (simp add: pragma_is_iff plain_name_def)

definition pragma_names :: "string list" where
  "pragma_names =
     [''cipher_fips_status'', ''cipher_store_pass'', ''cipher_profile'', ''cipher_add_random'', ''cipher_migrate'',
      ''cipher_provider'', ''cipher_provider_version'', ''cipher_version'', ''cipher'', ''rekey_cipher'',
      ''cipher_default_kdf_iter'', ''kdf_iter'', ''fast_kdf_iter'', ''rekey_kdf_iter'', ''page_size'', ''cipher_page_size'',
      ''cipher_default_page_size'', ''cipher_default_use_hmac'', ''cipher_use_hmac'', ''cipher_hmac_pgno'',
      ''cipher_hmac_salt_mask'', ''cipher_plaintext_header_size'', ''cipher_default_plaintext_header_size'', ''cipher_salt'',
      ''cipher_hmac_algorithm'', ''cipher_default_hmac_algorithm'', ''cipher_kdf_algorithm'', ''cipher_default_kdf_algorithm'',
      ''cipher_compatibility'', ''cipher_default_compatibility'', ''cipher_memory_security'', ''cipher_settings'',
      ''cipher_default_settings'', ''cipher_integrity_check'', ''cipher_log_level'', ''cipher_log'']"

lemma plain_names: "list_all plain_name pragma_names"
  by code_simp

lemmas plain_name_simps [simp] = plain_names [unfolded pragma_names_def list.pred_inject]

section \<open>The context after each step\<close>

lemma pragma_ctx_error [simp]:
  "pragma_ctx (ctx_error s err) = pragma_ctx s" "pragma_ctx (error_unless_ok rc err s) = pragma_ctx s"
  by (simp_all add: error_unless_ok_def ctx_error_def pragma_ctx_def sqlcipherPagerGetCodec_def split: option.split)

lemma pragma_ctx_put [simp]: "pragma_ctx s = Some c0 \<Longrightarrow> pragma_ctx (put_ctx s c) = Some c"
  by (auto simp: put_ctx_def pragma_ctx_def sqlcipherPagerGetCodec_def split: option.splits)

lemma allocs_put: "allocs_succeed (put_ctx s c) = allocs_succeed s"
  by (auto simp: allocs_succeed_def put_ctx_def)

lemma pragma_ctx_resize [simp]: "pragma_ctx (resize s c e) = pragma_ctx s"
proof (cases "ps_bt s")
  case (Some bt)
  obtain rc bt' nx where p: "codec_set_btree_to_codec_pagesize bt c = (rc, bt', nx)"
    by (cases "codec_set_btree_to_codec_pagesize bt c")
  have "pragma_ctx (s\<lparr>ps_bt := Some bt', ps_next := nx\<rparr>) = pragma_ctx s"
    using set_btree_pagesize_keeps [OF p] Some by (simp add: pragma_ctx_def sqlcipherPagerGetCodec_def)
  then show ?thesis using Some by (simp add: resize_def p)
qed (simp add: resize_def)

lemma with_ctx_Some: "pragma_ctx s = Some c \<Longrightarrow> with_ctx s f = f c (the (ps_bt s))"
  by (auto simp: with_ctx_def pragma_ctx_def split: option.splits)

lemma pragma_ctx_bt:
  assumes "pragma_ctx s = Some c"
  obtains bt where "ps_bt s = Some bt" "pg_pCodec bt = Some c"
  using assms by (auto simp: pragma_ctx_def sqlcipherPagerGetCodec_def split: option.splits)

lemmas chain_defs = sqlcipher_codec_pragma_def pragma_status_def pragma_chain_def pragma_info_def pragma_kdf_iter_def
  pragma_page_size_def pragma_hmac_def pragma_header_def pragma_salt_def pragma_hmac_algorithm_def pragma_kdf_algorithm_def
  pragma_is_plain with_ctx_Some

lemma run_kdf_iter:
  assumes "pragma_ctx s = Some c" "c_atoi z = Some n"
  shows "sqlcipher_codec_pragma e s (str ''kdf_iter'') (Some z) = Some (1, [], put_ctx s (sqlcipher_codec_ctx_set_kdf_iter c n))"
  using assms by (simp add: chain_defs)

lemma run_page_size:
  assumes "pragma_ctx s = Some c" "c_atoi z = Some n"
  shows "sqlcipher_codec_pragma e s (str ''cipher_page_size'') (Some z) =
    do { (c', s') \<leftarrow> set_ctx_pagesize s c (the (ps_bt s)) n None; Some (1, [], resize s' c' None) }"
  using assms by (cases "set_ctx_pagesize s c (the (ps_bt s)) n None") (auto simp: chain_defs)

lemma run_use_hmac:
  assumes "pragma_ctx s = Some c"
  shows "sqlcipher_codec_pragma e s (str ''cipher_use_hmac'') (Some z) =
    (let c' = sqlcipher_codec_ctx_set_use_hmac c (sqlite3GetBoolean z 1) in Some (1, [], resize (put_ctx s c') c' None))"
  using assms by (simp add: chain_defs Let_def)

lemma run_header:
  assumes "pragma_ctx s = Some c" "c_atoi z = Some n"
  shows "sqlcipher_codec_pragma e s (str ''cipher_plaintext_header_size'') (Some z) =
    Some (1, [], put_ctx s (snd (sqlcipher_codec_ctx_set_plaintext_header_size c n)))"
  using assms by (simp add: chain_defs)

lemma run_hmac_algorithm:
  assumes "pragma_ctx s = Some c" "algorithm_of hmac_label z = Some a"
  shows "sqlcipher_codec_pragma e s (str ''cipher_hmac_algorithm'') (Some z) =
    (let c' = sqlcipher_codec_ctx_set_hmac_algorithm c a in Some (1, [], resize (put_ctx s c') c' (Some SQLITE_ERROR)))"
  using assms by (simp add: chain_defs Let_def)

lemma run_kdf_algorithm:
  assumes "pragma_ctx s = Some c" "algorithm_of kdf_label z = Some a"
  shows "sqlcipher_codec_pragma e s (str ''cipher_kdf_algorithm'') (Some z) = Some (1, [], put_ctx s (sqlcipher_codec_ctx_set_kdf_algorithm c a))"
  using assms by (simp add: chain_defs)

section \<open>Reissuing the settings\<close>

fun run_pragmas :: "'r pragma_env \<Rightarrow> 'r pstate \<Rightarrow> (string \<times> byte list) list \<Rightarrow> 'r pstate option" where
  "run_pragmas e s [] = Some s"
| "run_pragmas e s ((name, v) # ps) =
     do { (_, _, s') \<leftarrow> sqlcipher_codec_pragma e s (str name) (Some v); run_pragmas e s' ps }"

definition settings_pairs :: "'r codec_ctx \<Rightarrow> (string \<times> byte list) list" where
  "settings_pairs ctx =
     [(''kdf_iter'', fmt_d (kdf_iter ctx)), (''cipher_page_size'', fmt_d (page_sz ctx)),
      (''cipher_use_hmac'', fmt_bool (sqlcipher_codec_ctx_get_use_hmac ctx)),
      (''cipher_plaintext_header_size'', fmt_d (plaintext_header_sz ctx)),
      (''cipher_hmac_algorithm'', str (the (hmac_label (hmac_algorithm ctx)))),
      (''cipher_kdf_algorithm'', str (the (kdf_label (kdf_algorithm ctx))))]"

lemma settings_rows_pairs:
  assumes "hmac_label (hmac_algorithm ctx) \<noteq> None" "kdf_label (kdf_algorithm ctx) \<noteq> None"
  shows "settings_rows ctx = concat (map (\<lambda>(name, v). setting_row name v) (settings_pairs ctx))"
  using assms by (auto simp: settings_rows_def settings_pairs_def setting_label_row_def)

lemma GetBoolean_fmt_bool: "sqlite3GetBoolean (fmt_bool b) 1 = b"
proof -
  have "sqlite3GetBoolean (fmt_bool True) 1" "\<not> sqlite3GetBoolean (fmt_bool False) 1" by code_simp+
  then show ?thesis by (cases b) auto
qed

lemma algorithm_of_labels:
  "hmac_label a = Some l \<Longrightarrow> algorithm_of hmac_label (str l) = Some a"
  "kdf_label a = Some l \<Longrightarrow> algorithm_of kdf_label (str l) = Some a"
proof -
  have "algorithm_of hmac_label (str ''HMAC_SHA1'') = Some SQLCIPHER_HMAC_SHA1"
    "algorithm_of hmac_label (str ''HMAC_SHA256'') = Some SQLCIPHER_HMAC_SHA256"
    "algorithm_of hmac_label (str ''HMAC_SHA512'') = Some SQLCIPHER_HMAC_SHA512"
    "algorithm_of kdf_label (str ''PBKDF2_HMAC_SHA1'') = Some SQLCIPHER_HMAC_SHA1"
    "algorithm_of kdf_label (str ''PBKDF2_HMAC_SHA256'') = Some SQLCIPHER_HMAC_SHA256"
    "algorithm_of kdf_label (str ''PBKDF2_HMAC_SHA512'') = Some SQLCIPHER_HMAC_SHA512"
    by code_simp+
  then show "hmac_label a = Some l \<Longrightarrow> algorithm_of hmac_label (str l) = Some a"
    "kdf_label a = Some l \<Longrightarrow> algorithm_of kdf_label (str l) = Some a"
    by (auto simp: hmac_label_def kdf_label_def split: if_splits)
qed

lemma pagesize_accepted:
  assumes "pragma_ctx s = Some c" "ps_ok s" "allocs_succeed s" "pagesize_ok n"
  shows "\<exists>s' b. set_ctx_pagesize s c (the (ps_bt s)) n err = Some (c\<lparr>page_sz := n, cbuffer := Some b\<rparr>, s') \<and>
           pragma_ctx s' = Some (c\<lparr>page_sz := n, cbuffer := Some b\<rparr>)"
proof -
  obtain bt where bt: "ps_bt s = Some bt" "pg_pCodec bt = Some c" by (rule pragma_ctx_bt [OF assms(1)])
  then have c: "codec_ok c" "w_allocs (bt_world bt) = []" using assms by (auto simp: ps_ok_def bt_ok_def allocs_succeed_def)
  have "opt_len (cbuffer c) (page_sz c)" using c by (simp add: codec_ok_def codec_base_ok_def codec_frame_ok_def)
  moreover have "malloc_w n (bt_world bt) = (Some (replicate (nat n) 0), bt_world bt)"
    using assms(4) c(2) by (simp add: pagesize_ok_def malloc_w_def sqlcipher_malloc_def SQLITE_MAX_ALLOCATION_SIZE_def)
  ultimately have "sqlcipher_codec_ctx_set_pagesize c n (bt_world bt) =
      Some (SQLITE_OK, c\<lparr>page_sz := n, cbuffer := Some (replicate (nat n) 0)\<rparr>, bt_world bt)"
    using assms(4) by (simp add: sqlcipher_codec_ctx_set_pagesize_eq free_ok)
  then show ?thesis using bt by (auto simp: set_ctx_pagesize_def error_unless_ok_def pragma_ctx_def sqlcipherPagerGetCodec_def)
qed

definition settings_agree :: "'r codec_ctx \<Rightarrow> 'r codec_ctx \<Rightarrow> bool" where
  "settings_agree a b \<longleftrightarrow> kdf_iter a = kdf_iter b \<and> page_sz a = page_sz b \<and>
     sqlcipher_codec_ctx_get_use_hmac a = sqlcipher_codec_ctx_get_use_hmac b \<and>
     plaintext_header_sz a = plaintext_header_sz b \<and> hmac_algorithm a = hmac_algorithm b \<and>
     kdf_algorithm a = kdf_algorithm b \<and> hmac_sz a = hmac_sz b \<and> reserve_sz a = reserve_sz b"

lemma header_accepted:
  assumes c: "codec_ok c" and h: "header_ok ctx" "plaintext_header_sz ctx \<le> page_sz c - 96" "block_sz ctx = block_sz c"
  shows "snd (sqlcipher_codec_ctx_set_plaintext_header_size c (plaintext_header_sz ctx)) = c\<lparr>plaintext_header_sz := plaintext_header_sz ctx\<rparr>"
proof -
  have "reserve_sz c < 96" using codec_ok_sizes [OF c] by simp
  moreover have "0 < block_sz c" using codec_okD [OF c] provider_okD [OF codec_okD(1) [OF c]] by simp
  ultimately show ?thesis using h
    by (auto simp: header_ok_def sqlcipher_codec_ctx_set_plaintext_header_size_def)
qed

lemma setter_fields:
  "kdf_iter (sqlcipher_codec_ctx_set_kdf_iter c n) = n" "cprovider (sqlcipher_codec_ctx_set_kdf_iter c n) = cprovider c"
  "sqlcipher_codec_ctx_get_use_hmac (c\<lparr>kdf_algorithm := n\<rparr>) = sqlcipher_codec_ctx_get_use_hmac c"
  "sqlcipher_codec_ctx_get_use_hmac (c\<lparr>plaintext_header_sz := n\<rparr>) = sqlcipher_codec_ctx_get_use_hmac c"
  "kdf_iter (sqlcipher_codec_ctx_set_use_hmac c b) = kdf_iter c" "page_sz (sqlcipher_codec_ctx_set_use_hmac c b) = page_sz c"
  "kdf_algorithm (sqlcipher_codec_ctx_set_use_hmac c b) = kdf_algorithm c"
  "sqlcipher_codec_ctx_get_use_hmac (sqlcipher_codec_ctx_set_use_hmac c b) = b"
  "cprovider (sqlcipher_codec_ctx_set_use_hmac c b) = cprovider c"
  "kdf_iter (sqlcipher_codec_ctx_set_hmac_algorithm c a) = kdf_iter c" "page_sz (sqlcipher_codec_ctx_set_hmac_algorithm c a) = page_sz c"
  "plaintext_header_sz (sqlcipher_codec_ctx_set_hmac_algorithm c a) = plaintext_header_sz c"
  "sqlcipher_codec_ctx_get_use_hmac (sqlcipher_codec_ctx_set_hmac_algorithm c a) = sqlcipher_codec_ctx_get_use_hmac c"
  "hmac_algorithm (sqlcipher_codec_ctx_set_hmac_algorithm c a) = a" "cprovider (sqlcipher_codec_ctx_set_hmac_algorithm c a) = cprovider c"
  by (auto simp: sqlcipher_codec_ctx_set_use_hmac_def sqlcipher_codec_ctx_set_hmac_algorithm_def sqlcipher_codec_ctx_reserve_setup_def
      sqlcipher_codec_ctx_get_use_hmac_def sqlcipher_codec_ctx_set_kdf_iter_def sqlcipher_set_derive_key_def Let_def flag_get_def flag_set_def flag_unset_def cipher_flag_defs bit.conj_disj_distrib2 and.assoc)

lemma settings_agreeI:
  assumes "codec_ok a" "codec_ok b" "cprovider a = cprovider b" "kdf_iter a = kdf_iter b" "page_sz a = page_sz b"
    "sqlcipher_codec_ctx_get_use_hmac a = sqlcipher_codec_ctx_get_use_hmac b" "plaintext_header_sz a = plaintext_header_sz b"
    "hmac_algorithm a = hmac_algorithm b" "kdf_algorithm a = kdf_algorithm b"
  shows "settings_agree a b"
  using assms codec_okD [OF assms(1)] codec_okD [OF assms(2)]
  by (simp add: settings_agree_def reserve_of_def sqlcipher_codec_ctx_reserve_setup_def Let_def)

lemma run_pragmas_append: "run_pragmas e s (xs @ ys) = do { s' \<leftarrow> run_pragmas e s xs; run_pragmas e s' ys }"
proof (induct e s xs rule: run_pragmas.induct)
  case (2 e s name v ps)
  then show ?case by (cases "sqlcipher_codec_pragma e s (str name) (Some v)") auto
qed simp

text \<open>What the first two rows establish, and what the other four add to it.\<close>

lemma reissue_size:
  assumes ctx: "codec_ok ctx" "kdf_iter ctx \<in> {- (2 ^ 31) ..< 2 ^ 31}"
    and s: "ps_ok s" "allocs_succeed s" "pragma_ctx s = Some c" "cprovider c = cprovider ctx"
  shows "\<exists>s' c'. run_pragmas e s (take 2 (settings_pairs ctx)) = Some s' \<and> pragma_ctx s' = Some c' \<and> codec_ok c' \<and>
    cprovider c' = cprovider ctx \<and> kdf_iter c' = kdf_iter ctx \<and> page_sz c' = page_sz ctx"
proof -
  have c: "codec_ok c" using s(1,3) by (auto simp: ps_ok_def bt_ok_def elim: pragma_ctx_bt)
  define c1 where "c1 = sqlcipher_codec_ctx_set_kdf_iter c (kdf_iter ctx)"
  define s1 where "s1 = put_ctx s c1"
  have s1: "pragma_ctx s1 = Some c1" "ps_ok s1" "allocs_succeed s1"
    using s c by (simp_all add: s1_def c1_def put_ctx_ok codec_ok_settings allocs_put)
  have p: "pagesize_ok (page_sz ctx)" using codec_okD [OF ctx(1)] by simp
  obtain s2 b where g: "set_ctx_pagesize s1 c1 (the (ps_bt s1)) (page_sz ctx) None = Some (c1\<lparr>page_sz := page_sz ctx, cbuffer := Some b\<rparr>, s2)"
      and s2: "pragma_ctx s2 = Some (c1\<lparr>page_sz := page_sz ctx, cbuffer := Some b\<rparr>)"
    using pagesize_accepted [OF s1 p] by blast
  define c2 where "c2 = c1\<lparr>page_sz := page_sz ctx, cbuffer := Some b\<rparr>"
  obtain bt where "ps_bt s1 = Some bt" "pg_pCodec bt = Some c1" by (rule pragma_ctx_bt [OF s1(1)])
  then have c2: "codec_ok c2" using set_ctx_pagesize_ok [OF s1(2), of bt c1 "page_sz ctx" None] g by (auto simp: c2_def)
  have 1: "sqlcipher_codec_pragma e s (str ''kdf_iter'') (Some (fmt_d (kdf_iter ctx))) = Some (1, [], s1)"
    unfolding s1_def c1_def by (rule run_kdf_iter [OF s(3)]) (use ctx(2) in \<open>simp add: c_atoi_fmt_d\<close>)
  have "c_atoi (fmt_d (page_sz ctx)) = Some (page_sz ctx)" using p by (simp add: c_atoi_fmt_d pagesize_ok_def)
  then have 2: "sqlcipher_codec_pragma e s1 (str ''cipher_page_size'') (Some (fmt_d (page_sz ctx))) = Some (1, [], resize s2 c2 None)"
    by (simp add: run_page_size [OF s1(1)] g c2_def)
  show ?thesis using s2 c2 s(4) by (simp add: settings_pairs_def 1 2 c2_def c1_def setter_fields)
qed

definition reissued :: "'r codec_ctx \<Rightarrow> 'r codec_ctx \<Rightarrow> 'r codec_ctx" where
  "reissued c ctx =
     sqlcipher_codec_ctx_set_kdf_algorithm
       (sqlcipher_codec_ctx_set_hmac_algorithm
         ((sqlcipher_codec_ctx_set_use_hmac c (sqlcipher_codec_ctx_get_use_hmac ctx))\<lparr>plaintext_header_sz := plaintext_header_sz ctx\<rparr>)
         (hmac_algorithm ctx))
       (kdf_algorithm ctx)"

lemma reissued_agrees:
  assumes c: "codec_ok c" "cprovider c = cprovider ctx" "kdf_iter c = kdf_iter ctx" "page_sz c = page_sz ctx" and ctx: "codec_ok ctx"
  shows "settings_agree (reissued c ctx) ctx"
proof -
  define c3 where "c3 = sqlcipher_codec_ctx_set_use_hmac c (sqlcipher_codec_ctx_get_use_hmac ctx)"
  have "codec_ok c3" using c by (simp add: c3_def codec_ok_settings)
  then have "codec_ok (c3\<lparr>plaintext_header_sz := plaintext_header_sz ctx\<rparr>)" by (simp add: codec_ok_def)
  then have "codec_ok (reissued c ctx)" by (simp add: reissued_def c3_def codec_ok_settings)
  then show ?thesis using c
    by (intro settings_agreeI ctx) (simp_all add: reissued_def setter_fields sqlcipher_codec_ctx_set_kdf_algorithm_def)
qed

lemma reissue_rest:
  assumes ctx: "codec_ok ctx" "header_ok ctx" "plaintext_header_sz ctx \<le> page_sz ctx - 96"
      "hmac_label (hmac_algorithm ctx) = Some hl" "kdf_label (kdf_algorithm ctx) = Some kl"
    and s: "pragma_ctx s = Some c" "codec_ok c" "cprovider c = cprovider ctx" "page_sz c = page_sz ctx"
  shows "\<exists>s'. run_pragmas e s (drop 2 (settings_pairs ctx)) = Some s' \<and> pragma_ctx s' = Some (reissued c ctx)"
proof -
  define c3 where "c3 = sqlcipher_codec_ctx_set_use_hmac c (sqlcipher_codec_ctx_get_use_hmac ctx)"
  define c4 where "c4 = c3\<lparr>plaintext_header_sz := plaintext_header_sz ctx\<rparr>"
  define c5 where "c5 = sqlcipher_codec_ctx_set_hmac_algorithm c4 (hmac_algorithm ctx)"
  define s3 where "s3 = resize (put_ctx s c3) c3 None"
  define s5 where "s5 = resize (put_ctx (put_ctx s3 c4) c5) c5 (Some SQLITE_ERROR)"
  have c3: "codec_ok c3" "cprovider c3 = cprovider ctx" using s by (simp_all add: c3_def codec_ok_settings setter_fields)
  have 3: "sqlcipher_codec_pragma e s (str ''cipher_use_hmac'')
      (Some (fmt_bool (sqlcipher_codec_ctx_get_use_hmac ctx))) = Some (1, [], s3)"
    using s by (simp add: run_use_hmac [where c = c] GetBoolean_fmt_bool s3_def c3_def Let_def)
  have s3: "pragma_ctx s3 = Some c3" using s by (simp add: s3_def)
  have h: "snd (sqlcipher_codec_ctx_set_plaintext_header_size c3 (plaintext_header_sz ctx)) = c4"
    unfolding c4_def using codec_okD(4) [OF c3(1)] codec_okD(4) [OF ctx(1)] c3(2) ctx(3) s(4)
    by (intro header_accepted c3 ctx(2)) (simp_all add: c3_def setter_fields)
  have "c_atoi (fmt_d (plaintext_header_sz ctx)) = Some (plaintext_header_sz ctx)"
    using ctx(2,3) codec_ok_sizes [OF ctx(1)] by (auto simp: c_atoi_fmt_d header_ok_def)
  then have 4: "sqlcipher_codec_pragma e s3 (str ''cipher_plaintext_header_size'') (Some (fmt_d (plaintext_header_sz ctx))) =
      Some (1, [], put_ctx s3 c4)"
    by (simp add: run_header [OF s3] h)
  have s4: "pragma_ctx (put_ctx s3 c4) = Some c4" using s3 by simp
  have 5: "sqlcipher_codec_pragma e (put_ctx s3 c4) (str ''cipher_hmac_algorithm'') (Some (str hl)) = Some (1, [], s5)"
    using run_hmac_algorithm [OF s4 algorithm_of_labels(1) [OF ctx(4)]] by (simp add: c5_def s5_def Let_def)
  have s5: "pragma_ctx s5 = Some c5" using s4 by (simp add: s5_def)
  have "reissued c ctx = sqlcipher_codec_ctx_set_kdf_algorithm c5 (kdf_algorithm ctx)"
    by (simp add: reissued_def c5_def c4_def c3_def)
  then show ?thesis
    using s5 by (simp add: settings_pairs_def 3 4 5 ctx run_kdf_algorithm [OF s5 algorithm_of_labels(2) [OF ctx(5)]])
qed

section \<open>Properties\<close>

text \<open>C17. The round trip of \<open>PRAGMA cipher_settings\<close>.  Its six rows are the six settings pragmas with the
  values of the context; issued in that order on another connection with the same provider they succeed and
  leave a context with the same iteration count, page size, HMAC use, plaintext header, algorithms, HMAC size
  and reserve.  The plaintext header must leave 96 bytes of the page, because its row comes before the row of
  the HMAC algorithm and is checked against the reserve of the old algorithm.\<close>

theorem cipher_settings_roundtrip:
  assumes "codec_ok ctx" "header_ok ctx" "plaintext_header_sz ctx \<le> page_sz ctx - 96"
      "hmac_label (hmac_algorithm ctx) = Some hl" "kdf_label (kdf_algorithm ctx) = Some kl" "kdf_iter ctx \<in> {- (2 ^ 31) ..< 2 ^ 31}"
    and "ps_ok s" "allocs_succeed s" "pragma_ctx s = Some c" "cprovider c = cprovider ctx"
  shows "settings_rows ctx = concat (map (\<lambda>(name, v). setting_row name v) (settings_pairs ctx)) \<and>
    (\<exists>s' c'. run_pragmas e s (settings_pairs ctx) = Some s' \<and> pragma_ctx s' = Some c' \<and> settings_agree c' ctx)"
proof
  show "settings_rows ctx = concat (map (\<lambda>(name, v). setting_row name v) (settings_pairs ctx))"
    using assms(4,5) by (intro settings_rows_pairs) simp_all
  obtain s2 c2 where 2: "run_pragmas e s (take 2 (settings_pairs ctx)) = Some s2" "pragma_ctx s2 = Some c2" "codec_ok c2"
      "cprovider c2 = cprovider ctx" "kdf_iter c2 = kdf_iter ctx" "page_sz c2 = page_sz ctx"
    using reissue_size [OF assms(1,6-10)] by blast
  obtain s' where "run_pragmas e s2 (drop 2 (settings_pairs ctx)) = Some s'" "pragma_ctx s' = Some (reissued c2 ctx)"
    using reissue_rest [OF assms(1-5) 2(2-4,6)] by blast
  then show "\<exists>s' c'. run_pragmas e s (settings_pairs ctx) = Some s' \<and> pragma_ctx s' = Some c' \<and> settings_agree c' ctx"
    using 2(1) run_pragmas_append [of e s "take 2 (settings_pairs ctx)" "drop 2 (settings_pairs ctx)"]
      reissued_agrees [OF 2(3-6) assms(1)] by auto
qed

theorem cipher_settings_roundtrip_witness:
  "\<exists>s' c'. run_pragmas demo_pragma_env demo_pstate (settings_pairs demo_ctx) = Some s' \<and> pragma_ctx s' = Some c' \<and> settings_agree c' demo_ctx"
proof -
  have "pragma_pre demo_pragma_env demo_pstate (str ''kdf_iter'') (Some (str ''1''))"
    by (rule demo_pragma_pre) code_simp+
  moreover have "pragma_ctx demo_pstate = Some demo_ctx"
    by (simp add: demo_pstate_def pragma_ctx_def demo_codec_btree_def sqlcipherPagerGetCodec_def demo_btree_def)
  moreover have "header_ok demo_ctx" "plaintext_header_sz demo_ctx \<le> page_sz demo_ctx - 96"
      "\<exists>hl. hmac_label (hmac_algorithm demo_ctx) = Some hl" "\<exists>kl. kdf_label (kdf_algorithm demo_ctx) = Some kl"
      "kdf_iter demo_ctx \<in> {- (2 ^ 31) ..< 2 ^ 31}"
    by (simp_all add: demo_ctx_def header_ok_def hmac_label_def kdf_label_def)
  ultimately show ?thesis using cipher_settings_roundtrip [OF demo_ctx_ok] by (auto simp: pragma_pre_def)
qed

text \<open>\<open>PRAGMA cipher_store_pass\<close> changes the setting, and reports it, but is the one pragma with
  \<open>cipher_fips_status\<close> that \<open>sqlcipher_codec_pragma\<close> does not report as handled: the \<open>else\<close> between the first
  two pragmas and the rest of the chain is missing, so the chain runs on, matches nothing and returns 0.\<close>

theorem store_pass_reported_unhandled:
  assumes "pragma_ctx s = Some c"
  shows "sqlcipher_codec_pragma e s (str ''cipher_store_pass'') (Some z) =
      Some (0, [(str ''cipher_store_pass'', Some (str ''PRAGMA cipher_store_pass is deprecated, please remove from use''))],
        put_ctx s (sqlcipher_codec_set_store_pass c (if sqlite3GetBoolean z 1 then 1 else 0)))
    \<and> sqlcipher_codec_pragma e s (str ''cipher_store_pass'') None =
      Some (0, [(str ''cipher_store_pass'', Some (fmt_d (store_pass c)))], s)"
  using assms
  by (simp add: chain_defs pragma_compatibility_def pragma_mem_security_def pragma_settings_def pragma_check_log_def
      sqlcipher_vdbe_return_string_def sqlcipher_codec_get_store_pass_def)

theorem store_pass_reported_unhandled_witness:
  "\<exists>rows s'. sqlcipher_codec_pragma demo_pragma_env demo_pstate (str ''cipher_store_pass'') (Some (str ''on'')) = Some (0, rows, s')
     \<and> pragma_ctx s' = Some (sqlcipher_codec_set_store_pass demo_ctx 1)"
proof -
  have c: "pragma_ctx demo_pstate = Some demo_ctx"
    by (simp add: demo_pstate_def pragma_ctx_def demo_codec_btree_def sqlcipherPagerGetCodec_def demo_btree_def)
  moreover have "sqlite3GetBoolean (str ''on'') 1" by code_simp
  ultimately show ?thesis using store_pass_reported_unhandled [OF c, of demo_pragma_env "str ''on''"] by simp
qed

end
