(* ===== verification/Varint.thy ===== *)
theory Varint
  imports Bytes4
begin

text \<open>
  The variable-length integers of the SQLite file format, from \<open>util.c\<close>
  (\<open>putVarint64\<close>, \<open>sqlite3PutVarint\<close>, \<open>sqlite3GetVarint\<close>, \<open>sqlite3GetVarint32\<close>,
  \<open>sqlite3VarintLen\<close>).

  A writer returns the bytes it stores at \<open>p[0], p[1], ...\<close>; the count the C function returns is
  their number.  A reader takes the bytes from \<open>p\<close> to the end of the buffer and yields \<open>None\<close>
  when it would read past that end.
\<close>

section \<open>Writing a varint\<close>

text \<open>\<open>for(i=7; i>=0; i--) { p[i] = (u8)((v & 0x7f) | 0x80); v >>= 7; }\<close> for the \<open>k\<close> first bytes.\<close>

fun varint_nine :: "nat \<Rightarrow> u64 \<Rightarrow> byte list" where
  "varint_nine 0 v = []"
| "varint_nine (Suc k) v = varint_nine k (drop_bit 7 v) @ [ucast (v AND 0x7f) OR 0x80]"

lemma drop_bit_7_less: "drop_bit 7 (v :: u64) \<noteq> 0 \<Longrightarrow> unat (drop_bit 7 v) < unat v"
  by (cases "v = 0") (auto simp: drop_bit_eq_div unat_div unat_gt_0)

text \<open>\<open>do { buf[n++] = (u8)((v & 0x7f) | 0x80); v >>= 7; } while( v!=0 )\<close>\<close>

function varint_buf :: "u64 \<Rightarrow> byte list" where
  "varint_buf v =
     (ucast (v AND 0x7f) OR 0x80) #
       (if drop_bit 7 v \<noteq> 0 then varint_buf (drop_bit 7 v) else [])"
  by pat_completeness auto
termination
  by (relation "measure unat") (use drop_bit_7_less in auto)

declare varint_buf.simps [simp del]

definition putVarint64 :: "u64 \<Rightarrow> byte list" where
  "putVarint64 v =
     (if v AND push_bit 32 0xff000000 \<noteq> 0
      then varint_nine 8 (drop_bit 8 v) @ [ucast v]
      else let buf = varint_buf v in rev ((hd buf AND 0x7f) # tl buf))"

definition sqlite3PutVarint :: "u64 \<Rightarrow> byte list" where
  "sqlite3PutVarint v =
     (if v \<le> 0x7f then [ucast (v AND 0x7f)]
      else if v \<le> 0x3fff then [ucast (drop_bit 7 v AND 0x7f) OR 0x80, ucast (v AND 0x7f)]
      else putVarint64 v)"

section \<open>Reading a varint\<close>

definition SLOT_2_0 :: u32 where "SLOT_2_0 = 0x001fc07f"
definition SLOT_4_2_0 :: u32 where "SLOT_4_2_0 = 0xf01fc07f"

text \<open>\<open>*v = ((u64)s)<<32 | a\<close>\<close>

definition varint_join :: "u32 \<Rightarrow> u32 \<Rightarrow> u64" where
  "varint_join s a = push_bit 32 (ucast s) OR ucast a"

text \<open>
  \<open>sqlite3GetVarint\<close> from the sixth byte on: \<open>a\<close>, \<open>b\<close> and \<open>s\<close> are the three 32-bit
  accumulators after the statement \<open>s |= b\<close> that follows the five-byte case.
\<close>

definition GetVarint_tail :: "byte list \<Rightarrow> u32 \<Rightarrow> u32 \<Rightarrow> u32 \<Rightarrow> (nat \<times> u64) option" where
  "GetVarint_tail p a b s = do {
     p5 \<leftarrow> nth_opt p 5;
     let b = push_bit 14 b OR ucast p5;
     if b AND 0x80 = 0 then
       let a = a AND SLOT_2_0; a = push_bit 7 a; a = a OR b; s = drop_bit 18 s
       in Some (6, varint_join s a)
     else do {
       p6 \<leftarrow> nth_opt p 6;
       let a = push_bit 14 a OR ucast p6;
       if a AND 0x80 = 0 then
         let a = a AND SLOT_4_2_0; b = b AND SLOT_2_0; b = push_bit 7 b; a = a OR b; s = drop_bit 11 s
         in Some (7, varint_join s a)
       else do {
         let a = a AND SLOT_2_0;
         p7 \<leftarrow> nth_opt p 7;
         let b = push_bit 14 b OR ucast p7;
         if b AND 0x80 = 0 then
           let b = b AND SLOT_4_2_0; a = push_bit 7 a; a = a OR b; s = drop_bit 4 s
           in Some (8, varint_join s a)
         else do {
           p8 \<leftarrow> nth_opt p 8;
           p4 \<leftarrow> nth_opt p 4;
           let a = push_bit 15 a OR ucast p8;
           let b = b AND SLOT_2_0;
           let b = push_bit 8 b;
           let a = a OR b;
           let s = push_bit 4 s;
           let b = drop_bit 3 (ucast p4 AND 0x7f);
           let s = s OR b;
           Some (9, varint_join s a)
         }
       }
     }
   }"

definition sqlite3GetVarint :: "byte list \<Rightarrow> (nat \<times> u64) option" where
  "sqlite3GetVarint p = do {
     p0 \<leftarrow> nth_opt p 0;
     if p0 < 0x80 then Some (1, ucast p0)
     else do {
       p1 \<leftarrow> nth_opt p 1;
       if p1 < 0x80 then Some (2, ucast ((push_bit 7 (ucast (p0 AND 0x7f)) OR ucast p1) :: u32))
       else do {
         p2 \<leftarrow> nth_opt p 2;
         let a = push_bit 14 (ucast p0 :: u32) OR ucast p2;
         let b = (ucast p1 :: u32);
         if a AND 0x80 = 0 then
           let a = a AND SLOT_2_0; b = b AND 0x7f; b = push_bit 7 b; a = a OR b
           in Some (3, ucast a)
         else do {
           let a = a AND SLOT_2_0;
           p3 \<leftarrow> nth_opt p 3;
           let b = push_bit 14 b OR ucast p3;
           if b AND 0x80 = 0 then
             let b = b AND SLOT_2_0; a = push_bit 7 a; a = a OR b
             in Some (4, ucast a)
           else do {
             let b = b AND SLOT_2_0;
             let s = a;
             p4 \<leftarrow> nth_opt p 4;
             let a = push_bit 14 a OR ucast p4;
             if a AND 0x80 = 0 then
               let b = push_bit 7 b; a = a OR b; s = drop_bit 18 s
               in Some (5, varint_join s a)
             else
               let s = push_bit 7 s; s = s OR b
               in GetVarint_tail p a b s
           }
         }
       }
     }
   }"

text \<open>
  \<open>sqlite3GetVarint32\<close> and the macro \<open>getVarint32\<close> around it, which handles one byte itself.
\<close>

definition sqlite3GetVarint32 :: "byte list \<Rightarrow> (nat \<times> u32) option" where
  "sqlite3GetVarint32 p = do {
     p0 \<leftarrow> nth_opt p 0;
     p1 \<leftarrow> nth_opt p 1;
     if p1 AND 0x80 = 0 then Some (2, push_bit 7 (ucast (p0 AND 0x7f)) OR ucast p1)
     else do {
       p2 \<leftarrow> nth_opt p 2;
       if p2 AND 0x80 = 0
       then Some (3, push_bit 14 (ucast (p0 AND 0x7f)) OR push_bit 7 (ucast (p1 AND 0x7f)) OR ucast p2)
       else do {
         (n, v64) \<leftarrow> sqlite3GetVarint p;
         Some (n, if v64 AND 0xffffffff \<noteq> v64 then 0xffffffff else ucast v64)
       }
     }
   }"

definition getVarint32 :: "byte list \<Rightarrow> (nat \<times> u32) option" where
  "getVarint32 p = do {
     p0 \<leftarrow> nth_opt p 0;
     if p0 < 0x80 then Some (1, ucast p0) else sqlite3GetVarint32 p
   }"

text \<open>\<open>for(i=1; (v >>= 7)!=0; i++)\<close>\<close>

function VarintLen_loop :: "nat \<Rightarrow> u64 \<Rightarrow> nat" where
  "VarintLen_loop i v = (if drop_bit 7 v \<noteq> 0 then VarintLen_loop (Suc i) (drop_bit 7 v) else i)"
  by pat_completeness auto
termination
  by (relation "measure (\<lambda>(i, v). unat v)") (use drop_bit_7_less in auto)

declare VarintLen_loop.simps [simp del]

definition sqlite3VarintLen :: "u64 \<Rightarrow> nat" where
  "sqlite3VarintLen v = VarintLen_loop 1 v"

section \<open>Reference decoder\<close>

text \<open>
  The encoding as the comment above \<open>putVarint64\<close> describes it: seven bits a byte, most significant
  group first, the high bit set on every byte but the last; a ninth byte holds eight bits.
\<close>

fun varint_ref :: "nat \<Rightarrow> u64 \<Rightarrow> byte list \<Rightarrow> (nat \<times> u64) option" where
  "varint_ref k acc [] = None"
| "varint_ref k acc (b # bs) =
     (if k = 8 then Some (9, push_bit 8 acc OR ucast b)
      else if \<not> bit b 7 then Some (Suc k, push_bit 7 acc OR ucast b)
      else varint_ref (Suc k) (push_bit 7 acc OR ucast (b AND 0x7f)) bs)"

section \<open>Bits of bytes and words\<close>


lemma word64_eq_by_bits:
  "list_all (\<lambda>n. bit a n = bit b n) [0,1,2,3,4,5,6,7,8,9,10,11,12,13,14,15,16,17,18,19,20,21,22,23,24,25,26,27,28,29,30,31,32,33,34,35,36,37,38,39,40,41,42,43,44,45,46,47,48,49,50,51,52,53,54,55,56,57,58,59,60,61,62,63] \<Longrightarrow> a = (b :: u64)"
proof -
  have l: "[0,1,2,3,4,5,6,7,8,9,10,11,12,13,14,15,16,17,18,19,20,21,22,23,24,25,26,27,28,29,30,31,32,33,34,35,36,37,38,39,40,41,42,43,44,45,46,47,48,49,50,51,52,53,54,55,56,57,58,59,60,61,62,63] = [0..<64::nat]" by (simp add: upt_rec)
  show "list_all (\<lambda>n. bit a n = bit b n) [0,1,2,3,4,5,6,7,8,9,10,11,12,13,14,15,16,17,18,19,20,21,22,23,24,25,26,27,28,29,30,31,32,33,34,35,36,37,38,39,40,41,42,43,44,45,46,47,48,49,50,51,52,53,54,55,56,57,58,59,60,61,62,63] \<Longrightarrow> a = (b :: u64)"
    unfolding l by (rule bit_word_eqI) (simp add: list_all_iff)
qed
lemma byte_bit_bound: "8 \<le> n \<Longrightarrow> \<not> bit (b::byte) n"
  using bit_imp_le_length [of b n] by auto
lemma byte_high_bit: "(b :: byte) < 0x80 \<longleftrightarrow> \<not> bit b 7"
proof -
  have "bit b 7 \<longleftrightarrow> bit (unat b) 7" by (simp add: bit_unsigned_iff)
  also have "\<dots> \<longleftrightarrow> odd (unat b div 128)" by (simp add: bit_iff_odd)
  also have "unat b div 128 = (if 128 \<le> unat b then 1 else 0)"
    using unat_byte_less [of b] by (auto intro: div_nat_eqI)
  finally show ?thesis by (simp add: word_less_nat_alt not_le split: if_splits)
qed

lemma and_0x80_eq_0: "(w :: 'a::len word) AND 0x80 = 0 \<longleftrightarrow> \<not> bit w 7"
  using and_exp_eq_0_iff_not_bit [of w 7] by simp


section \<open>The unrolled reader\<close>

lemmas varint_bits = SLOT_2_0_def SLOT_4_2_0_def varint_join_def bit_simps byte_bit_bound

lemma GetVarint_tail_eq:
  fixes p0 p1 p2 p3 p4 :: byte
  assumes a: "a = push_bit 14 ((push_bit 14 (ucast p0) OR ucast p2) AND SLOT_2_0) OR ucast p4"
    and b: "b = (push_bit 14 (ucast p1) OR ucast p3) AND SLOT_2_0"
    and s: "s = push_bit 7 ((push_bit 14 (ucast p0) OR ucast p2) AND SLOT_2_0) OR b"
    and acc: "acc = push_bit 7 (push_bit 7 (push_bit 7 (push_bit 7 (ucast (p0 AND 0x7f))
        OR ucast (p1 AND 0x7f)) OR ucast (p2 AND 0x7f)) OR ucast (p3 AND 0x7f)) OR ucast (p4 AND 0x7f)"
  shows "GetVarint_tail (p0 # p1 # p2 # p3 # p4 # q) a b s = varint_ref 5 acc q"
proof -
  note simps = GetVarint_tail_def nth_opt_simps and_0x80_eq_0 Let_def
  consider "q = []" | p5 where "q = [p5]" | p5 p6 where "q = [p5, p6]" | p5 p6 p7 where "q = [p5, p6, p7]"
    | p5 p6 p7 p8 r where "q = p5 # p6 # p7 # p8 # r"
    by (metis list.exhaust)
  then show ?thesis
  proof cases
    case 1
    then show ?thesis by (simp add: simps)
  next
    case (2 p5)
    show ?thesis unfolding 2 a b s acc
      by (simp add: simps, simp add: bit_simps byte_bit_bound)
        (intro conjI impI word64_eq_by_bits; simp add: varint_bits)
  next
    case (3 p5 p6)
    show ?thesis unfolding 3 a b s acc
      by (simp add: simps, simp add: bit_simps byte_bit_bound)
        (intro conjI impI word64_eq_by_bits; simp add: varint_bits)
  next
    case (4 p5 p6 p7)
    show ?thesis unfolding 4 a b s acc
      by (simp add: simps, simp add: bit_simps byte_bit_bound)
        (intro conjI impI word64_eq_by_bits; simp add: varint_bits)
  next
    case (5 p5 p6 p7 p8 r)
    show ?thesis unfolding 5 a b s acc
      by (simp add: simps, simp add: bit_simps byte_bit_bound)
        (intro conjI impI word64_eq_by_bits; simp add: varint_bits)
  qed
qed

lemma GetVarint_long_eq:
  fixes p0 p1 p2 p3 p4 :: byte
  assumes "bit p0 7" "bit p1 7" "bit p2 7" "bit p3 7" "bit p4 7"
  shows "sqlite3GetVarint (p0 # p1 # p2 # p3 # p4 # q) = varint_ref 0 0 (p0 # p1 # p2 # p3 # p4 # q)"
proof -
  note less = push_bit_and push_bit_or push_bit_push_bit
  let ?A = "(push_bit 14 (ucast p0) OR ucast p2) AND SLOT_2_0"
  have "sqlite3GetVarint (p0 # p1 # p2 # p3 # p4 # q)
        = GetVarint_tail (p0 # p1 # p2 # p3 # p4 # q) (push_bit 14 ?A OR ucast p4)
            ((push_bit 14 (ucast p1) OR ucast p3) AND SLOT_2_0)
            (push_bit 7 ?A OR ((push_bit 14 (ucast p1) OR ucast p3) AND SLOT_2_0))"
    using assms
    by (simp add: sqlite3GetVarint_def nth_opt_simps and_0x80_eq_0 byte_high_bit Let_def bit_simps
        byte_bit_bound del: less)
  also have "\<dots> = varint_ref 0 0 (p0 # p1 # p2 # p3 # p4 # q)"
    unfolding GetVarint_tail_eq [OF refl refl refl refl] using assms
    by (simp add: eval_nat_numeral del: less)
  finally show ?thesis .
qed

lemma GetVarint_eq: "sqlite3GetVarint p = varint_ref 0 0 p"
proof -
  note simps = sqlite3GetVarint_def nth_opt_simps and_0x80_eq_0 byte_high_bit Let_def
  consider "p = []" | p0 where "p = [p0]" | p0 p1 where "p = [p0, p1]" | p0 p1 p2 where "p = [p0, p1, p2]"
    | p0 p1 p2 p3 where "p = [p0, p1, p2, p3]" | p0 p1 p2 p3 p4 r where "p = p0 # p1 # p2 # p3 # p4 # r"
    by (metis list.exhaust)
  then show ?thesis
  proof cases
    case 1
    then show ?thesis by (simp add: simps)
  next
    case (2 p0)
    then show ?thesis by (simp add: simps)
  next
    case (3 p0 p1)
    show ?thesis unfolding 3
      by (simp add: simps) (intro conjI impI word64_eq_by_bits; simp add: varint_bits)
  next
    case (4 p0 p1 p2)
    show ?thesis unfolding 4
      by (simp add: simps, simp add: bit_simps byte_bit_bound)
        (intro conjI impI word64_eq_by_bits; simp add: varint_bits)
  next
    case (5 p0 p1 p2 p3)
    show ?thesis unfolding 5
      by (simp add: simps, simp add: bit_simps byte_bit_bound)
        (intro conjI impI word64_eq_by_bits; simp add: varint_bits)
  next
    case (6 p0 p1 p2 p3 p4 r)
    show ?thesis
    proof (cases "bit p0 7 \<and> bit p1 7 \<and> bit p2 7 \<and> bit p3 7 \<and> bit p4 7")
      case True
      then show ?thesis using GetVarint_long_eq [of p0 p1 p2 p3 p4 r] by (simp add: 6)
    next
      case False
      then have "bit p0 7 \<Longrightarrow> bit p1 7 \<Longrightarrow> bit p2 7 \<Longrightarrow> bit p3 7 \<Longrightarrow> \<not> bit p4 7" by blast
      then show ?thesis unfolding 6
        by (simp add: simps, simp add: bit_simps byte_bit_bound)
          (intro conjI impI word64_eq_by_bits; simp add: varint_bits)
    qed
  qed
qed

section \<open>Round trip\<close>

lemma and_0x7f: "w AND 0x7f = take_bit 7 (w :: 'a::len word)"
  by (simp add: take_bit_eq_mask mask_eq_exp_minus_1)

lemma or_0x80: "w OR 0x80 = set_bit 7 (w :: 'a::len word)"
  by (simp add: set_bit_eq_or push_bit_eq_mult)

lemma varint_ref_continue:
  "k + length bs \<le> 8 \<Longrightarrow> \<forall>b \<in> set bs. bit b 7 \<Longrightarrow>
     varint_ref k acc (bs @ rest)
       = varint_ref (k + length bs) (foldl (\<lambda>a b. push_bit 7 a OR ucast (b AND 0x7f)) acc bs) rest"
  by (induction bs arbitrary: k acc) auto

lemma varint_nine_props:
  "length (varint_nine k v) = k" "\<forall>b \<in> set (varint_nine k v). bit b 7"
  by (induction k arbitrary: v) (auto simp: or_0x80 bit_simps)

lemma varint_digit: "push_bit 7 (drop_bit 7 v) OR ucast ((ucast (v AND 0x7f) OR 0x80 :: byte) AND 0x7f) = (v :: u64)"
proof (rule bit_word_eqI)
  fix n
  assume "n < LENGTH(64)"
  then show "bit (push_bit 7 (drop_bit 7 v) OR ucast ((ucast (v AND 0x7f) OR 0x80 :: byte) AND 0x7f)) n = bit v n"
    by (cases "n < 7") (auto simp: and_0x7f or_0x80 bit_simps not_less)
qed

lemma varint_nine_value:
  "foldl (\<lambda>a b. push_bit 7 a OR ucast (b AND 0x7f)) (drop_bit (7 * k) v) (varint_nine k v) = v"
proof (induction k arbitrary: v)
  case (Suc k)
  show ?case using Suc.IH [of "drop_bit 7 v"]
    by (simp add: drop_bit_drop_bit algebra_simps varint_digit)
qed simp

lemma varint_buf_ne [simp]: "varint_buf v \<noteq> []" "0 < length (varint_buf v)"
  by (subst varint_buf.simps, simp)+

lemma varint_buf_high: "\<forall>b \<in> set (varint_buf v). bit b 7"
  by (induction v rule: varint_buf.induct) (subst varint_buf.simps, auto simp: or_0x80 bit_simps)

lemma varint_buf_value: 
  "foldl (\<lambda>a b. push_bit 7 a OR ucast (b AND 0x7f)) 0 (rev (varint_buf v)) = v"
proof (induction v rule: varint_buf.induct)
  case (1 v)
  have "foldl (\<lambda>a b. push_bit 7 a OR ucast (b AND 0x7f)) 0 (rev (if drop_bit 7 v \<noteq> 0 then varint_buf (drop_bit 7 v) else [])) = drop_bit 7 v"
    using 1 by simp
  then show ?case by (subst varint_buf.simps) (simp add: varint_digit)
qed

lemma varint_buf_length: "n * 7 \<le> 63 \<Longrightarrow> drop_bit (7 * n) v = 0 \<Longrightarrow> 0 < n \<Longrightarrow> length (varint_buf v) \<le> n"
proof (induction n arbitrary: v)
  case (Suc n)
  show ?case
  proof (cases "drop_bit 7 v = 0")
    case True then show ?thesis by (subst varint_buf.simps) simp
  next
    case False
    then have "n \<noteq> 0" using Suc.prems by (cases n) auto
    moreover have "drop_bit (7 * n) (drop_bit 7 v) = 0" using Suc.prems by (simp add: drop_bit_drop_bit add.commute)
    ultimately have "length (varint_buf (drop_bit 7 v)) \<le> n" using Suc by simp
    then show ?thesis by (subst varint_buf.simps) simp
  qed
qed simp


lemma drop_bit_eq_0_iff: "drop_bit n (v :: u64) = 0 \<longleftrightarrow> unat v < 2 ^ n"
proof -
  have "drop_bit n v = 0 \<longleftrightarrow> unat (drop_bit n v) = 0" by (simp add: unat_eq_0)
  also have "unat (drop_bit n v) = unat v div 2 ^ n" by (simp only: unat_drop_bit_eq) (simp add: drop_bit_eq_div)
  also have "\<dots> = 0 \<longleftrightarrow> unat v < 2 ^ n" by (simp add: div_eq_0_iff)
  finally show ?thesis .
qed

lemma top_byte_eq_0: "(v :: u64) AND push_bit 32 0xff000000 = 0 \<longleftrightarrow> drop_bit 56 v = 0"
proof -
  have p: "push_bit 32 0xff000000 = (push_bit 56 (mask 8) :: u64)"
    by (simp add: push_bit_eq_mult mask_eq_exp_minus_1)
  have "v AND push_bit 32 0xff000000 = push_bit 56 (drop_bit 56 v)"
    unfolding p by (rule bit_word_eqI) (auto simp: bit_simps)
  moreover have "push_bit 56 (drop_bit 56 v) = 0 \<longleftrightarrow> drop_bit 56 v = 0"
  proof
    assume "push_bit 56 (drop_bit 56 v) = 0"
    then have "\<not> bit (push_bit 56 (drop_bit 56 v)) (n + 56)" for n by simp
    then have "\<not> bit v (56 + n)" if "n < 8" for n using that by (simp add: bit_simps add.commute)
    then show "drop_bit 56 v = 0"
      by (intro bit_word_eqI) (use bit_imp_le_length [of v] in \<open>fastforce simp: bit_simps\<close>)
  qed simp
  ultimately show ?thesis by simp
qed

lemma varint_buf_less:
  "drop_bit 7 v = 0 \<Longrightarrow> varint_buf v = [ucast (v AND 0x7f) OR 0x80]"
  "drop_bit 7 v \<noteq> 0 \<Longrightarrow> varint_buf v = (ucast (v AND 0x7f) OR 0x80) # varint_buf (drop_bit 7 v)"
  by (subst varint_buf.simps, simp)+

lemma byte_clear_high: "((ucast (v AND 0x7f :: u64) OR 0x80) AND 0x7f :: byte) = ucast (v AND 0x7f)"
  by (rule bit_word_eqI) (auto simp: and_0x7f or_0x80 bit_simps)

lemma sqlite3PutVarint_eq:
  "sqlite3PutVarint v =
     (if drop_bit 56 v \<noteq> 0 then varint_nine 8 (drop_bit 8 v) @ [ucast v]
      else rev (tl (varint_buf v)) @ [hd (varint_buf v) AND 0x7f])"
proof -
  have s: "unat v < 2 ^ n \<Longrightarrow> n \<le> 56 \<Longrightarrow> drop_bit 56 v = 0" for n
    using power_increasing [of n 56 "2 :: nat"] by (simp add: drop_bit_eq_0_iff)
  consider "v \<le> 0x7f" | "\<not> v \<le> 0x7f" "v \<le> 0x3fff" | "\<not> v \<le> 0x7f" "\<not> v \<le> 0x3fff" by blast
  then show ?thesis
  proof cases
    case 1
    then have "unat v < 2 ^ 7" by (simp add: word_le_nat_alt)
    with s [of 7] 1 show ?thesis
      by (simp add: sqlite3PutVarint_def varint_buf_less drop_bit_eq_0_iff byte_clear_high)
  next
    case 2
    then have "unat v < 2 ^ 14" "\<not> unat v < 2 ^ 7" by (simp_all add: word_le_nat_alt)
    then have "drop_bit 7 v \<noteq> 0" "drop_bit 7 (drop_bit 7 v) = 0" "drop_bit 56 v = 0"
      using s [of 14] by (simp_all add: drop_bit_drop_bit drop_bit_eq_0_iff)
    with 2 show ?thesis by (simp add: sqlite3PutVarint_def varint_buf_less byte_clear_high)
  next
    case 3
    then show ?thesis using top_byte_eq_0 [of v] by (simp add: sqlite3PutVarint_def putVarint64_def Let_def)
  qed
qed

lemma varint_ref_roundtrip:
  "varint_ref 0 0 (sqlite3PutVarint v @ rest) = Some (length (sqlite3PutVarint v), v)"
proof (cases "drop_bit 56 v = 0")
  case False
  have "foldl (\<lambda>a b. push_bit 7 a OR ucast (b AND 0x7f)) 0 (varint_nine 8 (drop_bit 8 v)) = drop_bit 8 v"
    using varint_nine_value [of 8 "drop_bit 8 v"] by (simp add: drop_bit_drop_bit drop_bit_eq_0_iff)
  moreover have "push_bit 8 (drop_bit 8 v) OR ucast (ucast v :: byte) = v"
  proof (rule bit_word_eqI)
    fix n
    assume "n < LENGTH(64)"
    then show "bit (push_bit 8 (drop_bit 8 v) OR ucast (ucast v :: byte)) n = bit v n"
      by (cases "n < 8") (auto simp: bit_simps not_less)
  qed
  ultimately show ?thesis using False
    by (simp add: sqlite3PutVarint_eq varint_ref_continue varint_nine_props)
next
  case True
  obtain b bs where buf: "varint_buf v = b # bs" by (subst (asm) varint_buf.simps) blast
  have len: "length bs \<le> 7" using varint_buf_length [of 8 v] True buf by simp
  have hi: "bit b 7" "\<forall>x \<in> set bs. bit x 7" using varint_buf_high [of v] buf by auto
  have val: "push_bit 7 (foldl (\<lambda>a b. push_bit 7 a OR ucast (b AND 0x7f)) 0 (rev bs)) OR ucast (b AND 0x7f) = v"
    using varint_buf_value [of v] buf by simp
  have nb: "\<not> bit (b AND 0x7f) 7" by (simp add: and_0x7f bit_simps)
  have "varint_ref 0 0 (rev bs @ (b AND 0x7f) # rest) = Some (Suc (length bs), v)"
    using len hi(2) nb val by (subst varint_ref_continue) simp_all
  then show ?thesis using True buf by (simp add: sqlite3PutVarint_eq)
qed

lemma VarintLen_loop_eq: "VarintLen_loop i v = i + length (tl (varint_buf v))"
proof (induction i v rule: VarintLen_loop.induct)
  case (1 i v)
  then show ?case
    by (cases "drop_bit 7 v = 0")
      (simp_all add: VarintLen_loop.simps [of i v] varint_buf_less Suc_diff_Suc [symmetric])
qed

lemma length_varint_buf: "0 < n \<Longrightarrow> length (varint_buf v) \<le> n \<longleftrightarrow> unat v < 2 ^ (7 * n)"
proof (induction n arbitrary: v)
  case (Suc n)
  have "(length (varint_buf v) \<le> Suc n) = (drop_bit (7 * Suc n) v = 0)"
  proof (cases "drop_bit 7 v = 0")
    case True
    then have "drop_bit (7 * Suc n) v = drop_bit (7 * n) 0" by (metis drop_bit_drop_bit mult_Suc_right add.commute)
    with True show ?thesis by (simp add: varint_buf_less)
  next
    case False
    show ?thesis
    proof (cases "n = 0")
      case True
      with False show ?thesis by (simp add: varint_buf_less)
    next
      case nz: False
      have "drop_bit (7 * n) (drop_bit 7 v) = drop_bit (7 * Suc n) v" by (simp add: drop_bit_drop_bit add.commute)
      with False nz Suc.IH [of "drop_bit 7 v"] show ?thesis
        by (simp add: varint_buf_less drop_bit_eq_0_iff [symmetric])
    qed
  qed
  then show ?case by (simp add: drop_bit_eq_0_iff)
qed simp

lemma sqlite3VarintLen_eq: "sqlite3VarintLen v = length (varint_buf v)"
  using varint_buf_ne [of v] by (cases "varint_buf v") (simp_all add: sqlite3VarintLen_def VarintLen_loop_eq)

section \<open>Properties\<close>

interpretation varint: byte_codec sqlite3PutVarint sqlite3GetVarint
  by unfold_locales (simp add: GetVarint_eq varint_ref_roundtrip)

text \<open>
  C11.  The unrolled reader \<open>sqlite3GetVarint\<close>, with its three 32-bit accumulators and masks,
  computes on every input, truncated ones included, what the format's byte-by-byte definition does:
  the same number of bytes consumed and the same 64-bit value, or running off the buffer.
\<close>

theorem sqlite3GetVarint_equiv: "sqlite3GetVarint p = varint_ref 0 0 p"
  by (rule GetVarint_eq)

text \<open>
  C12.  Varint round trip: whatever follows in the buffer, \<open>sqlite3GetVarint\<close> reads back the value
  \<open>sqlite3PutVarint\<close> wrote and consumes exactly the bytes written, between one and nine; and any
  sequence of values written back to back is read back in order.
\<close>

theorem varint_roundtrip:
  "sqlite3GetVarint (sqlite3PutVarint v @ rest) = Some (length (sqlite3PutVarint v), v) \<and>
   length (sqlite3PutVarint v) \<in> {1..9} \<and>
   decode_seq sqlite3GetVarint (length vs) (concat (map sqlite3PutVarint vs) @ rest) = Some (vs, rest)"
proof -
  have "length (sqlite3PutVarint v) \<in> {1..9}"
  proof (cases "drop_bit 56 v = 0")
    case True
    then have "length (varint_buf v) \<le> 8" using length_varint_buf [of 8 v] by (simp add: drop_bit_eq_0_iff)
    with True show ?thesis by (simp add: sqlite3PutVarint_eq Suc_le_eq)
  qed (simp add: sqlite3PutVarint_eq varint_nine_props)
  then show ?thesis by (simp add: varint.dec_enc varint.decode_seq_enc)
qed

text \<open>
  \<open>sqlite3VarintLen\<close> returns the number of bytes \<open>sqlite3PutVarint\<close> writes for every value
  below \<open>2^63\<close>; for a value of \<open>2^63\<close> or more (a negative rowid) it returns 10, while
  \<open>sqlite3PutVarint\<close> never writes more than nine.
\<close>

theorem sqlite3VarintLen_correct:
  "sqlite3VarintLen v = (if v < 0x8000000000000000 then length (sqlite3PutVarint v) else 10)"
proof -
  have b: "v < 0x8000000000000000 \<longleftrightarrow> unat v < 2 ^ 63"  by (simp add: word_less_nat_alt)
  have ub: "unat v < 2 ^ 64" using unsigned_less [of v] by simp
  consider "unat v < 2 ^ 56" | "\<not> unat v < 2 ^ 56" "unat v < 2 ^ 63" | "\<not> unat v < 2 ^ 63" by blast
  then show ?thesis
  proof cases
    case 1
    then have "unat v < 2 ^ 63" by simp
    with 1 show ?thesis
      by (simp add: sqlite3VarintLen_eq sqlite3PutVarint_eq drop_bit_eq_0_iff b)
  next
    case 2
    have "length (varint_buf v) = 9" 
      using length_varint_buf [of 8 v] length_varint_buf [of 9 v] 2 by simp
    with 2 show ?thesis
      by (simp add: sqlite3VarintLen_eq sqlite3PutVarint_eq drop_bit_eq_0_iff b varint_nine_props)
  next
    case 3
    have "length (varint_buf v) = 10" 
      using length_varint_buf [of 9 v] length_varint_buf [of 10 v] 3 ub by simp
    with 3 show ?thesis
      by (simp add: sqlite3VarintLen_eq b)
  qed
qed

lemma u32_fits: "(ucast (w :: u32) :: u64) \<le> 0xffffffff" "ucast (ucast w :: u64) = w"
proof -
  have "unat w < 2 ^ LENGTH(32)" by (rule unsigned_less)
  then show "(ucast w :: u64) \<le> 0xffffffff" by (simp add: word_le_nat_alt unat_ucast_up)
  show "ucast (ucast w :: u64) = w" by (rule bit_word_eqI) (simp add: bit_simps)
qed

lemma u32_mask_iff: "(v :: u64) AND 0xffffffff = v \<longleftrightarrow> v \<le> 0xffffffff"
proof -
  have "(0xffffffff :: u64) = mask 32" by (simp add: mask_eq_exp_minus_1)
  then have "v AND 0xffffffff = v \<longleftrightarrow> take_bit 32 v = v" by (simp only: take_bit_eq_mask)
  also have "\<dots> \<longleftrightarrow> unat v < 2 ^ 32"
    by (simp add: take_bit_eq_self_iff_drop_bit_eq_0 drop_bit_eq_0_iff)
  also have "\<dots> \<longleftrightarrow> unat v \<le> 4294967295" by auto
  also have "\<dots> \<longleftrightarrow> v \<le> 0xffffffff" by (auto simp: word_le_nat_alt)
  finally show ?thesis .
qed

lemma varint_two_three:
  fixes p0 p1 p2 :: byte
  shows "push_bit 7 (ucast (p0 AND 0x7f)) OR ucast p1
           = (ucast (push_bit 7 (ucast (p0 AND 0x7f)) OR ucast p1 :: u32) :: u64)"
    and "push_bit 7 (push_bit 7 (ucast (p0 AND 0x7f)) OR ucast (p1 AND 0x7f)) OR ucast p2
           = (ucast (push_bit 14 (ucast (p0 AND 0x7f)) OR push_bit 7 (ucast (p1 AND 0x7f))
                OR ucast p2 :: u32) :: u64)"
  by (rule word64_eq_by_bits; simp add: varint_bits)+

text \<open>
  Reading 32 bits: \<open>getVarint32\<close> consumes the same bytes as \<open>sqlite3GetVarint\<close> and returns
  the same value, clamped to \<open>0xffffffff\<close> when it does not fit.
\<close>

theorem getVarint32_clamps:
  "getVarint32 p =
     map_option (\<lambda>(n, v). (n, if v \<le> 0xffffffff then ucast v else 0xffffffff)) (sqlite3GetVarint p)"
proof -
  have one: "(ucast (b :: byte) :: u64) \<le> 0xffffffff" "ucast (ucast b :: u64) = (ucast b :: u32)" for b
    by (simp add: word_le_nat_alt unat_ucast_up less_imp_le [OF less_le_trans [OF unat_byte_less]])
      (rule bit_word_eqI, auto simp: bit_simps)
  have clamp: "(v :: u64) \<le> 0xffffffff" "ucast v = w" if "v = ucast w" for v and w :: u32
    using that u32_fits by simp_all
  note simps = getVarint32_def sqlite3GetVarint32_def GetVarint_eq nth_opt_simps and_0x80_eq_0
    byte_high_bit one clamp [OF varint_two_three(1)] clamp [OF varint_two_three(2)]
  consider "p = []" | p0 where "p = [p0]" | p0 p1 where "p = [p0, p1]"
    | p0 p1 p2 r where "p = p0 # p1 # p2 # r"
    by (metis list.exhaust)
  then show ?thesis
    by cases (auto simp: simps u32_mask_iff simp del: push_bit_or push_bit_push_bit split: bind_splits)
qed

end
