(* ===== verification/Spec2Isabelle.thy ===== *)
theory Spec2Isabelle
  imports Bitvec_Test Rowset_Props Hash_Props Complete_Props Run_Parser_Props Memjournal_Props Wal_Checkpoint_Props Codec Codec_Props Api_Props Integrity Pragma_Settings Varint Text_Props Cipher_Util Bytes4
begin

text \<open>
  Verification of the encrypted database engine of SecureChat.

  The application keeps its messages in an SQLCipher database; the engine is the amalgamation
  \<open>flutter_securechat/ios/SQLCipher/Sources/CSQLCipher/sqlite3.c\<close>, which is the C code of the repository.  All line
  numbers and function names below are of that file.  The build modelled is the one of the iOS package:
  \<open>SQLITE_HAS_CODEC\<close>, \<open>NDEBUG\<close> (assertions are empty), a little-endian processor.

  \<^bold>\<open>The parts and how they meet.\<close>  The pager hands every page it reads or writes to the codec callback
  \<open>sqlite3Codec\<close>, which encrypts and authenticates it with the keys of a codec context; the context is created by
  \<open>sqlite3_key\<close>, changed by the codec pragmas, and used by the integrity check.  Encrypted pages reach the database
  file through the write-ahead log or the rollback journal, which can be kept in memory.  SQL text reaches the engine
  through the tokenizer and the loop that feeds the parser; the shell of the library asks \<open>sqlite3_complete\<close> whether a
  text is a whole statement.  Below lie the data structures these parts share: bitmaps of pages, row sets, hash tables,
  integer encodings and text helpers.

  \<^bold>\<open>Conventions.\<close>  A buffer is the list of its bytes, and access at a computed place goes through \<open>mem_read\<close> and
  \<open>mem_write\<close> (\<open>Prelude\<close>), which are \<open>None\<close> out of bounds: in every operation, \<open>None\<close> is behaviour that C leaves
  undefined, or a loop without end.  Result codes are integers.  A C string is the list of its bytes before the
  terminator.  C integers are words of their width where they can wrap, and natural numbers where the code keeps them
  small.  What an allocation returns is a parameter: a list of outcomes or a flag.  Calls of code outside of the
  repository (CommonCrypto, the generated parser, the file system, locks, shared memory) are parameters of the
  definitions; the hypotheses on them are \<open>commoncrypto_ok\<close> and \<open>provider_ok\<close> (sizes of results, decryption undoes
  encryption under one key and vector, random bytes of the length asked for), and \<open>Demo_Provider\<close> has an instance.

  \<^bold>\<open>Theories.\<close>
  \<^item> \<open>Prelude\<close>, \<open>Byte_Codec\<close>, \<open>Chunks\<close>, \<open>Refinement\<close>: shared vocabulary; the contract of a self-delimiting encoding; lists
    of equal chunks; the contract of an object that answers like an abstract specification.  The locales of the last
    two kinds are interpreted on the code of every component that has such a contract.
  \<^item> \<open>Bytes4\<close>, \<open>Varint\<close>: \<open>sqlite3Get4byte\<close>, \<open>sqlite3PutVarint\<close>, \<open>sqlite3GetVarint\<close> and \<open>sqlite3GetVarint32\<close> of \<open>util.c\<close>: the
    unrolled reader equals the definition of the format, and sequences are read back.
  \<^item> \<open>Util_Text\<close>, \<open>Text_Props\<close>, \<open>Format\<close>, \<open>Ctype\<close>: comparison without case, number parsing, dequoting, boolean words, \<open>%d\<close>, and
    the table of character classes.
  \<^item> \<open>Provider\<close>, \<open>Cipher_Util\<close>, \<open>Codec_Ctx\<close>, \<open>Codec_Wf\<close>, \<open>Codec_Props\<close>: the provider of \<open>crypto_cc.c\<close>; hexadecimal text, wiping
    and constant-time comparison; the contexts \<open>cipher_ctx\<close> and \<open>codec_ctx\<close> of \<open>crypto_impl.c\<close> with creation, settings,
    key derivation and keyspecs.  \<open>codec_ok\<close> is the invariant every operation keeps.
  \<^item> \<open>Page_Cipher\<close>, \<open>Codec\<close>: \<open>sqlcipher_page_cipher\<close>, \<open>sqlcipher_page_hmac\<close> and \<open>sqlite3Codec\<close>: round trip, memory safety,
    authenticity, no page under another page's number.
  \<^item> \<open>Btree_Config\<close>, \<open>Codec_Api\<close>, \<open>Api_Props\<close>: page size and reserve of B-tree and pager; attaching and freeing codecs,
    \<open>sqlite3_key_v2\<close> and \<open>sqlite3_rekey_v2\<close>; the activation count over all histories of a process.
  \<^item> \<open>Pragma\<close>, \<open>Pragma_Props\<close>, \<open>Pragma_Settings\<close>: \<open>sqlcipher_codec_pragma\<close>, branch by branch; \<open>Integrity\<close>:
    \<open>sqlcipher_codec_ctx_integrity_check\<close>.
  \<^item> \<open>Wal_Index\<close>, \<open>Wal_Index_Props\<close>: the index of the write-ahead log (\<open>wal.c\<close>), \<open>walIndexAppend\<close>, \<open>walCleanupHash\<close>,
    \<open>walFindFrame\<close>, rollback and savepoints.  The invariant \<open>wi_ok\<close> says that every page of the index holds the table
    that entering its frames one by one gives; an index is then the list of the page numbers of the frames.
  \<^item> \<open>Wal_Iterator\<close>, \<open>Wal_Iterator_Props\<close>: the merge sort and the iterator of a checkpoint.
  \<^item> \<open>Wal_Frames\<close>, \<open>Wal_Frames_Props\<close>: checksums, frames, and \<open>walIndexRecover\<close>: after a crash exactly the committed
    transactions are there.
  \<^item> \<open>Wal_Checkpoint\<close>, \<open>Wal_Checkpoint_Props\<close>: \<open>walCheckpoint\<close>, \<open>walRestartHdr\<close> and reading a page through the log: no view of
    the database changes, whatever fails during a checkpoint.
  \<^item> \<open>Memjournal\<close>, \<open>Memjournal_Props\<close>: the journal in memory (\<open>memjournal.c\<close>) as a string of bytes, and its move to a file.
  \<^item> \<open>Bitvec\<close>, \<open>Bitvec_Props\<close>, \<open>Bitvec_Test\<close>: \<open>bitvec.c\<close> with its built-in test; \<open>Rowset\<close>, \<open>Rowset_Props\<close>: \<open>rowset.c\<close>;
    \<open>Hash_Table\<close>, \<open>Hash_Props\<close>: \<open>hash.c\<close>.  Each refines sets or maps for every sequence of operations.
  \<^item> \<open>Complete\<close>, \<open>Complete_Props\<close>: \<open>sqlite3_complete\<close> decides a grammar of statements.  \<open>Keywords\<close>, \<open>Keyword_Tables\<close>,
    \<open>Keyword_Props\<close>: the perfect hash of the keywords is a search in their list.  \<open>Tokenize\<close>, \<open>Tokenize_Props\<close>,
    \<open>Run_Parser\<close>, \<open>Run_Parser_Props\<close>: \<open>sqlite3GetToken\<close> and \<open>sqlite3RunParser\<close> for any parser.

  \<^bold>\<open>Bounds and fuel.\<close>  Recursions that are not structural are \<open>function\<close>s with a measure, except these.
  \<open>set_at\<close> (\<open>sqlite3BitvecSet\<close>) has fuel for nine levels of bitvecs; \<open>bitvec_set_returns\<close> shows that it is enough for every
  size but the 61 largest, for which \<open>bitvec_set_diverges\<close> shows that no fuel is.  The chains of the keyword hash are
  followed with fuel 148, one more than there are keywords.  \<open>getToken\<close> has the length of the text plus one, the parser
  loop the length plus four: \<open>run_parser_terminates\<close>.  The sort of row sets has 40 buckets as the code has, that of the
  log's index 13.  The probes of the log's index count their collisions as the code does (8192 in a look-up).

  \<^bold>\<open>Not modelled.\<close>  The pager's transactions and page cache, cursors and cells of the B-tree, the SQL compiler and the
  virtual machine: far larger than what is here, and what the codec needs of them is a parameter.  Of the
  write-ahead log: how a reader chooses its read mark, the rewriting of a page that a transaction spilled twice, opening
  and closing.  Of \<open>rowset.c\<close> and \<open>memjournal.c\<close> the operations that only free; of
  \<open>complete.c\<close> the UTF-16 wrapper; of \<open>tokenize.c\<close> the set-up and clean-up of the parse object.  Migration and export run
  SQL.  Logging writes text.  The other languages of the repository are outside of this development.
\<close>

end
